(* ===== verification/Prelude.thy ===== *)
theory Prelude imports Main "HOL-Library.Word" begin

text \<open>
  Shared vocabulary of the development: the machine integer types of the C code, the results
  of C functions that can fail, and the layout of machine words in memory. Every later theory
  imports this one.
\<close>

unbundle bit_operations_syntax

section \<open>Machine integers\<close>

type_synonym u8 = "8 word"
type_synonym u16 = "16 word"
type_synonym u32 = "32 word"
type_synonym u64 = "64 word"
type_synonym bytes = "u8 list"

section \<open>Results of C functions\<close>

text \<open>
  \<open>Ok v\<close> is a successful return, \<open>Fail rc\<close> a return with the (nonzero) error code \<open>rc\<close>; \<open>UB\<close> marks
  an execution whose behaviour the C language leaves undefined (a read outside an object, a shift
  by the width of the type or more): nothing is claimed about what happens after it. \<open>Hang\<close> is a
  call that never returns.
\<close>

datatype 'a res = Ok 'a | Fail int | UB | Hang

fun bind_res :: "'a res \<Rightarrow> ('a \<Rightarrow> 'b res) \<Rightarrow> 'b res" where
  "bind_res (Ok v) f = f v"
| "bind_res (Fail e) f = Fail e"
| "bind_res UB f = UB"
| "bind_res Hang f = Hang"

lemma bind_res_Ok_iff: "bind_res r f = Ok w \<longleftrightarrow> (\<exists>v. r = Ok v \<and> f v = Ok w)"
  by (cases r) auto

fun is_ok :: "'a res \<Rightarrow> bool" where
  "is_ok (Ok _) = True"
| "is_ok _ = False"

lemma is_ok_iff: "is_ok r \<longleftrightarrow> (\<exists>v. r = Ok v)"
  by (cases r) auto

named_theorems image_simps \<open>bytes of memory images\<close>
named_theorems swap_simps \<open>byte swapping of memory images\<close>

section \<open>Words in memory\<close>

text \<open>
  \<open>le_word bs\<close> is the unsigned number whose bytes, least significant first, are \<open>bs\<close>;
  \<open>le_bytes n w\<close> are the \<open>n\<close> low bytes of \<open>w\<close>, least significant first.
\<close>

fun le_word :: "bytes \<Rightarrow> 'a::len word" where
  "le_word [] = 0"
| "le_word (b # bs) = ucast b OR push_bit 8 (le_word bs)"

fun le_bytes :: "nat \<Rightarrow> 'a::len word \<Rightarrow> bytes" where
  "le_bytes 0 w = []"
| "le_bytes (Suc n) w = ucast w # le_bytes n (drop_bit 8 w)"

lemma length_le_bytes [simp]: "length (le_bytes n w) = n"
  by (induction n arbitrary: w) auto

lemma bit_le_word:
  "bit (le_word bs :: 'a::len word) i \<longleftrightarrow>
     i < LENGTH('a) \<and> i < 8 * length bs \<and> bit (bs ! (i div 8)) (i mod 8)"
proof (induction bs arbitrary: i)
  case Nil
  then show ?case by simp
next
  case (Cons b bs)
  show ?case
  proof (cases "i < 8")
    case True
    then show ?thesis by (auto simp: bit_simps)
  next
    case False
    then obtain j where j: "i = j + 8"
      by (metis add.commute le_Suc_ex not_less)
    have "\<not> bit b i"
      using False bit_imp_le_length [of b i] by auto
    moreover have "(j + 8) div 8 = Suc (j div 8)" by simp
    ultimately show ?thesis
      using Cons.IH [of j] by (auto simp: j bit_simps)
  qed
qed

lemma bit_le_bytes:
  "k < n \<Longrightarrow> bit (le_bytes n (w :: 'a::len word) ! k) j \<longleftrightarrow> j < 8 \<and> bit w (8 * k + j)"
proof (induction n arbitrary: w k)
  case 0
  then show ?case by simp
next
  case (Suc n)
  show ?case
  proof (cases k)
    case 0
    then show ?thesis by (auto simp: bit_simps dest: bit_imp_le_length)
  next
    case (Suc m)
    with Suc.prems Suc.IH [of m "drop_bit 8 w"] show ?thesis
      by (simp add: bit_simps algebra_simps)
  qed
qed

lemma bit_byte_ge: "8 \<le> j \<Longrightarrow> \<not> bit (b :: u8) j"
  using bit_imp_le_length [of b j] by auto

lemma bytes_eqI:
  assumes "length xs = length ys"
    and "\<And>k j. k < length xs \<Longrightarrow> j < 8 \<Longrightarrow> bit (xs ! k :: u8) j = bit (ys ! k) j"
  shows "xs = ys"
proof (rule nth_equalityI [OF assms(1)])
  fix k assume "k < length xs"
  then show "xs ! k = ys ! k"
    using assms(2) [of k] by (intro bit_word_eqI) simp
qed

text \<open>The two layouts are inverse to each other as long as the bytes fit the word.\<close>

lemma le_bytes_le_word:
  "8 * length bs \<le> LENGTH('a) \<Longrightarrow> le_bytes (length bs) (le_word bs :: 'a::len word) = bs"
  by (rule bytes_eqI) (auto simp: bit_le_bytes bit_le_word)

lemma le_word_le_bytes:
  "LENGTH('a) \<le> 8 * n \<Longrightarrow> le_word (le_bytes n w) = (w :: 'a::len word)"
proof (rule bit_word_eqI)
  fix i assume "i < LENGTH('a)" and "LENGTH('a) \<le> 8 * n"
  then have "i < 8 * n" and "i div 8 < n" by auto
  then show "bit (le_word (le_bytes n w) :: 'a word) i = bit w i"
    using \<open>i < LENGTH('a)\<close> by (simp add: bit_le_word bit_le_bytes)
qed

section \<open>Host byte order\<close>

text \<open>
  The byte order of the machine the program runs on is the parameter \<open>lsb\<close> of the model, what
  \<open>iamlsb()\<close> of the C code finds out: \<open>host_word lsb bs\<close> is the value of an integer object
  whose storage holds \<open>bs\<close>, \<open>host_bytes lsb n w\<close> the storage of an \<open>n\<close>-byte integer object.
\<close>

definition host_word :: "bool \<Rightarrow> bytes \<Rightarrow> 'a::len word" where
  "host_word lsb bs = le_word (if lsb then bs else rev bs)"

definition host_bytes :: "bool \<Rightarrow> nat \<Rightarrow> 'a::len word \<Rightarrow> bytes" where
  "host_bytes lsb n w = (if lsb then le_bytes n w else rev (le_bytes n w))"

lemma length_host_bytes [simp]: "length (host_bytes lsb n w) = n"
  by (simp add: host_bytes_def)

lemma host_word_host_bytes [image_simps]:
  "LENGTH('a) \<le> 8 * n \<Longrightarrow> host_word lsb (host_bytes lsb n w) = (w :: 'a::len word)"
  by (simp add: host_word_def host_bytes_def le_word_le_bytes)

lemma host_bytes_host_word [image_simps]:
  assumes "length bs = n" and "8 * n \<le> LENGTH('a)"
  shows "host_bytes lsb n (host_word lsb bs :: 'a::len word) = bs"
  using assms le_bytes_le_word [of bs, where 'a='a] le_bytes_le_word [of "rev bs", where 'a='a]
  by (auto simp: host_word_def host_bytes_def)

lemma host_word_rev: "host_word lsb (rev bs) = host_word (\<not> lsb) bs"
  by (simp add: host_word_def)

text \<open>A field of \<open>n\<close> bytes at offset \<open>off\<close> of a memory image.\<close>

definition slice_at :: "nat \<Rightarrow> nat \<Rightarrow> 'b list \<Rightarrow> 'b list" where
  "slice_at off n bs = take n (drop off bs)"

lemma length_slice_at [simp]: "off + n \<le> length bs \<Longrightarrow> length (slice_at off n bs) = n"
  by (simp add: slice_at_def)

lemma slice_at_append_skip [image_simps]:
  "length xs \<le> off \<Longrightarrow> slice_at off n (xs @ ys) = slice_at (off - length xs) n ys"
  by (simp add: slice_at_def)

lemma slice_at_append_here [image_simps]:
  "length xs = n \<Longrightarrow> slice_at 0 n (xs @ ys) = xs"
  by (simp add: slice_at_def)

lemma slice_at_all [image_simps]: "length xs = n \<Longrightarrow> slice_at 0 n xs = xs"
  by (simp add: slice_at_def)

lemma slice_at_Cons_skip [image_simps]: "0 < off \<Longrightarrow> slice_at off n (x # xs) = slice_at (off - 1) n xs"
  by (cases off) (simp_all add: slice_at_def)

lemma slice_at_Cons_here [image_simps]: "slice_at 0 (Suc 0) (x # xs) = [x]"
  by (simp add: slice_at_def)

definition fld8 :: "nat \<Rightarrow> bytes \<Rightarrow> u8" where
  "fld8 off bs = le_word (slice_at off 1 bs)"

definition fld16 :: "bool \<Rightarrow> nat \<Rightarrow> bytes \<Rightarrow> u16" where
  "fld16 lsb off bs = host_word lsb (slice_at off 2 bs)"

definition fld32 :: "bool \<Rightarrow> nat \<Rightarrow> bytes \<Rightarrow> u32" where
  "fld32 lsb off bs = host_word lsb (slice_at off 4 bs)"

definition fld64 :: "bool \<Rightarrow> nat \<Rightarrow> bytes \<Rightarrow> u64" where
  "fld64 lsb off bs = host_word lsb (slice_at off 8 bs)"

lemmas fld_defs = fld8_def fld16_def fld32_def fld64_def

end
