(* ===== verification/Swap.thy ===== *)
theory Swap imports Prelude begin

text \<open>
  Byte swapping (\<open>pmbfd/pmelfP.h\<close>): the inline functions with which every header that is read
  from a file of the other byte order is converted. The lemmas show that each of them
  reverses the bytes of the storage of its operand, so that swapping what the host reads is
  reading in the opposite byte order.
\<close>

definition elf_swab :: "u16 \<Rightarrow> u16" where
  "elf_swab v = drop_bit 8 v OR push_bit 8 v"

definition elf_swah :: "u32 \<Rightarrow> u32" where
  "elf_swah v =
     ucast (elf_swab (ucast (drop_bit 16 v))) OR push_bit 16 (ucast (elf_swab (ucast (v AND 0xffff))))"

definition elf_swap16 :: "u16 \<Rightarrow> u16" where
  "elf_swap16 p = elf_swab p"

definition elf_swap32 :: "u32 \<Rightarrow> u32" where
  "elf_swap32 p =
     (let vl = ucast p :: u16; vh = ucast (drop_bit 16 p) :: u16
      in push_bit 16 (ucast (elf_swab vl)) OR ucast (elf_swab vh))"

definition elf_swap64 :: "u64 \<Rightarrow> u64" where
  "elf_swap64 p =
     (let vl = ucast p :: u32; vh = ucast (drop_bit 32 p) :: u32
      in push_bit 32 (ucast (elf_swah vl)) OR ucast (elf_swah vh))"

lemma elf_swab_bytes: "elf_swab (le_word [a, b]) = le_word [b, a]"
  by (rule bit_word_eqI) (auto simp: elf_swab_def bit_simps bit_byte_ge)

lemma le_word_4:
  "(le_word [a, b, c, d] :: u32) =
     ucast (le_word [a, b] :: u16) OR push_bit 16 (ucast (le_word [c, d] :: u16))"
  by (rule bit_word_eqI) (auto simp: bit_simps bit_byte_ge)

lemma le_word_append:
  "le_word (xs @ ys) = le_word xs OR push_bit (8 * length xs) (le_word ys)"
  by (induction xs) (simp_all add: push_bit_or ac_simps)

lemma ucast_le_word:
  assumes "8 * length xs \<le> LENGTH('a)"
  shows "ucast (le_word xs :: 'a::len word) = (le_word xs :: 'b::len word)"
proof (rule bit_word_eqI)
  fix i assume "i < LENGTH('b)"
  then show "bit (ucast (le_word xs :: 'a word) :: 'b word) i = bit (le_word xs :: 'b word) i"
    using assms by (auto simp: bit_ucast_iff bit_le_word)
qed

lemma le_word_8:
  "(le_word [a, b, c, d, e, f, g, h] :: u64) =
     ucast (le_word [a, b, c, d] :: u32) OR push_bit 32 (ucast (le_word [e, f, g, h] :: u32))"
  using le_word_append [where 'a=64, of "[a, b, c, d]" "[e, f, g, h]"]
    ucast_le_word [where 'a=32 and 'b=64, of "[a, b, c, d]"]
    ucast_le_word [where 'a=32 and 'b=64, of "[e, f, g, h]"]
  by (simp del: le_word.simps)

text \<open>The halves of a word put together from two halves.\<close>

lemma low_half16: "ucast (ucast (l :: u16) OR push_bit 16 (ucast (h :: u16)) :: u32) = l"
  by (rule bit_word_eqI) (auto simp: bit_simps)

lemma high_half16: "ucast (drop_bit 16 (ucast (l :: u16) OR push_bit 16 (ucast (h :: u16)) :: u32)) = h"
  by (rule bit_word_eqI) (auto simp: bit_simps dest: bit_imp_le_length)

lemma low_half32: "ucast (ucast (l :: u32) OR push_bit 32 (ucast (h :: u32)) :: u64) = l"
  by (rule bit_word_eqI) (auto simp: bit_simps)

lemma high_half32: "ucast (drop_bit 32 (ucast (l :: u32) OR push_bit 32 (ucast (h :: u32)) :: u64)) = h"
  by (rule bit_word_eqI) (auto simp: bit_simps dest: bit_imp_le_length)

lemma mask_half16: "ucast (x AND 0xffff :: u32) = (ucast x :: u16)"
proof -
  have "x AND 0xffff = take_bit 16 x"
    by (simp add: take_bit_eq_mask mask_eq_exp_minus_1 and.commute)
  then show ?thesis
    by (intro bit_word_eqI) (auto simp: bit_simps)
qed

lemma elf_swap32_bytes: "elf_swap32 (le_word [a, b, c, d]) = le_word [d, c, b, a]"
  unfolding elf_swap32_def Let_def le_word_4 low_half16 high_half16 elf_swab_bytes
  by (rule or.commute)

lemma elf_swah_bytes: "elf_swah (le_word [a, b, c, d]) = le_word [d, c, b, a]"
  unfolding elf_swah_def le_word_4 mask_half16 low_half16 high_half16 elf_swab_bytes ..

lemma elf_swap64_bytes:
  "elf_swap64 (le_word [a, b, c, d, e, f, g, h]) = le_word [h, g, f, e, d, c, b, a]"
  unfolding elf_swap64_def Let_def le_word_8 low_half32 high_half32 elf_swah_bytes
  by (rule or.commute)

lemma list_of_length_2: "length bs = 2 \<Longrightarrow> \<exists>a b. bs = [a, b]"
  by (auto simp: numeral_eq_Suc length_Suc_conv)

lemma list_of_length_4: "length bs = 4 \<Longrightarrow> \<exists>a b c d. bs = [a, b, c, d]"
  by (auto simp: numeral_eq_Suc length_Suc_conv)

lemma list_of_length_8: "length bs = 8 \<Longrightarrow> \<exists>a b c d e f g h. bs = [a, b, c, d, e, f, g, h]"
  by (auto simp: numeral_eq_Suc length_Suc_conv)

text \<open>Swapping the value of an integer object is reading its storage in the other byte order.\<close>

lemma elf_swap16_host_word [swap_simps]:
  assumes "length bs = 2"
  shows "elf_swap16 (host_word lsb bs) = host_word (\<not> lsb) bs"
  using list_of_length_2 [OF assms] by (auto simp: elf_swap16_def host_word_def elf_swab_bytes
      simp del: le_word.simps)

lemma elf_swap32_host_word [swap_simps]:
  assumes "length bs = 4"
  shows "elf_swap32 (host_word lsb bs) = host_word (\<not> lsb) bs"
  using list_of_length_4 [OF assms] by (auto simp: host_word_def elf_swap32_bytes
      simp del: le_word.simps)

lemma elf_swap64_host_word [swap_simps]:
  assumes "length bs = 8"
  shows "elf_swap64 (host_word lsb bs) = host_word (\<not> lsb) bs"
  using list_of_length_8 [OF assms] by (auto simp: host_word_def elf_swap64_bytes
      simp del: le_word.simps)

text \<open>Swapping twice changes nothing.\<close>

lemma elf_swap16_involution [simp]: "elf_swap16 (elf_swap16 w) = w"
  using elf_swap16_host_word [of "host_bytes True 2 w" True]
    elf_swap16_host_word [of "host_bytes True 2 w" False]
  by (simp add: image_simps)

lemma elf_swap32_involution [simp]: "elf_swap32 (elf_swap32 w) = w"
  using elf_swap32_host_word [of "host_bytes True 4 w" True]
    elf_swap32_host_word [of "host_bytes True 4 w" False]
  by (simp add: image_simps)

lemma elf_swap64_involution [simp]: "elf_swap64 (elf_swap64 w) = w"
  using elf_swap64_host_word [of "host_bytes True 8 w" True]
    elf_swap64_host_word [of "host_bytes True 8 w" False]
  by (simp add: image_simps)

text \<open>Storing a swapped value is storing the value in the other byte order.\<close>

lemma host_bytes_elf_swap16 [swap_simps]:
  "host_bytes lsb 2 (elf_swap16 w) = host_bytes (\<not> lsb) 2 w"
  using elf_swap16_host_word [of "host_bytes (\<not> lsb) 2 w" "\<not> lsb"] by (simp add: image_simps)

lemma host_bytes_elf_swap32 [swap_simps]:
  "host_bytes lsb 4 (elf_swap32 w) = host_bytes (\<not> lsb) 4 w"
  using elf_swap32_host_word [of "host_bytes (\<not> lsb) 4 w" "\<not> lsb"] by (simp add: image_simps)

lemma host_bytes_elf_swap64 [swap_simps]:
  "host_bytes lsb 8 (elf_swap64 w) = host_bytes (\<not> lsb) 8 w"
  using elf_swap64_host_word [of "host_bytes (\<not> lsb) 8 w" "\<not> lsb"] by (simp add: image_simps)

text \<open>The fields of an image, swapped.\<close>

lemma elf_swap16_fld16 [swap_simps]:
  "off + 2 \<le> length bs \<Longrightarrow> elf_swap16 (fld16 lsb off bs) = fld16 (\<not> lsb) off bs"
  by (simp add: fld16_def swap_simps)

lemma elf_swap32_fld32 [swap_simps]:
  "off + 4 \<le> length bs \<Longrightarrow> elf_swap32 (fld32 lsb off bs) = fld32 (\<not> lsb) off bs"
  by (simp add: fld32_def swap_simps)

lemma elf_swap64_fld64 [swap_simps]:
  "off + 8 \<le> length bs \<Longrightarrow> elf_swap64 (fld64 lsb off bs) = fld64 (\<not> lsb) off bs"
  by (simp add: fld64_def swap_simps)

end
