(* ===== verification/ElfStream.thy ===== *)
theory ElfStream imports Swap begin

text \<open>
  Elf streams (\<open>pmbfd/strm.c\<close>, \<open>pmbfd/fstrm.c\<close>, \<open>pmbfd/mstrm.c\<close>, \<open>pmbfd/putdat.c\<close>): the object
  all ELF data are read from and written to, with its two providers, a stdio stream and a memory
  buffer. The methods of \<open>struct _Elf_Stream\<close> become a dispatch on the provider. The locale
  \<open>byte_source\<close> is the contract of a provider; every reader of this library relies on it.
\<close>

section \<open>The stdio provider\<close>

text \<open>
  What the code relies on of \<open>FILE\<close>: the bytes of the file, the position, whether the stream was
  opened for writing. \<open>size_t\<close> and \<open>off_t\<close> have 64 bits.
\<close>

record file_obj =
  fo_data :: bytes
  fo_pos :: nat
  fo_writable :: bool

definition file_read :: "u64 \<Rightarrow> u64 \<Rightarrow> file_obj \<Rightarrow> (u64 \<times> bytes) \<times> file_obj" where
  "file_read sz n f =
     (let want = unat sz * unat n;
          got = min want (length (fo_data f) - fo_pos f)
      in ((if sz = 0 then 0 else of_nat (got div unat sz), slice_at (fo_pos f) got (fo_data f)),
          f\<lparr>fo_pos := fo_pos f + got\<rparr>))"

definition file_seek :: "u64 \<Rightarrow> file_obj \<Rightarrow> int \<times> file_obj" where
  "file_seek off f = (if sint off < 0 then (-1, f) else (0, f\<lparr>fo_pos := unat off\<rparr>))"

definition file_tell :: "file_obj \<Rightarrow> u64" where
  "file_tell f = of_nat (fo_pos f)"

definition put_at :: "nat \<Rightarrow> bytes \<Rightarrow> bytes \<Rightarrow> bytes" where
  "put_at pos new old =
     take pos (old @ replicate (pos - length old) 0) @ new @ drop (pos + length new) old"

definition file_write :: "bytes \<Rightarrow> u64 \<Rightarrow> u64 \<Rightarrow> file_obj \<Rightarrow> u64 \<times> file_obj" where
  "file_write buf sz n f =
     (if fo_writable f
      then (n, f\<lparr>fo_data := put_at (fo_pos f) (take (unat sz * unat n) buf) (fo_data f),
                 fo_pos := fo_pos f + unat sz * unat n\<rparr>)
      else (0, f))"

section \<open>The memory provider\<close>

record mem_obj =
  mo_buf :: bytes
  mo_len :: u64
  mo_pos :: u64

text \<open>
  \<open>mrd\<close>: the end of the area is computed with wrap-around, and \<open>-1\<close> (as a \<open>size_t\<close>) reports an area
  that exceeds the buffer.
\<close>

definition mrd :: "u64 \<Rightarrow> u64 \<Rightarrow> mem_obj \<Rightarrow> (u64 \<times> bytes) res \<times> mem_obj" where
  "mrd sz nelms m =
     (let l = sz * nelms in
      if mo_pos m + l > mo_len m then (Ok (-1, []), m)
      else if unat (mo_pos m) + unat l > length (mo_buf m) then (UB, m)
      else (Ok (nelms, slice_at (unat (mo_pos m)) (unat l) (mo_buf m)), m\<lparr>mo_pos := mo_pos m + l\<rparr>))"

definition SEEK_SET :: int where "SEEK_SET = 0"

definition mseek :: "u64 \<Rightarrow> int \<Rightarrow> mem_obj \<Rightarrow> int \<times> mem_obj" where
  "mseek off whence m =
     (if whence \<noteq> SEEK_SET then (-1, m)
      else if sint off < 0 \<or> off \<ge> mo_len m then (-1, m)
      else (0, m\<lparr>mo_pos := off\<rparr>))"

definition mtell :: "mem_obj \<Rightarrow> u64" where
  "mtell m = mo_pos m"

section \<open>The stream\<close>

datatype stream_obj = FileObj file_obj | MemObj mem_obj

record strm =
  st_obj :: stream_obj
  st_machine :: u16
  st_needswap :: bool
  st_clss :: u8

definition pmelf_newstrm :: "file_obj \<Rightarrow> strm" where
  "pmelf_newstrm f = \<lparr>st_obj = FileObj f, st_machine = 0, st_needswap = False, st_clss = 0\<rparr>"

text \<open>\<open>pmelf_memstrm\<close> refuses an empty buffer; \<open>mok\<close> tells whether its two allocations succeed.\<close>

definition pmelf_memstrm :: "bool \<Rightarrow> bytes \<Rightarrow> u64 \<Rightarrow> strm option" where
  "pmelf_memstrm mok buf len =
     (if len < 1 then None
      else if \<not> mok then None
      else Some \<lparr>st_obj = MemObj \<lparr>mo_buf = buf, mo_len = len, mo_pos = 0\<rparr>,
                 st_machine = 0, st_needswap = False, st_clss = 0\<rparr>)"

definition SREAD :: "u64 \<Rightarrow> u64 \<Rightarrow> strm \<Rightarrow> (u64 \<times> bytes) res \<times> strm" where
  "SREAD sz n s =
     (case st_obj s of
        FileObj f \<Rightarrow> (case file_read sz n f of (r, f') \<Rightarrow> (Ok r, s\<lparr>st_obj := FileObj f'\<rparr>))
      | MemObj m \<Rightarrow> (case mrd sz n m of (r, m') \<Rightarrow> (r, s\<lparr>st_obj := MemObj m'\<rparr>)))"

definition pmelf_seek :: "u64 \<Rightarrow> strm \<Rightarrow> int \<times> strm" where
  "pmelf_seek off s =
     (case st_obj s of
        FileObj f \<Rightarrow> (case file_seek off f of (r, f') \<Rightarrow> (r, s\<lparr>st_obj := FileObj f'\<rparr>))
      | MemObj m \<Rightarrow> (case mseek off SEEK_SET m of (r, m') \<Rightarrow> (r, s\<lparr>st_obj := MemObj m'\<rparr>)))"

definition pmelf_tell :: "strm \<Rightarrow> u64 res" where
  "pmelf_tell s =
     (let pos = (case st_obj s of FileObj f \<Rightarrow> file_tell f | MemObj m \<Rightarrow> mtell m)
      in if pos = -1 then Fail (-1) else Ok pos)"

text \<open>The memory provider has no write method; \<open>pmelf_write\<close> and the writers test for it.\<close>

definition SWRITE :: "bytes \<Rightarrow> u64 \<Rightarrow> u64 \<Rightarrow> strm \<Rightarrow> u64 \<times> strm" where
  "SWRITE buf sz n s =
     (case st_obj s of
        FileObj f \<Rightarrow> (case file_write buf sz n f of (r, f') \<Rightarrow> (r, s\<lparr>st_obj := FileObj f'\<rparr>))
      | MemObj m \<Rightarrow> (0, s))"

fun has_write :: "strm \<Rightarrow> bool" where
  "has_write s = (case st_obj s of FileObj _ \<Rightarrow> True | MemObj _ \<Rightarrow> False)"

definition pmelf_write :: "bytes \<Rightarrow> u64 \<Rightarrow> strm \<Rightarrow> int \<times> strm" where
  "pmelf_write data len s =
     (if has_write s then (case SWRITE data 1 len s of (k, s') \<Rightarrow> (if k = len then 0 else -1, s'))
      else (-1, s))"

text \<open>
  The two ways an operation on a stream goes on: after a step that delivers a value, and after a
  step that returns zero on success, a nonzero code making the caller return \<open>-1\<close>.
\<close>

definition then_do :: "'a res \<times> 's \<Rightarrow> ('a \<Rightarrow> 's \<Rightarrow> 'b res \<times> 's) \<Rightarrow> 'b res \<times> 's" where
  "then_do p f = (case p of (Ok v, s) \<Rightarrow> f v s | (Fail e, s) \<Rightarrow> (Fail e, s) | (UB, s) \<Rightarrow> (UB, s)
     | (Hang, s) \<Rightarrow> (Hang, s))"

definition then_if0 :: "int \<times> 's \<Rightarrow> ('s \<Rightarrow> 'b res \<times> 's) \<Rightarrow> 'b res \<times> 's" where
  "then_if0 p f = (case p of (rc, s) \<Rightarrow> if rc \<noteq> 0 then (Fail (-1), s) else f s)"

lemma then_do_simps [simp]:
  "then_do (Ok v, s) f = f v s" "then_do (Fail e, s) f = (Fail e, s)"
  "then_do (UB, s) f = (UB, s)" "then_do (Hang, s) f = (Hang, s)"
  by (simp_all add: then_do_def)

lemma then_do_Ok: "fst p = Ok v \<Longrightarrow> then_do p f = f v (snd p)"
  by (auto simp: then_do_def split: prod.splits)

lemma then_do_Fail: "fst p = Fail e \<Longrightarrow> then_do p f = (Fail e, snd p)"
  by (auto simp: then_do_def split: prod.splits)

lemma then_if0_zero: "fst p = 0 \<Longrightarrow> then_if0 p f = f (snd p)"
  by (auto simp: then_if0_def split: prod.splits)

lemma fst_then_do:
  "fst (then_do p f) = (case fst p of Ok v \<Rightarrow> fst (f v (snd p)) | Fail e \<Rightarrow> Fail e | UB \<Rightarrow> UB
     | Hang \<Rightarrow> Hang)"
  by (auto simp: then_do_def split: prod.splits res.splits)

lemma snd_then_do:
  "snd (then_do p f) = (case fst p of Ok v \<Rightarrow> snd (f v (snd p)) | _ \<Rightarrow> snd p)"
  by (auto simp: then_do_def split: prod.splits res.splits)

text \<open>
  A function that returns a pointer fails with \<open>NULL\<close>, which is \<open>Fail 0\<close> here, whatever code made it
  give up.
\<close>

definition null_on_fail :: "'a res \<times> 's \<Rightarrow> 'a res \<times> 's" where
  "null_on_fail p = (case p of (Fail e, s) \<Rightarrow> (Fail 0, s) | _ \<Rightarrow> p)"

lemma fst_null_on_fail [simp]:
  "fst (null_on_fail p) = (case fst p of Fail e \<Rightarrow> Fail 0 | r \<Rightarrow> r)"
  by (auto simp: null_on_fail_def split: prod.splits res.splits)

lemma snd_null_on_fail [simp]: "snd (null_on_fail p) = snd p"
  by (auto simp: null_on_fail_def split: prod.splits res.splits)

lemma then_do_OkD: "fst (then_do p f) = Ok w \<Longrightarrow> \<exists>v. fst p = Ok v \<and> fst (f v (snd p)) = Ok w"
  by (auto simp: fst_then_do split: res.splits)

text \<open>\<open>1 != SREAD(buf, n, 1, s)\<close>, the way every header is read.\<close>

definition sread1 :: "u64 \<Rightarrow> strm \<Rightarrow> bytes res \<times> strm" where
  "sread1 n s =
     (case SREAD n 1 s of
        (Ok (k, bs), s') \<Rightarrow> (if k \<noteq> 1 then Fail (-1) else Ok bs, s')
      | (Fail e, s') \<Rightarrow> (Fail e, s')
      | (UB, s') \<Rightarrow> (UB, s') | (Hang, s') \<Rightarrow> (Hang, s'))"

text \<open>\<open>1 == SWRITE(buf, n, 1, s)\<close> guarded by the test for the method.\<close>

definition swrite1 :: "bytes \<Rightarrow> strm \<Rightarrow> int \<times> strm" where
  "swrite1 buf s =
     (if has_write s
      then (case SWRITE buf (of_nat (length buf)) 1 s of (k, s') \<Rightarrow> (if k = 1 then 0 else -1, s'))
      else (-1, s))"

section \<open>The contract of a provider\<close>

text \<open>
  A valid source has contents and a position; seeking inside the contents succeeds, a read that
  fits delivers the next bytes and advances, a read that does not fit reports a short count.
\<close>

locale byte_source =
  fixes valid :: "'s \<Rightarrow> bool"
    and contents :: "'s \<Rightarrow> bytes"
    and position :: "'s \<Rightarrow> nat"
    and seek_to :: "u64 \<Rightarrow> 's \<Rightarrow> int \<times> 's"
    and read_n :: "u64 \<Rightarrow> u64 \<Rightarrow> 's \<Rightarrow> (u64 \<times> bytes) res \<times> 's"
  assumes small: "valid s \<Longrightarrow> length (contents s) < 2 ^ 63"
    and seek_accepts: "valid s \<Longrightarrow> unat off < length (contents s) \<Longrightarrow> fst (seek_to off s) = 0"
    and seek_ok: "valid s \<Longrightarrow> fst (seek_to off s) = 0 \<Longrightarrow>
        valid (snd (seek_to off s)) \<and>
        contents (snd (seek_to off s)) = contents s \<and> position (snd (seek_to off s)) = unat off"
    and read_in: "valid s \<Longrightarrow> 0 < sz \<Longrightarrow> position s + unat sz * unat n \<le> length (contents s) \<Longrightarrow>
        fst (read_n sz n s) = Ok (n, slice_at (position s) (unat sz * unat n) (contents s)) \<and>
        valid (snd (read_n sz n s)) \<and> contents (snd (read_n sz n s)) = contents s \<and>
        position (snd (read_n sz n s)) = position s + unat sz * unat n"
    and read_out: "valid s \<Longrightarrow> 0 < sz \<Longrightarrow> 0 < n \<Longrightarrow> unat sz * unat n < 2 ^ 63 \<Longrightarrow>
        length (contents s) < position s + unat sz * unat n \<Longrightarrow>
        \<exists>k bs. fst (read_n sz n s) = Ok (k, bs) \<and> k \<noteq> n"
begin

lemma seek_in:
  assumes "valid s" and "unat off < length (contents s)"
  shows "fst (seek_to off s) = 0 \<and> valid (snd (seek_to off s)) \<and>
    contents (snd (seek_to off s)) = contents s \<and> position (snd (seek_to off s)) = unat off"
  using seek_ok [OF assms(1)] seek_accepts [OF assms] by simp

text \<open>Reading one object: the contract of \<open>1 != SREAD(buf, n, 1, s)\<close>.\<close>

lemma read_one:
  assumes "valid s" and "0 < sz" and "position s + unat sz \<le> length (contents s)"
  shows "fst (read_n sz 1 s) = Ok (1, slice_at (position s) (unat sz) (contents s))"
    and "valid (snd (read_n sz 1 s))"
    and "contents (snd (read_n sz 1 s)) = contents s"
    and "position (snd (read_n sz 1 s)) = position s + unat sz"
  using read_in [of s sz 1] assms by auto

lemma read_after_seek:
  assumes "valid s" and "unat off < length (contents s)" and "0 < sz"
    and "unat off + unat sz * unat n \<le> length (contents s)"
  shows "fst (read_n sz n (snd (seek_to off s))) =
           Ok (n, slice_at (unat off) (unat sz * unat n) (contents s))"
  using seek_in [OF assms(1,2)] read_in [of "snd (seek_to off s)" sz n] assms by auto

lemma read_twice:
  assumes "valid s" and "0 < a" and "0 < b"
    and "position s + unat a + unat b \<le> length (contents s)"
  shows "fst (read_n b 1 (snd (read_n a 1 s))) =
           Ok (1, slice_at (position s + unat a) (unat b) (contents s))"
  using read_one [of s a] read_one [of "snd (read_n a 1 s)" b] assms by simp

end

definition file_ok :: "file_obj \<Rightarrow> bool" where
  "file_ok f \<longleftrightarrow> length (fo_data f) < 2 ^ 63"

definition mem_ok :: "mem_obj \<Rightarrow> bool" where
  "mem_ok m \<longleftrightarrow> length (mo_buf m) < 2 ^ 63 \<and> unat (mo_len m) = length (mo_buf m) \<and>
     unat (mo_pos m) \<le> length (mo_buf m)"

lemma sint_nonneg_small: "unat (w :: u64) < 2 ^ 63 \<Longrightarrow> \<not> sint w < 0"
proof -
  assume "unat w < 2 ^ 63"
  then have "int (unat w) < int (2 ^ 63)" by (simp only: of_nat_less_iff)
  then have "uint w < 2 ^ 63" by simp
  moreover have "- (2 ^ 63) \<le> uint w"
    by (rule order_trans [of _ 0]) simp_all
  ultimately have "signed_take_bit 63 (uint w) = uint w"
    by (intro signed_take_bit_int_eq_self)
  moreover have "sint w = signed_take_bit (LENGTH(64) - Suc 0) (uint w)" by (rule sint_uint)
  ultimately have "sint w = uint w" by (simp only: len_num0 len_bit0 len_bit1 len_num1) simp
  then show ?thesis by simp
qed

lemma sint_nonneg_eq: "\<not> sint w < 0 \<Longrightarrow> sint (w :: u64) = int (unat w)"
proof -
  assume "\<not> sint w < 0"
  moreover have "sint w < 2 ^ 63" using sint_less [of w] by simp
  ultimately have "take_bit 64 (sint w) = sint w" by (intro take_bit_int_eq_self) auto
  then have "uint w = sint w" by (simp add: uint_sint)
  then show ?thesis by simp
qed

lemma unat_mult_small: "unat a * unat b < 2 ^ 64 \<Longrightarrow> unat (a * b :: u64) = unat a * unat b"
  by (simp add: unat_mult_lem [THEN iffD1])

lemma unat_add_small: "unat a + unat b < 2 ^ 64 \<Longrightarrow> unat (a + b :: u64) = unat a + unat b"
  by (simp add: unat_add_lem [THEN iffD1])

lemma of_nat_div_self: "0 < (sz :: u64) \<Longrightarrow> of_nat (unat sz * unat n div unat sz) = (n :: u64)"
proof -
  assume "0 < sz"
  then have "unat sz \<noteq> 0" by (simp add: unat_eq_zero word_gt_0)
  then show ?thesis by simp
qed

interpretation file_src: byte_source file_ok fo_data fo_pos file_seek
    "\<lambda>sz n f. case file_read sz n f of (r, f') \<Rightarrow> (Ok r, f')"
proof unfold_locales
  fix s :: file_obj and sz n :: u64
  assume a: "file_ok s" "0 < sz" "0 < n" "length (fo_data s) < fo_pos s + unat sz * unat n"
    and b: "unat sz * unat n < 2 ^ 63"
  have sz: "0 < unat sz" using a(2) by (simp add: word_gt_0 unat_gt_0)
  let ?got = "min (unat sz * unat n) (length (fo_data s) - fo_pos s)"
  have "0 < unat sz * unat n" using a(3) sz by (simp add: word_gt_0 unat_gt_0)
  then have "?got < unat sz * unat n" using a(4) by (simp only: min_less_iff_disj) linarith
  then have "?got div unat sz < unat n" using sz by (simp add: less_mult_imp_div_less mult.commute)
  then have "(of_nat (?got div unat sz) :: u64) \<noteq> n"
    using le_unat_uoi [of "?got div unat sz" n] by (auto simp del: of_nat_div)
  then show "\<exists>k bs. fst (case file_read sz n s of (r, f') \<Rightarrow> (Ok r, f')) = Ok (k, bs) \<and> k \<noteq> n"
    using sz by (auto simp: file_read_def Let_def)
qed (auto simp: file_ok_def file_seek_def file_read_def Let_def sint_nonneg_small min_def
      of_nat_div_self word_gt_0 unat_eq_zero split: if_splits)

interpretation mem_src: byte_source mem_ok mo_buf "\<lambda>m. unat (mo_pos m)" "\<lambda>off. mseek off SEEK_SET" mrd
proof unfold_locales
  fix s :: mem_obj and sz n :: u64
  assume a: "mem_ok s" "0 < sz" "unat (mo_pos s) + unat sz * unat n \<le> length (mo_buf s)"
  then have l: "unat (sz * n) = unat sz * unat n"
    by (intro unat_mult_small) (auto simp: mem_ok_def)
  then have e: "unat (mo_pos s + sz * n) = unat (mo_pos s) + unat sz * unat n"
    using a by (subst unat_add_small) (auto simp: mem_ok_def)
  then have le: "mo_pos s + sz * n \<le> mo_len s"
    using a by (simp add: word_le_nat_alt mem_ok_def)
  show "fst (mrd sz n s) = Ok (n, slice_at (unat (mo_pos s)) (unat sz * unat n) (mo_buf s)) \<and>
      mem_ok (snd (mrd sz n s)) \<and> mo_buf (snd (mrd sz n s)) = mo_buf s \<and>
      unat (mo_pos (snd (mrd sz n s))) = unat (mo_pos s) + unat sz * unat n"
    using a l e le by (auto simp: mrd_def Let_def mem_ok_def)
next
  fix s :: mem_obj and sz n :: u64
  assume a: "mem_ok s" "0 < sz" "0 < n" "length (mo_buf s) < unat (mo_pos s) + unat sz * unat n"
    and b: "unat sz * unat n < 2 ^ 63"
  then have l: "unat (sz * n) = unat sz * unat n" by (intro unat_mult_small) auto
  then have e: "unat (mo_pos s + sz * n) = unat (mo_pos s) + unat sz * unat n"
    using a b by (subst unat_add_small) (auto simp: mem_ok_def)
  have gt: "mo_pos s + sz * n > mo_len s"
    using a e by (simp add: word_less_nat_alt mem_ok_def)
  have "n \<noteq> -1"
  proof
    assume "n = -1"
    then have "unat n = 2 ^ 64 - 1" by (simp add: unsigned_minus_1_eq_mask mask_eq_exp_minus_1)
    moreover have "unat sz \<ge> 1" using a(2) by (simp add: word_gt_0 unat_gt_0 Suc_le_eq)
    ultimately have "unat sz * unat n \<ge> 1 * (2 ^ 64 - 1)" by (intro mult_le_mono) auto
    with b show False by simp
  qed
  then show "\<exists>k bs. fst (mrd sz n s) = Ok (k, bs) \<and> k \<noteq> n"
    using gt by (auto simp: mrd_def Let_def)
qed (auto simp: mem_ok_def mseek_def SEEK_SET_def sint_nonneg_small word_le_nat_alt
      split: if_splits)

text \<open>A stream is valid when its provider is; the dispatch inherits the contract.\<close>

fun strm_ok :: "strm \<Rightarrow> bool" where
  "strm_ok s = (case st_obj s of FileObj f \<Rightarrow> file_ok f | MemObj m \<Rightarrow> mem_ok m)"

fun strm_data :: "strm \<Rightarrow> bytes" where
  "strm_data s = (case st_obj s of FileObj f \<Rightarrow> fo_data f | MemObj m \<Rightarrow> mo_buf m)"

fun strm_pos :: "strm \<Rightarrow> nat" where
  "strm_pos s = (case st_obj s of FileObj f \<Rightarrow> fo_pos f | MemObj m \<Rightarrow> unat (mo_pos m))"

lemma pair_of_fst_snd: "p = (a, b) \<Longrightarrow> fst p = a \<and> snd p = b"
  by simp

interpretation strm_src: byte_source strm_ok strm_data strm_pos pmelf_seek SREAD
proof unfold_locales
  fix s :: strm
  show "strm_ok s \<Longrightarrow> length (strm_data s) < 2 ^ 63"
    using file_src.small mem_src.small by (auto split: stream_obj.splits)
next
  fix s :: strm and off :: u64
  assume "strm_ok s" "unat off < length (strm_data s)"
  then show "fst (pmelf_seek off s) = 0"
    using file_src.seek_accepts mem_src.seek_accepts
    by (auto simp: pmelf_seek_def split: stream_obj.splits prod.splits) force+
next
  fix s :: strm and off :: u64
  assume "strm_ok s" "fst (pmelf_seek off s) = 0"
  then show "strm_ok (snd (pmelf_seek off s)) \<and>
      strm_data (snd (pmelf_seek off s)) = strm_data s \<and> strm_pos (snd (pmelf_seek off s)) = unat off"
    using file_src.seek_ok [of _ off] mem_src.seek_ok [of _ off]
    by (auto simp: pmelf_seek_def split_beta split: stream_obj.splits)
next
  fix s :: strm and sz n :: u64
  assume "strm_ok s" "0 < sz" "strm_pos s + unat sz * unat n \<le> length (strm_data s)"
  then show "fst (SREAD sz n s) = Ok (n, slice_at (strm_pos s) (unat sz * unat n) (strm_data s)) \<and>
      strm_ok (snd (SREAD sz n s)) \<and> strm_data (snd (SREAD sz n s)) = strm_data s \<and>
      strm_pos (snd (SREAD sz n s)) = strm_pos s + unat sz * unat n"
    using file_src.read_in [of _ sz n] mem_src.read_in [of _ sz n]
    by (auto simp: SREAD_def split: stream_obj.splits prod.splits) force+
next
  fix s :: strm and sz n :: u64
  assume "strm_ok s" "0 < sz" "0 < n" "unat sz * unat n < 2 ^ 63"
    "length (strm_data s) < strm_pos s + unat sz * unat n"
  then show "\<exists>k bs. fst (SREAD sz n s) = Ok (k, bs) \<and> k \<noteq> n"
    using file_src.read_out [of _ sz n] mem_src.read_out [of _ sz n]
    by (auto simp: SREAD_def split: stream_obj.splits prod.splits) force+
qed

text \<open>What seeking and reading leave alone: the properties of the ELF file found so far.\<close>

lemma SREAD_frame [simp]:
  "st_clss (snd (SREAD sz n s)) = st_clss s"
  "st_needswap (snd (SREAD sz n s)) = st_needswap s"
  "st_machine (snd (SREAD sz n s)) = st_machine s"
  by (auto simp: SREAD_def split: stream_obj.splits prod.splits)

lemma pmelf_seek_frame [simp]:
  "st_clss (snd (pmelf_seek off s)) = st_clss s"
  "st_needswap (snd (pmelf_seek off s)) = st_needswap s"
  "st_machine (snd (pmelf_seek off s)) = st_machine s"
  by (auto simp: pmelf_seek_def split: stream_obj.splits prod.splits)

lemma snd_sread1 [simp]: "snd (sread1 n s) = snd (SREAD n 1 s)"
  by (auto simp: sread1_def split: prod.splits res.splits)

text \<open>Reading one object of a valid stream: the bytes at the position, or \<open>-1\<close>.\<close>

lemma sread1_in:
  assumes "strm_ok s" and "0 < n" and "strm_pos s + unat n \<le> length (strm_data s)"
  shows "fst (sread1 n s) = Ok (slice_at (strm_pos s) (unat n) (strm_data s))"
    and "strm_ok (snd (sread1 n s))"
    and "strm_data (snd (sread1 n s)) = strm_data s"
    and "strm_pos (snd (sread1 n s)) = strm_pos s + unat n"
  using strm_src.read_one [OF assms]
  by (auto simp: sread1_def split: prod.splits res.splits)

lemma sread1_out:
  assumes "strm_ok s" and "0 < n" and "unat n < 2 ^ 63"
    and "length (strm_data s) < strm_pos s + unat n"
  shows "fst (sread1 n s) = Fail (-1)"
  using strm_src.read_out [of s n 1] assms
  by (auto simp: sread1_def split: prod.splits res.splits)

text \<open>The methods, as rules to be applied step by step.\<close>

lemmas seek_in = strm_src.seek_in [THEN conjunct1]
  strm_src.seek_in [THEN conjunct2, THEN conjunct1]
  strm_src.seek_in [THEN conjunct2, THEN conjunct2, THEN conjunct1]
  strm_src.seek_in [THEN conjunct2, THEN conjunct2, THEN conjunct2]

declare strm_ok.simps [simp del] strm_data.simps [simp del] strm_pos.simps [simp del]

lemma strm_parts_update [simp]:
  "strm_ok (s\<lparr>st_machine := m\<rparr>) = strm_ok s" "strm_ok (s\<lparr>st_needswap := w\<rparr>) = strm_ok s"
  "strm_ok (s\<lparr>st_clss := c\<rparr>) = strm_ok s"
  "strm_data (s\<lparr>st_machine := m\<rparr>) = strm_data s" "strm_data (s\<lparr>st_needswap := w\<rparr>) = strm_data s"
  "strm_data (s\<lparr>st_clss := c\<rparr>) = strm_data s"
  "strm_pos (s\<lparr>st_machine := m\<rparr>) = strm_pos s" "strm_pos (s\<lparr>st_needswap := w\<rparr>) = strm_pos s"
  "strm_pos (s\<lparr>st_clss := c\<rparr>) = strm_pos s"
  by (simp_all add: strm_ok.simps strm_data.simps strm_pos.simps)

text \<open>What a file holds after a write, where it was written and elsewhere.\<close>

lemma put_at_same: "pos \<le> length old \<Longrightarrow> slice_at pos (length new) (put_at pos new old) = new"
  by (simp add: put_at_def slice_at_def)

lemma put_at_before: "i < pos \<Longrightarrow> i < length old \<Longrightarrow> put_at pos new old ! i = old ! i"
  by (simp add: put_at_def nth_append)

lemma put_at_after:
  assumes "pos + length new \<le> i" and "i < length old"
  shows "put_at pos new old ! i = old ! i"
  using assms by (auto simp: put_at_def nth_append)

lemma swrite1_file:
  assumes "st_obj s = FileObj f" and "fo_writable f" and "length buf < 2 ^ 63"
  shows "swrite1 buf s = (0, s\<lparr>st_obj := FileObj (f\<lparr>fo_data := put_at (fo_pos f) buf (fo_data f),
           fo_pos := fo_pos f + length buf\<rparr>)\<rparr>)"
  using assms by (simp add: swrite1_def SWRITE_def file_write_def unat_of_nat)

end
