(* ===== verification/ElfTypes.thy ===== *)
theory ElfTypes imports ElfStream begin

text \<open>
  The structures of the ELF file format (\<open>pmbfd/pmelf.h\<close>) and their layout in storage. For every
  structure there is a \<open>record\<close> with its members, \<open>image_\<dots>\<close> (the value a host of byte order
  \<open>lsb\<close> sees in the given storage), \<open>bytes_\<dots>\<close> (the storage of a value) and \<open>swap_\<dots>\<close>, the list
  of \<open>elf_swap\<close> calls with which the readers and writers convert it member by member. The lemmas
  show that these lists are complete: swapping a structure is exactly changing the byte order it
  is read or stored in.
\<close>

section \<open>\<open>Elf32_Ehdr\<close>\<close>

record Elf32_Ehdr =
  e_ident32 :: bytes
  e_type32 :: u16
  e_machine32 :: u16
  e_version32 :: u32
  e_entry32 :: u32
  e_phoff32 :: u32
  e_shoff32 :: u32
  e_flags32 :: u32
  e_ehsize32 :: u16
  e_phentsize32 :: u16
  e_phnum32 :: u16
  e_shentsize32 :: u16
  e_shnum32 :: u16
  e_shstrndx32 :: u16

definition image_ehdr32 :: "bool \<Rightarrow> bytes \<Rightarrow> bytes \<Rightarrow> Elf32_Ehdr" where
  "image_ehdr32 lsb idt bs =
     \<lparr>e_ident32 = idt,
      e_type32 = fld16 lsb 0 bs,
      e_machine32 = fld16 lsb 2 bs,
      e_version32 = fld32 lsb 4 bs,
      e_entry32 = fld32 lsb 8 bs,
      e_phoff32 = fld32 lsb 12 bs,
      e_shoff32 = fld32 lsb 16 bs,
      e_flags32 = fld32 lsb 20 bs,
      e_ehsize32 = fld16 lsb 24 bs,
      e_phentsize32 = fld16 lsb 26 bs,
      e_phnum32 = fld16 lsb 28 bs,
      e_shentsize32 = fld16 lsb 30 bs,
      e_shnum32 = fld16 lsb 32 bs,
      e_shstrndx32 = fld16 lsb 34 bs\<rparr>"

definition swap_ehdr32 :: "Elf32_Ehdr \<Rightarrow> Elf32_Ehdr" where
  "swap_ehdr32 h =
     h\<lparr>e_type32 := elf_swap16 (e_type32 h),
       e_machine32 := elf_swap16 (e_machine32 h),
       e_version32 := elf_swap32 (e_version32 h),
       e_entry32 := elf_swap32 (e_entry32 h),
       e_phoff32 := elf_swap32 (e_phoff32 h),
       e_shoff32 := elf_swap32 (e_shoff32 h),
       e_flags32 := elf_swap32 (e_flags32 h),
       e_ehsize32 := elf_swap16 (e_ehsize32 h),
       e_phentsize32 := elf_swap16 (e_phentsize32 h),
       e_phnum32 := elf_swap16 (e_phnum32 h),
       e_shentsize32 := elf_swap16 (e_shentsize32 h),
       e_shnum32 := elf_swap16 (e_shnum32 h),
       e_shstrndx32 := elf_swap16 (e_shstrndx32 h)\<rparr>"

definition bytes_ehdr32 :: "bool \<Rightarrow> Elf32_Ehdr \<Rightarrow> bytes" where
  "bytes_ehdr32 lsb h =
     e_ident32 h @
     host_bytes lsb 2 (e_type32 h) @
     host_bytes lsb 2 (e_machine32 h) @
     host_bytes lsb 4 (e_version32 h) @
     host_bytes lsb 4 (e_entry32 h) @
     host_bytes lsb 4 (e_phoff32 h) @
     host_bytes lsb 4 (e_shoff32 h) @
     host_bytes lsb 4 (e_flags32 h) @
     host_bytes lsb 2 (e_ehsize32 h) @
     host_bytes lsb 2 (e_phentsize32 h) @
     host_bytes lsb 2 (e_phnum32 h) @
     host_bytes lsb 2 (e_shentsize32 h) @
     host_bytes lsb 2 (e_shnum32 h) @
     host_bytes lsb 2 (e_shstrndx32 h)"

lemma length_bytes_ehdr32 [simp]: "length (e_ident32 h) = 16 \<Longrightarrow> length (bytes_ehdr32 lsb h) = 52"
  by (simp add: bytes_ehdr32_def)

lemma swap_image_ehdr32 [swap_simps]:
  "length bs = 36 \<Longrightarrow> swap_ehdr32 (image_ehdr32 lsb idt bs) = image_ehdr32 (\<not> lsb) idt bs"
  by (simp add: swap_ehdr32_def image_ehdr32_def swap_simps)

lemma bytes_swap_ehdr32 [swap_simps]:
  "bytes_ehdr32 lsb (swap_ehdr32 h) = bytes_ehdr32 (\<not> lsb) h"
  by (simp add: swap_ehdr32_def bytes_ehdr32_def swap_simps)

lemma swap_ehdr32_involution [simp]: "swap_ehdr32 (swap_ehdr32 h) = h"
  by (simp add: swap_ehdr32_def)

lemma image_bytes_ehdr32 [image_simps]:
  "length (e_ident32 h) = 16 \<Longrightarrow>
     image_ehdr32 lsb (take 16 (bytes_ehdr32 lsb h)) (drop 16 (bytes_ehdr32 lsb h)) = h"
  by (simp add: image_ehdr32_def bytes_ehdr32_def fld_defs image_simps)

section \<open>\<open>Elf64_Ehdr\<close>\<close>

record Elf64_Ehdr =
  e_ident64 :: bytes
  e_type64 :: u16
  e_machine64 :: u16
  e_version64 :: u32
  e_entry64 :: u64
  e_phoff64 :: u64
  e_shoff64 :: u64
  e_flags64 :: u32
  e_ehsize64 :: u16
  e_phentsize64 :: u16
  e_phnum64 :: u16
  e_shentsize64 :: u16
  e_shnum64 :: u16
  e_shstrndx64 :: u16

definition image_ehdr64 :: "bool \<Rightarrow> bytes \<Rightarrow> bytes \<Rightarrow> Elf64_Ehdr" where
  "image_ehdr64 lsb idt bs =
     \<lparr>e_ident64 = idt,
      e_type64 = fld16 lsb 0 bs,
      e_machine64 = fld16 lsb 2 bs,
      e_version64 = fld32 lsb 4 bs,
      e_entry64 = fld64 lsb 8 bs,
      e_phoff64 = fld64 lsb 16 bs,
      e_shoff64 = fld64 lsb 24 bs,
      e_flags64 = fld32 lsb 32 bs,
      e_ehsize64 = fld16 lsb 36 bs,
      e_phentsize64 = fld16 lsb 38 bs,
      e_phnum64 = fld16 lsb 40 bs,
      e_shentsize64 = fld16 lsb 42 bs,
      e_shnum64 = fld16 lsb 44 bs,
      e_shstrndx64 = fld16 lsb 46 bs\<rparr>"

definition swap_ehdr64 :: "Elf64_Ehdr \<Rightarrow> Elf64_Ehdr" where
  "swap_ehdr64 h =
     h\<lparr>e_type64 := elf_swap16 (e_type64 h),
       e_machine64 := elf_swap16 (e_machine64 h),
       e_version64 := elf_swap32 (e_version64 h),
       e_entry64 := elf_swap64 (e_entry64 h),
       e_phoff64 := elf_swap64 (e_phoff64 h),
       e_shoff64 := elf_swap64 (e_shoff64 h),
       e_flags64 := elf_swap32 (e_flags64 h),
       e_ehsize64 := elf_swap16 (e_ehsize64 h),
       e_phentsize64 := elf_swap16 (e_phentsize64 h),
       e_phnum64 := elf_swap16 (e_phnum64 h),
       e_shentsize64 := elf_swap16 (e_shentsize64 h),
       e_shnum64 := elf_swap16 (e_shnum64 h),
       e_shstrndx64 := elf_swap16 (e_shstrndx64 h)\<rparr>"

definition bytes_ehdr64 :: "bool \<Rightarrow> Elf64_Ehdr \<Rightarrow> bytes" where
  "bytes_ehdr64 lsb h =
     e_ident64 h @
     host_bytes lsb 2 (e_type64 h) @
     host_bytes lsb 2 (e_machine64 h) @
     host_bytes lsb 4 (e_version64 h) @
     host_bytes lsb 8 (e_entry64 h) @
     host_bytes lsb 8 (e_phoff64 h) @
     host_bytes lsb 8 (e_shoff64 h) @
     host_bytes lsb 4 (e_flags64 h) @
     host_bytes lsb 2 (e_ehsize64 h) @
     host_bytes lsb 2 (e_phentsize64 h) @
     host_bytes lsb 2 (e_phnum64 h) @
     host_bytes lsb 2 (e_shentsize64 h) @
     host_bytes lsb 2 (e_shnum64 h) @
     host_bytes lsb 2 (e_shstrndx64 h)"

lemma length_bytes_ehdr64 [simp]: "length (e_ident64 h) = 16 \<Longrightarrow> length (bytes_ehdr64 lsb h) = 64"
  by (simp add: bytes_ehdr64_def)

lemma swap_image_ehdr64 [swap_simps]:
  "length bs = 48 \<Longrightarrow> swap_ehdr64 (image_ehdr64 lsb idt bs) = image_ehdr64 (\<not> lsb) idt bs"
  by (simp add: swap_ehdr64_def image_ehdr64_def swap_simps)

lemma bytes_swap_ehdr64 [swap_simps]:
  "bytes_ehdr64 lsb (swap_ehdr64 h) = bytes_ehdr64 (\<not> lsb) h"
  by (simp add: swap_ehdr64_def bytes_ehdr64_def swap_simps)

lemma swap_ehdr64_involution [simp]: "swap_ehdr64 (swap_ehdr64 h) = h"
  by (simp add: swap_ehdr64_def)

lemma image_bytes_ehdr64 [image_simps]:
  "length (e_ident64 h) = 16 \<Longrightarrow>
     image_ehdr64 lsb (take 16 (bytes_ehdr64 lsb h)) (drop 16 (bytes_ehdr64 lsb h)) = h"
  by (simp add: image_ehdr64_def bytes_ehdr64_def fld_defs image_simps)

section \<open>\<open>Elf32_Shdr\<close>\<close>

record Elf32_Shdr =
  sh_name32 :: u32
  sh_type32 :: u32
  sh_flags32 :: u32
  sh_addr32 :: u32
  sh_offset32 :: u32
  sh_size32 :: u32
  sh_link32 :: u32
  sh_info32 :: u32
  sh_addralign32 :: u32
  sh_entsize32 :: u32

definition image_shdr32 :: "bool \<Rightarrow> bytes \<Rightarrow> Elf32_Shdr" where
  "image_shdr32 lsb bs =
     \<lparr>sh_name32 = fld32 lsb 0 bs,
      sh_type32 = fld32 lsb 4 bs,
      sh_flags32 = fld32 lsb 8 bs,
      sh_addr32 = fld32 lsb 12 bs,
      sh_offset32 = fld32 lsb 16 bs,
      sh_size32 = fld32 lsb 20 bs,
      sh_link32 = fld32 lsb 24 bs,
      sh_info32 = fld32 lsb 28 bs,
      sh_addralign32 = fld32 lsb 32 bs,
      sh_entsize32 = fld32 lsb 36 bs\<rparr>"

definition swap_shdr32 :: "Elf32_Shdr \<Rightarrow> Elf32_Shdr" where
  "swap_shdr32 h =
     h\<lparr>sh_name32 := elf_swap32 (sh_name32 h),
       sh_type32 := elf_swap32 (sh_type32 h),
       sh_flags32 := elf_swap32 (sh_flags32 h),
       sh_addr32 := elf_swap32 (sh_addr32 h),
       sh_offset32 := elf_swap32 (sh_offset32 h),
       sh_size32 := elf_swap32 (sh_size32 h),
       sh_link32 := elf_swap32 (sh_link32 h),
       sh_info32 := elf_swap32 (sh_info32 h),
       sh_addralign32 := elf_swap32 (sh_addralign32 h),
       sh_entsize32 := elf_swap32 (sh_entsize32 h)\<rparr>"

definition bytes_shdr32 :: "bool \<Rightarrow> Elf32_Shdr \<Rightarrow> bytes" where
  "bytes_shdr32 lsb h =
     host_bytes lsb 4 (sh_name32 h) @
     host_bytes lsb 4 (sh_type32 h) @
     host_bytes lsb 4 (sh_flags32 h) @
     host_bytes lsb 4 (sh_addr32 h) @
     host_bytes lsb 4 (sh_offset32 h) @
     host_bytes lsb 4 (sh_size32 h) @
     host_bytes lsb 4 (sh_link32 h) @
     host_bytes lsb 4 (sh_info32 h) @
     host_bytes lsb 4 (sh_addralign32 h) @
     host_bytes lsb 4 (sh_entsize32 h)"

lemma length_bytes_shdr32 [simp]: "length (bytes_shdr32 lsb h) = 40"
  by (simp add: bytes_shdr32_def)

lemma swap_image_shdr32 [swap_simps]:
  "length bs = 40 \<Longrightarrow> swap_shdr32 (image_shdr32 lsb bs) = image_shdr32 (\<not> lsb) bs"
  by (simp add: swap_shdr32_def image_shdr32_def swap_simps)

lemma bytes_swap_shdr32 [swap_simps]:
  "bytes_shdr32 lsb (swap_shdr32 h) = bytes_shdr32 (\<not> lsb) h"
  by (simp add: swap_shdr32_def bytes_shdr32_def swap_simps)

lemma swap_shdr32_involution [simp]: "swap_shdr32 (swap_shdr32 h) = h"
  by (simp add: swap_shdr32_def)

lemma image_bytes_shdr32 [image_simps]: "image_shdr32 lsb (bytes_shdr32 lsb h) = h"
  by (simp add: image_shdr32_def bytes_shdr32_def fld_defs image_simps le_word_le_bytes)

section \<open>\<open>Elf64_Shdr\<close>\<close>

record Elf64_Shdr =
  sh_name64 :: u32
  sh_type64 :: u32
  sh_flags64 :: u64
  sh_addr64 :: u64
  sh_offset64 :: u64
  sh_size64 :: u64
  sh_link64 :: u32
  sh_info64 :: u32
  sh_addralign64 :: u64
  sh_entsize64 :: u64

definition image_shdr64 :: "bool \<Rightarrow> bytes \<Rightarrow> Elf64_Shdr" where
  "image_shdr64 lsb bs =
     \<lparr>sh_name64 = fld32 lsb 0 bs,
      sh_type64 = fld32 lsb 4 bs,
      sh_flags64 = fld64 lsb 8 bs,
      sh_addr64 = fld64 lsb 16 bs,
      sh_offset64 = fld64 lsb 24 bs,
      sh_size64 = fld64 lsb 32 bs,
      sh_link64 = fld32 lsb 40 bs,
      sh_info64 = fld32 lsb 44 bs,
      sh_addralign64 = fld64 lsb 48 bs,
      sh_entsize64 = fld64 lsb 56 bs\<rparr>"

definition swap_shdr64 :: "Elf64_Shdr \<Rightarrow> Elf64_Shdr" where
  "swap_shdr64 h =
     h\<lparr>sh_name64 := elf_swap32 (sh_name64 h),
       sh_type64 := elf_swap32 (sh_type64 h),
       sh_flags64 := elf_swap64 (sh_flags64 h),
       sh_addr64 := elf_swap64 (sh_addr64 h),
       sh_offset64 := elf_swap64 (sh_offset64 h),
       sh_size64 := elf_swap64 (sh_size64 h),
       sh_link64 := elf_swap32 (sh_link64 h),
       sh_info64 := elf_swap32 (sh_info64 h),
       sh_addralign64 := elf_swap64 (sh_addralign64 h),
       sh_entsize64 := elf_swap64 (sh_entsize64 h)\<rparr>"

definition bytes_shdr64 :: "bool \<Rightarrow> Elf64_Shdr \<Rightarrow> bytes" where
  "bytes_shdr64 lsb h =
     host_bytes lsb 4 (sh_name64 h) @
     host_bytes lsb 4 (sh_type64 h) @
     host_bytes lsb 8 (sh_flags64 h) @
     host_bytes lsb 8 (sh_addr64 h) @
     host_bytes lsb 8 (sh_offset64 h) @
     host_bytes lsb 8 (sh_size64 h) @
     host_bytes lsb 4 (sh_link64 h) @
     host_bytes lsb 4 (sh_info64 h) @
     host_bytes lsb 8 (sh_addralign64 h) @
     host_bytes lsb 8 (sh_entsize64 h)"

lemma length_bytes_shdr64 [simp]: "length (bytes_shdr64 lsb h) = 64"
  by (simp add: bytes_shdr64_def)

lemma swap_image_shdr64 [swap_simps]:
  "length bs = 64 \<Longrightarrow> swap_shdr64 (image_shdr64 lsb bs) = image_shdr64 (\<not> lsb) bs"
  by (simp add: swap_shdr64_def image_shdr64_def swap_simps)

lemma bytes_swap_shdr64 [swap_simps]:
  "bytes_shdr64 lsb (swap_shdr64 h) = bytes_shdr64 (\<not> lsb) h"
  by (simp add: swap_shdr64_def bytes_shdr64_def swap_simps)

lemma swap_shdr64_involution [simp]: "swap_shdr64 (swap_shdr64 h) = h"
  by (simp add: swap_shdr64_def)

lemma image_bytes_shdr64 [image_simps]: "image_shdr64 lsb (bytes_shdr64 lsb h) = h"
  by (simp add: image_shdr64_def bytes_shdr64_def fld_defs image_simps le_word_le_bytes)

section \<open>\<open>Elf32_Sym\<close>\<close>

record Elf32_Sym =
  st_name32 :: u32
  st_value32 :: u32
  st_size32 :: u32
  st_info32 :: u8
  st_other32 :: u8
  st_shndx32 :: u16

definition image_sym32 :: "bool \<Rightarrow> bytes \<Rightarrow> Elf32_Sym" where
  "image_sym32 lsb bs =
     \<lparr>st_name32 = fld32 lsb 0 bs,
      st_value32 = fld32 lsb 4 bs,
      st_size32 = fld32 lsb 8 bs,
      st_info32 = fld8 12 bs,
      st_other32 = fld8 13 bs,
      st_shndx32 = fld16 lsb 14 bs\<rparr>"

definition swap_sym32 :: "Elf32_Sym \<Rightarrow> Elf32_Sym" where
  "swap_sym32 h =
     h\<lparr>st_name32 := elf_swap32 (st_name32 h),
       st_value32 := elf_swap32 (st_value32 h),
       st_size32 := elf_swap32 (st_size32 h),
       st_shndx32 := elf_swap16 (st_shndx32 h)\<rparr>"

definition bytes_sym32 :: "bool \<Rightarrow> Elf32_Sym \<Rightarrow> bytes" where
  "bytes_sym32 lsb h =
     host_bytes lsb 4 (st_name32 h) @
     host_bytes lsb 4 (st_value32 h) @
     host_bytes lsb 4 (st_size32 h) @
     le_bytes 1 (st_info32 h) @
     le_bytes 1 (st_other32 h) @
     host_bytes lsb 2 (st_shndx32 h)"

lemma length_bytes_sym32 [simp]: "length (bytes_sym32 lsb h) = 16"
  by (simp add: bytes_sym32_def)

lemma swap_image_sym32 [swap_simps]:
  "length bs = 16 \<Longrightarrow> swap_sym32 (image_sym32 lsb bs) = image_sym32 (\<not> lsb) bs"
  by (simp add: swap_sym32_def image_sym32_def swap_simps)

lemma bytes_swap_sym32 [swap_simps]:
  "bytes_sym32 lsb (swap_sym32 h) = bytes_sym32 (\<not> lsb) h"
  by (simp add: swap_sym32_def bytes_sym32_def swap_simps)

lemma swap_sym32_involution [simp]: "swap_sym32 (swap_sym32 h) = h"
  by (simp add: swap_sym32_def)

lemma image_bytes_sym32 [image_simps]: "image_sym32 lsb (bytes_sym32 lsb h) = h"
  by (simp add: image_sym32_def bytes_sym32_def fld_defs image_simps le_word_le_bytes)

section \<open>\<open>Elf64_Sym\<close>\<close>

record Elf64_Sym =
  st_name64 :: u32
  st_info64 :: u8
  st_other64 :: u8
  st_shndx64 :: u16
  st_value64 :: u64
  st_size64 :: u64

definition image_sym64 :: "bool \<Rightarrow> bytes \<Rightarrow> Elf64_Sym" where
  "image_sym64 lsb bs =
     \<lparr>st_name64 = fld32 lsb 0 bs,
      st_info64 = fld8 4 bs,
      st_other64 = fld8 5 bs,
      st_shndx64 = fld16 lsb 6 bs,
      st_value64 = fld64 lsb 8 bs,
      st_size64 = fld64 lsb 16 bs\<rparr>"

definition swap_sym64 :: "Elf64_Sym \<Rightarrow> Elf64_Sym" where
  "swap_sym64 h =
     h\<lparr>st_name64 := elf_swap32 (st_name64 h),
       st_shndx64 := elf_swap16 (st_shndx64 h),
       st_value64 := elf_swap64 (st_value64 h),
       st_size64 := elf_swap64 (st_size64 h)\<rparr>"

definition bytes_sym64 :: "bool \<Rightarrow> Elf64_Sym \<Rightarrow> bytes" where
  "bytes_sym64 lsb h =
     host_bytes lsb 4 (st_name64 h) @
     le_bytes 1 (st_info64 h) @
     le_bytes 1 (st_other64 h) @
     host_bytes lsb 2 (st_shndx64 h) @
     host_bytes lsb 8 (st_value64 h) @
     host_bytes lsb 8 (st_size64 h)"

lemma length_bytes_sym64 [simp]: "length (bytes_sym64 lsb h) = 24"
  by (simp add: bytes_sym64_def)

lemma swap_image_sym64 [swap_simps]:
  "length bs = 24 \<Longrightarrow> swap_sym64 (image_sym64 lsb bs) = image_sym64 (\<not> lsb) bs"
  by (simp add: swap_sym64_def image_sym64_def swap_simps)

lemma bytes_swap_sym64 [swap_simps]:
  "bytes_sym64 lsb (swap_sym64 h) = bytes_sym64 (\<not> lsb) h"
  by (simp add: swap_sym64_def bytes_sym64_def swap_simps)

lemma swap_sym64_involution [simp]: "swap_sym64 (swap_sym64 h) = h"
  by (simp add: swap_sym64_def)

lemma image_bytes_sym64 [image_simps]: "image_sym64 lsb (bytes_sym64 lsb h) = h"
  by (simp add: image_sym64_def bytes_sym64_def fld_defs image_simps le_word_le_bytes)

section \<open>\<open>Elf32_Phdr\<close>\<close>

record Elf32_Phdr =
  p_type32 :: u32
  p_offset32 :: u32
  p_vaddr32 :: u32
  p_paddr32 :: u32
  p_filesz32 :: u32
  p_memsz32 :: u32
  p_flags32 :: u32
  p_align32 :: u32

definition image_phdr32 :: "bool \<Rightarrow> bytes \<Rightarrow> Elf32_Phdr" where
  "image_phdr32 lsb bs =
     \<lparr>p_type32 = fld32 lsb 0 bs,
      p_offset32 = fld32 lsb 4 bs,
      p_vaddr32 = fld32 lsb 8 bs,
      p_paddr32 = fld32 lsb 12 bs,
      p_filesz32 = fld32 lsb 16 bs,
      p_memsz32 = fld32 lsb 20 bs,
      p_flags32 = fld32 lsb 24 bs,
      p_align32 = fld32 lsb 28 bs\<rparr>"

definition swap_phdr32 :: "Elf32_Phdr \<Rightarrow> Elf32_Phdr" where
  "swap_phdr32 h =
     h\<lparr>p_type32 := elf_swap32 (p_type32 h),
       p_offset32 := elf_swap32 (p_offset32 h),
       p_vaddr32 := elf_swap32 (p_vaddr32 h),
       p_paddr32 := elf_swap32 (p_paddr32 h),
       p_filesz32 := elf_swap32 (p_filesz32 h),
       p_memsz32 := elf_swap32 (p_memsz32 h),
       p_flags32 := elf_swap32 (p_flags32 h),
       p_align32 := elf_swap32 (p_align32 h)\<rparr>"

definition bytes_phdr32 :: "bool \<Rightarrow> Elf32_Phdr \<Rightarrow> bytes" where
  "bytes_phdr32 lsb h =
     host_bytes lsb 4 (p_type32 h) @
     host_bytes lsb 4 (p_offset32 h) @
     host_bytes lsb 4 (p_vaddr32 h) @
     host_bytes lsb 4 (p_paddr32 h) @
     host_bytes lsb 4 (p_filesz32 h) @
     host_bytes lsb 4 (p_memsz32 h) @
     host_bytes lsb 4 (p_flags32 h) @
     host_bytes lsb 4 (p_align32 h)"

lemma length_bytes_phdr32 [simp]: "length (bytes_phdr32 lsb h) = 32"
  by (simp add: bytes_phdr32_def)

lemma swap_image_phdr32 [swap_simps]:
  "length bs = 32 \<Longrightarrow> swap_phdr32 (image_phdr32 lsb bs) = image_phdr32 (\<not> lsb) bs"
  by (simp add: swap_phdr32_def image_phdr32_def swap_simps)

lemma bytes_swap_phdr32 [swap_simps]:
  "bytes_phdr32 lsb (swap_phdr32 h) = bytes_phdr32 (\<not> lsb) h"
  by (simp add: swap_phdr32_def bytes_phdr32_def swap_simps)

lemma swap_phdr32_involution [simp]: "swap_phdr32 (swap_phdr32 h) = h"
  by (simp add: swap_phdr32_def)

lemma image_bytes_phdr32 [image_simps]: "image_phdr32 lsb (bytes_phdr32 lsb h) = h"
  by (simp add: image_phdr32_def bytes_phdr32_def fld_defs image_simps le_word_le_bytes)

section \<open>\<open>Elf64_Phdr\<close>\<close>

record Elf64_Phdr =
  p_type64 :: u32
  p_flags64 :: u32
  p_offset64 :: u64
  p_vaddr64 :: u64
  p_paddr64 :: u64
  p_filesz64 :: u64
  p_memsz64 :: u64
  p_align64 :: u64

definition image_phdr64 :: "bool \<Rightarrow> bytes \<Rightarrow> Elf64_Phdr" where
  "image_phdr64 lsb bs =
     \<lparr>p_type64 = fld32 lsb 0 bs,
      p_flags64 = fld32 lsb 4 bs,
      p_offset64 = fld64 lsb 8 bs,
      p_vaddr64 = fld64 lsb 16 bs,
      p_paddr64 = fld64 lsb 24 bs,
      p_filesz64 = fld64 lsb 32 bs,
      p_memsz64 = fld64 lsb 40 bs,
      p_align64 = fld64 lsb 48 bs\<rparr>"

definition swap_phdr64 :: "Elf64_Phdr \<Rightarrow> Elf64_Phdr" where
  "swap_phdr64 h =
     h\<lparr>p_type64 := elf_swap32 (p_type64 h),
       p_flags64 := elf_swap32 (p_flags64 h),
       p_offset64 := elf_swap64 (p_offset64 h),
       p_vaddr64 := elf_swap64 (p_vaddr64 h),
       p_paddr64 := elf_swap64 (p_paddr64 h),
       p_filesz64 := elf_swap64 (p_filesz64 h),
       p_memsz64 := elf_swap64 (p_memsz64 h),
       p_align64 := elf_swap64 (p_align64 h)\<rparr>"

definition bytes_phdr64 :: "bool \<Rightarrow> Elf64_Phdr \<Rightarrow> bytes" where
  "bytes_phdr64 lsb h =
     host_bytes lsb 4 (p_type64 h) @
     host_bytes lsb 4 (p_flags64 h) @
     host_bytes lsb 8 (p_offset64 h) @
     host_bytes lsb 8 (p_vaddr64 h) @
     host_bytes lsb 8 (p_paddr64 h) @
     host_bytes lsb 8 (p_filesz64 h) @
     host_bytes lsb 8 (p_memsz64 h) @
     host_bytes lsb 8 (p_align64 h)"

lemma length_bytes_phdr64 [simp]: "length (bytes_phdr64 lsb h) = 56"
  by (simp add: bytes_phdr64_def)

lemma swap_image_phdr64 [swap_simps]:
  "length bs = 56 \<Longrightarrow> swap_phdr64 (image_phdr64 lsb bs) = image_phdr64 (\<not> lsb) bs"
  by (simp add: swap_phdr64_def image_phdr64_def swap_simps)

lemma bytes_swap_phdr64 [swap_simps]:
  "bytes_phdr64 lsb (swap_phdr64 h) = bytes_phdr64 (\<not> lsb) h"
  by (simp add: swap_phdr64_def bytes_phdr64_def swap_simps)

lemma swap_phdr64_involution [simp]: "swap_phdr64 (swap_phdr64 h) = h"
  by (simp add: swap_phdr64_def)

lemma image_bytes_phdr64 [image_simps]: "image_phdr64 lsb (bytes_phdr64 lsb h) = h"
  by (simp add: image_phdr64_def bytes_phdr64_def fld_defs image_simps le_word_le_bytes)

section \<open>Relocation records\<close>

text \<open>These are swapped as arrays of words, not member by member. The addend is signed; its bits are kept.\<close>

record Elf32_Rel =
  r_offset32 :: u32
  r_info32 :: u32

definition image_rel32 :: "bool \<Rightarrow> bytes \<Rightarrow> Elf32_Rel" where
  "image_rel32 lsb bs = \<lparr>r_offset32 = fld32 lsb 0 bs, r_info32 = fld32 lsb 4 bs\<rparr>"

record Elf32_Rela =
  ra_offset32 :: u32
  ra_info32 :: u32
  ra_addend32 :: u32

definition image_rela32 :: "bool \<Rightarrow> bytes \<Rightarrow> Elf32_Rela" where
  "image_rela32 lsb bs = \<lparr>ra_offset32 = fld32 lsb 0 bs, ra_info32 = fld32 lsb 4 bs, ra_addend32 = fld32 lsb 8 bs\<rparr>"

record Elf64_Rel =
  r_offset64 :: u64
  r_info64 :: u64

definition image_rel64 :: "bool \<Rightarrow> bytes \<Rightarrow> Elf64_Rel" where
  "image_rel64 lsb bs = \<lparr>r_offset64 = fld64 lsb 0 bs, r_info64 = fld64 lsb 8 bs\<rparr>"

record Elf64_Rela =
  ra_offset64 :: u64
  ra_info64 :: u64
  ra_addend64 :: u64

definition image_rela64 :: "bool \<Rightarrow> bytes \<Rightarrow> Elf64_Rela" where
  "image_rela64 lsb bs = \<lparr>ra_offset64 = fld64 lsb 0 bs, ra_info64 = fld64 lsb 8 bs, ra_addend64 = fld64 lsb 16 bs\<rparr>"

end
