(* ===== verification/ElfHeaders.thy ===== *)
theory ElfHeaders imports ElfTypes begin

text \<open>
  Reading and writing the headers of an ELF file: \<open>pmbfd/getehdr.c\<close>, \<open>getshdr.c\<close>, \<open>getphdr.c\<close>,
  \<open>getsym.c\<close>, \<open>putehdr.c\<close>, \<open>putshdr.c\<close>, \<open>putsym.c\<close>. The readers fill a structure with the bytes of
  the file as the host sees them and swap it when the file has the other byte order; the theorems
  show that what they deliver is the structure in the byte order of the file, whatever the host.
\<close>

section \<open>Constants of \<open>pmelf.h\<close>\<close>

abbreviation EI_CLASS :: nat where "EI_CLASS \<equiv> 4"
abbreviation EI_DATA :: nat where "EI_DATA \<equiv> 5"
abbreviation EI_VERSION :: nat where "EI_VERSION \<equiv> 6"
abbreviation EI_NIDENT :: u64 where "EI_NIDENT \<equiv> 16"
abbreviation ELFCLASSNONE :: u8 where "ELFCLASSNONE \<equiv> 0"
abbreviation ELFCLASS32 :: u8 where "ELFCLASS32 \<equiv> 1"
abbreviation ELFCLASS64 :: u8 where "ELFCLASS64 \<equiv> 2"
abbreviation ELFDATA2LSB :: u8 where "ELFDATA2LSB \<equiv> 1"
abbreviation EV_CURRENT :: u8 where "EV_CURRENT \<equiv> 1"

definition elf_magic :: bytes where "elf_magic = [0x7f, 0x45, 0x4c, 0x46]"

text \<open>The machines this library knows: SPARC, 386, 68K, PPC, X86-64.\<close>

definition em_supported :: "u16 \<Rightarrow> bool" where
  "em_supported m \<longleftrightarrow> m = 2 \<or> m = 3 \<or> m = 4 \<or> m = 20 \<or> m = 62"

datatype Elf_Ehdr = E32 Elf32_Ehdr | E64 Elf64_Ehdr
datatype Elf_Shdr = S32 Elf32_Shdr | S64 Elf64_Shdr
datatype Elf_Sym = T32 Elf32_Sym | T64 Elf64_Sym

section \<open>The ELF header\<close>

text \<open>The checks on the rest of a header, after the identification bytes.\<close>

definition ehdr32_bad :: "Elf32_Ehdr \<Rightarrow> bool" where
  "ehdr32_bad h \<longleftrightarrow>
     e_shnum32 h > 0 \<and> e_shentsize32 h \<noteq> 40 \<or>
     e_phnum32 h > 0 \<and> e_phentsize32 h \<noteq> 32 \<or>
     e_shnum32 h > 0 \<and> (e_shstrndx32 h = 0 \<or> e_shstrndx32 h \<ge> e_shnum32 h)"

definition ehdr64_bad :: "Elf64_Ehdr \<Rightarrow> bool" where
  "ehdr64_bad h \<longleftrightarrow>
     e_shnum64 h > 0 \<and> e_shentsize64 h \<noteq> 64 \<or>
     e_phnum64 h > 0 \<and> e_phentsize64 h \<noteq> 56 \<or>
     e_shnum64 h > 0 \<and> (e_shstrndx64 h = 0 \<or> e_shstrndx64 h \<ge> e_shnum64 h)"

definition getehdr32_top :: "bool \<Rightarrow> bytes \<Rightarrow> strm \<Rightarrow> Elf32_Ehdr res \<times> strm" where
  "getehdr32_top lsb ident s =
     then_do (sread1 (52 - EI_NIDENT) s) (\<lambda>bs s1.
       let h = image_ehdr32 lsb ident bs;
           h = (if st_needswap s1 then swap_ehdr32 h else h)
       in if ehdr32_bad h then (Fail (-1), s1) else (Ok h, s1))"

definition getehdr64_top :: "bool \<Rightarrow> bytes \<Rightarrow> strm \<Rightarrow> Elf64_Ehdr res \<times> strm" where
  "getehdr64_top lsb ident s =
     then_do (sread1 (64 - EI_NIDENT) s) (\<lambda>bs s1.
       let h = image_ehdr64 lsb ident bs;
           h = (if st_needswap s1 then swap_ehdr64 h else h)
       in if ehdr64_bad h then (Fail (-1), s1) else (Ok h, s1))"

definition pmelf_getehdr :: "bool \<Rightarrow> strm \<Rightarrow> Elf_Ehdr res \<times> strm" where
  "pmelf_getehdr lsb s =
     then_if0 (pmelf_seek 0 s) (\<lambda>s1.
     then_do (sread1 EI_NIDENT s1) (\<lambda>ident s2.
       if take 4 ident \<noteq> elf_magic then (Fail (-1), s2)
       else if ident ! EI_VERSION \<noteq> EV_CURRENT then (Fail (-1), s2)
       else
         let s3 = s2\<lparr>st_needswap := (lsb \<noteq> (ident ! EI_DATA = ELFDATA2LSB)),
                     st_clss := ident ! EI_CLASS\<rparr>
         in then_do
              (if st_clss s3 = ELFCLASS32
               then then_do (getehdr32_top lsb ident s3) (\<lambda>h s4.
                      (Ok (E32 h), s4\<lparr>st_machine := e_machine32 h\<rparr>))
               else if st_clss s3 = ELFCLASS64
               then then_do (getehdr64_top lsb ident s3) (\<lambda>h s4.
                      (Ok (E64 h), s4\<lparr>st_machine := e_machine64 h\<rparr>))
               else (Fail (-1), s3\<lparr>st_clss := ELFCLASSNONE\<rparr>))
              (\<lambda>eh s5. if em_supported (st_machine s5) then (Ok eh, s5) else (Fail (-1), s5))))"

text \<open>What an ELF header is: a function of the bytes of the file alone.\<close>

definition file_lsb :: "bytes \<Rightarrow> bool" where
  "file_lsb d \<longleftrightarrow> d ! EI_DATA = ELFDATA2LSB"

definition ehdr_spec :: "bytes \<Rightarrow> Elf_Ehdr res" where
  "ehdr_spec d =
     (if length d < 16 \<or> take 4 d \<noteq> elf_magic \<or> d ! EI_VERSION \<noteq> EV_CURRENT then Fail (-1)
      else if d ! EI_CLASS = ELFCLASS32 then
        if length d < 52 then Fail (-1)
        else let h = image_ehdr32 (file_lsb d) (take 16 d) (slice_at 16 36 d)
             in if ehdr32_bad h \<or> \<not> em_supported (e_machine32 h) then Fail (-1) else Ok (E32 h)
      else if d ! EI_CLASS = ELFCLASS64 then
        if length d < 64 then Fail (-1)
        else let h = image_ehdr64 (file_lsb d) (take 16 d) (slice_at 16 48 d)
             in if ehdr64_bad h \<or> \<not> em_supported (e_machine64 h) then Fail (-1) else Ok (E64 h)
      else Fail (-1))"

text \<open>Reading one object either delivers the bytes at the position or fails with \<open>-1\<close>.\<close>

lemma then_do_sread1:
  assumes "strm_ok s" and "0 < n" and "unat n < 2 ^ 63"
  shows "then_do (sread1 n s) f =
    (if strm_pos s + unat n \<le> length (strm_data s)
     then f (slice_at (strm_pos s) (unat n) (strm_data s)) (snd (sread1 n s))
     else (Fail (-1), snd (sread1 n s)))"
  using sread1_in [OF assms(1,2)] sread1_out [OF assms(1-3)]
  by (simp add: then_do_Ok then_do_Fail not_le)

lemma getehdr32_top_spec:
  assumes "strm_ok s" and "st_needswap s = (lsb \<noteq> le)"
  shows "fst (getehdr32_top lsb ident s) =
    (if strm_pos s + 36 \<le> length (strm_data s)
     then let h = image_ehdr32 le ident (slice_at (strm_pos s) 36 (strm_data s))
          in if ehdr32_bad h then Fail (-1) else Ok h
     else Fail (-1))"
  using assms
  by (auto simp: getehdr32_top_def then_do_sread1 Let_def swap_image_ehdr32)

lemma getehdr64_top_spec:
  assumes "strm_ok s" and "st_needswap s = (lsb \<noteq> le)"
  shows "fst (getehdr64_top lsb ident s) =
    (if strm_pos s + 48 \<le> length (strm_data s)
     then let h = image_ehdr64 le ident (slice_at (strm_pos s) 48 (strm_data s))
          in if ehdr64_bad h then Fail (-1) else Ok h
     else Fail (-1))"
  using assms
  by (auto simp: getehdr64_top_def then_do_sread1 Let_def swap_image_ehdr64)

lemma seek_0:
  assumes "strm_ok s" and "strm_data s \<noteq> []"
  shows "fst (pmelf_seek 0 s) = 0" and "strm_ok (snd (pmelf_seek 0 s))"
    and "strm_data (snd (pmelf_seek 0 s)) = strm_data s" and "strm_pos (snd (pmelf_seek 0 s)) = 0"
  using seek_in [OF assms(1), of 0] assms(2) by auto

lemma nth_take_16: "i < 16 \<Longrightarrow> take 16 xs ! i = xs ! i"
  by simp

lemma getehdr_refines:
  assumes "strm_ok s" and "strm_data s \<noteq> []"
  shows "fst (pmelf_getehdr lsb s) = ehdr_spec (strm_data s)"
proof (cases "length (strm_data s) < 16")
  case True
  then show ?thesis
    using seek_0 [OF assms]
    by (simp add: pmelf_getehdr_def then_if0_zero then_do_sread1 ehdr_spec_def)
next
  case False
  let ?d = "strm_data s"
  let ?s2 = "snd (sread1 EI_NIDENT (snd (pmelf_seek 0 s)))"
  have rd: "strm_ok ?s2" "strm_data ?s2 = ?d" "strm_pos ?s2 = 16"
    using sread1_in [of "snd (pmelf_seek 0 s)" EI_NIDENT] seek_0 [OF assms] False by simp_all
  have ident: "slice_at 0 16 ?d = take 16 ?d" by (simp add: slice_at_def)
  define s3 where "s3 = ?s2\<lparr>st_needswap := (lsb \<noteq> file_lsb ?d), st_clss := ?d ! EI_CLASS\<rparr>"
  have ok3: "strm_ok s3" and sw3: "st_needswap s3 = (lsb \<noteq> file_lsb ?d)"
    and rd3: "strm_data s3 = ?d" "strm_pos s3 = 16"
    using rd by (simp_all add: s3_def)
  note top32 = getehdr32_top_spec [OF ok3 sw3, of "take 16 ?d"]
  note top64 = getehdr64_top_spec [OF ok3 sw3, of "take 16 ?d"]
  have nth: "take 16 ?d ! EI_DATA = ?d ! EI_DATA" "take 16 ?d ! EI_CLASS = ?d ! EI_CLASS"
    "take 16 ?d ! EI_VERSION = ?d ! EI_VERSION" "take 4 (take 16 ?d) = take 4 ?d"
    by simp_all
  have go: "fst (pmelf_getehdr lsb s) =
      (if take 4 ?d \<noteq> elf_magic \<or> ?d ! EI_VERSION \<noteq> EV_CURRENT then Fail (-1)
       else fst (then_do
              (if ?d ! EI_CLASS = ELFCLASS32
               then then_do (getehdr32_top lsb (take 16 ?d) s3) (\<lambda>h s4.
                      (Ok (E32 h), s4\<lparr>st_machine := e_machine32 h\<rparr>))
               else if ?d ! EI_CLASS = ELFCLASS64
               then then_do (getehdr64_top lsb (take 16 ?d) s3) (\<lambda>h s4.
                      (Ok (E64 h), s4\<lparr>st_machine := e_machine64 h\<rparr>))
               else (Fail (-1), s3\<lparr>st_clss := ELFCLASSNONE\<rparr>))
              (\<lambda>eh s5. if em_supported (st_machine s5) then (Ok eh, s5) else (Fail (-1), s5))))"
    using False seek_0 [OF assms]
    by (simp add: pmelf_getehdr_def then_if0_zero then_do_sread1 ident nth Let_def file_lsb_def s3_def
        del: snd_sread1 take_take)
  show ?thesis
    unfolding go ehdr_spec_def
    using False
    by (simp add: fst_then_do top32 top64 rd3 snd_then_do Let_def)
qed

lemma getehdr32_top_frame:
  "strm_ok s \<Longrightarrow> fst (getehdr32_top lsb ident s) = Ok h \<Longrightarrow>
     strm_ok (snd (getehdr32_top lsb ident s)) \<and>
     strm_data (snd (getehdr32_top lsb ident s)) = strm_data s \<and>
     st_needswap (snd (getehdr32_top lsb ident s)) = st_needswap s \<and>
     st_clss (snd (getehdr32_top lsb ident s)) = st_clss s"
  using sread1_in [of s 36]
  by (auto simp: getehdr32_top_def then_do_sread1 Let_def split: if_splits)

lemma getehdr64_top_frame:
  "strm_ok s \<Longrightarrow> fst (getehdr64_top lsb ident s) = Ok h \<Longrightarrow>
     strm_ok (snd (getehdr64_top lsb ident s)) \<and>
     strm_data (snd (getehdr64_top lsb ident s)) = strm_data s \<and>
     st_needswap (snd (getehdr64_top lsb ident s)) = st_needswap s \<and>
     st_clss (snd (getehdr64_top lsb ident s)) = st_clss s"
  using sread1_in [of s 48]
  by (auto simp: getehdr64_top_def then_do_sread1 Let_def split: if_splits)

section \<open>The other headers\<close>

text \<open>
  All readers of a header are one statement: read \<open>sizeof\<close> bytes into the structure, swap its
  members when the stream says so. All writers swap a copy and write it. The size, the view of the
  storage and the list of swaps differ.
\<close>

definition get_struct ::
    "u64 \<Rightarrow> (bool \<Rightarrow> bytes \<Rightarrow> 'h) \<Rightarrow> ('h \<Rightarrow> 'h) \<Rightarrow> bool \<Rightarrow> strm \<Rightarrow> 'h res \<times> strm" where
  "get_struct sz img swap lsb s =
     then_do (sread1 sz s) (\<lambda>bs s1.
       (Ok (if st_needswap s1 then swap (img lsb bs) else img lsb bs), s1))"

definition put_struct ::
    "(bool \<Rightarrow> 'h \<Rightarrow> bytes) \<Rightarrow> ('h \<Rightarrow> 'h) \<Rightarrow> bool \<Rightarrow> 'h \<Rightarrow> strm \<Rightarrow> int \<times> strm" where
  "put_struct bytes swap lsb h s =
     swrite1 (bytes lsb (if st_needswap s then swap h else h)) s"

definition pmelf_getshdr64 :: "bool \<Rightarrow> strm \<Rightarrow> Elf64_Shdr res \<times> strm" where
  "pmelf_getshdr64 = get_struct 64 image_shdr64 swap_shdr64"

definition pmelf_getshdr32 :: "bool \<Rightarrow> strm \<Rightarrow> Elf32_Shdr res \<times> strm" where
  "pmelf_getshdr32 = get_struct 40 image_shdr32 swap_shdr32"

definition pmelf_getphdr64 :: "bool \<Rightarrow> strm \<Rightarrow> Elf64_Phdr res \<times> strm" where
  "pmelf_getphdr64 = get_struct 56 image_phdr64 swap_phdr64"

definition pmelf_getphdr32 :: "bool \<Rightarrow> strm \<Rightarrow> Elf32_Phdr res \<times> strm" where
  "pmelf_getphdr32 = get_struct 32 image_phdr32 swap_phdr32"

definition pmelf_getsym64 :: "bool \<Rightarrow> strm \<Rightarrow> Elf64_Sym res \<times> strm" where
  "pmelf_getsym64 = get_struct 24 image_sym64 swap_sym64"

definition pmelf_getsym32 :: "bool \<Rightarrow> strm \<Rightarrow> Elf32_Sym res \<times> strm" where
  "pmelf_getsym32 = get_struct 16 image_sym32 swap_sym32"

definition pmelf_putshdr64 :: "bool \<Rightarrow> Elf64_Shdr \<Rightarrow> strm \<Rightarrow> int \<times> strm" where
  "pmelf_putshdr64 = put_struct bytes_shdr64 swap_shdr64"

definition pmelf_putshdr32 :: "bool \<Rightarrow> Elf32_Shdr \<Rightarrow> strm \<Rightarrow> int \<times> strm" where
  "pmelf_putshdr32 = put_struct bytes_shdr32 swap_shdr32"

definition pmelf_putsym64 :: "bool \<Rightarrow> Elf64_Sym \<Rightarrow> strm \<Rightarrow> int \<times> strm" where
  "pmelf_putsym64 = put_struct bytes_sym64 swap_sym64"

definition pmelf_putsym32 :: "bool \<Rightarrow> Elf32_Sym \<Rightarrow> strm \<Rightarrow> int \<times> strm" where
  "pmelf_putsym32 = put_struct bytes_sym32 swap_sym32"

text \<open>The writers of an ELF header check the identification bytes and set the byte order.\<close>

definition pmelf_putehdr64 :: "bool \<Rightarrow> Elf64_Ehdr \<Rightarrow> strm \<Rightarrow> int \<times> strm" where
  "pmelf_putehdr64 lsb h s =
     (if take 4 (e_ident64 h) \<noteq> elf_magic then (-1, s)
      else if e_ident64 h ! EI_CLASS \<noteq> ELFCLASS64 then (-1, s)
      else if e_ident64 h ! EI_VERSION \<noteq> EV_CURRENT then (-1, s)
      else put_struct bytes_ehdr64 swap_ehdr64 lsb h
             (s\<lparr>st_needswap := (lsb \<noteq> (e_ident64 h ! EI_DATA = ELFDATA2LSB))\<rparr>))"

definition pmelf_putehdr32 :: "bool \<Rightarrow> Elf32_Ehdr \<Rightarrow> strm \<Rightarrow> int \<times> strm" where
  "pmelf_putehdr32 lsb h s =
     (if take 4 (e_ident32 h) \<noteq> elf_magic then (-1, s)
      else if e_ident32 h ! EI_CLASS \<noteq> ELFCLASS32 then (-1, s)
      else if e_ident32 h ! EI_VERSION \<noteq> EV_CURRENT then (-1, s)
      else put_struct bytes_ehdr32 swap_ehdr32 lsb h
             (s\<lparr>st_needswap := (lsb \<noteq> (e_ident32 h ! EI_DATA = ELFDATA2LSB))\<rparr>))"

subsection \<open>The contract of a structure\<close>

text \<open>
  What the readers and writers rely on of a structure: its size, that swapping its members changes
  the byte order of the storage it is read from and written to, and that its storage determines it.
\<close>

locale wire_struct =
  fixes sz :: u64
    and img :: "bool \<Rightarrow> bytes \<Rightarrow> 'h"
    and swap :: "'h \<Rightarrow> 'h"
    and bytes :: "bool \<Rightarrow> 'h \<Rightarrow> bytes"
  assumes sz_pos: "0 < sz" and sz_small: "unat sz < 2 ^ 32"
    and len: "length (bytes lsb h) = unat sz"
    and swap_image: "length bs = unat sz \<Longrightarrow> swap (img lsb bs) = img (\<not> lsb) bs"
    and image_bytes: "img lsb (bytes lsb h) = h"
    and bytes_swap: "bytes lsb (swap h) = bytes (\<not> lsb) h"
begin

lemma sz_small63: "unat sz < 2 ^ 63"
  using sz_small by simp

text \<open>What is read is the structure at the position, in the byte order of the file.\<close>

lemma get_refines:
  assumes "strm_ok s" and "st_needswap s = (lsb \<noteq> le)"
  shows "fst (get_struct sz img swap lsb s) =
    (if strm_pos s + unat sz \<le> length (strm_data s)
     then Ok (img le (slice_at (strm_pos s) (unat sz) (strm_data s))) else Fail (-1))"
  using assms sz_small63 sz_pos
  by (auto simp: get_struct_def then_do_sread1 swap_image)

lemma get_state:
  "snd (get_struct sz img swap lsb s) = snd (sread1 sz s)"
  by (auto simp: get_struct_def snd_then_do split: res.splits)

text \<open>What is written is the structure in the byte order of the file.\<close>

lemma put_file:
  assumes "st_obj s = FileObj f" and "fo_writable f" and "st_needswap s = (lsb \<noteq> le)"
  shows "put_struct bytes swap lsb h s =
    (0, s\<lparr>st_obj := FileObj (f\<lparr>fo_data := put_at (fo_pos f) (bytes le h) (fo_data f),
           fo_pos := fo_pos f + unat sz\<rparr>)\<rparr>)"
proof -
  have "bytes lsb (if st_needswap s then swap h else h) = bytes le h"
    using assms(3) by (cases le; cases lsb) (simp_all add: bytes_swap)
  then show ?thesis
    using swrite1_file [OF assms(1,2), of "bytes le h"] sz_small63 by (simp add: put_struct_def len)
qed

text \<open>A structure that was written can be read back, on the same host or another one.\<close>

lemma put_get:
  assumes f: "st_obj s = FileObj f" "fo_writable f" and sw: "st_needswap s = (lsb \<noteq> le)"
    and pos: "fo_pos f \<le> length (fo_data f)" "length (fo_data f) < 2 ^ 62"
    and rd: "strm_ok s'" "strm_data s' = strm_data (snd (put_struct bytes swap lsb h s))"
      "strm_pos s' = fo_pos f" "st_needswap s' = (lsb' \<noteq> le)"
  shows "fst (get_struct sz img swap lsb' s') = Ok h"
proof -
  have d: "strm_data s' = put_at (fo_pos f) (bytes le h) (fo_data f)"
    using rd(2) by (simp add: put_file [OF f sw] strm_data.simps)
  have "slice_at (fo_pos f) (unat sz) (strm_data s') = bytes le h"
    using put_at_same [OF pos(1), of "bytes le h"] by (simp add: d len)
  moreover have "fo_pos f + unat sz \<le> length (strm_data s')"
    using pos(1) by (simp add: d put_at_def len)
  ultimately show ?thesis
    using get_refines [OF rd(1,4)] rd(3) by (simp add: image_bytes)
qed

end

interpretation shdr32: wire_struct 40 image_shdr32 swap_shdr32 bytes_shdr32
  by unfold_locales (simp_all add: swap_simps image_simps)

interpretation shdr64: wire_struct 64 image_shdr64 swap_shdr64 bytes_shdr64
  by unfold_locales (simp_all add: swap_simps image_simps)

interpretation phdr32: wire_struct 32 image_phdr32 swap_phdr32 bytes_phdr32
  by unfold_locales (simp_all add: swap_simps image_simps)

interpretation phdr64: wire_struct 56 image_phdr64 swap_phdr64 bytes_phdr64
  by unfold_locales (simp_all add: swap_simps image_simps)

interpretation sym32: wire_struct 16 image_sym32 swap_sym32 bytes_sym32
  by unfold_locales (simp_all add: swap_simps image_simps)

interpretation sym64: wire_struct 24 image_sym64 swap_sym64 bytes_sym64
  by unfold_locales (simp_all add: swap_simps image_simps)

end
