(* ===== verification/ElfTables.thy ===== *)
theory ElfTables imports ElfHeaders begin

text \<open>
  Sections and tables of an ELF file: \<open>pmbfd/getscn.c\<close>, \<open>getgrp.c\<close>, \<open>getrel.c\<close>, \<open>shtab.c\<close>,
  \<open>findsymhdrs.c\<close>, \<open>symtab.c\<close>, \<open>secname.c\<close>, \<open>symname.c\<close>. The parameter \<open>mok\<close> tells which of the
  allocations of an operation succeed, in the order in which it makes them.
\<close>

abbreviation SHT_SYMTAB :: u32 where "SHT_SYMTAB \<equiv> 2"
abbreviation SHT_RELA :: u32 where "SHT_RELA \<equiv> 4"
abbreviation SHT_REL :: u32 where "SHT_REL \<equiv> 9"
abbreviation SHT_DYNSYM :: u32 where "SHT_DYNSYM \<equiv> 11"
abbreviation SHT_GROUP :: u32 where "SHT_GROUP \<equiv> 17"

section \<open>The contents of a section\<close>

text \<open>
  The union \<open>Elf_Shdr\<close> is read through the member the class of the stream selects; a header of the
  other class is not one of its values.
\<close>

definition shdr_extent :: "u8 \<Rightarrow> Elf_Shdr \<Rightarrow> (u64 \<times> u64) res" where
  "shdr_extent clss psect =
     (if clss = ELFCLASS64 then
        (case psect of S64 h \<Rightarrow> Ok (sh_size64 h, sh_offset64 h) | S32 _ \<Rightarrow> UB)
      else if clss = ELFCLASS32 then
        (case psect of S32 h \<Rightarrow> Ok (ucast (sh_size32 h), ucast (sh_offset32 h)) | S64 _ \<Rightarrow> UB)
      else Fail 0)"

text \<open>
  \<open>own\<close> says that the caller passes a buffer; otherwise one is allocated. What is delivered is the
  contents of the buffer.
\<close>

definition pmelf_getscn :: "bool \<Rightarrow> bool \<Rightarrow> strm \<Rightarrow> Elf_Shdr \<Rightarrow> u64 \<Rightarrow> u64 \<Rightarrow> bytes res \<times> strm" where
  "pmelf_getscn mok own s psect offset len =
     then_do (shdr_extent (st_clss s) psect, s) (\<lambda>(sh_size, sh_offset) s1.
       let len = (if len = 0 then sh_size else len);
           end = offset + len
       in if end < offset \<or> end < len then (Fail 0, s1)
          else if end > sh_size then (Fail 0, s1)
          else null_on_fail (then_if0 (pmelf_seek (sh_offset + offset) s1) (\<lambda>s2.
            if \<not> own \<and> \<not> mok then (Fail 0, s2)
            else then_do (SREAD 1 len s2) (\<lambda>(k, bs) s3.
              if len \<noteq> k then (Fail 0, s3) else (Ok bs, s3)))))"

lemma no_wrap_iff: "\<not> (a + b < a \<or> a + b < (b :: u64)) \<longleftrightarrow> unat a + unat b < 2 ^ 64"
proof
  assume "\<not> (a + b < a \<or> a + b < b)"
  then have "a \<le> a + b" by (simp add: not_less)
  then have "unat (a + b) = unat a + unat b" by (simp add: unat_plus_simple)
  then show "unat a + unat b < 2 ^ 64" using unsigned_less [of "a + b", where 'a=nat] by simp
next
  assume "unat a + unat b < 2 ^ 64"
  then have "unat (a + b) = unat a + unat b" by (rule unat_add_small)
  then show "\<not> (a + b < a \<or> a + b < b)" by (simp add: word_less_nat_alt)
qed

lemma snd_then_if0: "snd (then_if0 p f) = (if fst p \<noteq> 0 then snd p else snd (f (snd p)))"
  by (auto simp: then_if0_def split: prod.splits)

lemma getscn_frame [simp]:
  "st_clss (snd (pmelf_getscn mok own s psect off len)) = st_clss s"
  "st_needswap (snd (pmelf_getscn mok own s psect off len)) = st_needswap s"
  "st_machine (snd (pmelf_getscn mok own s psect off len)) = st_machine s"
  by (auto simp: pmelf_getscn_def snd_then_do snd_then_if0 Let_def split: res.splits)

text \<open>
  Whatever is delivered has the length that was asked for and lies within the section, and it is
  what the file has there.
\<close>

definition scn_len :: "u64 \<Rightarrow> u64 \<Rightarrow> u64" where
  "scn_len sz len = (if len = 0 then sz else len)"

lemma getscn_in:
  assumes s: "strm_ok s" and e: "shdr_extent (st_clss s) psect = Ok (sz, off)"
    and fit: "unat o' + unat (scn_len sz len) \<le> unat sz"
    and inf: "unat off + unat sz \<le> length (strm_data s)" "unat off + unat o' < length (strm_data s)"
    and mem: "own \<or> mok"
  shows "fst (pmelf_getscn mok own s psect o' len) =
    Ok (slice_at (unat off + unat o') (unat (scn_len sz len)) (strm_data s))"
proof -
  have small: "length (strm_data s) < 2 ^ 63" by (rule strm_src.small [OF s])
  have "unat o' + unat (scn_len sz len) < 2 ^ 64"
    using fit unsigned_less [of sz, where 'a=nat] by simp
  then have nw: "\<not> (o' + scn_len sz len < o' \<or> o' + scn_len sz len < scn_len sz len)"
    and sum: "unat (o' + scn_len sz len) = unat o' + unat (scn_len sz len)"
    using no_wrap_iff unat_add_small by blast+
  then have le: "\<not> (o' + scn_len sz len > sz)"
    using fit by (simp add: word_less_nat_alt)
  have pos: "unat (off + o') = unat off + unat o'"
    using inf(2) small by (intro unat_add_small) simp
  have seek: "fst (pmelf_seek (off + o') s) = 0" "strm_ok (snd (pmelf_seek (off + o') s))"
    "strm_data (snd (pmelf_seek (off + o') s)) = strm_data s"
    "strm_pos (snd (pmelf_seek (off + o') s)) = unat off + unat o'"
    using seek_in [OF s, of "off + o'"] pos inf(2) by simp_all
  have "fst (SREAD 1 (scn_len sz len) (snd (pmelf_seek (off + o') s))) =
      Ok (scn_len sz len, slice_at (unat off + unat o') (unat (scn_len sz len)) (strm_data s))"
    using strm_src.read_in [OF seek(2), of 1 "scn_len sz len"] seek fit inf(1) by simp
  with nw le mem seek(1) show ?thesis
    by (auto simp: pmelf_getscn_def e then_do_Ok then_if0_zero Let_def scn_len_def [symmetric]
        simp del: not_less)
qed

lemma getscn_bounds:
  assumes "shdr_extent (st_clss s) psect = Ok (sz, off)"
    and "fst (pmelf_getscn mok own s psect o' len) = Ok bs"
  shows "unat o' + unat (scn_len sz len) \<le> unat sz"
proof -
  let ?l = "scn_len sz len"
  have "\<not> (o' + ?l < o' \<or> o' + ?l < ?l)" and "\<not> (o' + ?l > sz)"
    using assms
    by (auto simp: pmelf_getscn_def then_do_Ok Let_def scn_len_def [symmetric] split: if_splits)
  then have "unat o' + unat ?l < 2 ^ 64" and "o' + ?l \<le> sz"
    using no_wrap_iff [of o' ?l] by auto
  then show ?thesis by (simp add: word_le_nat_alt unat_add_small)
qed

section \<open>Section groups and relocations\<close>

text \<open>The storage of a section seen as an array of words.\<close>

fun words32 :: "bool \<Rightarrow> bytes \<Rightarrow> u32 list" where
  "words32 lsb (a # b # c # d # r) = host_word lsb [a, b, c, d] # words32 lsb r"
| "words32 lsb _ = []"

fun words64 :: "bool \<Rightarrow> bytes \<Rightarrow> u64 list" where
  "words64 lsb (a # b # c # d # e # f # g # h # r) =
     host_word lsb [a, b, c, d, e, f, g, h] # words64 lsb r"
| "words64 lsb _ = []"

definition store32 :: "bool \<Rightarrow> u32 list \<Rightarrow> bytes" where
  "store32 lsb ws = concat (map (host_bytes lsb 4) ws)"

definition store64 :: "bool \<Rightarrow> u64 list \<Rightarrow> bytes" where
  "store64 lsb ws = concat (map (host_bytes lsb 8) ws)"

definition pmelf_getgrp :: "bool \<Rightarrow> bool \<Rightarrow> bool \<Rightarrow> strm \<Rightarrow> Elf_Shdr \<Rightarrow> u32 list res \<times> strm" where
  "pmelf_getgrp lsb mok own s psect =
     then_do
       (if st_clss s = ELFCLASS64 then
          (case psect of
             S64 h \<Rightarrow> if SHT_GROUP \<noteq> sh_type64 h then Fail 0 else Ok (sh_size64 h)
           | S32 _ \<Rightarrow> UB)
        else if st_clss s = ELFCLASS32 then
          (case psect of
             S32 h \<Rightarrow> if SHT_GROUP \<noteq> sh_type32 h then Fail 0 else Ok (ucast (sh_size32 h))
           | S64 _ \<Rightarrow> UB)
        else Fail 0, s)
     (\<lambda>sh_size s1.
       if sh_size AND (4 - 1) \<noteq> 0 then (Fail 0, s1)
       else
         let ne = sh_size div 4 in
         if ne < 1 then (Fail 0, s1)
         else then_do (pmelf_getscn mok own s1 psect 0 0) (\<lambda>bs s2.
           let ws = words32 lsb bs
           in (Ok (if st_needswap s2 then map elf_swap32 ws else ws), s2)))"

text \<open>
  The entries of a relocation section stay in the buffer. In the 64-bit case the loop over the
  64-bit words is followed by the loop over the 32-bit words.
\<close>

definition swap_entries :: "u8 \<Rightarrow> bool \<Rightarrow> bytes \<Rightarrow> bytes" where
  "swap_entries clss lsb buf =
     (let buf = (if clss = ELFCLASS64 then store64 lsb (map elf_swap64 (words64 lsb buf)) else buf)
      in store32 lsb (map elf_swap32 (words32 lsb buf)))"

definition rel_entsize :: "u8 \<Rightarrow> u32 \<Rightarrow> u64" where
  "rel_entsize clss typ =
     (if clss = ELFCLASS64 then if typ = SHT_REL then 16 else 24
      else if typ = SHT_REL then 8 else 12)"

definition pmelf_getrel :: "bool \<Rightarrow> bool \<Rightarrow> bool \<Rightarrow> strm \<Rightarrow> Elf_Shdr \<Rightarrow> bytes res \<times> strm" where
  "pmelf_getrel lsb mok own s psect =
     then_do
       (if st_clss s = ELFCLASS64 then
          (case psect of
             S64 h \<Rightarrow>
               if SHT_REL \<noteq> sh_type64 h \<and> SHT_RELA \<noteq> sh_type64 h then Fail 0
               else let entsz = rel_entsize ELFCLASS64 (sh_type64 h)
                    in if entsz \<noteq> sh_entsize64 h then Fail 0 else Ok (entsz, sh_size64 h)
           | S32 _ \<Rightarrow> UB)
        else if st_clss s = ELFCLASS32 then
          (case psect of
             S32 h \<Rightarrow>
               if SHT_REL \<noteq> sh_type32 h \<and> SHT_RELA \<noteq> sh_type32 h then Fail 0
               else let entsz = rel_entsize ELFCLASS32 (sh_type32 h)
                    in if entsz \<noteq> ucast (sh_entsize32 h) then Fail 0
                       else Ok (entsz, ucast (sh_size32 h))
           | S64 _ \<Rightarrow> UB)
        else Fail 0, s)
     (\<lambda>(entsz, sh_size) s1.
       if sh_size mod entsz \<noteq> 0 then (Fail 0, s1)
       else
         let ne = sh_size div entsz in
         if ne < 1 then (Fail 0, s1)
         else then_do (pmelf_getscn mok own s1 psect 0 0) (\<lambda>buf s2.
           (Ok (if st_needswap s2 then swap_entries (st_clss s2) lsb buf else buf), s2)))"

lemma length_ge4: "n \<noteq> 0 \<Longrightarrow> length bs = 4 * n \<Longrightarrow>
    \<exists>a b c d r. bs = a # b # c # d # r \<and> length r = 4 * (n - 1)"
  by (cases n) (auto simp: numeral_eq_Suc length_Suc_conv)

lemma length_ge8: "n \<noteq> 0 \<Longrightarrow> length bs = 8 * n \<Longrightarrow>
    \<exists>a b c d e f g h r. bs = a # b # c # d # e # f # g # h # r \<and> length r = 8 * (n - 1)"
  by (cases n) (auto simp: numeral_eq_Suc length_Suc_conv)

lemma words32_store32 [simp]: "words32 lsb (store32 lsb ws) = ws"
proof (induction ws)
  case Nil
  then show ?case by (simp add: store32_def)
next
  case (Cons w ws)
  obtain a b c d where h: "host_bytes lsb 4 w = [a, b, c, d]"
    using list_of_length_4 [of "host_bytes lsb 4 w"] by auto
  then have "host_word lsb [a, b, c, d] = w"
    using host_word_host_bytes [of 4 lsb w] by simp
  with Cons h show ?case by (simp add: store32_def)
qed

lemma words64_store64 [simp]: "words64 lsb (store64 lsb ws) = ws"
proof (induction ws)
  case Nil
  then show ?case by (simp add: store64_def)
next
  case (Cons w ws)
  obtain a b c d e f g i where h: "host_bytes lsb 8 w = [a, b, c, d, e, f, g, i]"
    using list_of_length_8 [of "host_bytes lsb 8 w"] by auto
  then have "host_word lsb [a, b, c, d, e, f, g, i] = w"
    using host_word_host_bytes [of 8 lsb w] by simp
  with Cons h show ?case by (simp add: store64_def)
qed

text \<open>Swapping an array of words is reading it in the other byte order.\<close>

lemma map_swap32_words: "map elf_swap32 (words32 lsb bs) = words32 (\<not> lsb) bs"
  by (induction lsb bs rule: words32.induct) (simp_all add: swap_simps)

lemma map_swap64_words: "map elf_swap64 (words64 lsb bs) = words64 (\<not> lsb) bs"
  by (induction lsb bs rule: words64.induct) (simp_all add: swap_simps)

text \<open>A 64-bit word with its halves exchanged.\<close>

definition swap_halves :: "u64 \<Rightarrow> u64" where
  "swap_halves w = push_bit 32 w OR drop_bit 32 w"

lemma swap_halves_join:
  "swap_halves (ucast (y :: u32) OR push_bit 32 (ucast (x :: u32))) =
     ucast x OR push_bit 32 (ucast y)"
  by (rule bit_word_eqI) (auto simp: swap_halves_def bit_simps dest: bit_imp_le_length)

lemma host_word_8_halves:
  "host_word lsb [e, f, g, h, a, b, c, d :: u8] =
     swap_halves (host_word lsb [a, b, c, d, e, f, g, h])"
  by (cases lsb)
    (simp_all only: host_word_def if_True if_False rev.simps append.simps le_word_8 swap_halves_join)

text \<open>The byte rearrangements of the two loops.\<close>

fun rev4 :: "bytes \<Rightarrow> bytes" where
  "rev4 (a # b # c # d # r) = d # c # b # a # rev4 r"
| "rev4 _ = []"

fun rev8 :: "bytes \<Rightarrow> bytes" where
  "rev8 (a # b # c # d # e # f # g # h # r) = h # g # f # e # d # c # b # a # rev8 r"
| "rev8 _ = []"

lemma host_bytes_swap_word32:
  "host_bytes lsb 4 (elf_swap32 (host_word lsb [a, b, c, d])) = [d, c, b, a]"
  using host_bytes_host_word [of "[a, b, c, d]" 4 "\<not> lsb", where 'a=32]
  by (cases lsb) (simp_all add: swap_simps host_bytes_def rev_swap)

lemma host_bytes_swap_word64:
  "host_bytes lsb 8 (elf_swap64 (host_word lsb [a, b, c, d, e, f, g, h])) = [h, g, f, e, d, c, b, a]"
  using host_bytes_host_word [of "[a, b, c, d, e, f, g, h]" 8 "\<not> lsb", where 'a=64]
  by (cases lsb) (simp_all add: swap_simps host_bytes_def rev_swap)

lemma store32_swap: "store32 lsb (map elf_swap32 (words32 lsb bs)) = rev4 bs"
  by (induction bs rule: rev4.induct) (simp_all add: store32_def host_bytes_swap_word32)

lemma store64_swap: "store64 lsb (map elf_swap64 (words64 lsb bs)) = rev8 bs"
  by (induction bs rule: rev8.induct) (simp_all add: store64_def host_bytes_swap_word64)

lemma words64_rev4_rev8:
  "8 dvd length bs \<Longrightarrow> words64 lsb (rev4 (rev8 bs)) = map swap_halves (words64 lsb bs)"
proof (induction lsb bs rule: words64.induct)
  case (1 lsb a b c d e f g h r)
  have "length (a # b # c # d # e # f # g # h # r) = length r + 8" by simp
  with 1(2) have "8 dvd length r" by presburger
  then show ?case
    using 1(1) by (simp add: host_word_8_halves [of lsb e f g h a b c d])
qed simp_all

text \<open>In the 32-bit case the entries are those of the file.\<close>

lemma swap_entries_32:
  "words32 lsb (swap_entries ELFCLASS32 lsb buf) = words32 (\<not> lsb) buf"
  by (simp add: swap_entries_def map_swap32_words)

text \<open>In the 64-bit case the second loop undoes part of the first: the bytes of the two halves are
  in the order they had in the file.\<close>

lemma swap_entries_64:
  "8 dvd length buf \<Longrightarrow>
     words64 lsb (swap_entries ELFCLASS64 lsb buf) = map swap_halves (words64 lsb buf)"
  by (simp add: swap_entries_def store32_swap store64_swap words64_rev4_rev8)

section \<open>The section header table\<close>

record Pmelf_Shtab =
  sht_shdrs :: "Elf_Shdr list"
  sht_nshdrs :: u32
  sht_strtab :: bytes
  sht_strtablen :: u64
  sht_idx :: u32
  sht_clss :: u8

record Pmelf_Symtab =
  symt_syms :: "Elf_Sym list"
  symt_nsyms :: int
  symt_strtab :: bytes
  symt_strtablen :: u64
  symt_idx :: nat
  symt_clss :: u8

text \<open>The loops that slurp a table: the first failure gives up.\<close>

fun get_all :: "(strm \<Rightarrow> 'h res \<times> strm) \<Rightarrow> nat \<Rightarrow> strm \<Rightarrow> 'h list res \<times> strm" where
  "get_all get 0 s = (Ok [], s)"
| "get_all get (Suc n) s =
     then_do (get s) (\<lambda>h s1. then_do (get_all get n s1) (\<lambda>hs s2. (Ok (h # hs), s2)))"

definition shdr_size :: "u8 \<Rightarrow> Elf_Shdr \<Rightarrow> u64" where
  "shdr_size clss h = (case h of S32 h \<Rightarrow> ucast (sh_size32 h) | S64 h \<Rightarrow> sh_size64 h)"

definition pmelf_getshtab :: "bool \<Rightarrow> (nat \<Rightarrow> bool) \<Rightarrow> strm \<Rightarrow> Elf_Ehdr \<Rightarrow> Pmelf_Shtab res \<times> strm" where
  "pmelf_getshtab lsb mok s eh =
     then_do
       (if st_clss s = ELFCLASS64 then
          (case eh of
             E64 h \<Rightarrow> Ok (e_shoff64 h, ucast (e_shnum64 h) :: u32, ucast (e_shstrndx64 h) :: u32)
           | E32 _ \<Rightarrow> UB)
        else if st_clss s = ELFCLASS32 then
          (case eh of
             E32 h \<Rightarrow> Ok (ucast (e_shoff32 h), ucast (e_shnum32 h), ucast (e_shstrndx32 h))
           | E64 _ \<Rightarrow> UB)
        else Fail 0, s)
     (\<lambda>(e_shoff, e_shnum, e_shstrndx) s1.
       if e_shnum = 0 then (Fail 0, s1)
       else null_on_fail (then_if0 (pmelf_seek e_shoff s1) (\<lambda>s2.
         if \<not> mok 0 then (Fail 0, s2)
         else if \<not> mok 1 then (Fail 0, s2)
         else then_do
           (if st_clss s2 = ELFCLASS64
            then get_all (\<lambda>s. then_do (pmelf_getshdr64 lsb s) (\<lambda>h s. (Ok (S64 h), s))) (unat e_shnum) s2
            else get_all (\<lambda>s. then_do (pmelf_getshdr32 lsb s) (\<lambda>h s. (Ok (S32 h), s))) (unat e_shnum) s2)
         (\<lambda>hs s3.
           if unat e_shstrndx \<ge> length hs then (UB, s3)
           else let strsh = hs ! unat e_shstrndx in
             then_do (pmelf_getscn (mok 2) False s3 strsh 0 0) (\<lambda>strtab s4.
               (Ok \<lparr>sht_shdrs = hs, sht_nshdrs = e_shnum, sht_strtab = strtab,
                    sht_strtablen = shdr_size (st_clss s4) strsh, sht_idx = e_shstrndx,
                    sht_clss = st_clss s4\<rparr>, s4))))))"

section \<open>Names\<close>

text \<open>
  A name is returned as a pointer into the string table, here the offset; the library checks it
  against the length of the table.
\<close>

definition shdr_name :: "Elf_Shdr \<Rightarrow> u32" where
  "shdr_name h = (case h of S32 h \<Rightarrow> sh_name32 h | S64 h \<Rightarrow> sh_name64 h)"

definition pmelf_sec_name :: "Pmelf_Shtab \<Rightarrow> Elf_Shdr \<Rightarrow> nat option" where
  "pmelf_sec_name sht shdr =
     (let sh_name = shdr_name shdr
      in if ucast sh_name > sht_strtablen sht then None else Some (unat sh_name))"

definition sym_name_off :: "Elf_Sym \<Rightarrow> u32" where
  "sym_name_off s = (case s of T32 s \<Rightarrow> st_name32 s | T64 s \<Rightarrow> st_name64 s)"

definition pmelf_sym_name :: "Pmelf_Symtab \<Rightarrow> Elf_Sym \<Rightarrow> nat option" where
  "pmelf_sym_name symt psym =
     (let st_name = sym_name_off psym
      in if ucast st_name > symt_strtablen symt then None else Some (unat st_name))"

text \<open>
  The C string at an offset of a table: the bytes before the next zero, nothing when the table
  ends first. \<open>strcmp\<close> reads up to the first difference.
\<close>

fun cstring :: "bytes \<Rightarrow> bytes option" where
  "cstring [] = None"
| "cstring (b # bs) = (if b = 0 then Some [] else map_option (Cons b) (cstring bs))"

fun strcmp_eq :: "bytes \<Rightarrow> bytes \<Rightarrow> bool res" where
  "strcmp_eq _ [] = UB"
| "strcmp_eq [] (c # cs) = Ok (c = 0)"
| "strcmp_eq (d # ds) (c # cs) = (if c \<noteq> d then Ok False else strcmp_eq ds cs)"

lemma strcmp_eq_cstring:
  "cstring bs = Some n \<Longrightarrow> 0 \<notin> set d \<Longrightarrow> strcmp_eq d bs = Ok (d = n)"
  by (induction d bs arbitrary: n rule: strcmp_eq.induct) (auto split: if_splits)

section \<open>The symbol table\<close>

definition str_bytes :: "string \<Rightarrow> bytes" where
  "str_bytes s = map of_char s"

definition shdr_type :: "Elf_Shdr \<Rightarrow> u32" where
  "shdr_type h = (case h of S32 h \<Rightarrow> sh_type32 h | S64 h \<Rightarrow> sh_type64 h)"

definition shdr_link :: "Elf_Shdr \<Rightarrow> u32" where
  "shdr_link h = (case h of S32 h \<Rightarrow> sh_link32 h | S64 h \<Rightarrow> sh_link64 h)"

definition get_shdrsz :: "Pmelf_Shtab \<Rightarrow> u32" where
  "get_shdrsz sht = (if sht_clss sht = ELFCLASS64 then 64 else 40)"

text \<open>
  The members of a header are read through the member of the union that its constructor says; the
  tables built by \<open>pmelf_getshtab\<close> hold headers of their class only (\<open>shdr_clss_ok\<close>), so that this is
  what the selection by \<open>clss\<close> in \<open>get_sh_type\<close> and its like reads.
  \<open>get_shtabN\<close> multiplies in 32 bits and does not check the index: what it returns is the byte
  offset of a header. \<open>shtab_at\<close> reads through such a pointer; an offset outside the table, or one
  that is not the start of a header, is undefined.
\<close>

definition get_shtabN :: "Pmelf_Shtab \<Rightarrow> u32 \<Rightarrow> u32" where
  "get_shtabN sht idx = idx * get_shdrsz sht"

definition shtab_at :: "Pmelf_Shtab \<Rightarrow> u32 \<Rightarrow> Elf_Shdr res" where
  "shtab_at sht p =
     (let i = unat p div unat (get_shdrsz sht)
      in if unat p mod unat (get_shdrsz sht) = 0 \<and> i < length (sht_shdrs sht)
         then Ok (sht_shdrs sht ! i) else UB)"

fun find_sym_loop ::
    "Pmelf_Shtab \<Rightarrow> u32 \<Rightarrow> bytes \<Rightarrow> Elf_Shdr list \<Rightarrow> nat \<Rightarrow> (nat \<times> u32) option \<Rightarrow> (nat \<times> u32) option res" where
  "find_sym_loop sht destype desname [] i found = Ok found"
| "find_sym_loop sht destype desname (shdr # hs) i found =
     (if shdr_type shdr = destype then
        (case pmelf_sec_name sht shdr of
           None \<Rightarrow> Fail (-1)
         | Some off \<Rightarrow>
             (case strcmp_eq desname (drop off (sht_strtab sht)) of
                Ok True \<Rightarrow>
                  (if found \<noteq> None then Fail (-1)
                   else find_sym_loop sht destype desname hs (Suc i)
                          (Some (i, get_shtabN sht (shdr_link shdr))))
              | Ok False \<Rightarrow> find_sym_loop sht destype desname hs (Suc i) found
              | Fail e \<Rightarrow> Fail e
              | UB \<Rightarrow> UB
              | Hang \<Rightarrow> Hang))
      else find_sym_loop sht destype desname hs (Suc i) found)"

definition get_symsz :: "u8 \<Rightarrow> u32" where
  "get_symsz clss = (if clss = ELFCLASS64 then 24 else 16)"

definition shdr_entsize :: "Elf_Shdr \<Rightarrow> u64" where
  "shdr_entsize h = (case h of S32 h \<Rightarrow> ucast (sh_entsize32 h) | S64 h \<Rightarrow> sh_entsize64 h)"

definition shdr_offset :: "Elf_Shdr \<Rightarrow> u64" where
  "shdr_offset h = (case h of S32 h \<Rightarrow> ucast (sh_offset32 h) | S64 h \<Rightarrow> sh_offset64 h)"

text \<open>
  Delivers the number of symbols, the index of the header of the symbol table and the pointer to
  the header of its string table, and leaves the stream at the first symbol.
\<close>

definition pmelf_find_symhdrs_dyn ::
    "bool \<Rightarrow> strm \<Rightarrow> Pmelf_Shtab \<Rightarrow> (u64 \<times> nat \<times> u32) res \<times> strm" where
  "pmelf_find_symhdrs_dyn dynamic s sht =
     then_do
       (find_sym_loop sht (if dynamic then SHT_DYNSYM else SHT_SYMTAB)
          (str_bytes (if dynamic then ''.dynsym'' else ''.symtab'')) (sht_shdrs sht) 0 None, s)
     (\<lambda>found s1. case found of
         None \<Rightarrow> (Fail (-1), s1)
       | Some (i, strsh) \<Rightarrow>
           let symsh = sht_shdrs sht ! i; symsz = ucast (get_symsz (sht_clss sht));
               sh_size = shdr_size (sht_clss sht) symsh; sh_entsize = shdr_entsize symsh
           in if sh_size = 0 then (Fail (-1), s1)
              else if sh_entsize \<noteq> 0 \<and> sh_entsize \<noteq> symsz then (Fail (-1), s1)
              else if sh_size mod symsz \<noteq> 0 then (Fail (-1), s1)
              else then_if0 (pmelf_seek (shdr_offset symsh) s1) (\<lambda>s2.
                (Ok (sh_size div symsz, i, strsh), s2)))"

definition pmelf_find_symhdrs where "pmelf_find_symhdrs = pmelf_find_symhdrs_dyn False"
definition pmelf_find_dsymhdrs where "pmelf_find_dsymhdrs = pmelf_find_symhdrs_dyn True"

definition getsymtab_dyn ::
    "bool \<Rightarrow> bool \<Rightarrow> (nat \<Rightarrow> bool) \<Rightarrow> strm \<Rightarrow> Pmelf_Shtab \<Rightarrow> Pmelf_Symtab res \<times> strm" where
  "getsymtab_dyn dynamic lsb mok s sht =
     null_on_fail (then_do
       (if dynamic then pmelf_find_dsymhdrs s sht else pmelf_find_symhdrs s sht)
     (\<lambda>(n, i, strsh) s1.
       if sint n < 0 then (Fail 0, s1)
       else if \<not> mok 0 then (Fail 0, s1)
       else if n = 0 then (Fail 0, s1)
       else if \<not> mok 1 then (Fail 0, s1)
       else then_do
         (if sht_clss sht = ELFCLASS64
          then get_all (\<lambda>s. then_do (pmelf_getsym64 lsb s) (\<lambda>h s. (Ok (T64 h), s))) (unat n) s1
          else get_all (\<lambda>s. then_do (pmelf_getsym32 lsb s) (\<lambda>h s. (Ok (T32 h), s))) (unat n) s1)
       (\<lambda>syms s2.
         then_do (shtab_at sht strsh, s2) (\<lambda>str s3.
         then_do (pmelf_getscn (mok 2) False s3 str 0 0) (\<lambda>strtab s4.
           (Ok \<lparr>symt_syms = syms, symt_nsyms = sint n, symt_strtab = strtab,
                symt_strtablen = shdr_size (sht_clss sht) str, symt_idx = i,
                symt_clss = sht_clss sht\<rparr>, s4))))))"

definition pmelf_getsymtab where "pmelf_getsymtab = getsymtab_dyn False"
definition pmelf_getdsymtab where "pmelf_getdsymtab = getsymtab_dyn True"

section \<open>What the tables contain\<close>

context wire_struct begin

abbreviation get_as :: "bool \<Rightarrow> ('h \<Rightarrow> 'c) \<Rightarrow> strm \<Rightarrow> 'c res \<times> strm" where
  "get_as lsb C \<equiv> (\<lambda>s. then_do (get_struct sz img swap lsb s) (\<lambda>h s. (Ok (C h), s)))"

lemma get_as_ok:
  assumes "strm_ok s" and "st_needswap s = (lsb \<noteq> le)" and "strm_pos s + unat sz \<le> length (strm_data s)"
  shows "get_as lsb C s =
    (Ok (C (img le (slice_at (strm_pos s) (unat sz) (strm_data s)))), snd (sread1 sz s))"
  using get_refines [OF assms(1,2)] assms(3)
  by (simp add: then_do_Ok get_state del: snd_sread1)

lemma get_all_ok:
  assumes "strm_ok s" and "st_needswap s = (lsb \<noteq> le)"
    and "strm_pos s + n * unat sz \<le> length (strm_data s)"
  shows "fst (get_all (get_as lsb C) n s) =
      Ok (map (\<lambda>i. C (img le (slice_at (strm_pos s + i * unat sz) (unat sz) (strm_data s)))) [0..<n])
    \<and> strm_ok (snd (get_all (get_as lsb C) n s))
    \<and> strm_data (snd (get_all (get_as lsb C) n s)) = strm_data s
    \<and> st_needswap (snd (get_all (get_as lsb C) n s)) = st_needswap s
    \<and> st_clss (snd (get_all (get_as lsb C) n s)) = st_clss s"
  using assms
proof (induction n arbitrary: s)
  case 0
  then show ?case by simp
next
  case (Suc n)
  let ?s1 = "snd (sread1 sz s)"
  have fit: "strm_pos s + unat sz \<le> length (strm_data s)" using Suc.prems(3) by simp
  note rd = sread1_in [OF Suc.prems(1) sz_pos fit]
  have "strm_pos ?s1 + n * unat sz \<le> length (strm_data ?s1)"
    using Suc.prems(3) rd by (simp del: snd_sread1)
  moreover have "st_needswap ?s1 = (lsb \<noteq> le)" using Suc.prems(2) by simp
  ultimately have IH: "fst (get_all (get_as lsb C) n ?s1) =
      Ok (map (\<lambda>i. C (img le (slice_at (strm_pos ?s1 + i * unat sz) (unat sz) (strm_data ?s1)))) [0..<n])
    \<and> strm_ok (snd (get_all (get_as lsb C) n ?s1))
    \<and> strm_data (snd (get_all (get_as lsb C) n ?s1)) = strm_data ?s1
    \<and> st_needswap (snd (get_all (get_as lsb C) n ?s1)) = st_needswap ?s1
    \<and> st_clss (snd (get_all (get_as lsb C) n ?s1)) = st_clss ?s1"
    using Suc.IH [of ?s1] rd(2) by blast
  have step: "get_all (get_as lsb C) (Suc n) s =
      then_do (get_all (get_as lsb C) n ?s1) (\<lambda>hs s2.
        (Ok (C (img le (slice_at (strm_pos s) (unat sz) (strm_data s))) # hs), s2))"
    using get_as_ok [OF Suc.prems(1,2) fit, of C] by (simp add: then_do_Ok del: snd_sread1)
  have "st_needswap ?s1 = st_needswap s" and "st_clss ?s1 = st_clss s" by simp_all
  then show ?case
    using IH rd unfolding step
    by (simp add: then_do_Ok map_upt_Suc ac_simps del: upt_Suc snd_sread1)
qed

end

lemma unat_ucast_widen [simp]:
  "unat (ucast (x :: u32) :: u64) = unat x" "unat (ucast (y :: u16) :: u32) = unat y"
  "unat (ucast (z :: u16) :: u64) = unat z"
  using unsigned_less [of x, where 'a=nat] unsigned_less [of y, where 'a=nat]
    unsigned_less [of z, where 'a=nat]
  by (simp_all add: unsigned_ucast_eq take_bit_nat_eq_self)

lemma ucast_widen_0 [simp]:
  "ucast (x :: u32) = (0 :: u64) \<longleftrightarrow> x = 0" "ucast (y :: u16) = (0 :: u32) \<longleftrightarrow> y = 0"
  by (simp_all add: unat_eq_zero [symmetric] del: unat_eq_zero)

lemma slice_at_slice_at: "i + n \<le> m \<Longrightarrow> slice_at i n (slice_at off m d) = slice_at (off + i) n d"
  by (simp add: slice_at_def drop_take min_def add.commute)

text \<open>The section headers a file has at an offset, in the byte order of the file.\<close>

definition file_shdrs32 :: "bool \<Rightarrow> bytes \<Rightarrow> nat \<Rightarrow> nat \<Rightarrow> Elf_Shdr list" where
  "file_shdrs32 le d off n = map (\<lambda>i. S32 (image_shdr32 le (slice_at (off + i * 40) 40 d))) [0..<n]"

definition file_shdrs64 :: "bool \<Rightarrow> bytes \<Rightarrow> nat \<Rightarrow> nat \<Rightarrow> Elf_Shdr list" where
  "file_shdrs64 le d off n = map (\<lambda>i. S64 (image_shdr64 le (slice_at (off + i * 64) 64 d))) [0..<n]"

lemma getshtab32_contents:
  assumes s: "strm_ok s" "st_clss s = ELFCLASS32" "st_needswap s = (lsb \<noteq> le)"
    and h: "e_shnum32 h \<noteq> 0" "e_shstrndx32 h < e_shnum32 h"
    and fit: "unat (e_shoff32 h) + unat (e_shnum32 h) * 40 \<le> length (strm_data s)"
    and hs: "hs = file_shdrs32 le (strm_data s) (unat (e_shoff32 h)) (unat (e_shnum32 h))"
    and str: "hs ! unat (e_shstrndx32 h) = S32 sh"
    and strfit: "unat (sh_offset32 sh) + unat (sh_size32 sh) \<le> length (strm_data s)"
      "unat (sh_offset32 sh) < length (strm_data s)"
    and mok: "\<And>i. mok i"
  shows "fst (pmelf_getshtab lsb mok s (E32 h)) =
    Ok \<lparr>sht_shdrs = hs, sht_nshdrs = ucast (e_shnum32 h),
        sht_strtab = slice_at (unat (sh_offset32 sh)) (unat (sh_size32 sh)) (strm_data s),
        sht_strtablen = ucast (sh_size32 sh), sht_idx = ucast (e_shstrndx32 h), sht_clss = ELFCLASS32\<rparr>"
proof -
  let ?s2 = "snd (pmelf_seek (ucast (e_shoff32 h)) s)"
  have pos: "unat (e_shoff32 h) < length (strm_data s)"
    using fit h(1) by (simp add: unat_eq_zero [symmetric] del: unat_eq_zero)
  note sk = seek_in [OF s(1), of "ucast (e_shoff32 h)", simplified, OF pos]
  have sw: "st_needswap ?s2 = (lsb \<noteq> le)" "st_clss ?s2 = ELFCLASS32" using s by simp_all
  have fit2: "strm_pos ?s2 + unat (e_shnum32 h) * unat (40 :: u64) \<le> length (strm_data ?s2)"
    using fit sk by simp
  note all = shdr32.get_all_ok [OF sk(2) sw(1) fit2, of S32, folded pmelf_getshdr32_def]
  let ?s3 = "snd (get_all (\<lambda>s. then_do (pmelf_getshdr32 lsb s) (\<lambda>h s. (Ok (S32 h), s)))
    (unat (e_shnum32 h)) ?s2)"
  have hs': "fst (get_all (\<lambda>s. then_do (pmelf_getshdr32 lsb s) (\<lambda>h s. (Ok (S32 h), s)))
      (unat (e_shnum32 h)) ?s2) = Ok hs"
    using all sk by (simp add: hs file_shdrs32_def)
  have s3: "strm_ok ?s3" "strm_data ?s3 = strm_data s" "st_clss ?s3 = ELFCLASS32"
    using all sk sw by simp_all
  have len: "unat (e_shstrndx32 h) < length hs"
    using h(2) by (simp add: hs file_shdrs32_def word_less_nat_alt)
  have scn: "fst (pmelf_getscn (mok 2) False ?s3 (S32 sh) 0 0) =
      Ok (slice_at (unat (sh_offset32 sh)) (unat (sh_size32 sh)) (strm_data s))"
    using getscn_in [OF s3(1), of "S32 sh" "ucast (sh_size32 sh)" "ucast (sh_offset32 sh)" 0 0 False "mok 2"]
      strfit s3 mok by (simp add: shdr_extent_def scn_len_def)
  have st4: "st_clss (snd (pmelf_getscn (mok 2) False ?s3 (S32 sh) 0 0)) = ELFCLASS32"
    using s3(3) by simp
  show ?thesis
    using s(2) h(1) sk(1) sw hs' len scn st4 mok str
    by (simp add: pmelf_getshtab_def then_do_Ok then_if0_zero shdr_size_def Let_def)
qed

lemma getshtab64_contents:
  assumes s: "strm_ok s" "st_clss s = ELFCLASS64" "st_needswap s = (lsb \<noteq> le)"
    and h: "e_shnum64 h \<noteq> 0" "e_shstrndx64 h < e_shnum64 h"
    and fit: "unat (e_shoff64 h) + unat (e_shnum64 h) * 64 \<le> length (strm_data s)"
    and hs: "hs = file_shdrs64 le (strm_data s) (unat (e_shoff64 h)) (unat (e_shnum64 h))"
    and str: "hs ! unat (e_shstrndx64 h) = S64 sh"
    and strfit: "unat (sh_offset64 sh) + unat (sh_size64 sh) \<le> length (strm_data s)"
      "unat (sh_offset64 sh) < length (strm_data s)"
    and mok: "\<And>i. mok i"
  shows "fst (pmelf_getshtab lsb mok s (E64 h)) =
    Ok \<lparr>sht_shdrs = hs, sht_nshdrs = ucast (e_shnum64 h),
        sht_strtab = slice_at (unat (sh_offset64 sh)) (unat (sh_size64 sh)) (strm_data s),
        sht_strtablen = sh_size64 sh, sht_idx = ucast (e_shstrndx64 h), sht_clss = ELFCLASS64\<rparr>"
proof -
  let ?s2 = "snd (pmelf_seek (e_shoff64 h) s)"
  have pos: "unat (e_shoff64 h) < length (strm_data s)"
    using fit h(1) by (simp add: unat_eq_zero [symmetric] del: unat_eq_zero)
  note sk = seek_in [OF s(1), of "e_shoff64 h", OF pos]
  have sw: "st_needswap ?s2 = (lsb \<noteq> le)" "st_clss ?s2 = ELFCLASS64" using s by simp_all
  have fit2: "strm_pos ?s2 + unat (e_shnum64 h) * unat (64 :: u64) \<le> length (strm_data ?s2)"
    using fit sk by simp
  note all = shdr64.get_all_ok [OF sk(2) sw(1) fit2, of S64, folded pmelf_getshdr64_def]
  let ?s3 = "snd (get_all (\<lambda>s. then_do (pmelf_getshdr64 lsb s) (\<lambda>h s. (Ok (S64 h), s)))
    (unat (e_shnum64 h)) ?s2)"
  have hs': "fst (get_all (\<lambda>s. then_do (pmelf_getshdr64 lsb s) (\<lambda>h s. (Ok (S64 h), s)))
      (unat (e_shnum64 h)) ?s2) = Ok hs"
    using all sk by (simp add: hs file_shdrs64_def)
  have s3: "strm_ok ?s3" "strm_data ?s3 = strm_data s" "st_clss ?s3 = ELFCLASS64"
    using all sk sw by simp_all
  have len: "unat (e_shstrndx64 h) < length hs"
    using h(2) by (simp add: hs file_shdrs64_def word_less_nat_alt)
  have scn: "fst (pmelf_getscn (mok 2) False ?s3 (S64 sh) 0 0) =
      Ok (slice_at (unat (sh_offset64 sh)) (unat (sh_size64 sh)) (strm_data s))"
    using getscn_in [OF s3(1), of "S64 sh" "sh_size64 sh" "sh_offset64 sh" 0 0 False "mok 2"]
      strfit s3 mok by (simp add: shdr_extent_def scn_len_def)
  have st4: "st_clss (snd (pmelf_getscn (mok 2) False ?s3 (S64 sh) 0 0)) = ELFCLASS64"
    using s3(3) by simp
  show ?thesis
    using s(2) h(1) sk(1) sw hs' len scn st4 mok str
    by (simp add: pmelf_getshtab_def then_do_Ok then_if0_zero shdr_size_def Let_def)
qed

section \<open>Finding the symbol table\<close>

text \<open>A header is the one that is looked for when it has the type and its name is the given one.\<close>

definition is_symhdr :: "Pmelf_Shtab \<Rightarrow> u32 \<Rightarrow> bytes \<Rightarrow> Elf_Shdr \<Rightarrow> bool" where
  "is_symhdr sht ty nm h \<longleftrightarrow> shdr_type h = ty \<and>
     (case pmelf_sec_name sht h of
        None \<Rightarrow> False
      | Some off \<Rightarrow> strcmp_eq nm (drop off (sht_strtab sht)) = Ok True)"

lemma find_sym_loop_found:
  assumes "find_sym_loop sht ty nm hs i (Some f) = Ok r"
  shows "r = Some f \<and> (\<forall>h\<in>set hs. \<not> is_symhdr sht ty nm h)"
  using assms
proof (induction hs arbitrary: i)
  case (Cons h hs)
  then have "find_sym_loop sht ty nm hs (Suc i) (Some f) = Ok r" and "\<not> is_symhdr sht ty nm h"
    by (auto simp: is_symhdr_def split: if_splits option.splits res.splits bool.splits)
  with Cons.IH show ?case by auto
qed simp

lemma find_sym_loop_sound:
  assumes "find_sym_loop sht ty nm hs i None = Ok (Some (j, p))"
  shows "\<exists>k<length hs. j = i + k \<and> is_symhdr sht ty nm (hs ! k) \<and>
    p = get_shtabN sht (shdr_link (hs ! k)) \<and>
    (\<forall>m<length hs. is_symhdr sht ty nm (hs ! m) \<longrightarrow> m = k)"
  using assms
proof (induction hs arbitrary: i)
  case Nil
  then show ?case by simp
next
  case (Cons h hs)
  show ?case
  proof (cases "is_symhdr sht ty nm h")
    case True
    then have "find_sym_loop sht ty nm hs (Suc i) (Some (i, get_shtabN sht (shdr_link h))) =
        Ok (Some (j, p))"
      using Cons.prems by (auto simp: is_symhdr_def split: option.splits)
    from find_sym_loop_found [OF this] True show ?thesis
      by (intro exI [of _ 0]) (auto simp: nth_Cons split: nat.splits)
  next
    case False
    then have "find_sym_loop sht ty nm hs (Suc i) None = Ok (Some (j, p))"
      using Cons.prems
      by (auto simp: is_symhdr_def split: option.splits res.splits if_splits bool.splits)
    from Cons.IH [OF this] False show ?thesis
      by (auto simp: nth_Cons split: nat.splits)
  qed
qed

text \<open>The symbols a file has at an offset, in the byte order of the file.\<close>

definition file_syms32 :: "bool \<Rightarrow> bytes \<Rightarrow> nat \<Rightarrow> nat \<Rightarrow> Elf_Sym list" where
  "file_syms32 le d off n = map (\<lambda>i. T32 (image_sym32 le (slice_at (off + i * 16) 16 d))) [0..<n]"

definition file_syms64 :: "bool \<Rightarrow> bytes \<Rightarrow> nat \<Rightarrow> nat \<Rightarrow> Elf_Sym list" where
  "file_syms64 le d off n = map (\<lambda>i. T64 (image_sym64 le (slice_at (off + i * 24) 24 d))) [0..<n]"

context wire_struct begin

lemma get_all_OkD:
  assumes "strm_ok s" and "st_needswap s = (lsb \<noteq> le)" and "fst (get_all (get_as lsb C) n s) = Ok hs"
  shows "n = 0 \<or> strm_pos s + n * unat sz \<le> length (strm_data s)"
  using assms
proof (induction n arbitrary: s hs)
  case 0
  then show ?case by simp
next
  case (Suc n)
  have g: "fst (get_struct sz img swap lsb s) =
      (if strm_pos s + unat sz \<le> length (strm_data s)
       then Ok (img le (slice_at (strm_pos s) (unat sz) (strm_data s))) else Fail (-1))"
    by (rule get_refines [OF Suc.prems(1,2)])
  have fit: "strm_pos s + unat sz \<le> length (strm_data s)"
    using Suc.prems(3) g by (auto simp: fst_then_do split: if_splits res.splits)
  note rd = sread1_in [OF Suc.prems(1) sz_pos fit]
  let ?s1 = "snd (sread1 sz s)"
  have "\<exists>hs'. fst (get_all (get_as lsb C) n ?s1) = Ok hs'"
    using Suc.prems(3) get_as_ok [OF Suc.prems(1,2) fit, of C]
    by (auto simp: then_do_Ok fst_then_do simp del: snd_sread1 split: res.splits)
  then obtain hs' where "fst (get_all (get_as lsb C) n ?s1) = Ok hs'" by blast
  then have "n = 0 \<or> strm_pos ?s1 + n * unat sz \<le> length (strm_data ?s1)"
    using Suc.IH [of ?s1 hs'] rd Suc.prems(2) by simp
  then show ?case using rd fit by auto
qed

lemma get_all_contents:
  assumes "strm_ok s" and "st_needswap s = (lsb \<noteq> le)" and "fst (get_all (get_as lsb C) n s) = Ok hs"
  shows "hs = map (\<lambda>i. C (img le (slice_at (strm_pos s + i * unat sz) (unat sz) (strm_data s)))) [0..<n]"
  using get_all_OkD [OF assms] get_all_ok [OF assms(1,2), of n C] assms(3) by auto

end

text \<open>Reading nothing delivers nothing.\<close>

lemma SREAD_zero: "fst (SREAD 1 0 s) = Ok (k, bs) \<Longrightarrow> bs = []"
  by (auto simp: SREAD_def file_read_def mrd_def slice_at_def Let_def
      split: stream_obj.splits if_splits)

lemma getscn_contents:
  assumes s: "strm_ok s" and e: "shdr_extent (st_clss s) psect = Ok (sz, off)"
    and ok: "fst (pmelf_getscn mok own s psect o' len) = Ok bs"
    and small: "unat (scn_len sz len) < 2 ^ 63"
  shows "bs = slice_at (unat (off + o')) (unat (scn_len sz len)) (strm_data s)"
    and "scn_len sz len \<noteq> 0 \<Longrightarrow> unat (off + o') + unat (scn_len sz len) \<le> length (strm_data s)"
proof -
  let ?l = "scn_len sz len" and ?s2 = "snd (pmelf_seek (off + o') s)"
  have sk: "fst (pmelf_seek (off + o') s) = 0"
    and rd: "fst (SREAD 1 ?l ?s2) = Ok (?l, bs)"
    using ok by (auto simp: pmelf_getscn_def e then_do_Ok Let_def scn_len_def [symmetric] fst_then_do
        then_if0_def split: if_splits res.splits prod.splits)
  note ok2 = strm_src.seek_ok [OF s sk]
  have fit: "?l \<noteq> 0 \<Longrightarrow> unat (off + o') + unat ?l \<le> length (strm_data s)"
  proof (rule ccontr)
    assume "?l \<noteq> 0" and "\<not> unat (off + o') + unat ?l \<le> length (strm_data s)"
    then show False
      using strm_src.read_out [of ?s2 1 ?l] ok2 small rd by (auto simp: word_gt_0)
  qed
  then show "?l \<noteq> 0 \<Longrightarrow> unat (off + o') + unat ?l \<le> length (strm_data s)" .
  show "bs = slice_at (unat (off + o')) (unat ?l) (strm_data s)"
  proof (cases "?l = 0")
    case True
    then show ?thesis using SREAD_zero [of ?s2 ?l bs] rd by (simp add: slice_at_def)
  next
    case False
    then show ?thesis
      using strm_src.read_in [of ?s2 1 ?l] ok2 fit rd by simp
  qed
qed

definition shdr_clss_ok :: "u8 \<Rightarrow> Elf_Shdr \<Rightarrow> bool" where
  "shdr_clss_ok c h \<longleftrightarrow> (case h of S32 _ \<Rightarrow> c = ELFCLASS32 | S64 _ \<Rightarrow> c = ELFCLASS64)"

lemma shdr_extent_ok:
  "shdr_clss_ok c h \<Longrightarrow> shdr_extent c h = Ok (shdr_size c h, shdr_offset h)"
  by (auto simp: shdr_clss_ok_def shdr_extent_def shdr_size_def shdr_offset_def split: Elf_Shdr.splits)

text \<open>The steps of a successful look-up.\<close>

lemma find_symhdrs_OkD:
  assumes "fst (pmelf_find_symhdrs_dyn dyn s sht) = Ok (n, i, p)"
  shows "find_sym_loop sht (if dyn then SHT_DYNSYM else SHT_SYMTAB)
      (str_bytes (if dyn then ''.dynsym'' else ''.symtab'')) (sht_shdrs sht) 0 None = Ok (Some (i, p))"
    and "n = shdr_size (sht_clss sht) (sht_shdrs sht ! i) div ucast (get_symsz (sht_clss sht))"
    and "shdr_size (sht_clss sht) (sht_shdrs sht ! i) mod ucast (get_symsz (sht_clss sht)) = 0"
    and "shdr_size (sht_clss sht) (sht_shdrs sht ! i) \<noteq> 0"
    and "fst (pmelf_seek (shdr_offset (sht_shdrs sht ! i)) s) = 0"
    and "snd (pmelf_find_symhdrs_dyn dyn s sht) = snd (pmelf_seek (shdr_offset (sht_shdrs sht ! i)) s)"
proof -
  let ?loop = "find_sym_loop sht (if dyn then SHT_DYNSYM else SHT_SYMTAB)
      (str_bytes (if dyn then ''.dynsym'' else ''.symtab'')) (sht_shdrs sht) 0 None"
  let ?sk = "\<lambda>i. pmelf_seek (shdr_offset (sht_shdrs sht ! i)) s"
  obtain i' p' where l: "?loop = Ok (Some (i', p'))"
    using assms
    by (cases ?loop) (auto simp: pmelf_find_symhdrs_dyn_def then_do_def split: option.splits)
  let ?rest = "let symsh = sht_shdrs sht ! i'; symsz = ucast (get_symsz (sht_clss sht));
               sh_size = shdr_size (sht_clss sht) symsh; sh_entsize = shdr_entsize symsh
           in if sh_size = 0 then (Fail (-1), s)
              else if sh_entsize \<noteq> 0 \<and> sh_entsize \<noteq> symsz then (Fail (-1), s)
              else if sh_size mod symsz \<noteq> 0 then (Fail (-1), s)
              else then_if0 (?sk i') (\<lambda>s2. (Ok (sh_size div symsz, i', p'), s2))"
  have r: "pmelf_find_symhdrs_dyn dyn s sht = ?rest"
    unfolding pmelf_find_symhdrs_dyn_def l by (simp add: then_do_def)
  have c: "fst (?sk i') = 0"
    "shdr_size (sht_clss sht) (sht_shdrs sht ! i') \<noteq> 0"
    "shdr_size (sht_clss sht) (sht_shdrs sht ! i') mod ucast (get_symsz (sht_clss sht)) = 0"
    using assms unfolding r Let_def then_if0_def by (auto split: if_splits prod.splits)
  then have "?rest = (Ok (shdr_size (sht_clss sht) (sht_shdrs sht ! i') div
      ucast (get_symsz (sht_clss sht)), i', p'), snd (?sk i'))"
    using assms unfolding r Let_def
    by (auto simp: then_if0_zero split: if_splits)
  with assms r have e: "i = i'" "p = p'" and
    n: "n = shdr_size (sht_clss sht) (sht_shdrs sht ! i') div ucast (get_symsz (sht_clss sht))"
    and st: "snd (pmelf_find_symhdrs_dyn dyn s sht) = snd (?sk i')"
    by auto
  show "?loop = Ok (Some (i, p))" using l e by simp
  show "n = shdr_size (sht_clss sht) (sht_shdrs sht ! i) div ucast (get_symsz (sht_clss sht))"
    using n e by simp
  show "shdr_size (sht_clss sht) (sht_shdrs sht ! i) mod ucast (get_symsz (sht_clss sht)) = 0"
    using c e by simp
  show "shdr_size (sht_clss sht) (sht_shdrs sht ! i) \<noteq> 0" using c e by simp
  show "fst (?sk i) = 0" using c e by simp
  show "snd (pmelf_find_symhdrs_dyn dyn s sht) = snd (?sk i)" using st e by simp
qed

definition file_syms :: "u8 \<Rightarrow> bool \<Rightarrow> bytes \<Rightarrow> nat \<Rightarrow> nat \<Rightarrow> Elf_Sym list" where
  "file_syms c le d off n =
     (if c = ELFCLASS64 then file_syms64 le d off n else file_syms32 le d off n)"

lemma getsymtab_contents:
  assumes s: "strm_ok s" "st_clss s = sht_clss sht" "st_needswap s = (lsb \<noteq> le)"
    and ok: "fst (getsymtab_dyn dyn lsb mok s sht) = Ok t"
  shows "\<exists>k n. k < length (sht_shdrs sht)
    \<and> (\<forall>m<length (sht_shdrs sht).
         is_symhdr sht (if dyn then SHT_DYNSYM else SHT_SYMTAB)
           (str_bytes (if dyn then ''.dynsym'' else ''.symtab'')) (sht_shdrs sht ! m) \<longleftrightarrow> m = k)
    \<and> symt_idx t = k \<and> symt_clss t = sht_clss sht
    \<and> 0 < n \<and> symt_nsyms t = int n
    \<and> unat (shdr_size (sht_clss sht) (sht_shdrs sht ! k)) = n * unat (get_symsz (sht_clss sht))
    \<and> symt_syms t = file_syms (sht_clss sht) le (strm_data s) (unat (shdr_offset (sht_shdrs sht ! k))) n"
proof -
  let ?hs = "sht_shdrs sht" and ?c = "sht_clss sht"
  let ?f = "pmelf_find_symhdrs_dyn dyn s sht"
  have fdyn: "(if dyn then pmelf_find_dsymhdrs s sht else pmelf_find_symhdrs s sht) = ?f"
    by (simp add: pmelf_find_dsymhdrs_def pmelf_find_symhdrs_def)
  let ?get = "\<lambda>n s. if ?c = ELFCLASS64
      then get_all (\<lambda>s. then_do (pmelf_getsym64 lsb s) (\<lambda>h s. (Ok (T64 h), s))) (unat (n :: u64)) s
      else get_all (\<lambda>s. then_do (pmelf_getsym32 lsb s) (\<lambda>h s. (Ok (T32 h), s))) (unat n) s"
  obtain n i p syms where f: "fst ?f = Ok (n, i, p)" and n: "\<not> sint n < 0" "n \<noteq> 0"
    and g: "fst (?get n (snd ?f)) = Ok syms"
    and t: "symt_syms t = syms" "symt_nsyms t = sint n" "symt_idx t = i" "symt_clss t = ?c"
    using ok unfolding getsymtab_dyn_def fdyn
    by (auto simp: fst_then_do snd_then_do split: res.splits if_splits)
  note fd = find_symhdrs_OkD [OF f]
  obtain k where k: "k < length ?hs" "i = k"
    "\<And>m. m < length ?hs \<Longrightarrow> is_symhdr sht (if dyn then SHT_DYNSYM else SHT_SYMTAB)
           (str_bytes (if dyn then ''.dynsym'' else ''.symtab'')) (?hs ! m) \<longleftrightarrow> m = k"
    using find_sym_loop_sound [OF fd(1)] by auto
  note sk = strm_src.seek_ok [OF s(1) fd(5)]
  let ?s1 = "snd (pmelf_seek (shdr_offset (?hs ! i)) s)"
  have sw: "st_needswap ?s1 = (lsb \<noteq> le)" using s(3) by simp
  have "syms = file_syms ?c le (strm_data s) (unat (shdr_offset (?hs ! i))) (unat n)"
  proof (cases "?c = ELFCLASS64")
    case True
    then show ?thesis
      using sym64.get_all_contents [OF sk [THEN conjunct1] sw, of T64 "unat n" syms] g fd(6) sk
      by (simp add: pmelf_getsym64_def file_syms_def file_syms64_def)
  next
    case False
    then show ?thesis
      using sym32.get_all_contents [OF sk [THEN conjunct1] sw, of T32 "unat n" syms] g fd(6) sk
      by (simp add: pmelf_getsym32_def file_syms_def file_syms32_def)
  qed
  moreover have "unat (shdr_size ?c (?hs ! i)) = unat n * unat (get_symsz ?c)"
  proof -
    have sz: "unat (ucast (get_symsz ?c) :: u64) = unat (get_symsz ?c)" by simp
    have "unat (shdr_size ?c (?hs ! i)) mod unat (get_symsz ?c) = 0"
      using fd(3) by (metis sz unat_mod unat_0)
    moreover have "unat n = unat (shdr_size ?c (?hs ! i)) div unat (get_symsz ?c)"
      using fd(2) by (metis sz unat_div)
    ultimately show ?thesis by (metis div_mult_mod_eq add_0_right)
  qed
  moreover have "sint n = int (unat n)"
    using n(1) by (rule sint_nonneg_eq)
  ultimately show ?thesis
    using k t n(2)
    by (intro exI [of _ k] exI [of _ "unat n"]) (auto simp: unat_gt_0)
qed

section \<open>What relocation sections and groups contain\<close>

lemma words32_same: "lsb = le \<Longrightarrow> words32 lsb bs = words32 le bs"
  by simp

lemma scn_len_0 [simp]: "scn_len sz 0 = sz"
  by (simp add: scn_len_def)

lemma getscn_whole32:
  assumes "strm_ok s" and "st_clss s = ELFCLASS32" and "fst (pmelf_getscn mok own s (S32 h) 0 0) = Ok bs"
  shows "bs = slice_at (unat (sh_offset32 h)) (unat (sh_size32 h)) (strm_data s)"
proof -
  have "unat (sh_size32 h) < 2 ^ 63" using unsigned_less [of "sh_size32 h", where 'a=nat] by simp
  then show ?thesis
    using getscn_contents(1) [OF assms(1), of "S32 h" "ucast (sh_size32 h)" "ucast (sh_offset32 h)" mok own 0 0 bs]
      assms(2,3) by (simp add: shdr_extent_def)
qed

lemma getrel32_contents:
  assumes s: "strm_ok s" "st_clss s = ELFCLASS32" "st_needswap s = (lsb \<noteq> le)"
    and ok: "fst (pmelf_getrel lsb mok own s (S32 h)) = Ok buf"
  shows "words32 lsb buf =
    words32 le (slice_at (unat (sh_offset32 h)) (unat (sh_size32 h)) (strm_data s))"
proof -
  obtain bs where b: "fst (pmelf_getscn mok own s (S32 h) 0 0) = Ok bs"
    and buf: "buf = (if st_needswap s then swap_entries ELFCLASS32 lsb bs else bs)"
    using ok s(2) unfolding pmelf_getrel_def
    by (auto simp: fst_then_do Let_def split: res.splits if_splits)
  then show ?thesis
    using getscn_whole32 [OF s(1,2) b] s(3) swap_entries_32 [of lsb bs] by (cases le; cases lsb) auto
qed

lemma getrel64_contents:
  assumes s: "strm_ok s" "st_clss s = ELFCLASS64"
    and ok: "fst (pmelf_getrel lsb mok own s (S64 h)) = Ok buf"
    and small: "unat (sh_size64 h) < 2 ^ 63"
  shows "words64 lsb buf =
    (let ws = words64 lsb (slice_at (unat (sh_offset64 h)) (unat (sh_size64 h)) (strm_data s))
     in if st_needswap s then map swap_halves ws else ws)"
proof -
  obtain bs where b: "fst (pmelf_getscn mok own s (S64 h) 0 0) = Ok bs"
    and buf: "buf = (if st_needswap s then swap_entries ELFCLASS64 lsb bs else bs)"
    and mult: "sh_size64 h mod rel_entsize ELFCLASS64 (sh_type64 h) = 0"
    using ok s(2) unfolding pmelf_getrel_def
    by (auto simp: fst_then_do Let_def split: res.splits if_splits)
  have e: "shdr_extent (st_clss s) (S64 h) = Ok (sh_size64 h, sh_offset64 h)"
    using s(2) by (simp add: shdr_extent_def)
  note c = getscn_contents [OF s(1) e b, simplified, OF small [simplified]]
  have "unat (sh_size64 h) mod unat (rel_entsize ELFCLASS64 (sh_type64 h)) = 0"
    using mult by (metis unat_mod unat_0)
  moreover have "8 dvd unat (rel_entsize ELFCLASS64 (sh_type64 h))" by (simp add: rel_entsize_def)
  ultimately have "8 dvd unat (sh_size64 h)" by (meson dvd_trans mod_eq_0_iff_dvd)
  moreover have "length bs = unat (sh_size64 h)"
    using c by (cases "sh_size64 h = 0") (auto simp: slice_at_def)
  ultimately show ?thesis
    using c(1) buf swap_entries_64 [of bs lsb] by (auto simp: Let_def)
qed

end
