(* ===== verification/ElfFile.thy ===== *)
theory ElfFile imports ElfTables begin

text \<open>
  What the readers of \<open>pmbfd\<close> promise to a program that opens an ELF file: the tables they deliver
  are functions of the bytes of the file, whatever the byte order of the host, and whichever
  provider the stream has. The lemmas compose the readers in the order in which \<open>bfd_openstreamr\<close>
  and \<open>rdelf\<close> call them.
\<close>

section \<open>The state after reading the ELF header\<close>

lemma getehdr_state:
  assumes "strm_ok s" and "strm_data s \<noteq> []" and ok: "fst (pmelf_getehdr lsb s) = Ok eh"
  shows "strm_ok (snd (pmelf_getehdr lsb s))
    \<and> strm_data (snd (pmelf_getehdr lsb s)) = strm_data s
    \<and> st_needswap (snd (pmelf_getehdr lsb s)) = (lsb \<noteq> file_lsb (strm_data s))
    \<and> st_clss (snd (pmelf_getehdr lsb s)) = (case eh of E32 _ \<Rightarrow> ELFCLASS32 | E64 _ \<Rightarrow> ELFCLASS64)"
proof -
  let ?d = "strm_data s"
  note sk = seek_0 [OF assms(1,2)]
  let ?s1 = "snd (pmelf_seek 0 s)" and ?s2 = "snd (sread1 EI_NIDENT (snd (pmelf_seek 0 s)))"
  have fit: "16 \<le> length ?d"
    using ok sk by (auto simp: pmelf_getehdr_def then_if0_zero then_do_sread1 split: if_splits)
  have rd: "strm_ok ?s2" "strm_data ?s2 = ?d" "strm_pos ?s2 = 16"
    using sread1_in [of ?s1 EI_NIDENT] sk fit by simp_all
  have ident: "slice_at 0 16 ?d = take 16 ?d" by (simp add: slice_at_def)
  have t4: "take 4 (take 16 ?d) = take 4 ?d" by simp
  define s3 where "s3 = ?s2\<lparr>st_needswap := (lsb \<noteq> file_lsb ?d), st_clss := ?d ! EI_CLASS\<rparr>"
  have ok3: "strm_ok s3" and sw3: "st_needswap s3 = (lsb \<noteq> file_lsb ?d)"
    and rd3: "strm_data s3 = ?d" and cl3: "st_clss s3 = ?d ! EI_CLASS"
    using rd by (simp_all add: s3_def)
  define body where "body = (if st_clss s3 = ELFCLASS32
               then then_do (getehdr32_top lsb (take 16 ?d) s3) (\<lambda>h s4.
                      (Ok (E32 h), s4\<lparr>st_machine := e_machine32 h\<rparr>))
               else if st_clss s3 = ELFCLASS64
               then then_do (getehdr64_top lsb (take 16 ?d) s3) (\<lambda>h s4.
                      (Ok (E64 h), s4\<lparr>st_machine := e_machine64 h\<rparr>))
               else (Fail (-1), s3\<lparr>st_clss := ELFCLASSNONE\<rparr>))"
  have go: "pmelf_getehdr lsb s =
      (if take 4 ?d \<noteq> elf_magic \<or> ?d ! EI_VERSION \<noteq> EV_CURRENT then (Fail (-1), ?s2)
       else then_do body
              (\<lambda>eh s5. if em_supported (st_machine s5) then (Ok eh, s5) else (Fail (-1), s5)))"
    using fit sk unfolding body_def s3_def
    by (simp add: pmelf_getehdr_def then_if0_zero then_do_sread1 ident t4 Let_def file_lsb_def
        del: snd_sread1 take_take)
  from ok go have b: "fst body = Ok eh" "snd (pmelf_getehdr lsb s) = snd body"
    by (auto simp: fst_then_do snd_then_do split: if_splits res.splits)
  show ?thesis
  proof (cases "st_clss s3 = ELFCLASS32")
    case True
    with b(1) obtain h where h: "fst (getehdr32_top lsb (take 16 ?d) s3) = Ok h" "eh = E32 h"
      by (auto simp: body_def fst_then_do split: res.splits)
    show ?thesis
      using getehdr32_top_frame [OF ok3 h(1)] True h b(2) sw3 rd3
      by (simp add: body_def then_do_Ok)
  next
    case False
    with b(1) have c: "st_clss s3 = ELFCLASS64" by (auto simp: body_def split: if_splits)
    with b(1) obtain h where h: "fst (getehdr64_top lsb (take 16 ?d) s3) = Ok h" "eh = E64 h"
      by (auto simp: body_def fst_then_do split: res.splits)
    show ?thesis
      using getehdr64_top_frame [OF ok3 h(1)] c h b(2) sw3 rd3
      by (simp add: body_def then_do_Ok)
  qed
qed

section \<open>The section headers of a file\<close>

fun ehdr_shoff :: "Elf_Ehdr \<Rightarrow> nat" where
  "ehdr_shoff (E32 h) = unat (e_shoff32 h)"
| "ehdr_shoff (E64 h) = unat (e_shoff64 h)"

fun ehdr_shnum :: "Elf_Ehdr \<Rightarrow> u16" where
  "ehdr_shnum (E32 h) = e_shnum32 h"
| "ehdr_shnum (E64 h) = e_shnum64 h"

fun ehdr_shstrndx :: "Elf_Ehdr \<Rightarrow> u16" where
  "ehdr_shstrndx (E32 h) = e_shstrndx32 h"
| "ehdr_shstrndx (E64 h) = e_shstrndx64 h"

fun ehdr_clss :: "Elf_Ehdr \<Rightarrow> u8" where
  "ehdr_clss (E32 h) = ELFCLASS32"
| "ehdr_clss (E64 h) = ELFCLASS64"

definition file_shdrs :: "bytes \<Rightarrow> Elf_Ehdr \<Rightarrow> Elf_Shdr list" where
  "file_shdrs d eh =
     (case eh of
        E32 h \<Rightarrow> file_shdrs32 (file_lsb d) d (ehdr_shoff eh) (unat (ehdr_shnum eh))
      | E64 h \<Rightarrow> file_shdrs64 (file_lsb d) d (ehdr_shoff eh) (unat (ehdr_shnum eh)))"

text \<open>
  The section table of the file with bytes \<open>d\<close> and header \<open>eh\<close>: the headers at \<open>e_shoff\<close>, and the
  contents of the section that \<open>e_shstrndx\<close> names as their string table. \<open>None\<close> when the file has
  no section headers or one of the two does not lie within the file.
\<close>

definition shtab_spec :: "bytes \<Rightarrow> Elf_Ehdr \<Rightarrow> Pmelf_Shtab option" where
  "shtab_spec d eh =
     (let c = ehdr_clss eh; hs = file_shdrs d eh; str = hs ! unat (ehdr_shstrndx eh);
          off = unat (shdr_offset str); len = unat (shdr_size c str)
      in if ehdr_shnum eh = 0
         then None
         else if ehdr_shoff eh + unat (ehdr_shnum eh) * (if c = ELFCLASS64 then 64 else 40) > length d
         then None
         else if off + len > length d \<or> off \<ge> length d then None
         else Some \<lparr>sht_shdrs = hs, sht_nshdrs = ucast (ehdr_shnum eh),
                sht_strtab = slice_at off len d, sht_strtablen = shdr_size c str,
                sht_idx = ucast (ehdr_shstrndx eh), sht_clss = c\<rparr>)"

lemma ehdr_spec_strndx:
  "ehdr_spec d = Ok eh \<Longrightarrow> ehdr_shnum eh \<noteq> 0 \<Longrightarrow> ehdr_shstrndx eh < ehdr_shnum eh"
  by (auto simp: ehdr_spec_def ehdr32_bad_def ehdr64_bad_def Let_def word_gt_0 split: if_splits)

lemma file_shdrs_nth32:
  "i < unat (e_shnum32 h) \<Longrightarrow> \<exists>sh. file_shdrs d (E32 h) ! i = S32 sh"
  by (simp add: file_shdrs_def file_shdrs32_def)

lemma file_shdrs_nth64:
  "i < unat (e_shnum64 h) \<Longrightarrow> \<exists>sh. file_shdrs d (E64 h) ! i = S64 sh"
  by (simp add: file_shdrs_def file_shdrs64_def)

lemma getshtab_spec:
  assumes s: "strm_ok s" "st_clss s = ehdr_clss eh" "st_needswap s = (lsb \<noteq> file_lsb (strm_data s))"
    and e: "ehdr_spec (strm_data s) = Ok eh"
    and t: "shtab_spec (strm_data s) eh = Some t"
    and mok: "\<And>i. mok i"
  shows "fst (pmelf_getshtab lsb mok s eh) = Ok t"
proof (cases eh)
  case (E32 h)
  have lt: "e_shstrndx32 h < e_shnum32 h" "e_shnum32 h \<noteq> 0"
    using ehdr_spec_strndx [OF e] t E32 by (auto simp: shtab_spec_def Let_def split: if_splits)
  then obtain sh where str: "file_shdrs (strm_data s) (E32 h) ! unat (e_shstrndx32 h) = S32 sh"
    using file_shdrs_nth32 [of "unat (e_shstrndx32 h)" h "strm_data s"]
    by (auto simp: word_less_nat_alt)
  note t' = t [unfolded shtab_spec_def E32 Let_def ehdr_shstrndx.simps ehdr_shnum.simps
      ehdr_shoff.simps ehdr_clss.simps str]
  have fit: "unat (e_shoff32 h) + unat (e_shnum32 h) * 40 \<le> length (strm_data s)"
    "unat (sh_offset32 sh) + unat (sh_size32 sh) \<le> length (strm_data s)"
    "unat (sh_offset32 sh) < length (strm_data s)"
    using t' by (auto simp: shdr_offset_def shdr_size_def split: if_splits)
  have "t = \<lparr>sht_shdrs = file_shdrs (strm_data s) (E32 h), sht_nshdrs = ucast (e_shnum32 h),
        sht_strtab = slice_at (unat (sh_offset32 sh)) (unat (sh_size32 sh)) (strm_data s),
        sht_strtablen = ucast (sh_size32 sh), sht_idx = ucast (e_shstrndx32 h), sht_clss = ELFCLASS32\<rparr>"
    using t' by (auto simp: shdr_offset_def shdr_size_def split: if_splits)
  then show ?thesis
    using getshtab32_contents [OF s(1) _ s(3) lt(2,1) fit(1) _ str fit(2,3) mok] s(2) E32
    by (simp add: file_shdrs_def)
next
  case (E64 h)
  have lt: "e_shstrndx64 h < e_shnum64 h" "e_shnum64 h \<noteq> 0"
    using ehdr_spec_strndx [OF e] t E64 by (auto simp: shtab_spec_def Let_def split: if_splits)
  then obtain sh where str: "file_shdrs (strm_data s) (E64 h) ! unat (e_shstrndx64 h) = S64 sh"
    using file_shdrs_nth64 [of "unat (e_shstrndx64 h)" h "strm_data s"]
    by (auto simp: word_less_nat_alt)
  note t' = t [unfolded shtab_spec_def E64 Let_def ehdr_shstrndx.simps ehdr_shnum.simps
      ehdr_shoff.simps ehdr_clss.simps str]
  have fit: "unat (e_shoff64 h) + unat (e_shnum64 h) * 64 \<le> length (strm_data s)"
    "unat (sh_offset64 sh) + unat (sh_size64 sh) \<le> length (strm_data s)"
    "unat (sh_offset64 sh) < length (strm_data s)"
    using t' by (auto simp: shdr_offset_def shdr_size_def split: if_splits)
  have "t = \<lparr>sht_shdrs = file_shdrs (strm_data s) (E64 h), sht_nshdrs = ucast (e_shnum64 h),
        sht_strtab = slice_at (unat (sh_offset64 sh)) (unat (sh_size64 sh)) (strm_data s),
        sht_strtablen = sh_size64 sh, sht_idx = ucast (e_shstrndx64 h), sht_clss = ELFCLASS64\<rparr>"
    using t' by (auto simp: shdr_offset_def shdr_size_def split: if_splits)
  then show ?thesis
    using getshtab64_contents [OF s(1) _ s(3) lt(2,1) fit(1) _ str fit(2,3) mok] s(2) E64
    by (simp add: file_shdrs_def)
qed

section \<open>The symbol table of a file\<close>

text \<open>A section table whose string table terminates the names of the headers of type \<open>ty\<close>.\<close>

definition named_headers :: "Pmelf_Shtab \<Rightarrow> u32 \<Rightarrow> bool" where
  "named_headers sht ty \<longleftrightarrow>
     list_all (\<lambda>h. shdr_type h = ty \<longrightarrow>
       (case pmelf_sec_name sht h of None \<Rightarrow> False
        | Some off \<Rightarrow> cstring (drop off (sht_strtab sht)) \<noteq> None)) (sht_shdrs sht)"

lemma find_sym_loop_others:
  assumes "list_all (\<lambda>h. shdr_type h = ty \<longrightarrow>
       (case pmelf_sec_name sht h of None \<Rightarrow> False
        | Some off \<Rightarrow> cstring (drop off (sht_strtab sht)) \<noteq> None)) hs"
    and "0 \<notin> set nm" and "\<forall>h\<in>set hs. \<not> is_symhdr sht ty nm h"
  shows "find_sym_loop sht ty nm hs i found = Ok found"
  using assms
  by (induction hs arbitrary: i)
    (auto simp: is_symhdr_def strcmp_eq_cstring split: option.splits)

lemma find_sym_loop_complete:
  assumes "list_all (\<lambda>h. shdr_type h = ty \<longrightarrow>
       (case pmelf_sec_name sht h of None \<Rightarrow> False
        | Some off \<Rightarrow> cstring (drop off (sht_strtab sht)) \<noteq> None)) hs"
    and "0 \<notin> set nm" and "k < length hs"
    and "\<forall>m<length hs. is_symhdr sht ty nm (hs ! m) \<longleftrightarrow> m = k"
  shows "find_sym_loop sht ty nm hs i None = Ok (Some (i + k, get_shtabN sht (shdr_link (hs ! k))))"
  using assms
proof (induction hs arbitrary: i k)
  case Nil
  then show ?case by simp
next
  case (Cons h hs)
  show ?case
  proof (cases k)
    case 0
    have "is_symhdr sht ty nm h" using Cons.prems(4) 0 by force
    moreover have "\<forall>g\<in>set hs. \<not> is_symhdr sht ty nm g"
      using Cons.prems(4) 0 by (force simp: in_set_conv_nth)
    ultimately show ?thesis
      using find_sym_loop_others [of ty sht hs nm] Cons.prems(1,2) 0
      by (auto simp: is_symhdr_def split: option.splits)
  next
    case (Suc j)
    have "\<forall>m<length hs. is_symhdr sht ty nm (hs ! m) \<longleftrightarrow> m = j"
      using Cons.prems(4) Suc by (metis Suc_less_eq length_Cons nat.inject nth_Cons_Suc)
    moreover have "\<not> is_symhdr sht ty nm h" using Cons.prems(4) Suc by force
    ultimately show ?thesis
      using Cons.IH [of j "Suc i"] Cons.prems Suc
      by (auto simp: is_symhdr_def strcmp_eq_cstring split: option.splits)
  qed
qed

lemma shtab_at_get_shtabN:
  assumes "unat l < length (sht_shdrs sht)" and "length (sht_shdrs sht) \<le> 65536"
  shows "shtab_at sht (get_shtabN sht l) = Ok (sht_shdrs sht ! unat l)"
proof -
  have "unat (l * get_shdrsz sht) = unat l * unat (get_shdrsz sht)"
    using assms by (intro unat_mult_lem [THEN iffD1]) (auto simp: get_shdrsz_def)
  then show ?thesis
    using assms(1) by (simp add: shtab_at_def get_shtabN_def get_shdrsz_def)
qed

text \<open>
  The symbol table that the headers \<open>sht\<close> of a file with bytes \<open>d\<close> describe: \<open>k\<close> is the one header
  with the type and the name of the symbol table.
\<close>

definition symtab_spec :: "bytes \<Rightarrow> Pmelf_Shtab \<Rightarrow> nat \<Rightarrow> Pmelf_Symtab option" where
  "symtab_spec d sht k =
     (let c = sht_clss sht; h = sht_shdrs sht ! k; esz = (if c = ELFCLASS64 then 24 else 16);
          off = unat (shdr_offset h); len = unat (shdr_size c h);
          str = sht_shdrs sht ! unat (shdr_link h);
          soff = unat (shdr_offset str); slen = unat (shdr_size c str)
      in if len = 0 \<or> len mod esz \<noteq> 0 \<or> (shdr_entsize h \<noteq> 0 \<and> shdr_entsize h \<noteq> of_nat esz) then None
         else if length d < off + len then None
         else if unat (shdr_link h) \<ge> length (sht_shdrs sht) then None
         else if length d < soff + slen \<or> length d \<le> soff then None
         else Some \<lparr>symt_syms = file_syms c (file_lsb d) d off (len div esz),
                symt_nsyms = int (len div esz), symt_strtab = slice_at soff slen d,
                symt_strtablen = shdr_size c str, symt_idx = k, symt_clss = c\<rparr>)"

lemma no_zero_in_names: "0 \<notin> set (str_bytes ''.symtab'')" "0 \<notin> set (str_bytes ''.dynsym'')"
  by code_simp+

lemma u64_div_small: "unat (x div (of_nat m :: u64)) = unat x div m" if "m < 2 ^ 64"
  using that by (simp add: unat_div unat_of_nat)

lemma find_symhdrs_complete:
  assumes ok: "strm_ok s"
    and names: "named_headers sht (if dyn then SHT_DYNSYM else SHT_SYMTAB)"
    and k: "k < length (sht_shdrs sht)"
      "\<forall>m<length (sht_shdrs sht). is_symhdr sht (if dyn then SHT_DYNSYM else SHT_SYMTAB)
         (str_bytes (if dyn then ''.dynsym'' else ''.symtab'')) (sht_shdrs sht ! m) \<longleftrightarrow> m = k"
    and t: "symtab_spec (strm_data s) sht k = Some t"
  shows "pmelf_find_symhdrs_dyn dyn s sht =
    (Ok (shdr_size (sht_clss sht) (sht_shdrs sht ! k) div ucast (get_symsz (sht_clss sht)), k,
         get_shtabN sht (shdr_link (sht_shdrs sht ! k))),
     snd (pmelf_seek (shdr_offset (sht_shdrs sht ! k)) s))"
proof -
  let ?h = "sht_shdrs sht ! k" and ?c = "sht_clss sht"
  have loop: "find_sym_loop sht (if dyn then SHT_DYNSYM else SHT_SYMTAB)
      (str_bytes (if dyn then ''.dynsym'' else ''.symtab'')) (sht_shdrs sht) 0 None =
      Ok (Some (k, get_shtabN sht (shdr_link ?h)))"
    using find_sym_loop_complete [OF names [unfolded named_headers_def] _ k, of 0] no_zero_in_names
    by (cases dyn) auto
  have e: "unat (ucast (get_symsz ?c) :: u64) = (if ?c = ELFCLASS64 then 24 else 16)"
    "ucast (get_symsz ?c) = (if ?c = ELFCLASS64 then 24 else 16 :: u64)"
    by (simp_all add: get_symsz_def)
  let ?esz = "if ?c = ELFCLASS64 then 24 else 16 :: nat"
  have "\<not> (unat (shdr_size ?c ?h) = 0 \<or> unat (shdr_size ?c ?h) mod ?esz \<noteq> 0 \<or>
      (shdr_entsize ?h \<noteq> 0 \<and> shdr_entsize ?h \<noteq> of_nat ?esz))"
    and fit: "\<not> length (strm_data s) < unat (shdr_offset ?h) + unat (shdr_size ?c ?h)"
    using t unfolding symtab_spec_def Let_def by (meson option.distinct(1))+
  then have size0: "shdr_size ?c ?h \<noteq> 0"
    and mod0: "unat (shdr_size ?c ?h) mod ?esz = 0"
    and ent: "shdr_entsize ?h = 0 \<or> shdr_entsize ?h = ucast (get_symsz ?c)"
    using e(2) by auto
  have "unat (shdr_size ?c ?h mod ucast (get_symsz ?c)) = 0"
    unfolding unat_mod e(1) by (rule mod0)
  then have mult: "shdr_size ?c ?h mod ucast (get_symsz ?c) = 0" by (simp only: unat_eq_zero)
  have "0 < unat (shdr_size ?c ?h)" using size0 by (simp add: unat_gt_0)
  with fit have "unat (shdr_offset ?h) < length (strm_data s)" by linarith
  then have "fst (pmelf_seek (shdr_offset ?h) s) = 0" using seek_in(1) [OF ok] by blast
  with size0 ent mult show ?thesis
    unfolding pmelf_find_symhdrs_dyn_def loop by (simp add: then_do_Ok then_if0_zero Let_def)
qed

text \<open>The part of a specified symbol table that the proofs below use.\<close>

lemma symtab_specD:
  assumes "symtab_spec d sht k = Some t"
  defines "h \<equiv> sht_shdrs sht ! k" and "c \<equiv> sht_clss sht"
  defines "esz \<equiv> (if c = ELFCLASS64 then 24 else 16 :: nat)"
  defines "str \<equiv> sht_shdrs sht ! unat (shdr_link h)"
  shows "unat (shdr_size c h) \<noteq> 0" "unat (shdr_size c h) mod esz = 0"
    "unat (shdr_offset h) + unat (shdr_size c h) \<le> length d"
    "unat (shdr_link h) < length (sht_shdrs sht)"
    "unat (shdr_offset str) + unat (shdr_size c str) \<le> length d" "unat (shdr_offset str) < length d"
    "t = \<lparr>symt_syms = file_syms c (file_lsb d) d (unat (shdr_offset h)) (unat (shdr_size c h) div esz),
          symt_nsyms = int (unat (shdr_size c h) div esz),
          symt_strtab = slice_at (unat (shdr_offset str)) (unat (shdr_size c str)) d,
          symt_strtablen = shdr_size c str, symt_idx = k, symt_clss = c\<rparr>"
proof -
  note all = assms(1) [unfolded symtab_spec_def Let_def, folded h_def c_def, folded esz_def str_def]
  show "unat (shdr_size c h) \<noteq> 0" "unat (shdr_size c h) mod esz = 0"
    "unat (shdr_offset h) + unat (shdr_size c h) \<le> length d"
    "unat (shdr_link h) < length (sht_shdrs sht)"
    "unat (shdr_offset str) + unat (shdr_size c str) \<le> length d" "unat (shdr_offset str) < length d"
    using all by (meson option.distinct(1) not_less not_le)+
  then show "t = \<lparr>symt_syms = file_syms c (file_lsb d) d (unat (shdr_offset h)) (unat (shdr_size c h) div esz),
          symt_nsyms = int (unat (shdr_size c h) div esz),
          symt_strtab = slice_at (unat (shdr_offset str)) (unat (shdr_size c str)) d,
          symt_strtablen = shdr_size c str, symt_idx = k, symt_clss = c\<rparr>"
    using all by (simp split: if_splits)
qed

lemma unat_small_sint: "unat (n :: u64) < 2 ^ 63 \<Longrightarrow> sint n = int (unat n)"
  using sint_nonneg_small [of n] sint_nonneg_eq [of n] by blast

text \<open>The two loops over the symbols, as one.\<close>

definition getsyms :: "u8 \<Rightarrow> bool \<Rightarrow> nat \<Rightarrow> strm \<Rightarrow> Elf_Sym list res \<times> strm" where
  "getsyms c lsb n s =
     (if c = ELFCLASS64
      then get_all (\<lambda>s. then_do (pmelf_getsym64 lsb s) (\<lambda>h s. (Ok (T64 h), s))) n s
      else get_all (\<lambda>s. then_do (pmelf_getsym32 lsb s) (\<lambda>h s. (Ok (T32 h), s))) n s)"

lemma getsyms_ok:
  assumes "strm_ok s" and "st_needswap s = (lsb \<noteq> le)"
    and "strm_pos s + n * (if c = ELFCLASS64 then 24 else 16) \<le> length (strm_data s)"
  shows "fst (getsyms c lsb n s) = Ok (file_syms c le (strm_data s) (strm_pos s) n)"
    "strm_ok (snd (getsyms c lsb n s))" "strm_data (snd (getsyms c lsb n s)) = strm_data s"
    "st_clss (snd (getsyms c lsb n s)) = st_clss s"
  using sym64.get_all_ok [OF assms(1,2), of n T64] sym32.get_all_ok [OF assms(1,2), of n T32] assms(3)
  by (simp_all add: getsyms_def file_syms_def file_syms64_def file_syms32_def pmelf_getsym64_def
      pmelf_getsym32_def split: if_splits)

lemma getsymtab_complete:
  assumes s: "strm_ok s" "st_clss s = sht_clss sht" "st_needswap s = (lsb \<noteq> file_lsb (strm_data s))"
    and hs: "length (sht_shdrs sht) \<le> 65536" "list_all (shdr_clss_ok (sht_clss sht)) (sht_shdrs sht)"
    and names: "named_headers sht (if dyn then SHT_DYNSYM else SHT_SYMTAB)"
    and k: "k < length (sht_shdrs sht)"
      "\<forall>m<length (sht_shdrs sht). is_symhdr sht (if dyn then SHT_DYNSYM else SHT_SYMTAB)
         (str_bytes (if dyn then ''.dynsym'' else ''.symtab'')) (sht_shdrs sht ! m) \<longleftrightarrow> m = k"
    and t: "symtab_spec (strm_data s) sht k = Some t"
    and mok: "\<And>i. mok i"
  shows "fst (getsymtab_dyn dyn lsb mok s sht) = Ok t"
proof -
  let ?h = "sht_shdrs sht ! k" and ?c = "sht_clss sht" and ?d = "strm_data s"
  let ?esz = "if ?c = ELFCLASS64 then 24 else 16 :: nat"
  let ?str = "sht_shdrs sht ! unat (shdr_link ?h)"
  note D = symtab_specD [OF t]
  define n where "n = shdr_size ?c ?h div ucast (get_symsz ?c)"
  have esz: "unat (ucast (get_symsz ?c) :: u64) = ?esz" by (simp add: get_symsz_def)
  have un: "unat n = unat (shdr_size ?c ?h) div ?esz" by (simp only: n_def unat_div esz)
  have small: "length ?d < 2 ^ 63" by (rule strm_src.small [OF s(1)])
  have tot: "unat n * ?esz = unat (shdr_size ?c ?h)"
    unfolding un using D(2) by auto
  have n0: "n \<noteq> 0" using tot D(1) by (metis mult_0 unat_0)
  have "unat n \<le> unat n * ?esz" by simp
  then have nsint: "sint n = int (unat n)" using tot D(3) small by (intro unat_small_sint) linarith
  have off: "unat (shdr_offset ?h) < length ?d" using D(1,3) by linarith
  note sk = seek_in [OF s(1) off]
  let ?s1 = "snd (pmelf_seek (shdr_offset ?h) s)"
  have find: "(if dyn then pmelf_find_dsymhdrs s sht else pmelf_find_symhdrs s sht) =
      (Ok (n, k, get_shtabN sht (shdr_link ?h)), ?s1)"
    using find_symhdrs_complete [OF s(1) names k t]
    by (cases dyn) (simp_all add: n_def pmelf_find_dsymhdrs_def pmelf_find_symhdrs_def)
  have sw: "st_needswap ?s1 = (lsb \<noteq> file_lsb ?d)" using s(3) by simp
  have fit: "strm_pos ?s1 + unat n * ?esz \<le> length (strm_data ?s1)" using sk D(3) tot by simp
  note syms = getsyms_ok [OF sk(2) sw fit]
  let ?s2 = "snd (getsyms ?c lsb (unat n) ?s1)"
  have cl: "shdr_clss_ok ?c ?str" using hs(2) D(4) by (simp add: list_all_length)
  have "fst (pmelf_getscn (mok 2) False ?s2 ?str 0 0) =
      Ok (slice_at (unat (shdr_offset ?str)) (unat (shdr_size ?c ?str)) ?d)"
    using getscn_in [OF syms(2), of ?str "shdr_size ?c ?str" "shdr_offset ?str" 0 0 False "mok 2"]
      shdr_extent_ok [OF cl] syms(3,4) sk(3) s(2) D(5,6) mok
    by simp
  then have "fst (getsymtab_dyn dyn lsb mok s sht) =
      Ok \<lparr>symt_syms = file_syms ?c (file_lsb ?d) ?d (unat (shdr_offset ?h)) (unat n),
        symt_nsyms = sint n, symt_strtab = slice_at (unat (shdr_offset ?str)) (unat (shdr_size ?c ?str)) ?d,
        symt_strtablen = shdr_size ?c ?str, symt_idx = k, symt_clss = ?c\<rparr>"
    unfolding getsymtab_dyn_def find getsyms_def [symmetric]
    using syms sk nsint n0 mok shtab_at_get_shtabN [OF D(4) hs(1)]
    by (simp add: then_do_Ok)
  then show ?thesis unfolding nsint un using D(7) by simp
qed

section \<open>Reading leaves the file alone\<close>

text \<open>
  Whatever a reader returns, the stream it leaves is valid, has the same contents, and is of the
  class and byte order that the header gave it.
\<close>

definition only_read :: "strm \<Rightarrow> strm \<Rightarrow> bool" where
  "only_read s s' \<longleftrightarrow> (strm_ok s \<longrightarrow> strm_ok s') \<and> strm_data s' = strm_data s \<and>
     st_clss s' = st_clss s \<and> st_needswap s' = st_needswap s"

lemma only_read_refl [simp]: "only_read s s"
  by (simp add: only_read_def)

lemma only_read_trans: "only_read s s1 \<Longrightarrow> only_read s1 s2 \<Longrightarrow> only_read s s2"
  by (simp add: only_read_def)

lemma SREAD_only_read: "only_read s (snd (SREAD sz n s))"
  by (auto simp: only_read_def SREAD_def file_read_def mrd_def Let_def strm_ok.simps strm_data.simps
      file_ok_def mem_ok_def word_le_nat_alt not_less split: stream_obj.splits)

lemma seek_only_read: "only_read s (snd (pmelf_seek off s))"
  by (auto simp: only_read_def pmelf_seek_def file_seek_def mseek_def strm_ok.simps strm_data.simps
      file_ok_def mem_ok_def word_le_nat_alt not_le split: stream_obj.splits)

lemma then_do_only_read:
  "only_read s (snd p) \<Longrightarrow> (\<And>v. fst p = Ok v \<Longrightarrow> only_read (snd p) (snd (f v (snd p)))) \<Longrightarrow>
     only_read s (snd (then_do p f))"
  by (auto simp: snd_then_do intro: only_read_trans split: res.splits)

lemma then_if0_only_read:
  "only_read s (snd p) \<Longrightarrow> only_read (snd p) (snd (f (snd p))) \<Longrightarrow> only_read s (snd (then_if0 p f))"
  by (auto simp: snd_then_if0 intro: only_read_trans)

lemma sread1_only_read: "only_read s (snd (sread1 n s))"
  by (simp add: SREAD_only_read)

lemma get_struct_only_read: "only_read s (snd (get_struct sz img swap lsb s))"
  by (simp add: get_struct_def then_do_only_read sread1_only_read del: snd_sread1)

lemma get_all_only_read: "(\<And>s. only_read s (snd (get s))) \<Longrightarrow> only_read s (snd (get_all get n s))"
  by (induction n arbitrary: s) (simp_all add: then_do_only_read)

lemma getscn_only_read: "only_read s (snd (pmelf_getscn mok own s psect off len))"
  unfolding pmelf_getscn_def Let_def
  by (auto intro!: then_do_only_read then_if0_only_read seek_only_read SREAD_only_read)

lemma getshtab_only_read: "only_read s (snd (pmelf_getshtab lsb mok s eh))"
  unfolding pmelf_getshtab_def Let_def pmelf_getshdr64_def pmelf_getshdr32_def
  by (auto intro!: then_do_only_read then_if0_only_read seek_only_read get_all_only_read
      getscn_only_read get_struct_only_read)

section \<open>Reading the tables of a file\<close>

text \<open>
  A small big-endian PowerPC object for the witnesses: three section headers (the null header, the
  symbol table, the string table of names) and two symbols.
\<close>

definition sample_ehdr :: Elf32_Ehdr where
  "sample_ehdr = \<lparr>e_ident32 = elf_magic @ [1, 2, 1, 0, 0, 0, 0, 0, 0, 0, 0, 0],
     e_type32 = 1, e_machine32 = 20, e_version32 = 1, e_entry32 = 0, e_phoff32 = 0, e_shoff32 = 52,
     e_flags32 = 0, e_ehsize32 = 52, e_phentsize32 = 0, e_phnum32 = 0, e_shentsize32 = 40,
     e_shnum32 = 3, e_shstrndx32 = 2\<rparr>"

definition sample_shdr :: "u32 \<Rightarrow> u32 \<Rightarrow> u32 \<Rightarrow> u32 \<Rightarrow> u32 \<Rightarrow> Elf32_Shdr" where
  "sample_shdr nm ty off len link =
     \<lparr>sh_name32 = nm, sh_type32 = ty, sh_flags32 = 0, sh_addr32 = 0, sh_offset32 = off, sh_size32 = len,
      sh_link32 = link, sh_info32 = 0, sh_addralign32 = 4, sh_entsize32 = 0\<rparr>"

definition sample_sym :: "u32 \<Rightarrow> u32 \<Rightarrow> Elf32_Sym" where
  "sample_sym nm val = \<lparr>st_name32 = nm, st_value32 = val, st_size32 = 4, st_info32 = 17, st_other32 = 0,
     st_shndx32 = 1\<rparr>"

definition sample_strs :: bytes where
  "sample_strs = 0 # str_bytes ''.symtab'' @ [0, 97, 0, 0]"

definition sample_shdrs :: "Elf32_Shdr list" where
  "sample_shdrs = [sample_shdr 0 0 0 0 0, sample_shdr 1 2 184 32 2, sample_shdr 9 3 172 12 0]"

definition sample_file :: bytes where
  "sample_file = bytes_ehdr32 False sample_ehdr @ concat (map (bytes_shdr32 False) sample_shdrs)
     @ sample_strs @ bytes_sym32 False (sample_sym 0 0) @ bytes_sym32 False (sample_sym 9 7)"

definition sample_strm :: strm where
  "sample_strm = pmelf_newstrm \<lparr>fo_data = sample_file, fo_pos = 3, fo_writable = False\<rparr>"

lemma sample_facts: "strm_ok sample_strm" "strm_data sample_strm = sample_file" "sample_file \<noteq> []"
  "length sample_file = 216"
proof -
  show l: "length sample_file = 216" by code_simp
  then show "sample_file \<noteq> []" by auto
  show "strm_ok sample_strm" "strm_data sample_strm = sample_file"
    using l by (simp_all add: sample_strm_def pmelf_newstrm_def strm_ok.simps strm_data.simps file_ok_def)
qed

lemma sample_spec: "ehdr_spec sample_file = Ok (E32 sample_ehdr)"
  by code_simp

definition sample_sht :: Pmelf_Shtab where
  "sample_sht = \<lparr>sht_shdrs = map S32 sample_shdrs, sht_nshdrs = 3, sht_strtab = sample_strs,
     sht_strtablen = 12, sht_idx = 2, sht_clss = 1\<rparr>"

lemma sample_shtab: "shtab_spec sample_file (E32 sample_ehdr) = Some sample_sht"
  by code_simp

definition sample_symt :: Pmelf_Symtab where
  "sample_symt = \<lparr>symt_syms = map T32 [sample_sym 0 0, sample_sym 9 7], symt_nsyms = 2,
     symt_strtab = sample_strs, symt_strtablen = 12, symt_idx = 1, symt_clss = 1\<rparr>"

lemma sample_symtab: "symtab_spec sample_file sample_sht 1 = Some sample_symt"
  by code_simp

text \<open>C1: Reading the ELF header of a stream with any provider, on a host of any byte order,
  accepts exactly the headers that \<open>ehdr_spec\<close> accepts and delivers the members in the byte order
  of the file.\<close>

theorem getehdr_is_spec:
  assumes "strm_ok s" and "strm_data s \<noteq> []"
  shows "fst (pmelf_getehdr lsb s) = ehdr_spec (strm_data s)"
  using assms by (rule getehdr_refines)

lemma getehdr_is_spec_witness:
  "fst (pmelf_getehdr True sample_strm) = Ok (E32 sample_ehdr)"
  using getehdr_is_spec [of sample_strm True] sample_facts sample_spec by simp

lemma ehdr_spec_nonempty: "ehdr_spec d = Ok eh \<Longrightarrow> d \<noteq> []"
  by (cases "d = []") (simp_all add: ehdr_spec_def)

text \<open>The stream that the section table is read from.\<close>

lemma opened_stream:
  assumes "strm_ok s" and "ehdr_spec (strm_data s) = Ok eh"
  shows "fst (pmelf_getehdr lsb s) = Ok eh"
    and "strm_ok (snd (pmelf_getehdr lsb s))"
    and "strm_data (snd (pmelf_getehdr lsb s)) = strm_data s"
    and "st_needswap (snd (pmelf_getehdr lsb s)) = (lsb \<noteq> file_lsb (strm_data s))"
    and "st_clss (snd (pmelf_getehdr lsb s)) = ehdr_clss eh"
proof -
  show e: "fst (pmelf_getehdr lsb s) = Ok eh"
    using getehdr_refines [OF assms(1) ehdr_spec_nonempty [OF assms(2)]] assms(2) by simp
  show "strm_ok (snd (pmelf_getehdr lsb s))" "strm_data (snd (pmelf_getehdr lsb s)) = strm_data s"
    "st_needswap (snd (pmelf_getehdr lsb s)) = (lsb \<noteq> file_lsb (strm_data s))"
    "st_clss (snd (pmelf_getehdr lsb s)) = ehdr_clss eh"
    using getehdr_state [OF assms(1) ehdr_spec_nonempty [OF assms(2)] e] by (cases eh; simp)+
qed

text \<open>C2: Opening a file and reading its section table delivers the section headers that the file
  has at \<open>e_shoff\<close> in its own byte order, with the contents of the string table section, whatever the
  byte order of the host and the provider of the stream.\<close>

theorem shtab_of_file:
  assumes "strm_ok s" and "ehdr_spec (strm_data s) = Ok eh"
    and "shtab_spec (strm_data s) eh = Some sht" and "\<And>i. mok i"
  shows "fst (pmelf_getshtab lsb mok (snd (pmelf_getehdr lsb s)) eh) = Ok sht"
  using getshtab_spec [of "snd (pmelf_getehdr lsb s)" eh lsb sht mok] opened_stream [OF assms(1,2), of lsb] assms
  by simp

lemma shtab_of_file_witness:
  "fst (pmelf_getshtab True (\<lambda>_. True) (snd (pmelf_getehdr True sample_strm)) (E32 sample_ehdr)) =
     Ok sample_sht"
  using shtab_of_file [of sample_strm "E32 sample_ehdr" sample_sht "\<lambda>_. True" True]
    sample_facts sample_spec sample_shtab by simp

lemma shtab_spec_clss:
  assumes "ehdr_spec d = Ok eh" and "shtab_spec d eh = Some sht"
  shows "sht_clss sht = ehdr_clss eh" "length (sht_shdrs sht) \<le> 65536"
    "list_all (shdr_clss_ok (sht_clss sht)) (sht_shdrs sht)"
proof -
  have e: "sht_clss sht = ehdr_clss eh" "sht_shdrs sht = file_shdrs d eh"
    using assms(2) by (auto simp: shtab_spec_def Let_def split: if_splits)
  have "unat (ehdr_shnum eh) < 65536" using unsigned_less [of "ehdr_shnum eh", where 'a=nat] by simp
  then show "sht_clss sht = ehdr_clss eh" "length (sht_shdrs sht) \<le> 65536"
    "list_all (shdr_clss_ok (sht_clss sht)) (sht_shdrs sht)"
    using e by (cases eh; simp add: file_shdrs_def file_shdrs32_def file_shdrs64_def shdr_clss_ok_def
        list_all_iff)+
qed

text \<open>C3: Opening a file, reading its section table and then its symbol table (static or dynamic)
  delivers exactly the symbols of the one section that has the type and the name of the symbol table,
  in the byte order of the file, with the strings of the section its link names. The file is
  valid as far as these tables go, and no allocation fails.\<close>

theorem symtab_of_file:
  assumes "strm_ok s" and "ehdr_spec (strm_data s) = Ok eh"
    and "shtab_spec (strm_data s) eh = Some sht"
    and "named_headers sht (if dyn then SHT_DYNSYM else SHT_SYMTAB)"
    and "k < length (sht_shdrs sht)"
    and "\<forall>m<length (sht_shdrs sht). is_symhdr sht (if dyn then SHT_DYNSYM else SHT_SYMTAB)
         (str_bytes (if dyn then ''.dynsym'' else ''.symtab'')) (sht_shdrs sht ! m) \<longleftrightarrow> m = k"
    and "symtab_spec (strm_data s) sht k = Some t" and "\<And>i. mok i"
  shows "fst ((if dyn then pmelf_getdsymtab else pmelf_getsymtab) lsb mok
     (snd (pmelf_getshtab lsb mok (snd (pmelf_getehdr lsb s)) eh)) sht) = Ok t"
proof -
  note o = opened_stream [OF assms(1,2), of lsb]
  let ?s' = "snd (pmelf_getshtab lsb mok (snd (pmelf_getehdr lsb s)) eh)"
  have r: "strm_ok ?s'" "strm_data ?s' = strm_data s" "st_clss ?s' = ehdr_clss eh"
    "st_needswap ?s' = (lsb \<noteq> file_lsb (strm_data s))"
    using getshtab_only_read [of "snd (pmelf_getehdr lsb s)" lsb mok eh] o by (simp_all add: only_read_def)
  have "fst (getsymtab_dyn dyn lsb mok ?s' sht) = Ok t"
    using getsymtab_complete [of ?s' sht lsb dyn k t mok] r assms shtab_spec_clss [OF assms(2,3)] by simp
  then show ?thesis by (cases dyn) (simp_all add: pmelf_getsymtab_def pmelf_getdsymtab_def)
qed

lemma symtab_of_file_witness:
  "fst (pmelf_getsymtab True (\<lambda>_. True)
     (snd (pmelf_getshtab True (\<lambda>_. True) (snd (pmelf_getehdr True sample_strm)) (E32 sample_ehdr)))
     sample_sht) = Ok sample_symt"
proof -
  have "named_headers sample_sht SHT_SYMTAB" by code_simp
  moreover have "\<forall>m<length (sht_shdrs sample_sht). is_symhdr sample_sht SHT_SYMTAB (str_bytes ''.symtab'')
      (sht_shdrs sample_sht ! m) \<longleftrightarrow> m = 1"
    by code_simp
  moreover have "1 < length (sht_shdrs sample_sht)" by code_simp
  ultimately show ?thesis
    using symtab_of_file [of sample_strm "E32 sample_ehdr" sample_sht False 1 sample_symt "\<lambda>_. True" True]
      sample_facts sample_spec sample_shtab sample_symtab by simp
qed

section \<open>Sections, groups and relocations\<close>

text \<open>
  The whole of a section of 2^64-1 bytes is read from memory without an error, and nothing is delivered: the
  number with which reading a memory stream fails is the length of the section.
\<close>

lemma getscn_failure_taken:
  assumes "st_obj s = MemObj \<lparr>mo_buf = [x], mo_len = 1, mo_pos = 0\<rparr>" and "st_clss s = ELFCLASS64"
    and "sh_size64 h = -1" and "sh_offset64 h = 0"
  shows "fst (pmelf_getscn mok True s (S64 h) 0 0) = Ok []"
proof -
  have "(1 :: u64) < -1" by code_simp
  then show ?thesis using assms
    by (simp add: pmelf_getscn_def shdr_extent_def then_do_def then_if0_def null_on_fail_def pmelf_seek_def mseek_def SEEK_SET_def
        SREAD_def mrd_def Let_def)
qed

text \<open>C35: When \<open>pmelf_getscn\<close> delivers something for a request of at least one and less than 2^63 bytes (no
  length stands for the whole section), it lies within the section its header describes and within the file,
  has the length that was asked for, and is what the file holds there. Longer requests are left out: the
  lemma before shows one that succeeds with nothing read. The stream is one the library has opened, whose
  position is within the file.\<close>

theorem getscn_in_section:
  assumes "strm_ok s" and "shdr_extent (st_clss s) psect = Ok (sz, off)"
    and "fst (pmelf_getscn mok own s psect o' len) = Ok bs"
    and "unat (scn_len sz len) < 2 ^ 63" and "scn_len sz len \<noteq> 0"
  shows "unat o' + unat (scn_len sz len) \<le> unat sz
    \<and> unat (off + o') + unat (scn_len sz len) \<le> length (strm_data s)
    \<and> bs = slice_at (unat (off + o')) (unat (scn_len sz len)) (strm_data s)
    \<and> length bs = unat (scn_len sz len)"
  using getscn_bounds [OF assms(2,3)] getscn_contents [OF assms(1-4)] assms(5) by simp

definition sample_clss32 :: strm where
  "sample_clss32 = sample_strm\<lparr>st_clss := 1, st_needswap := True\<rparr>"

lemma getscn_in_section_witness:
  "slice_at 173 7 sample_file = str_bytes ''.symtab''"
proof -
  have "fst (pmelf_getscn True False sample_clss32 (S32 (sample_shdr 9 3 172 12 0)) 1 7) =
      Ok (str_bytes ''.symtab'')"
    by code_simp
  moreover have "shdr_extent (st_clss sample_clss32) (S32 (sample_shdr 9 3 172 12 0)) = Ok (12, 172)"
    by code_simp
  ultimately show ?thesis
    using getscn_in_section [of sample_clss32 "S32 (sample_shdr 9 3 172 12 0)" 12 172 True False 1 7
        "str_bytes ''.symtab''"] sample_facts
    by (simp add: sample_clss32_def scn_len_def)
qed

lemma getscn_whole:
  assumes s: "strm_ok s" and c: "shdr_clss_ok (st_clss s) psect"
    and fit: "unat (shdr_offset psect) + unat (shdr_size (st_clss s) psect) \<le> length (strm_data s)"
      "unat (shdr_offset psect) < length (strm_data s)"
    and mem: "own \<or> mok"
  shows "fst (pmelf_getscn mok own s psect 0 0) =
    Ok (slice_at (unat (shdr_offset psect)) (unat (shdr_size (st_clss s) psect)) (strm_data s))"
  using getscn_in [OF s shdr_extent_ok [OF c], of 0 0 own mok] fit mem by simp

text \<open>C39: The members of a section group that lies within the file, and consists of at least one word and of
  whole words, are the words of the file in the byte order of the file, for both classes, when there is memory
  for them.\<close>

theorem getgrp_members:
  assumes "strm_ok s" and "st_needswap s = (lsb \<noteq> le)" and "shdr_clss_ok (st_clss s) psect"
    and "unat (shdr_offset psect) + unat (shdr_size (st_clss s) psect) \<le> length (strm_data s)"
    and "unat (shdr_offset psect) < length (strm_data s)"
    and "shdr_type psect = SHT_GROUP"
    and "shdr_size (st_clss s) psect AND 3 = 0" and "shdr_size (st_clss s) psect div 4 \<noteq> 0"
    and "own \<or> mok"
  shows "fst (pmelf_getgrp lsb mok own s psect) =
    Ok (words32 le (slice_at (unat (shdr_offset psect)) (unat (shdr_size (st_clss s) psect)) (strm_data s)))"
proof -
  note whole = getscn_whole [OF assms(1,3-5), of own mok, OF assms(9)]
  have "fst (pmelf_getgrp lsb mok own s psect) =
    Ok (let ws = words32 lsb (slice_at (unat (shdr_offset psect)) (unat (shdr_size (st_clss s) psect)) (strm_data s))
        in if st_needswap s then map elf_swap32 ws else ws)"
  proof (cases psect)
    case (S32 h)
    then have "st_clss s = ELFCLASS32" using assms(3) by (simp add: shdr_clss_ok_def)
    then show ?thesis
      using assms(6-8) whole S32
      by (simp add: pmelf_getgrp_def shdr_type_def shdr_size_def then_do_Ok Let_def not_less)
  next
    case (S64 h)
    then have "st_clss s = ELFCLASS64" using assms(3) by (simp add: shdr_clss_ok_def)
    then show ?thesis
      using assms(6-8) whole S64
      by (simp add: pmelf_getgrp_def shdr_type_def shdr_size_def then_do_Ok Let_def not_less)
  qed
  then show ?thesis
    using assms(2) by (cases lsb; cases le) (simp_all add: map_swap32_words Let_def)
qed

text \<open>The file also serves as a group: its bytes at 184 are three words of the first symbol.\<close>

lemma getgrp_members_witness:
  "fst (pmelf_getgrp True True False sample_clss32 (S32 (sample_shdr 0 17 184 12 0))) = Ok [0, 0, 4]"
proof -
  let ?p = "S32 (sample_shdr 0 17 184 12 0)"
  have "shdr_clss_ok (st_clss sample_clss32) ?p" "shdr_type ?p = SHT_GROUP"
    "shdr_size (st_clss sample_clss32) ?p AND 3 = 0" "shdr_size (st_clss sample_clss32) ?p div 4 \<noteq> 0"
    "unat (shdr_offset ?p) = 184" "unat (shdr_size (st_clss sample_clss32) ?p) = 12"
    by code_simp+
  moreover have "words32 False (slice_at 184 12 sample_file) = [0, 0, 4]" by code_simp
  ultimately show ?thesis
    using getgrp_members [of sample_clss32 True False ?p False True] sample_facts
    by (simp add: sample_clss32_def)
qed

lemma getrel_returns:
  assumes "strm_ok s" and "shdr_clss_ok (st_clss s) psect"
    and "unat (shdr_offset psect) + unat (shdr_size (st_clss s) psect) \<le> length (strm_data s)"
    and "unat (shdr_offset psect) < length (strm_data s)"
    and "shdr_type psect = SHT_REL \<or> shdr_type psect = SHT_RELA"
    and "shdr_entsize psect = rel_entsize (st_clss s) (shdr_type psect)"
    and "shdr_size (st_clss s) psect mod shdr_entsize psect = 0"
    and "shdr_size (st_clss s) psect div shdr_entsize psect \<noteq> 0"
    and "own \<or> mok"
  shows "\<exists>buf. fst (pmelf_getrel lsb mok own s psect) = Ok buf"
proof -
  note whole = getscn_whole [OF assms(1-4), of own mok, OF assms(9)]
  show ?thesis
  proof (cases psect)
    case (S32 h)
    then have "st_clss s = ELFCLASS32" using assms(2) by (simp add: shdr_clss_ok_def)
    then show ?thesis
      using assms(5-8) whole S32
      by (auto simp: pmelf_getrel_def shdr_type_def shdr_size_def shdr_entsize_def then_do_Ok Let_def)
  next
    case (S64 h)
    then have "st_clss s = ELFCLASS64" using assms(2) by (simp add: shdr_clss_ok_def)
    then show ?thesis
      using assms(5-8) whole S64
      by (auto simp: pmelf_getrel_def shdr_type_def shdr_size_def shdr_entsize_def then_do_Ok Let_def)
  qed
qed

text \<open>The relocation entries of a 32-bit file are delivered in the byte order of the file.\<close>

lemma relocs32_of_file:
  assumes "strm_ok s" and "st_clss s = ELFCLASS32" and "st_needswap s = (lsb \<noteq> le)"
    and "unat (sh_offset32 h) + unat (sh_size32 h) \<le> length (strm_data s)"
    and "unat (sh_offset32 h) < length (strm_data s)"
    and "sh_type32 h = SHT_REL \<or> sh_type32 h = SHT_RELA"
    and "ucast (sh_entsize32 h) = rel_entsize ELFCLASS32 (sh_type32 h)"
    and "ucast (sh_size32 h) mod rel_entsize ELFCLASS32 (sh_type32 h) = 0"
    and "ucast (sh_size32 h) div rel_entsize ELFCLASS32 (sh_type32 h) \<noteq> 0"
    and "own \<or> mok"
  shows "\<exists>buf. fst (pmelf_getrel lsb mok own s (S32 h)) = Ok buf \<and>
    words32 lsb buf = words32 le (slice_at (unat (sh_offset32 h)) (unat (sh_size32 h)) (strm_data s))"
proof -
  obtain buf where "fst (pmelf_getrel lsb mok own s (S32 h)) = Ok buf"
    using getrel_returns [of s "S32 h" own mok lsb] assms
    by (auto simp: shdr_clss_ok_def shdr_offset_def shdr_size_def shdr_type_def shdr_entsize_def)
  with getrel32_contents [OF assms(1-3) this] show ?thesis by blast
qed

definition sample_rel :: Elf32_Shdr where
  "sample_rel = (sample_shdr 0 9 184 16 0)\<lparr>sh_entsize32 := 8\<rparr>"

lemma relocs32_of_file_witness:
  "\<exists>buf. fst (pmelf_getrel True True False sample_clss32 (S32 sample_rel)) = Ok buf \<and>
     words32 True buf = words32 False (slice_at 184 16 sample_file)"
proof -
  have "unat (sh_offset32 sample_rel) = 184" "unat (sh_size32 sample_rel) = 16" "sh_type32 sample_rel = SHT_REL"
    "ucast (sh_entsize32 sample_rel) = rel_entsize ELFCLASS32 (sh_type32 sample_rel)"
    "ucast (sh_size32 sample_rel) mod rel_entsize ELFCLASS32 (sh_type32 sample_rel) = 0"
    "ucast (sh_size32 sample_rel) div rel_entsize ELFCLASS32 (sh_type32 sample_rel) \<noteq> 0"
    by code_simp+
  then show ?thesis
    using relocs32_of_file [of sample_clss32 True False sample_rel False True] sample_facts
    by (simp add: sample_clss32_def)
qed

text \<open>The relocation entries of a 64-bit file are delivered unchanged when the file has the byte
  order of the host. Otherwise every 64-bit word is delivered with the bytes of its halves as they
  stand in the file and the halves exchanged, so that no member has its value: a word is swapped as
  a whole first, and then its two halves are swapped again.\<close>

lemma relocs64_of_file:
  assumes "strm_ok s" and "st_clss s = ELFCLASS64"
    and "unat (sh_offset64 h) + unat (sh_size64 h) \<le> length (strm_data s)"
    and "unat (sh_offset64 h) < length (strm_data s)"
    and "sh_type64 h = SHT_REL \<or> sh_type64 h = SHT_RELA"
    and "sh_entsize64 h = rel_entsize ELFCLASS64 (sh_type64 h)"
    and "sh_size64 h mod rel_entsize ELFCLASS64 (sh_type64 h) = 0"
    and "sh_size64 h div rel_entsize ELFCLASS64 (sh_type64 h) \<noteq> 0"
    and "own \<or> mok"
  shows "\<exists>buf. fst (pmelf_getrel lsb mok own s (S64 h)) = Ok buf \<and>
    words64 lsb buf =
      (let ws = words64 lsb (slice_at (unat (sh_offset64 h)) (unat (sh_size64 h)) (strm_data s))
       in if st_needswap s then map swap_halves ws else ws)"
proof -
  obtain buf where "fst (pmelf_getrel lsb mok own s (S64 h)) = Ok buf"
    using getrel_returns [of s "S64 h" own mok lsb] assms
    by (auto simp: shdr_clss_ok_def shdr_offset_def shdr_size_def shdr_type_def shdr_entsize_def)
  moreover have "unat (sh_size64 h) < 2 ^ 63" using strm_src.small [OF assms(1)] assms(3) by simp
  ultimately show ?thesis using getrel64_contents [OF assms(1,2)] by blast
qed

definition sample_clss64 :: strm where
  "sample_clss64 = (pmelf_newstrm \<lparr>fo_data = [0, 0, 0, 0, 0, 0, 0, 16, 0, 0, 0, 5, 0, 0, 0, 2],
     fo_pos = 0, fo_writable = False\<rparr>)\<lparr>st_clss := 2, st_needswap := True\<rparr>"

definition sample_rel64 :: Elf64_Shdr where
  "sample_rel64 = \<lparr>sh_name64 = 0, sh_type64 = 9, sh_flags64 = 0, sh_addr64 = 0, sh_offset64 = 0,
     sh_size64 = 16, sh_link64 = 0, sh_info64 = 0, sh_addralign64 = 8, sh_entsize64 = 16\<rparr>"

lemma relocs64_of_file_witness:
  "\<exists>buf. fst (pmelf_getrel True True False sample_clss64 (S64 sample_rel64)) = Ok buf \<and>
     words64 True buf = [0x10000000, 0x0500000002000000]"
proof -
  have "strm_ok sample_clss64" "st_clss sample_clss64 = ELFCLASS64" "st_needswap sample_clss64"
    "length (strm_data sample_clss64) = 16"
    by (simp_all add: sample_clss64_def pmelf_newstrm_def strm_ok.simps strm_data.simps file_ok_def)
  moreover have "map swap_halves (words64 True (slice_at 0 16 (strm_data sample_clss64))) =
      [0x10000000, 0x0500000002000000]"
    by code_simp
  moreover have "sh_size64 sample_rel64 mod rel_entsize ELFCLASS64 (sh_type64 sample_rel64) = 0"
    "sh_size64 sample_rel64 div rel_entsize ELFCLASS64 (sh_type64 sample_rel64) \<noteq> 0"
    "sh_entsize64 sample_rel64 = rel_entsize ELFCLASS64 (sh_type64 sample_rel64)"
    by code_simp+
  moreover have "sh_offset64 sample_rel64 = 0" "sh_size64 sample_rel64 = 16" "sh_type64 sample_rel64 = SHT_REL"
    by (simp_all add: sample_rel64_def)
  ultimately show ?thesis
    using relocs64_of_file [of sample_clss64 sample_rel64 False True True] by simp
qed

section \<open>What is written can be read\<close>

text \<open>The stream through which a file that \<open>s\<close> wrote is read from position \<open>p\<close> on another host.\<close>

definition reader :: "bool \<Rightarrow> bool \<Rightarrow> nat \<Rightarrow> strm \<Rightarrow> strm" where
  "reader lsb le p s = \<lparr>st_obj = FileObj \<lparr>fo_data = strm_data s, fo_pos = p, fo_writable = False\<rparr>,
     st_machine = 0, st_needswap = (lsb \<noteq> le), st_clss = 0\<rparr>"

lemma reader_facts [simp]:
  "strm_data (reader lsb le p s) = strm_data s" "strm_pos (reader lsb le p s) = p"
  "st_needswap (reader lsb le p s) = (lsb \<noteq> le)"
  "strm_ok (reader lsb le p s) \<longleftrightarrow> length (strm_data s) < 2 ^ 63"
  by (simp_all add: reader_def strm_data.simps strm_pos.simps strm_ok.simps file_ok_def)

lemma length_put_at: "pos \<le> length old \<Longrightarrow> length (put_at pos new old) = max (length old) (pos + length new)"
  by (simp add: put_at_def max_def)

context wire_struct begin

lemma put_then_get:
  assumes "st_obj s = FileObj f" and "fo_writable f" and "st_needswap s = (lsb \<noteq> le)"
    and "fo_pos f \<le> length (fo_data f)" and "length (fo_data f) < 2 ^ 62"
  shows "fst (put_struct bytes swap lsb h s) = 0 \<and>
    fst (get_struct sz img swap lsb'
      (reader lsb' le (fo_pos f) (snd (put_struct bytes swap lsb h s)))) = Ok h"
proof -
  have "length (strm_data (snd (put_struct bytes swap lsb h s))) < 2 ^ 63"
    using assms(4,5) sz_small by (simp add: put_file [OF assms(1-3)] strm_data.simps length_put_at len)
  then show ?thesis
    using put_get [OF assms, of "reader lsb' le (fo_pos f) (snd (put_struct bytes swap lsb h s))" h lsb']
    by (simp add: put_file [OF assms(1-3)])
qed

end

text \<open>C38: Section headers and symbols that were written on one host are read back unchanged on a host of
  any byte order.\<close>

theorem put_get_roundtrip:
  assumes "st_obj s = FileObj f" and "fo_writable f" and "st_needswap s = (lsb \<noteq> le)"
    and "fo_pos f \<le> length (fo_data f)" and "length (fo_data f) < 2 ^ 62"
  shows "fst (pmelf_getshdr32 lsb' (reader lsb' le (fo_pos f) (snd (pmelf_putshdr32 lsb h32 s)))) = Ok h32
    \<and> fst (pmelf_getshdr64 lsb' (reader lsb' le (fo_pos f) (snd (pmelf_putshdr64 lsb h64 s)))) = Ok h64
    \<and> fst (pmelf_getsym32 lsb' (reader lsb' le (fo_pos f) (snd (pmelf_putsym32 lsb s32 s)))) = Ok s32
    \<and> fst (pmelf_getsym64 lsb' (reader lsb' le (fo_pos f) (snd (pmelf_putsym64 lsb s64 s)))) = Ok s64"
  using shdr32.put_then_get [OF assms] shdr64.put_then_get [OF assms] sym32.put_then_get [OF assms]
    sym64.put_then_get [OF assms]
  by (simp add: pmelf_getshdr32_def pmelf_putshdr32_def pmelf_getshdr64_def pmelf_putshdr64_def
      pmelf_getsym32_def pmelf_putsym32_def pmelf_getsym64_def pmelf_putsym64_def)

definition empty_out :: strm where
  "empty_out = pmelf_newstrm \<lparr>fo_data = [1, 2, 3], fo_pos = 2, fo_writable = True\<rparr>"

lemma put_get_roundtrip_witness:
  "fst (pmelf_getsym32 True (reader True False 2 (snd (pmelf_putsym32 False (sample_sym 9 7) empty_out)))) =
     Ok (sample_sym 9 7)"
  using put_get_roundtrip [of empty_out "\<lparr>fo_data = [1, 2, 3], fo_pos = 2, fo_writable = True\<rparr>" False False
      True "sample_shdr 0 0 0 0 0" sample_rel64 "sample_sym 9 7"]
  by (simp add: empty_out_def pmelf_newstrm_def)


lemma putehdr32_writes:
  assumes "st_obj s = FileObj f" and "fo_writable f" and "fo_pos f = 0" and "length (e_ident32 h) = 16"
    and "take 4 (e_ident32 h) = elf_magic" and "e_ident32 h ! EI_CLASS = ELFCLASS32"
    and "e_ident32 h ! EI_VERSION = EV_CURRENT"
  defines "le \<equiv> e_ident32 h ! EI_DATA = ELFDATA2LSB"
  shows "fst (pmelf_putehdr32 lsb h s) = 0"
    "strm_data (snd (pmelf_putehdr32 lsb h s)) = put_at 0 (bytes_ehdr32 le h) (fo_data f)"
proof -
  let ?w = "if lsb \<noteq> le then swap_ehdr32 h else h"
  have i: "length (e_ident32 ?w) = 16" using assms(4) by (simp add: swap_ehdr32_def)
  have b: "bytes_ehdr32 lsb ?w = bytes_ehdr32 le h" by (cases lsb; cases le) (simp_all add: bytes_swap_ehdr32)
  have w: "swrite1 (bytes_ehdr32 lsb ?w) (s\<lparr>st_needswap := (lsb \<noteq> le)\<rparr>) =
      (0, s\<lparr>st_needswap := (lsb \<noteq> le), st_obj := FileObj (f\<lparr>fo_data := put_at 0 (bytes_ehdr32 le h) (fo_data f),
           fo_pos := 52\<rparr>)\<rparr>)"
    using swrite1_file [of "s\<lparr>st_needswap := (lsb \<noteq> le)\<rparr>" f "bytes_ehdr32 lsb ?w"] assms(1-4) i
    unfolding b by simp
  show "fst (pmelf_putehdr32 lsb h s) = 0"
    "strm_data (snd (pmelf_putehdr32 lsb h s)) = put_at 0 (bytes_ehdr32 le h) (fo_data f)"
    using w assms(5-7) by (simp_all add: pmelf_putehdr32_def put_struct_def le_def strm_data.simps)
qed

lemma ehdr_spec_put32:
  assumes "length (e_ident32 h) = 16" and "take 4 (e_ident32 h) = elf_magic"
    and "e_ident32 h ! EI_CLASS = ELFCLASS32" and "e_ident32 h ! EI_VERSION = EV_CURRENT"
    and "\<not> ehdr32_bad h" and "em_supported (e_machine32 h)"
  defines "le \<equiv> e_ident32 h ! EI_DATA = ELFDATA2LSB"
  shows "ehdr_spec (put_at 0 (bytes_ehdr32 le h) d) = Ok (E32 h)"
proof -
  let ?b = "bytes_ehdr32 le h" and ?d = "put_at 0 (bytes_ehdr32 le h) d"
  have lb: "length ?b = 52" using assms(1) by simp
  have d: "?d = ?b @ drop 52 d" by (simp add: put_at_def lb)
  have tb: "take 16 ?b = e_ident32 h" using assms(1) by (simp add: bytes_ehdr32_def)
  have i: "take 16 ?d = e_ident32 h" using tb lb by (simp add: d)
  have r: "slice_at 16 36 ?d = drop 16 ?b" by (simp add: d slice_at_def lb)
  have nth: "?d ! j = e_ident32 h ! j" if "j < 16" for j
    using that i by (metis nth_take)
  have "take 4 ?d = take 4 (take 16 ?d)" by simp
  then have magic: "take 4 ?d = elf_magic" using i assms(2) by simp
  have le: "file_lsb ?d = le" using nth [of EI_DATA] by (simp add: file_lsb_def le_def)
  have "image_ehdr32 le (take 16 ?d) (slice_at 16 36 ?d) = h"
    using image_bytes_ehdr32 [OF assms(1), of le] by (simp only: i r tb)
  moreover have "length ?d \<ge> 52" by (simp add: d lb)
  ultimately show ?thesis
    using magic assms(3-6) nth [of EI_CLASS] nth [of EI_VERSION] by (simp add: ehdr_spec_def le Let_def)
qed

text \<open>A valid 32-bit ELF header that was written at the start of a file is accepted and read back
  unchanged by a host of any byte order.\<close>

lemma putehdr32_roundtrip:
  assumes "st_obj s = FileObj f" and "fo_writable f" and "fo_pos f = 0" and "length (fo_data f) < 2 ^ 62"
    and "length (e_ident32 h) = 16" and "take 4 (e_ident32 h) = elf_magic"
    and "e_ident32 h ! EI_CLASS = ELFCLASS32" and "e_ident32 h ! EI_VERSION = EV_CURRENT"
    and "\<not> ehdr32_bad h" and "em_supported (e_machine32 h)"
  shows "fst (pmelf_putehdr32 lsb h s) = 0 \<and>
    fst (pmelf_getehdr lsb' (reader lsb' le p (snd (pmelf_putehdr32 lsb h s)))) = Ok (E32 h)"
proof -
  note w = putehdr32_writes [OF assms(1-3,5-8), of lsb]
  note sp = ehdr_spec_put32 [OF assms(5-10), of "fo_data f"]
  let ?r = "reader lsb' le p (snd (pmelf_putehdr32 lsb h s))"
  have "strm_ok ?r" using assms(4,5) by (simp add: w length_put_at)
  moreover have "ehdr_spec (strm_data ?r) = Ok (E32 h)" using sp by (simp add: w)
  ultimately show ?thesis using opened_stream(1) w(1) by blast
qed

definition out0 :: strm where
  "out0 = pmelf_newstrm \<lparr>fo_data = [], fo_pos = 0, fo_writable = True\<rparr>"

lemma putehdr32_roundtrip_witness:
  "fst (pmelf_getehdr True (reader True False 9 (snd (pmelf_putehdr32 True sample_ehdr out0)))) =
     Ok (E32 sample_ehdr)"
proof -
  have "\<not> ehdr32_bad sample_ehdr" "em_supported (e_machine32 sample_ehdr)" by code_simp+
  then show ?thesis
    using putehdr32_roundtrip [of out0 "\<lparr>fo_data = [], fo_pos = 0, fo_writable = True\<rparr>" sample_ehdr True True False 9]
    by (simp add: out0_def pmelf_newstrm_def sample_ehdr_def elf_magic_def)
qed

lemma putehdr64_writes:
  assumes "st_obj s = FileObj f" and "fo_writable f" and "fo_pos f = 0" and "length (e_ident64 h) = 16"
    and "take 4 (e_ident64 h) = elf_magic" and "e_ident64 h ! EI_CLASS = ELFCLASS64"
    and "e_ident64 h ! EI_VERSION = EV_CURRENT"
  defines "le \<equiv> e_ident64 h ! EI_DATA = ELFDATA2LSB"
  shows "fst (pmelf_putehdr64 lsb h s) = 0"
    "strm_data (snd (pmelf_putehdr64 lsb h s)) = put_at 0 (bytes_ehdr64 le h) (fo_data f)"
proof -
  let ?w = "if lsb \<noteq> le then swap_ehdr64 h else h"
  have i: "length (e_ident64 ?w) = 16" using assms(4) by (simp add: swap_ehdr64_def)
  have b: "bytes_ehdr64 lsb ?w = bytes_ehdr64 le h" by (cases lsb; cases le) (simp_all add: bytes_swap_ehdr64)
  have w: "swrite1 (bytes_ehdr64 lsb ?w) (s\<lparr>st_needswap := (lsb \<noteq> le)\<rparr>) =
      (0, s\<lparr>st_needswap := (lsb \<noteq> le), st_obj := FileObj (f\<lparr>fo_data := put_at 0 (bytes_ehdr64 le h) (fo_data f),
           fo_pos := 64\<rparr>)\<rparr>)"
    using swrite1_file [of "s\<lparr>st_needswap := (lsb \<noteq> le)\<rparr>" f "bytes_ehdr64 lsb ?w"] assms(1-4) i
    unfolding b by simp
  show "fst (pmelf_putehdr64 lsb h s) = 0"
    "strm_data (snd (pmelf_putehdr64 lsb h s)) = put_at 0 (bytes_ehdr64 le h) (fo_data f)"
    using w assms(5-7) by (simp_all add: pmelf_putehdr64_def put_struct_def le_def strm_data.simps)
qed

lemma ehdr_spec_put64:
  assumes "length (e_ident64 h) = 16" and "take 4 (e_ident64 h) = elf_magic"
    and "e_ident64 h ! EI_CLASS = ELFCLASS64" and "e_ident64 h ! EI_VERSION = EV_CURRENT"
    and "\<not> ehdr64_bad h" and "em_supported (e_machine64 h)"
  defines "le \<equiv> e_ident64 h ! EI_DATA = ELFDATA2LSB"
  shows "ehdr_spec (put_at 0 (bytes_ehdr64 le h) d) = Ok (E64 h)"
proof -
  let ?b = "bytes_ehdr64 le h" and ?d = "put_at 0 (bytes_ehdr64 le h) d"
  have lb: "length ?b = 64" using assms(1) by simp
  have d: "?d = ?b @ drop 64 d" by (simp add: put_at_def lb)
  have tb: "take 16 ?b = e_ident64 h" using assms(1) by (simp add: bytes_ehdr64_def)
  have i: "take 16 ?d = e_ident64 h" using tb lb by (simp add: d)
  have r: "slice_at 16 48 ?d = drop 16 ?b" by (simp add: d slice_at_def lb)
  have nth: "?d ! j = e_ident64 h ! j" if "j < 16" for j
    using that i by (metis nth_take)
  have "take 4 ?d = take 4 (take 16 ?d)" by simp
  then have magic: "take 4 ?d = elf_magic" using i assms(2) by simp
  have le: "file_lsb ?d = le" using nth [of EI_DATA] by (simp add: file_lsb_def le_def)
  have "image_ehdr64 le (take 16 ?d) (slice_at 16 48 ?d) = h"
    using image_bytes_ehdr64 [OF assms(1), of le] by (simp only: i r tb)
  moreover have "length ?d \<ge> 64" by (simp add: d lb)
  ultimately show ?thesis
    using magic assms(3-6) nth [of EI_CLASS] nth [of EI_VERSION] by (simp add: ehdr_spec_def le Let_def)
qed

text \<open>C37: A valid 64-bit ELF header that was written at the start of a file is accepted and read back
  unchanged by a host of any byte order.\<close>

theorem putehdr64_roundtrip:
  assumes "st_obj s = FileObj f" and "fo_writable f" and "fo_pos f = 0" and "length (fo_data f) < 2 ^ 62"
    and "length (e_ident64 h) = 16" and "take 4 (e_ident64 h) = elf_magic"
    and "e_ident64 h ! EI_CLASS = ELFCLASS64" and "e_ident64 h ! EI_VERSION = EV_CURRENT"
    and "\<not> ehdr64_bad h" and "em_supported (e_machine64 h)"
  shows "fst (pmelf_putehdr64 lsb h s) = 0 \<and>
    fst (pmelf_getehdr lsb' (reader lsb' le p (snd (pmelf_putehdr64 lsb h s)))) = Ok (E64 h)"
proof -
  note w = putehdr64_writes [OF assms(1-3,5-8), of lsb]
  note sp = ehdr_spec_put64 [OF assms(5-10), of "fo_data f"]
  let ?r = "reader lsb' le p (snd (pmelf_putehdr64 lsb h s))"
  have "strm_ok ?r" using assms(4,5) by (simp add: w length_put_at)
  moreover have "ehdr_spec (strm_data ?r) = Ok (E64 h)" using sp by (simp add: w)
  ultimately show ?thesis using opened_stream(1) w(1) by blast
qed

definition sample_ehdr64 :: Elf64_Ehdr where
  "sample_ehdr64 = \<lparr>e_ident64 = elf_magic @ [2, 1, 1, 0, 0, 0, 0, 0, 0, 0, 0, 0],
     e_type64 = 1, e_machine64 = 62, e_version64 = 1, e_entry64 = 0, e_phoff64 = 0, e_shoff64 = 64,
     e_flags64 = 0, e_ehsize64 = 64, e_phentsize64 = 0, e_phnum64 = 0, e_shentsize64 = 64,
     e_shnum64 = 3, e_shstrndx64 = 2\<rparr>"

lemma putehdr64_roundtrip_witness:
  "fst (pmelf_getehdr False (reader False False 9 (snd (pmelf_putehdr64 True sample_ehdr64 out0)))) =
     Ok (E64 sample_ehdr64)"
proof -
  have "\<not> ehdr64_bad sample_ehdr64" "em_supported (e_machine64 sample_ehdr64)" by code_simp+
  then show ?thesis
    using putehdr64_roundtrip [of out0 "\<lparr>fo_data = [], fo_pos = 0, fo_writable = True\<rparr>" sample_ehdr64 True
        False False 9]
    by (simp add: out0_def pmelf_newstrm_def sample_ehdr64_def elf_magic_def)
qed

end
