(* ===== verification/Bfd.thy ===== *)
theory Bfd imports ElfFile begin

text \<open>
  The emulation of the BFD library (\<open>pmbfd/bfd.c\<close>, \<open>pmbfd.h\<close>, \<open>pmbfdP.h\<close>): opening an object file,
  its sections with their flags, groups and relocations, its symbols and their values. There is one
  descriptor, the static \<open>thebfd\<close>; the record \<open>bfd\<close> is its contents together with the other static
  variables of the file. A C string is the memory from its first byte to the end of the block it
  lies in.
\<close>

section \<open>Sections and symbols\<close>

abbreviation SHN_UNDEF :: u32 where "SHN_UNDEF \<equiv> 0"
abbreviation SHN_ABS :: u32 where "SHN_ABS \<equiv> 0xfff1"
abbreviation SHN_COMMON :: u32 where "SHN_COMMON \<equiv> 0xfff2"

abbreviation SEC_ALLOC :: u32 where "SEC_ALLOC \<equiv> 0x1"
abbreviation SEC_LOAD :: u32 where "SEC_LOAD \<equiv> 0x2"
abbreviation SEC_RELOC :: u32 where "SEC_RELOC \<equiv> 0x4"
abbreviation SEC_READONLY :: u32 where "SEC_READONLY \<equiv> 0x8"
abbreviation SEC_CODE :: u32 where "SEC_CODE \<equiv> 0x10"
abbreviation SEC_DATA :: u32 where "SEC_DATA \<equiv> 0x20"
abbreviation SEC_HAS_CONTENTS :: u32 where "SEC_HAS_CONTENTS \<equiv> 0x100"
abbreviation SEC_DEBUGGING :: u32 where "SEC_DEBUGGING \<equiv> 0x2000"
abbreviation SEC_EXCLUDE :: u32 where "SEC_EXCLUDE \<equiv> 0x8000"
abbreviation SEC_LINK_ONCE :: u32 where "SEC_LINK_ONCE \<equiv> 0x20000"
abbreviation SEC_LINK_DUPLICATES :: u32 where "SEC_LINK_DUPLICATES \<equiv> 0x40000"
abbreviation SEC_MERGE :: u32 where "SEC_MERGE \<equiv> 0x1000000"
abbreviation SEC_STRINGS :: u32 where "SEC_STRINGS \<equiv> 0x2000000"
abbreviation SEC_GROUP :: u32 where "SEC_GROUP \<equiv> 0x4000000"
abbreviation SEC_BOGUS :: u32 where "SEC_BOGUS \<equiv> -1"

abbreviation BSF_LOCAL :: u16 where "BSF_LOCAL \<equiv> 0x1"
abbreviation BSF_GLOBAL :: u16 where "BSF_GLOBAL \<equiv> 0x2"
abbreviation BSF_DEBUGGING :: u16 where "BSF_DEBUGGING \<equiv> 0x8"
abbreviation BSF_FUNCTION :: u16 where "BSF_FUNCTION \<equiv> 0x10"
abbreviation BSF_KEEP :: u16 where "BSF_KEEP \<equiv> 0x20"
abbreviation BSF_WEAK :: u16 where "BSF_WEAK \<equiv> 0x80"
abbreviation BSF_SECTION_SYM :: u16 where "BSF_SECTION_SYM \<equiv> 0x100"
abbreviation BSF_OLD_COMMON :: u16 where "BSF_OLD_COMMON \<equiv> 0x200"
abbreviation BSF_OBJECT :: u16 where "BSF_OBJECT \<equiv> 0x1000"
abbreviation BSF_THREAD_LOCAL :: u16 where "BSF_THREAD_LOCAL \<equiv> 0x2000"
abbreviation BSF_FILE :: u16 where "BSF_FILE \<equiv> 0x4000"

text \<open>\<open>sc_shdr\<close> is the index of the section header; the three static sections and a section made by
  the loader have none.\<close>

record asection =
  sc_name :: "bytes option"
  sc_size :: u64
  sc_vma :: u64
  sc_align :: u8
  sc_elf64 :: bool
  sc_flags :: u32
  sc_shdr :: "nat option"
  sc_grp_next :: u16
  sc_rels :: u16

definition zero_sec :: asection where
  "zero_sec = \<lparr>sc_name = None, sc_size = 0, sc_vma = 0, sc_align = 0, sc_elf64 = False, sc_flags = 0,
     sc_shdr = None, sc_grp_next = 0, sc_rels = 0\<rparr>"

record asymbol =
  as_name :: "bytes option"
  as_val :: u64
  as_size :: u64
  as_flags :: u16
  as_secndx :: u16

definition zero_asym :: asymbol where
  "zero_asym = \<lparr>as_name = None, as_val = 0, as_size = 0, as_flags = 0, as_secndx = 0\<rparr>"

text \<open>Pointers to sections: the static ones and the elements of the array. Pointers to symbols: the
  elements of the symbol table and the symbols made one by one.\<close>

datatype secref = Und | Abs | Com | Sect nat
datatype symref = Sym nat | Made nat

datatype bfd_architecture = bfd_arch_unknown | bfd_arch_m68k | bfd_arch_sparc | bfd_arch_i386 | bfd_arch_powerpc

record bfd_arch_info =
  ai_name :: string
  ai_arch :: bfd_architecture
  ai_mach :: u64
  ai_elf_id :: u16

record bfd =
  b_inited :: bool
  b_s :: "strm option"
  b_ehdr :: Elf_Ehdr
  b_arch :: "bfd_arch_info option"
  b_sects :: "asection list"
  b_nsects :: nat
  b_syms :: "asymbol list option"
  b_nsyms :: int
  b_strtabs :: "(bytes \<times> u64) list"
  b_shtab :: "Pmelf_Shtab option"
  b_symsh :: nat
  b_symstrs :: u32
  b_att_sh :: "nat option"
  b_made :: "asymbol list"
  b_und :: asection
  b_abs :: asection
  b_com :: asection
  b_id :: u32

definition str_mem :: "string \<Rightarrow> bytes" where "str_mem s = str_bytes s @ [0]"

definition zero_ehdr :: Elf_Ehdr where "zero_ehdr = E32 (image_ehdr32 True (replicate 16 0) (replicate 36 0))"

definition bfd_start :: bfd where
  "bfd_start = \<lparr>b_inited = False, b_s = None, b_ehdr = zero_ehdr, b_arch = None, b_sects = [], b_nsects = 0,
     b_syms = None, b_nsyms = 0, b_strtabs = [], b_shtab = None, b_symsh = 0, b_symstrs = 0, b_att_sh = None,
     b_made = [], b_und = zero_sec\<lparr>sc_name := Some (str_mem ''*UND*'')\<rparr>,
     b_abs = zero_sec\<lparr>sc_name := Some (str_mem ''*ABS*'')\<rparr>,
     b_com = zero_sec\<lparr>sc_name := Some (str_mem ''*COM*'')\<rparr>, b_id = 0\<rparr>"

text \<open>Reading and writing through a pointer; a section pointer the library hands out is always valid.\<close>

fun get_sec :: "bfd \<Rightarrow> secref \<Rightarrow> asection" where
  "get_sec b Und = b_und b"
| "get_sec b Abs = b_abs b"
| "get_sec b Com = b_com b"
| "get_sec b (Sect i) = b_sects b ! i"

fun upd_sec :: "secref \<Rightarrow> (asection \<Rightarrow> asection) \<Rightarrow> bfd \<Rightarrow> bfd" where
  "upd_sec Und f b = b\<lparr>b_und := f (b_und b)\<rparr>"
| "upd_sec Abs f b = b\<lparr>b_abs := f (b_abs b)\<rparr>"
| "upd_sec Com f b = b\<lparr>b_com := f (b_com b)\<rparr>"
| "upd_sec (Sect i) f b = b\<lparr>b_sects := (b_sects b)[i := f (b_sects b ! i)]\<rparr>"

definition syms_of_bfd :: "bfd \<Rightarrow> asymbol list" where
  "syms_of_bfd b = (case b_syms b of None \<Rightarrow> [] | Some ss \<Rightarrow> ss)"

fun get_sym :: "bfd \<Rightarrow> symref \<Rightarrow> asymbol" where
  "get_sym b (Sym i) = syms_of_bfd b ! i"
| "get_sym b (Made i) = b_made b ! i"

fun upd_sym :: "symref \<Rightarrow> (asymbol \<Rightarrow> asymbol) \<Rightarrow> bfd \<Rightarrow> bfd" where
  "upd_sym (Sym i) f b = b\<lparr>b_syms := map_option (\<lambda>ss. ss[i := f (ss ! i)]) (b_syms b)\<rparr>"
| "upd_sym (Made i) f b = b\<lparr>b_made := (b_made b)[i := f (b_made b ! i)]\<rparr>"

section \<open>Architectures and the file header\<close>

abbreviation bfd_mach_sparc :: u64 where "bfd_mach_sparc \<equiv> 1"
abbreviation bfd_mach_x86_64 :: u64 where "bfd_mach_x86_64 \<equiv> 64"

definition arches :: "bfd_arch_info list" where
  "arches =
    [\<lparr>ai_name = ''elf32-powerpc'', ai_arch = bfd_arch_powerpc, ai_mach = 0, ai_elf_id = 20\<rparr>,
     \<lparr>ai_name = ''elf32-i386'', ai_arch = bfd_arch_i386, ai_mach = 0, ai_elf_id = 3\<rparr>,
     \<lparr>ai_name = ''elf32-m68k'', ai_arch = bfd_arch_m68k, ai_mach = 0, ai_elf_id = 4\<rparr>,
     \<lparr>ai_name = ''elf64-x86_64'', ai_arch = bfd_arch_i386, ai_mach = bfd_mach_x86_64, ai_elf_id = 62\<rparr>,
     \<lparr>ai_name = ''elf32-sparc'', ai_arch = bfd_arch_sparc, ai_mach = bfd_mach_sparc, ai_elf_id = 2\<rparr>]"

text \<open>The architecture of the host, here the 64-bit one.\<close>

definition myarch :: bfd_arch_info where
  "myarch = \<lparr>ai_name = ''elf64-x86_64'', ai_arch = bfd_arch_i386, ai_mach = bfd_mach_x86_64, ai_elf_id = 62\<rparr>"

fun ehdr_ident :: "Elf_Ehdr \<Rightarrow> bytes" where
  "ehdr_ident (E32 h) = e_ident32 h"
| "ehdr_ident (E64 h) = e_ident64 h"

fun ehdr_machine :: "Elf_Ehdr \<Rightarrow> u16" where
  "ehdr_machine (E32 h) = e_machine32 h"
| "ehdr_machine (E64 h) = e_machine64 h"

fun ehdr_type :: "Elf_Ehdr \<Rightarrow> u16" where
  "ehdr_type (E32 h) = e_type32 h"
| "ehdr_type (E64 h) = e_type64 h"

definition BFD_IS_ELF64 :: "bfd \<Rightarrow> bool" where
  "BFD_IS_ELF64 b \<longleftrightarrow> ehdr_ident (b_ehdr b) ! EI_CLASS = ELFCLASS64"

definition find_arch :: "bfd \<Rightarrow> bfd_arch_info option" where
  "find_arch b = List.find (\<lambda>a. ai_elf_id a = ehdr_machine (b_ehdr b)) arches"

definition bfd_get_target :: "bfd \<Rightarrow> string" where
  "bfd_get_target b =
     (case find_arch b of
        Some a \<Rightarrow> ai_name a
      | None \<Rightarrow> let d = ehdr_ident (b_ehdr b) ! EI_DATA in
          if d = 1 then ''elf32-little'' else if d = 2 then ''elf32-big'' else ''unknown'')"

text \<open>The argument \<open>None\<close> is the null pointer, which asks for the host.\<close>

definition arch_of :: "bfd option \<Rightarrow> bfd_arch_info option" where
  "arch_of ab = (case ab of None \<Rightarrow> Some myarch | Some b \<Rightarrow> b_arch b)"

definition bfd_printable_name :: "bfd option \<Rightarrow> string" where
  "bfd_printable_name ab = (case arch_of ab of None \<Rightarrow> ''unknown'' | Some a \<Rightarrow> ai_name a)"

definition bfd_get_arch :: "bfd option \<Rightarrow> bfd_architecture" where
  "bfd_get_arch ab = (case arch_of ab of None \<Rightarrow> bfd_arch_unknown | Some a \<Rightarrow> ai_arch a)"

definition bfd_get_mach :: "bfd option \<Rightarrow> u64" where
  "bfd_get_mach ab = (case arch_of ab of None \<Rightarrow> 0 | Some a \<Rightarrow> ai_mach a)"

definition bfd_big_endian :: "bool \<Rightarrow> bfd option \<Rightarrow> bool" where
  "bfd_big_endian lsb ab =
     (case ab of None \<Rightarrow> \<not> lsb | Some b \<Rightarrow> ehdr_ident (b_ehdr b) ! EI_DATA = 2)"

definition bfd_little_endian :: "bool \<Rightarrow> bfd option \<Rightarrow> bool" where
  "bfd_little_endian lsb ab =
     (case ab of None \<Rightarrow> lsb | Some b \<Rightarrow> ehdr_ident (b_ehdr b) ! EI_DATA = 1)"

text \<open>\<open>strcasecmp\<close> compares the lower-case letters.\<close>

definition lower :: "char \<Rightarrow> char" where
  "lower c = (let n = of_char c :: nat in if 65 \<le> n \<and> n \<le> 90 then char_of (n + 32) else c)"

definition bfd_scan_arch :: "string \<Rightarrow> bfd_arch_info option" where
  "bfd_scan_arch s = (if map lower (ai_name myarch) = map lower s then Some myarch else None)"

datatype bfd_format = bfd_unknown | bfd_object | bfd_archive | bfd_core

definition bfd_check_format :: "bfd \<Rightarrow> bfd_format \<Rightarrow> bool" where
  "bfd_check_format b fmt =
     (let t = ehdr_type (b_ehdr b) in
      case fmt of
        bfd_object \<Rightarrow> t = 1 \<or> t = 2
      | bfd_core \<Rightarrow> t = 4
      | _ \<Rightarrow> False)"

definition bfd_get_file_flags :: "bfd \<Rightarrow> u32" where
  "bfd_get_file_flags b = (if b_nsyms b > 0 then 0x10 else 0)"

definition bfd_get_symtab_upper_bound :: "bfd \<Rightarrow> int" where
  "bfd_get_symtab_upper_bound b = (b_nsyms b + 1) * 8"

section \<open>From indices to sections and back\<close>

definition shdr2sec :: "bfd \<Rightarrow> u32 \<Rightarrow> bool \<Rightarrow> secref option" where
  "shdr2sec b ndx return_bogus =
     (if ndx = SHN_ABS then Some Abs
      else if ndx = SHN_UNDEF then Some Und
      else if ndx = SHN_COMMON then Some Com
      else if unat ndx \<ge> b_nsects b then None
      else if return_bogus \<or> sc_flags (b_sects b ! unat ndx) \<noteq> SEC_BOGUS then Some (Sect (unat ndx))
      else None)"

fun sec2shndx :: "secref option \<Rightarrow> u16" where
  "sec2shndx None = ucast SHN_UNDEF"
| "sec2shndx (Some Und) = ucast SHN_UNDEF"
| "sec2shndx (Some Abs) = ucast SHN_ABS"
| "sec2shndx (Some Com) = ucast SHN_COMMON"
| "sec2shndx (Some (Sect i)) = of_nat i"

definition elf_next_in_group :: "bfd \<Rightarrow> secref \<Rightarrow> secref option" where
  "elf_next_in_group b r = shdr2sec b (ucast (sc_grp_next (get_sec b r))) False"

definition bfd_get_section :: "bfd \<Rightarrow> asymbol \<Rightarrow> secref option" where
  "bfd_get_section b sy = shdr2sec b (ucast (as_secndx sy)) False"

definition bfd_set_section :: "secref option \<Rightarrow> asymbol \<Rightarrow> asymbol" where
  "bfd_set_section r sy = sy\<lparr>as_secndx := sec2shndx r\<rparr>"

text \<open>The size of a symbol is returned as an \<open>int\<close>.\<close>

definition elf_get_size :: "asymbol \<Rightarrow> 32 word" where "elf_get_size sy = ucast (as_size sy)"

definition bfd_asymbol_value :: "bfd \<Rightarrow> asymbol \<Rightarrow> u64" where
  "bfd_asymbol_value b sy =
     (let sec = bfd_get_section b sy in
      if sec = Some Com then scast (elf_get_size sy)
      else (case sec of None \<Rightarrow> 0 | Some r \<Rightarrow> sc_vma (get_sec b r)) + as_val sy)"

definition elf_get_align :: "bfd \<Rightarrow> asymbol \<Rightarrow> u32" where
  "elf_get_align b sy =
     (let rval = ucast (as_val sy)
      in if bfd_get_section b sy = Some Com \<and> rval \<noteq> 0 then rval else 1)"

definition elf_section_flags :: "bfd \<Rightarrow> secref \<Rightarrow> u64 res" where
  "elf_section_flags b r =
     (let s = get_sec b r in
      case (sc_shdr s, b_shtab b) of
        (None, _) \<Rightarrow> Ok 0
      | (Some i, Some t) \<Rightarrow>
          if i < length (sht_shdrs t)
          then (case sht_shdrs t ! i of
                  S64 h \<Rightarrow> if sc_elf64 s then Ok (sh_flags64 h) else UB
                | S32 h \<Rightarrow> if sc_elf64 s then UB else Ok (ucast (sh_flags32 h)))
          else UB
      | _ \<Rightarrow> UB)"

text \<open>The five halving steps that find the highest bit.\<close>

fun ldz_loop :: "u32 list \<Rightarrow> u32 \<Rightarrow> u32 \<Rightarrow> u32" where
  "ldz_loop [] x rval = rval"
| "ldz_loop (msk # ms) x rval =
     (let rval = push_bit 1 rval in
      if x AND msk \<noteq> 0 then ldz_loop ms (x AND msk) (rval + 1)
      else ldz_loop ms (x AND NOT msk) rval)"

definition ldz :: "u32 \<Rightarrow> u32" where
  "ldz x = ldz_loop [0xffff0000, 0xff00ff00, 0xf0f0f0f0, 0xcccccccc, 0xaaaaaaaa] x 0"

text \<open>An assertion that fails ends the program, which stands as \<open>UB\<close>.\<close>

definition bfd_set_section_alignment :: "u32 \<Rightarrow> asection \<Rightarrow> asection res" where
  "bfd_set_section_alignment val s = (if val < 256 then Ok (s\<lparr>sc_align := ucast val\<rparr>) else UB)"

section \<open>The symbols\<close>

abbreviation SYM_INVALID :: int where "SYM_INVALID \<equiv> -1"

definition elf_sym_name :: "bfd \<Rightarrow> Elf_Sym \<Rightarrow> bytes option" where
  "elf_sym_name b sy =
     (let st_name = sym_name_off sy in
      case b_strtabs b of
        [] \<Rightarrow> None
      | (strs, sz) # _ \<Rightarrow> if ucast st_name \<ge> sz then None else Some (drop (unat st_name) strs))"

definition esym_value :: "Elf_Sym \<Rightarrow> u64" where
  "esym_value s = (case s of T32 s \<Rightarrow> ucast (st_value32 s) | T64 s \<Rightarrow> st_value64 s)"

definition esym_size :: "Elf_Sym \<Rightarrow> u64" where
  "esym_size s = (case s of T32 s \<Rightarrow> ucast (st_size32 s) | T64 s \<Rightarrow> st_size64 s)"

definition esym_shndx :: "Elf_Sym \<Rightarrow> u16" where
  "esym_shndx s = (case s of T32 s \<Rightarrow> st_shndx32 s | T64 s \<Rightarrow> st_shndx64 s)"

definition esym_info :: "Elf_Sym \<Rightarrow> u8" where
  "esym_info s = (case s of T32 s \<Rightarrow> st_info32 s | T64 s \<Rightarrow> st_info64 s)"

definition esym_type :: "Elf_Sym \<Rightarrow> u8" where "esym_type s = esym_info s AND 0xf"
definition esym_bind :: "Elf_Sym \<Rightarrow> u8" where "esym_bind s = drop_bit 4 (esym_info s)"

text \<open>The flags from the binding and from the type of a symbol.\<close>

definition bind_flags :: "Elf_Sym \<Rightarrow> u16" where
  "bind_flags s =
     (if esym_bind s = 0 then BSF_LOCAL
      else if esym_bind s = 2 then BSF_WEAK
      else if esym_bind s = 1
           then (if ucast (esym_shndx s) \<noteq> SHN_UNDEF \<and> ucast (esym_shndx s) \<noteq> SHN_COMMON then BSF_GLOBAL else 0)
      else 0)"

definition type_flags :: "Elf_Sym \<Rightarrow> u16" where
  "type_flags s =
     (if esym_type s = 6 then BSF_THREAD_LOCAL
      else if esym_type s = 2 then BSF_FUNCTION
      else if esym_type s = 1 then BSF_OBJECT
      else if esym_type s = 4 then BSF_FILE OR BSF_DEBUGGING
      else if esym_type s = 3 then BSF_SECTION_SYM OR BSF_DEBUGGING
      else 0)"

text \<open>One symbol of the loop: \<open>Fail\<close> is the jump to the end.\<close>

definition canon_sym :: "bfd \<Rightarrow> Elf_Sym \<Rightarrow> asymbol res" where
  "canon_sym b esym =
     (case elf_sym_name b esym of
        None \<Rightarrow> Fail (-1)
      | Some nm \<Rightarrow>
          (case shdr2sec b (ucast (esym_shndx esym)) True of
             None \<Rightarrow> Fail (-1)
           | Some symsec \<Rightarrow>
               let sec = get_sec b symsec;
                   asym = \<lparr>as_name = Some nm, as_val = esym_value esym - sc_vma sec,
                     as_size = esym_size esym, as_flags = bind_flags esym OR type_flags esym,
                     as_secndx = esym_shndx esym\<rparr>
               in if esym_type esym = 3 \<and> nm = [] then UB
                  else
                    let asym = (if esym_type esym = 3 \<and> hd nm = 0 then asym\<lparr>as_name := sc_name sec\<rparr> else asym)
                    in Ok (if sc_flags sec = SEC_BOGUS then asym\<lparr>as_secndx := ucast SHN_ABS\<rparr> else asym)))"

text \<open>Reading a symbol in the class of the file.\<close>

definition get_esym :: "bool \<Rightarrow> bool \<Rightarrow> strm \<Rightarrow> Elf_Sym res \<times> strm" where
  "get_esym lsb elf64 s =
     (if elf64 then then_do (pmelf_getsym64 lsb s) (\<lambda>h s. (Ok (T64 h), s))
      else then_do (pmelf_getsym32 lsb s) (\<lambda>h s. (Ok (T32 h), s)))"

fun canon_loop :: "bool \<Rightarrow> bfd \<Rightarrow> nat \<Rightarrow> strm \<Rightarrow> asymbol list res \<times> strm" where
  "canon_loop lsb b 0 s = (Ok [], s)"
| "canon_loop lsb b (Suc n) s =
     then_do (get_esym lsb (BFD_IS_ELF64 b) s) (\<lambda>esym s1.
     then_do (canon_sym b esym, s1) (\<lambda>asym s2.
     then_do (canon_loop lsb b n s2) (\<lambda>rest s3. (Ok (asym # rest), s3))))"

text \<open>
  Delivers the number of symbols and the table of pointers to them, without the null pointer at its
  end. A table that has been read is not read again. The first symbol is moved to the absolute
  section.
\<close>

definition slurp_syms :: "bool \<Rightarrow> bool \<Rightarrow> bfd \<Rightarrow> (bool \<times> bfd) res" where
  "slurp_syms lsb mok b =
     (case b_syms b of
        Some _ \<Rightarrow> Ok (True, b)
      | None \<Rightarrow>
          if \<not> mok then Ok (False, b)
          else case (b_s b, b_shtab b) of
            (Some s, Some t) \<Rightarrow>
              (case then_if0 (pmelf_seek (shdr_offset (sht_shdrs t ! b_symsh b)) s)
                      (canon_loop lsb b (nat (b_nsyms b))) of
                 (Ok ss, s') \<Rightarrow> Ok (True, b\<lparr>b_s := Some s', b_syms := Some ss\<rparr>)
               | (Fail _, s') \<Rightarrow> Ok (False, b\<lparr>b_s := Some s'\<rparr>)
               | (UB, s') \<Rightarrow> UB
               | (Hang, s') \<Rightarrow> Hang)
          | _ \<Rightarrow> UB)"

definition bfd_canonicalize_symtab :: "bool \<Rightarrow> bool \<Rightarrow> bfd \<Rightarrow> (int \<times> symref list \<times> bfd) res" where
  "bfd_canonicalize_symtab lsb mok b =
     bind_res (slurp_syms lsb mok b) (\<lambda>(ok, b1).
       if \<not> ok then Ok (-1, [], b1)
       else if syms_of_bfd b1 = [] then UB
       else Ok (b_nsyms b1, map Sym [0..<length (syms_of_bfd b1)],
                upd_sym (Sym 0) (bfd_set_section (Some Abs)) b1))"

text \<open>A new symbol is all zero.\<close>

definition bfd_make_empty_symbol :: "bool \<Rightarrow> bfd \<Rightarrow> symref option \<times> bfd" where
  "bfd_make_empty_symbol mok b =
     (if mok then (Some (Made (length (b_made b))), b\<lparr>b_made := b_made b @ [zero_asym]\<rparr>) else (None, b))"

section \<open>The section table\<close>

definition MAX_USR_SECTS :: nat where "MAX_USR_SECTS = 5"

definition secinit :: "bool \<Rightarrow> nat \<Rightarrow> bfd \<Rightarrow> int \<times> bfd" where
  "secinit mok n b =
     (if mok then (0, b\<lparr>b_sects := replicate (n + MAX_USR_SECTS) zero_sec, b_nsects := n\<rparr>)
      else (-1, b\<lparr>b_sects := []\<rparr>))"

text \<open>The number of elements of the array is \<open>maxsects\<close>.\<close>

definition secget :: "bfd \<Rightarrow> secref option \<times> bfd" where
  "secget b = (if b_nsects b < length (b_sects b) then (Some (Sect (b_nsects b)), b\<lparr>b_nsects := b_nsects b + 1\<rparr>)
     else (None, b))"

definition bfd_make_section :: "bytes option \<Rightarrow> bfd \<Rightarrow> secref option \<times> bfd" where
  "bfd_make_section nm b =
     (case secget b of
        (None, b') \<Rightarrow> (None, b')
      | (Some r, b') \<Rightarrow> (Some r, upd_sec r (\<lambda>s. s\<lparr>sc_name := nm\<rparr>) b'))"

text \<open>
  The template with a number; \<open>count\<close>, when there is one, is what the caller has used up. The static
  counter is unsigned, so that a negative count compares as a large number. No name past 999999.
\<close>

definition digits6 :: "nat \<Rightarrow> string" where
  "digits6 n = map (\<lambda>k. char_of (48 + n div 10 ^ k mod 10)) [5, 4, 3, 2, 1, 0]"

definition bfd_get_unique_section_name ::
    "bool \<Rightarrow> string \<Rightarrow> u32 option \<Rightarrow> bfd \<Rightarrow> string option \<times> u32 option \<times> bfd" where
  "bfd_get_unique_section_name mok templ cnt b =
     (let n = (case cnt of None \<Rightarrow> b_id b | Some c \<Rightarrow> if c > b_id b then c else b_id b);
          cnt = map_option (\<lambda>_. n) cnt; b = b\<lparr>b_id := n\<rparr>
      in if n > 999999 then (None, cnt, b)
         else if \<not> mok then (None, cnt, b)
         else (Some (templ @ ''.'' @ digits6 (unat n)), cnt, b\<lparr>b_id := n + 1\<rparr>))"

text \<open>
  The calls of \<open>f\<close> for the sections from \<open>i\<close> on; the flags are looked at when the turn comes, and the number
  of sections is read anew each time. A fuel of \<open>maxsects\<close> is enough, no more can be made.
\<close>

fun map_over :: "nat \<Rightarrow> nat \<Rightarrow> (secref \<Rightarrow> bfd \<times> 'a \<Rightarrow> (bfd \<times> 'a) res) \<Rightarrow> bfd \<times> 'a \<Rightarrow> (bfd \<times> 'a) res" where
  "map_over 0 i f (b, x) = (if i < b_nsects b then Hang else Ok (b, x))"
| "map_over (Suc k) i f (b, x) =
     (if i < b_nsects b then
        bind_res (if sc_flags (b_sects b ! i) \<noteq> SEC_BOGUS then f (Sect i) (b, x) else Ok (b, x))
          (map_over k (i + 1) f)
      else Ok (b, x))"

definition bfd_map_over_sections :: "(secref \<Rightarrow> bfd \<times> 'a \<Rightarrow> (bfd \<times> 'a) res) \<Rightarrow> bfd \<times> 'a \<Rightarrow> (bfd \<times> 'a) res" where
  "bfd_map_over_sections f bx = map_over (length (b_sects (fst bx))) 0 f bx"

section \<open>From the ELF sections to those of BFD\<close>

definition shdr_flags :: "Elf_Shdr \<Rightarrow> u64" where
  "shdr_flags h = (case h of S32 h \<Rightarrow> ucast (sh_flags32 h) | S64 h \<Rightarrow> sh_flags64 h)"

definition shdr_addr :: "Elf_Shdr \<Rightarrow> u64" where
  "shdr_addr h = (case h of S32 h \<Rightarrow> ucast (sh_addr32 h) | S64 h \<Rightarrow> sh_addr64 h)"

definition shdr_info :: "Elf_Shdr \<Rightarrow> u32" where
  "shdr_info h = (case h of S32 h \<Rightarrow> sh_info32 h | S64 h \<Rightarrow> sh_info64 h)"

definition shdr_addralign :: "Elf_Shdr \<Rightarrow> u64" where
  "shdr_addralign h = (case h of S32 h \<Rightarrow> ucast (sh_addralign32 h) | S64 h \<Rightarrow> sh_addralign64 h)"

definition shdr_bytes :: "Elf_Shdr \<Rightarrow> u64" where
  "shdr_bytes h = (case h of S32 h \<Rightarrow> ucast (sh_size32 h) | S64 h \<Rightarrow> sh_size64 h)"

abbreviation SHF_WRITE :: u64 where "SHF_WRITE \<equiv> 1"
abbreviation SHF_ALLOC :: u64 where "SHF_ALLOC \<equiv> 2"
abbreviation SHF_EXECINSTR :: u64 where "SHF_EXECINSTR \<equiv> 4"
abbreviation SHF_MERGE :: u64 where "SHF_MERGE \<equiv> 0x10"
abbreviation SHF_STRINGS :: u64 where "SHF_STRINGS \<equiv> 0x20"
abbreviation SHT_NULL :: u32 where "SHT_NULL \<equiv> 0"
abbreviation SHT_STRTAB :: u32 where "SHT_STRTAB \<equiv> 3"
abbreviation SHT_NOBITS :: u32 where "SHT_NOBITS \<equiv> 8"
abbreviation SHT_SYMTAB_SHNDX :: u32 where "SHT_SYMTAB_SHNDX \<equiv> 18"
abbreviation SHT_GNU_ATTRIBUTES :: u32 where "SHT_GNU_ATTRIBUTES \<equiv> 0x6ffffff5"

text \<open>The types that are taken over as they are: among them the hash tables, notes and arrays.\<close>

definition sht_plain :: "u32 \<Rightarrow> bool" where
  "sht_plain typ \<longleftrightarrow>
     typ \<in> set [0x6ffffff6, 0x6fffffff, 0x6ffffffe, 1, SHT_NOBITS, 5, 7, 14, 15, 16, 6, SHT_DYNSYM]"

text \<open>\<open>strncmp\<close> with the length of the literal: does the string begin with it?\<close>

fun strn_eq :: "bytes \<Rightarrow> bytes \<Rightarrow> bool res" where
  "strn_eq [] ds = Ok True"
| "strn_eq (c # cs) [] = UB"
| "strn_eq (c # cs) (d # ds) = (if c \<noteq> d then Ok False else strn_eq cs ds)"

fun any_prefix :: "string list \<Rightarrow> bytes \<Rightarrow> bool res" where
  "any_prefix [] nm = Ok False"
| "any_prefix (p # ps) nm =
     bind_res (strn_eq (str_bytes p) nm) (\<lambda>eq. if eq then Ok True else any_prefix ps nm)"

text \<open>The flags that follow from the header; \<open>flags\<close> are those of a group.\<close>

definition header_flags :: "u32 \<Rightarrow> u64 \<Rightarrow> u32 \<Rightarrow> u32" where
  "header_flags typ fl flags =
     (let flags = flags OR (if typ \<noteq> SHT_NOBITS then SEC_HAS_CONTENTS else 0);
          flags = (if fl AND SHF_ALLOC \<noteq> 0
                   then flags OR SEC_ALLOC OR (if typ \<noteq> SHT_NOBITS then SEC_LOAD else 0) else flags);
          flags = flags OR (if fl AND SHF_WRITE = 0 then SEC_READONLY else 0);
          flags = (if fl AND SHF_EXECINSTR \<noteq> 0 then flags OR SEC_CODE
                   else if flags AND SEC_LOAD \<noteq> 0 then flags OR SEC_DATA else flags)
      in if fl AND SHF_MERGE \<noteq> 0
         then flags OR SEC_MERGE OR (if fl AND SHF_STRINGS \<noteq> 0 then SEC_STRINGS else 0) else flags)"

text \<open>The flags that follow from the name; \<open>SEC_LINK_DUPLICATES_DISCARD\<close> is zero.\<close>

definition name_flags :: "bytes \<Rightarrow> bool \<Rightarrow> u32 \<Rightarrow> u32 res" where
  "name_flags sname no_group flags =
     bind_res (if flags AND SEC_ALLOC = 0
               then any_prefix [''.debug'', ''.gnu.linkonce.wi.'', ''.line'', ''.stab''] sname else Ok False)
     (\<lambda>dbg.
       let flags = (if dbg then flags OR SEC_DEBUGGING else flags) in
       bind_res (if no_group then strn_eq (str_bytes ''.gnu.linkonce'') sname else Ok False)
       (\<lambda>once. Ok (if once then flags OR SEC_LINK_ONCE else flags)))"

text \<open>The chain of a group: the first component tells whether the last section is the second.\<close>

fun grp_loop :: "u32 list \<Rightarrow> secref \<Rightarrow> u32 \<Rightarrow> bfd \<Rightarrow> bool \<times> secref \<times> bfd" where
  "grp_loop [] s nsh b = (True, s, b)"
| "grp_loop (g # gs) s nsh b =
     (if g = 0 \<or> g \<ge> nsh then (False, s, upd_sec s (\<lambda>x. x\<lparr>sc_grp_next := 0\<rparr>) b)
      else
        let b = upd_sec s (\<lambda>x. x\<lparr>sc_grp_next := ucast g\<rparr>) b in
        case elf_next_in_group b s of
          None \<Rightarrow> (False, s, b)
        | Some s' \<Rightarrow> grp_loop gs s' nsh b)"

text \<open>The name of a group, read from the symbol table.\<close>

definition grp_name :: "bool \<Rightarrow> secref \<Rightarrow> Elf_Shdr \<Rightarrow> Pmelf_Shtab \<Rightarrow> bfd \<Rightarrow> (int \<times> bfd) res" where
  "grp_name lsb sec eshdr t b =
     (if shdr_link eshdr \<noteq> of_nat (b_symsh b) then Ok (1, b)
      else case b_s b of
        None \<Rightarrow> UB
      | Some s \<Rightarrow>
          let symsz = (if BFD_IS_ELF64 b then 24 else 16) :: u32;
              off = shdr_offset (sht_shdrs t ! b_symsh b) + ucast (symsz * shdr_info eshdr)
          in case then_if0 (pmelf_seek off s) (get_esym lsb (BFD_IS_ELF64 b)) of
               (Ok esym, s') \<Rightarrow>
                 let b = b\<lparr>b_s := Some s'\<rparr> in
                 if sym_name_off esym \<noteq> 0 \<or> esym_type esym \<noteq> 3 then
                   (case elf_sym_name b esym of
                      None \<Rightarrow> Ok (-1, b)
                    | Some nm \<Rightarrow> Ok (0, upd_sec sec (\<lambda>x. x\<lparr>sc_name := Some nm\<rparr>) b))
                 else Ok (0, b)
             | (Fail _, s') \<Rightarrow> Ok (1, b\<lparr>b_s := Some s'\<rparr>)
             | (UB, _) \<Rightarrow> UB
             | (Hang, _) \<Rightarrow> Hang)"

text \<open>The chain is closed with a link back to the group.\<close>

definition grp_chain :: "u32 list \<Rightarrow> secref \<Rightarrow> u16 \<Rightarrow> u32 \<Rightarrow> bfd \<Rightarrow> bool \<times> bfd" where
  "grp_chain gs sec idx nsh b =
     (case grp_loop gs sec nsh b of
        (ok, s, b) \<Rightarrow> (ok, if ok then upd_sec s (\<lambda>x. x\<lparr>sc_grp_next := idx\<rparr>) b else b))"

text \<open>Delivers an error code, 0 for none, and the flags of the group.\<close>

definition grp_section ::
    "bool \<Rightarrow> bool \<Rightarrow> secref \<Rightarrow> u16 \<Rightarrow> Elf_Shdr \<Rightarrow> Pmelf_Shtab \<Rightarrow> bfd \<Rightarrow> (int \<times> u32 \<times> bfd) res" where
  "grp_section lsb mok sec idx eshdr t b =
     (case b_s b of
        None \<Rightarrow> UB
      | Some s \<Rightarrow>
          (case pmelf_getgrp lsb mok False s eshdr of
             (UB, _) \<Rightarrow> UB
           | (Hang, _) \<Rightarrow> Hang
           | (Fail _, s') \<Rightarrow> Ok (1, 0, b\<lparr>b_s := Some s'\<rparr>)
           | (Ok grp, s') \<Rightarrow>
               let b = b\<lparr>b_s := Some s'\<rparr>; comdat = hd grp AND 1 \<noteq> 0;
                   n = unat (ucast (shdr_bytes eshdr div 4) :: u32)
               in case (if comdat then grp_chain (take (n - 1) (tl grp)) sec idx (sht_nshdrs t) b else (True, b)) of
                    (ok, b) \<Rightarrow>
                      if \<not> ok then Ok (1, 0, b)
                      else bind_res (grp_name lsb sec eshdr t b) (\<lambda>(e, b).
                        Ok (e, (if comdat then SEC_LINK_ONCE else 0) OR SEC_GROUP OR SEC_EXCLUDE, b))))"

text \<open>The fields that every section gets.\<close>

definition enter_sec :: "Elf_Shdr \<Rightarrow> nat \<Rightarrow> bytes \<Rightarrow> asection \<Rightarrow> asection res" where
  "enter_sec h i sname s =
     bind_res (bfd_set_section_alignment (ldz (ucast (shdr_addralign h)))
         (s\<lparr>sc_name := Some sname, sc_size := shdr_bytes h, sc_vma := shdr_addr h\<rparr>)) (\<lambda>s.
       Ok (s\<lparr>sc_shdr := Some i, sc_rels := 0\<rparr>))"

definition set_flags :: "secref \<Rightarrow> u32 \<Rightarrow> bfd \<Rightarrow> bfd" where
  "set_flags r fl b = upd_sec r (\<lambda>s. s\<lparr>sc_flags := fl\<rparr>) b"

text \<open>A section of a type that has no counterpart.\<close>

definition sec_hidden :: "Pmelf_Shtab \<Rightarrow> nat \<Rightarrow> Elf_Shdr \<Rightarrow> bfd \<Rightarrow> bool" where
  "sec_hidden t i h b \<longleftrightarrow>
     shdr_type h = SHT_NULL \<or> shdr_type h = SHT_SYMTAB \<or>
     shdr_type h = SHT_STRTAB \<and> (of_nat i = sht_idx t \<or> get_shtabN t (of_nat i) = b_symstrs b) \<or>
     (shdr_type h = SHT_REL \<or> shdr_type h = SHT_RELA) \<and> shdr_flags h AND SHF_ALLOC = 0"

text \<open>The last part: the flags.\<close>

definition finish_sec :: "secref \<Rightarrow> bytes \<Rightarrow> Elf_Shdr \<Rightarrow> int \<Rightarrow> u32 \<Rightarrow> bfd \<Rightarrow> (bfd \<times> int) res" where
  "finish_sec sec sname h err flags b =
     bind_res (name_flags sname (sc_grp_next (get_sec b sec) = 0) (header_flags (shdr_type h) (shdr_flags h) flags))
       (\<lambda>fl. Ok (set_flags sec fl b, err))"

text \<open>
  The cases of the type; \<open>att\<close> tells that the attributes of a vendor are compiled in. The second component
  of the result is the error.
\<close>

definition switch_sec ::
    "bool \<Rightarrow> bool \<Rightarrow> bool \<Rightarrow> secref \<Rightarrow> nat \<Rightarrow> Pmelf_Shtab \<Rightarrow> bytes \<Rightarrow> int \<Rightarrow> bfd \<Rightarrow> (bfd \<times> int) res" where
  "switch_sec lsb mok att sec i t sname err b =
     (let h = sht_shdrs t ! i; typ = shdr_type h in
      if sec_hidden t i h b then Ok (b, err)
      else if typ = SHT_SYMTAB_SHNDX then Ok (b, -1)
      else if sht_plain typ \<or> typ = SHT_STRTAB \<or> typ = SHT_REL \<or> typ = SHT_RELA
      then finish_sec sec sname h err 0 b
      else if typ = SHT_GROUP then
        bind_res (grp_section lsb mok sec (of_nat i) h t b) (\<lambda>(e, fl, b).
          if e \<noteq> 0 then Ok (b, e) else finish_sec sec sname h err fl b)
      else if typ = SHT_GNU_ATTRIBUTES then
        (if att \<and> b_att_sh b \<noteq> None then Ok (b, -1)
         else finish_sec sec sname h err 0 (if att then b\<lparr>b_att_sh := Some i\<rparr> else b))
      else Ok (b, -1))"

text \<open>
  The function that is mapped over the sections: its state is the index of the header and the error.
  A section is bogus until its flags are known.
\<close>

definition elf2bfdsec ::
    "bool \<Rightarrow> (nat \<Rightarrow> bool) \<Rightarrow> bool \<Rightarrow> secref \<Rightarrow> bfd \<times> u32 \<times> int \<Rightarrow> (bfd \<times> u32 \<times> int) res" where
  "elf2bfdsec lsb mok att sec bx =
     (case bx of (b, pidx, err) \<Rightarrow>
      case b_shtab b of
        None \<Rightarrow> UB
      | Some t \<Rightarrow>
          let i = unat (ucast pidx :: u16) in
          if i \<ge> length (sht_shdrs t) then UB
          else
            let b = upd_sec sec (\<lambda>s. s\<lparr>sc_elf64 := sc_elf64 s \<or> BFD_IS_ELF64 b, sc_flags := SEC_BOGUS\<rparr>) b
            in case pmelf_sec_name t (sht_shdrs t ! i) of
                 None \<Rightarrow> Ok (b, pidx, 1)
               | Some off \<Rightarrow>
                   let sname = drop off (sht_strtab t) in
                   bind_res (enter_sec (sht_shdrs t ! i) i sname (get_sec b sec)) (\<lambda>s.
                   bind_res (switch_sec lsb (mok i) att sec i t sname err (upd_sec sec (\<lambda>_. s) b)) (\<lambda>(b, err).
                   Ok (b, pidx + 1, err))))"

section \<open>Relocations of a section\<close>

definition mark :: "nat \<Rightarrow> asection \<Rightarrow> asection" where
  "mark n s = s\<lparr>sc_rels := of_nat n, sc_flags := sc_flags s OR SEC_RELOC\<rparr>"

fun mark_loop :: "nat \<Rightarrow> Elf_Shdr list \<Rightarrow> bfd \<Rightarrow> int \<Rightarrow> int \<times> bfd" where
  "mark_loop n [] b rval = (rval, b)"
| "mark_loop n (h # hs) b rval =
     (if shdr_type h \<noteq> SHT_REL \<and> shdr_type h \<noteq> SHT_RELA then mark_loop (n + 1) hs b rval
      else case shdr2sec b (shdr_info h) False of
        None \<Rightarrow> (-1, b)
      | Some tsec \<Rightarrow>
          if sc_flags (get_sec b tsec) = SEC_BOGUS then (-1, b)
          else if sc_rels (get_sec b tsec) \<noteq> 0 then (-1, b)
          else mark_loop (n + 1) hs
                 (upd_sec tsec (mark n) b) (rval + 1))"

definition mark_relocs :: "bfd \<Rightarrow> (int \<times> bfd) res" where
  "mark_relocs b =
     (case b_shtab b of None \<Rightarrow> UB | Some t \<Rightarrow> Ok (mark_loop 1 (tl (sht_shdrs t)) b 0))"

text \<open>The section with the relocations of a section; the pointer to its header must not be null.\<close>

definition get_reloc_sec :: "bfd \<Rightarrow> secref \<Rightarrow> Elf_Shdr res" where
  "get_reloc_sec b sect =
     (let rels = sc_rels (get_sec b sect) in
      if rels = 0 then Fail 0
      else case shdr2sec b (ucast rels) True of
        None \<Rightarrow> Fail 0
      | Some r \<Rightarrow>
          (case (sc_shdr (get_sec b r), b_shtab b) of
             (Some i, Some t) \<Rightarrow>
               if i \<ge> length (sht_shdrs t) then UB
               else
                 let h = sht_shdrs t ! i; typ = shdr_type h in
                 if typ \<noteq> SHT_REL \<and> typ \<noteq> SHT_RELA then Fail 0
                 else if rel_entsize (if BFD_IS_ELF64 b then ELFCLASS64 else ELFCLASS32) typ \<noteq> shdr_entsize h then Fail 0
                 else Ok h
           | _ \<Rightarrow> UB))"

definition bfd_get_reloc_upper_bound :: "bfd \<Rightarrow> secref \<Rightarrow> int res" where
  "bfd_get_reloc_upper_bound b sect =
     (case get_reloc_sec b sect of
        Ok h \<Rightarrow> Ok (sint (16 + shdr_bytes h)) | Fail _ \<Rightarrow> Ok (-1) | UB \<Rightarrow> UB | Hang \<Rightarrow> Hang)"

record pmbfd_areltab =
  ar_entsz :: u32
  ar_data :: bytes

text \<open>The entries are left in the byte order of the file.\<close>

definition pmbfd_canonicalize_reloc :: "bfd \<Rightarrow> secref \<Rightarrow> (int \<times> pmbfd_areltab \<times> bfd) res" where
  "pmbfd_canonicalize_reloc b sec =
     (let none = \<lparr>ar_entsz = 0, ar_data = []\<rparr> in
      case get_reloc_sec b sec of
        Ok h \<Rightarrow>
          let nrels = sint (shdr_bytes h div shdr_entsize h) in
          if nrels > 0 then
            (case b_s b of
               None \<Rightarrow> UB
             | Some s \<Rightarrow>
                 (case pmelf_getscn True True s h 0 0 of
                    (Ok bs, s') \<Rightarrow> Ok (nrels, \<lparr>ar_entsz = ucast (shdr_entsize h), ar_data = bs\<rparr>, b\<lparr>b_s := Some s'\<rparr>)
                  | (Fail _, s') \<Rightarrow> Ok (-1, none, b\<lparr>b_s := Some s'\<rparr>)
                  | (UB, _) \<Rightarrow> UB
                  | (Hang, _) \<Rightarrow> Hang))
          else Ok (nrels, none\<lparr>ar_entsz := ucast (shdr_entsize h)\<rparr>, b)
      | Fail _ \<Rightarrow> Ok (-1, none, b)
      | UB \<Rightarrow> UB
      | Hang \<Rightarrow> Hang)"

text \<open>The entry the \<open>k\<close>-th call of \<open>pmbfd_reloc_next\<close> delivers, and what it says.\<close>

definition pmbfd_reloc_next :: "pmbfd_areltab \<Rightarrow> nat \<Rightarrow> bytes" where
  "pmbfd_reloc_next tab k = drop (k * unat (ar_entsz tab)) (ar_data tab)"

definition pmbfd_reloc_get_sym_idx :: "bool \<Rightarrow> bfd \<Rightarrow> bytes \<Rightarrow> int" where
  "pmbfd_reloc_get_sym_idx lsb b r =
     (let idx = (if BFD_IS_ELF64 b then ucast (drop_bit 32 (r_info64 (image_rel64 lsb r))) :: u32
                 else drop_bit 8 (r_info32 (image_rel32 lsb r)))
      in if int (unat idx) \<ge> b_nsyms b then -1 else sint idx)"

definition pmbfd_reloc_get_address :: "bool \<Rightarrow> bfd \<Rightarrow> bytes \<Rightarrow> u64" where
  "pmbfd_reloc_get_address lsb b r =
     (if BFD_IS_ELF64 b then r_offset64 (image_rel64 lsb r) else ucast (r_offset32 (image_rel32 lsb r)))"

section \<open>The contents of a section\<close>

text \<open>What the function leaves at the location; \<open>None\<close> is the return of \<open>BFD_FALSE\<close>.\<close>

definition bfd_get_section_contents :: "bfd \<Rightarrow> secref \<Rightarrow> u64 \<Rightarrow> u64 \<Rightarrow> (bytes option \<times> bfd) res" where
  "bfd_get_section_contents b r offset count =
     (let s = get_sec b r in
      if count = 0 then Ok (Some [], b)
      else if sc_flags s AND SEC_HAS_CONTENTS = 0 then Ok (Some (replicate (unat count) 0), b)
      else case sc_shdr s of
        None \<Rightarrow> Ok (None, b)
      | Some i \<Rightarrow>
          (case (b_s b, b_shtab b) of
             (Some st, Some t) \<Rightarrow>
               if i \<ge> length (sht_shdrs t) then UB
               else (case pmelf_getscn True True st (sht_shdrs t ! i) offset count of
                       (Ok bs, s') \<Rightarrow> Ok (Some bs, b\<lparr>b_s := Some s'\<rparr>)
                     | (Fail _, s') \<Rightarrow> Ok (None, b\<lparr>b_s := Some s'\<rparr>)
                     | (UB, _) \<Rightarrow> UB
                     | (Hang, _) \<Rightarrow> Hang)
           | _ \<Rightarrow> UB))"

section \<open>Opening and closing\<close>

definition bfd_cleanup :: "bfd \<Rightarrow> bfd" where
  "bfd_cleanup b = b\<lparr>b_s := None, b_shtab := None, b_strtabs := [], b_sects := [], b_nsects := 0,
     b_made := [], b_syms := None, b_nsyms := 0\<rparr>"

definition bfd_close_all_done :: "bfd \<Rightarrow> bool \<times> bfd" where "bfd_close_all_done b = (True, bfd_cleanup b)"

text \<open>The initialisation clears the descriptor, which has not been used; the streams for messages and the
  registration of a vendor of attributes are left out.\<close>

definition bfd_init :: "bfd \<Rightarrow> bfd" where
  "bfd_init b = (if b_inited b then b else b\<lparr>b_inited := True\<rparr>)"

text \<open>The two passes over the sections; \<open>False\<close> is the jump to the end.\<close>

definition open_sections :: "bool \<Rightarrow> (nat \<Rightarrow> bool) \<Rightarrow> bool \<Rightarrow> bfd \<Rightarrow> (bool \<times> bfd) res" where
  "open_sections lsb mok att b =
     bind_res (bfd_map_over_sections (elf2bfdsec lsb mok att) (b, 0, 0)) (\<lambda>(b, _, err).
       if err \<noteq> 0 then Ok (False, b)
       else bind_res (mark_relocs b) (\<lambda>(nrels, b). Ok (nrels \<ge> 0, b)))"

text \<open>The steps after the header has been read.\<close>

definition open_tables :: "bool \<Rightarrow> (nat \<Rightarrow> bool) \<Rightarrow> bool \<Rightarrow> strm \<Rightarrow> bfd \<Rightarrow> (bool \<times> bfd) res" where
  "open_tables lsb mok att s b =
     (case pmelf_getshtab lsb (\<lambda>i. mok (i + 1)) s (b_ehdr b) of
        (UB, _) \<Rightarrow> UB | (Hang, _) \<Rightarrow> Hang | (Fail _, _) \<Rightarrow> Ok (False, b)
      | (Ok t, s) \<Rightarrow>
      (case pmelf_find_symhdrs s t of
        (UB, _) \<Rightarrow> UB | (Hang, _) \<Rightarrow> Hang | (Fail _, _) \<Rightarrow> Ok (False, b)
      | (Ok (n, symsh, symstrs), s) \<Rightarrow>
      if sint n < 2 then Ok (False, b)
      else bind_res (shtab_at t symstrs) (\<lambda>strh.
      (case pmelf_getscn (mok 4) False s strh 0 0 of
        (UB, _) \<Rightarrow> UB | (Hang, _) \<Rightarrow> Hang | (Fail _, _) \<Rightarrow> Ok (False, b)
      | (Ok strs, s) \<Rightarrow>
      if \<not> mok 5 then Ok (False, b)
      else
        let b = b\<lparr>b_s := Some s, b_shtab := Some t, b_nsyms := sint n, b_symsh := symsh, b_symstrs := symstrs,
                 b_strtabs := [(strs, shdr_bytes strh)]\<rparr>
        in case secinit (mok 6) (unat (sht_nshdrs t)) b of
             (rc, b) \<Rightarrow>
               if rc \<noteq> 0 then Ok (False, b)
               else open_sections lsb (\<lambda>i. mok (i + 7)) att b))))"

text \<open>
  The architecture: the one of the host when the names are the same, else the entry of the table. A
  descriptor that is in use, and a target that is asked for by name, are refused. What a failed
  attempt has read of the header does not count and is not kept.
\<close>

definition bfd_openstreamr ::
    "bool \<Rightarrow> (nat \<Rightarrow> bool) \<Rightarrow> bool \<Rightarrow> bool \<Rightarrow> file_obj \<Rightarrow> bfd \<Rightarrow> (bool \<times> bfd) res" where
  "bfd_openstreamr lsb mok att target f b =
     (if \<not> b_inited b then Ok (False, b)
      else if b_s b \<noteq> None then Ok (False, b)
      else if target then Ok (False, b)
      else if \<not> mok 0 then Ok (False, b)
      else
        case pmelf_getehdr lsb (pmelf_newstrm f) of
          (UB, _) \<Rightarrow> UB | (Hang, _) \<Rightarrow> Hang | (Fail _, _) \<Rightarrow> Ok (False, bfd_cleanup b)
        | (Ok eh, s) \<Rightarrow>
            let b = b\<lparr>b_s := Some s, b_ehdr := eh\<rparr>;
                arch = (if ai_name myarch = bfd_get_target b then Some myarch else find_arch b)
            in case arch of
                 None \<Rightarrow> Ok (False, bfd_cleanup b)
               | Some a \<Rightarrow>
                   bind_res (open_tables lsb mok att s (b\<lparr>b_arch := Some a, b_att_sh := None\<rparr>)) (\<lambda>(ok, b).
                     Ok (if ok then (True, b) else (False, bfd_cleanup b))))"

end
