(* ===== verification/BfdFile.thy ===== *)
theory BfdFile imports Bfd begin

text \<open>
  What opening an object file delivers (\<open>pmbfd/bfd.c\<close>): a section for every section header, with the
  flags its type and its ELF flags ask for, the chains of the section groups, at most one section of
  relocations for a section, and symbols whose value follows their section when it is moved.
\<close>

section \<open>Flags as bits\<close>

named_theorems flag_bits \<open>tests of single flags\<close>

lemma sec_flag_bits [flag_bits]:
  fixes x :: u32
  shows "x AND SEC_ALLOC = 0 \<longleftrightarrow> \<not> bit x 0" "x AND SEC_LOAD = 0 \<longleftrightarrow> \<not> bit x 1"
    "x AND SEC_RELOC = 0 \<longleftrightarrow> \<not> bit x 2" "x AND SEC_READONLY = 0 \<longleftrightarrow> \<not> bit x 3"
    "x AND SEC_CODE = 0 \<longleftrightarrow> \<not> bit x 4" "x AND SEC_DATA = 0 \<longleftrightarrow> \<not> bit x 5"
    "x AND SEC_HAS_CONTENTS = 0 \<longleftrightarrow> \<not> bit x 8" "x AND SEC_LINK_ONCE = 0 \<longleftrightarrow> \<not> bit x 17"
    "x AND SEC_GROUP = 0 \<longleftrightarrow> \<not> bit x 26"
  using and_exp_eq_0_iff_not_bit [of x 0] and_exp_eq_0_iff_not_bit [of x 1] and_exp_eq_0_iff_not_bit [of x 2]
    and_exp_eq_0_iff_not_bit [of x 3] and_exp_eq_0_iff_not_bit [of x 4] and_exp_eq_0_iff_not_bit [of x 5]
    and_exp_eq_0_iff_not_bit [of x 8] and_exp_eq_0_iff_not_bit [of x 17] and_exp_eq_0_iff_not_bit [of x 26]
  by simp_all

lemma shf_flag_bits [flag_bits]:
  fixes x :: u64
  shows "x AND SHF_WRITE = 0 \<longleftrightarrow> \<not> bit x 0" "x AND SHF_ALLOC = 0 \<longleftrightarrow> \<not> bit x 1"
    "x AND SHF_EXECINSTR = 0 \<longleftrightarrow> \<not> bit x 2" "x AND SHF_MERGE = 0 \<longleftrightarrow> \<not> bit x 4"
    "x AND SHF_STRINGS = 0 \<longleftrightarrow> \<not> bit x 5"
  using and_exp_eq_0_iff_not_bit [of x 0] and_exp_eq_0_iff_not_bit [of x 1] and_exp_eq_0_iff_not_bit [of x 2]
    and_exp_eq_0_iff_not_bit [of x 4] and_exp_eq_0_iff_not_bit [of x 5]
  by simp_all

text \<open>What the flags of a section must say of a header with the type and the ELF flags.\<close>

definition flags_spec :: "u32 \<Rightarrow> u64 \<Rightarrow> u32 \<Rightarrow> bool" where
  "flags_spec typ fl flags \<longleftrightarrow>
     (flags AND SEC_ALLOC \<noteq> 0 \<longleftrightarrow> fl AND SHF_ALLOC \<noteq> 0) \<and>
     (flags AND SEC_HAS_CONTENTS \<noteq> 0 \<longleftrightarrow> typ \<noteq> SHT_NOBITS) \<and>
     (flags AND SEC_LOAD \<noteq> 0 \<longleftrightarrow> fl AND SHF_ALLOC \<noteq> 0 \<and> typ \<noteq> SHT_NOBITS) \<and>
     (flags AND SEC_READONLY \<noteq> 0 \<longleftrightarrow> fl AND SHF_WRITE = 0) \<and>
     (flags AND SEC_CODE \<noteq> 0 \<longleftrightarrow> fl AND SHF_EXECINSTR \<noteq> 0) \<and>
     (flags AND SEC_DATA \<noteq> 0 \<longleftrightarrow>
        fl AND SHF_ALLOC \<noteq> 0 \<and> typ \<noteq> SHT_NOBITS \<and> fl AND SHF_EXECINSTR = 0)"

lemma header_flags_bit:
  "bit (header_flags typ fl x) 0 \<longleftrightarrow> bit x 0 \<or> bit fl 1"
  "bit (header_flags typ fl x) 1 \<longleftrightarrow> bit x 1 \<or> bit fl 1 \<and> typ \<noteq> SHT_NOBITS"
  "bit (header_flags typ fl x) 2 \<longleftrightarrow> bit x 2"
  "bit (header_flags typ fl x) 3 \<longleftrightarrow> bit x 3 \<or> \<not> bit fl 0"
  "bit (header_flags typ fl x) 4 \<longleftrightarrow> bit x 4 \<or> bit fl 2"
  "bit (header_flags typ fl x) 8 \<longleftrightarrow> bit x 8 \<or> typ \<noteq> SHT_NOBITS"
  "bit (header_flags typ fl x) 31 \<longleftrightarrow> bit x 31"
  by (simp_all add: header_flags_def Let_def flag_bits bit_or_iff if_distrib [of "\<lambda>w. bit w _"])

lemma header_flags_bit5:
  "bit (header_flags typ fl x) 5 \<longleftrightarrow> bit x 5 \<or> \<not> bit fl 2 \<and> (bit x 1 \<or> bit fl 1 \<and> typ \<noteq> SHT_NOBITS)"
  by (simp add: header_flags_def Let_def flag_bits bit_or_iff if_distrib [of "\<lambda>w. bit w _"])

lemma header_flags_spec:
  assumes "x = 0 \<or> x = SEC_GROUP OR SEC_EXCLUDE \<or> x = SEC_LINK_ONCE OR SEC_GROUP OR SEC_EXCLUDE"
  shows "flags_spec typ fl (header_flags typ fl x)" "\<not> bit (header_flags typ fl x) 2"
    "\<not> bit (header_flags typ fl x) 31"
proof -
  have x: "\<not> bit x 0" "\<not> bit x 1" "\<not> bit x 2" "\<not> bit x 3" "\<not> bit x 4" "\<not> bit x 5" "\<not> bit x 8" "\<not> bit x 31"
    using assms by (elim disjE; simp)+
  show "flags_spec typ fl (header_flags typ fl x)"
    using x by (simp add: flags_spec_def flag_bits header_flags_bit header_flags_bit [unfolded One_nat_def] header_flags_bit5) blast
  show "\<not> bit (header_flags typ fl x) 2" "\<not> bit (header_flags typ fl x) 31"
    by (simp_all add: header_flags_bit x)
qed

lemma bit_single:
  "bit (0x2000 :: u32) k \<Longrightarrow> k = 13" "bit (0x20000 :: u32) k \<Longrightarrow> k = 17"
  using bit_exp_iff [where 'a="32 word", of 13 k] bit_exp_iff [where 'a="32 word", of 17 k] by auto

lemma name_flags_bits:
  assumes "name_flags nm g fl = Ok fl'" and k: "k \<noteq> 13" "k \<noteq> 17"
  shows "bit fl' k = bit fl k"
proof -
  obtain d n where "fl' = (let f = (if d then fl OR SEC_DEBUGGING else fl) in if n then f OR SEC_LINK_ONCE else f)"
    using assms(1) by (auto simp: name_flags_def bind_res_Ok_iff Let_def)
  then show ?thesis using k bit_single [of k] by (auto simp: Let_def bit_or_iff)
qed

lemma flags_spec_cong:
  "(\<And>k. k \<in> {0, 1, 3, 4, 5, 8} \<Longrightarrow> bit fl' k = bit fl k) \<Longrightarrow> flags_spec t e fl' = flags_spec t e fl"
  by (simp add: flags_spec_def flag_bits)

section \<open>What an entry of the section table leaves alone\<close>

text \<open>Sections that agree except for the link of a group.\<close>

definition sec_sim :: "asection \<Rightarrow> asection \<Rightarrow> bool" where
  "sec_sim s s' \<longleftrightarrow> (\<exists>g. s' = s\<lparr>sc_grp_next := g\<rparr>)"

lemma sec_sim_refl [simp]: "sec_sim s s"
  unfolding sec_sim_def by (rule exI [of _ "sc_grp_next s"]) simp

lemma sec_sim_upd [simp]: "sec_sim s (s\<lparr>sc_grp_next := g\<rparr>)"
  by (auto simp: sec_sim_def)

lemma sec_sim_trans: "sec_sim s s1 \<Longrightarrow> sec_sim s1 s2 \<Longrightarrow> sec_sim s s2"
  by (auto simp: sec_sim_def)

lemma sec_simD:
  "sec_sim s s' \<Longrightarrow> sc_flags s' = sc_flags s \<and> sc_name s' = sc_name s \<and> sc_size s' = sc_size s \<and>
     sc_vma s' = sc_vma s \<and> sc_align s' = sc_align s \<and> sc_shdr s' = sc_shdr s \<and> sc_rels s' = sc_rels s \<and>
     sc_elf64 s' = sc_elf64 s"
  by (auto simp: sec_sim_def)

text \<open>Descriptors that agree except for the links, the place in the stream, and the attributes.\<close>

definition rest_eq :: "bfd \<Rightarrow> bfd \<Rightarrow> bool" where
  "rest_eq b b' \<longleftrightarrow> b_shtab b' = b_shtab b \<and> b_nsects b' = b_nsects b \<and> b_ehdr b' = b_ehdr b \<and>
     b_symsh b' = b_symsh b \<and> b_symstrs b' = b_symstrs b \<and> b_strtabs b' = b_strtabs b \<and>
     b_nsyms b' = b_nsyms b \<and> b_syms b' = b_syms b \<and> b_made b' = b_made b \<and> b_arch b' = b_arch b \<and>
     b_inited b' = b_inited b \<and> b_id b' = b_id b \<and> rel_option only_read (b_s b) (b_s b')"

lemma rest_eq_refl [simp]: "rest_eq b b"
  by (auto simp: rest_eq_def intro!: option.rel_refl)

lemma rest_eq_trans: "rest_eq b b1 \<Longrightarrow> rest_eq b1 b2 \<Longrightarrow> rest_eq b b2"
  by (auto simp: rest_eq_def option_rel_Some1 option_rel_Some2 elim!: option.rel_cases intro: only_read_trans)

definition links_only :: "bfd \<Rightarrow> bfd \<Rightarrow> bool" where
  "links_only b b' \<longleftrightarrow> rest_eq b b' \<and> list_all2 sec_sim (b_sects b) (b_sects b') \<and>
     sec_sim (b_und b) (b_und b') \<and> sec_sim (b_abs b) (b_abs b') \<and> sec_sim (b_com b) (b_com b')"

lemma sims_refl [simp]: "list_all2 sec_sim ss ss"
  by (simp add: list_all2_conv_all_nth)

lemma links_only_refl [simp]: "links_only b b"
  by (simp add: links_only_def)

lemma links_only_trans: "links_only b b1 \<Longrightarrow> links_only b1 b2 \<Longrightarrow> links_only b b2"
  unfolding links_only_def
  by (auto intro: rest_eq_trans sec_sim_trans list_all2_trans [OF sec_sim_trans])

lemma links_only_set: "links_only b (upd_sec r (\<lambda>x. x\<lparr>sc_grp_next := g\<rparr>) b)"
proof -
  have "list_all2 sec_sim ss (ss[i := (ss ! i)\<lparr>sc_grp_next := g\<rparr>])" for ss i
    by (cases "i < length ss") (auto simp: list_all2_conv_all_nth nth_list_update)
  then show ?thesis
    by (cases r) (auto simp: links_only_def rest_eq_def intro: option.rel_refl)
qed

lemma links_only_strm:
  "b_s b = Some s \<Longrightarrow> only_read s s' \<Longrightarrow> links_only b (b\<lparr>b_s := Some s'\<rparr>)"
  by (simp add: links_only_def rest_eq_def)

lemma grp_loop_links: "grp_loop gs s nsh b = (ok, s', b') \<Longrightarrow> links_only b b'"
proof (induction gs s nsh b rule: grp_loop.induct)
  case (2 g gs s nsh b)
  then show ?case
    by (auto simp: Let_def split: if_splits option.splits
        intro: links_only_set links_only_trans [OF links_only_set])
qed simp

lemma get_esym_only_read: "only_read s (snd (get_esym lsb e s))"
  by (simp add: get_esym_def pmelf_getsym64_def pmelf_getsym32_def then_do_only_read get_struct_only_read)

text \<open>\<open>named\<close>: as above, but one section may have another name.\<close>

definition named :: "nat \<Rightarrow> bfd \<Rightarrow> bfd \<Rightarrow> bool" where
  "named i b b' \<longleftrightarrow> (\<exists>b1. links_only b b1 \<and>
     (b' = b1 \<or> (\<exists>nm. b' = upd_sec (Sect i) (\<lambda>x. x\<lparr>sc_name := Some nm\<rparr>) b1)))"

lemma namedI:
  "links_only b b1 \<Longrightarrow> named i b b1"
  "links_only b b1 \<Longrightarrow> named i b (upd_sec (Sect i) (\<lambda>x. x\<lparr>sc_name := Some nm\<rparr>) b1)"
  by (auto simp: named_def)

lemma named_links: "links_only b b1 \<Longrightarrow> named i b1 b2 \<Longrightarrow> named i b b2"
  unfolding named_def by (blast intro: links_only_trans)

lemma seek_get_only_read:
  "then_if0 (pmelf_seek off s) (get_esym lsb e) = (r, s') \<Longrightarrow> only_read s s'"
  using then_if0_only_read [where p = "pmelf_seek off s" and f = "get_esym lsb e", OF seek_only_read get_esym_only_read]
  by (metis snd_conv)

lemma grp_name_named:
  assumes "grp_name lsb (Sect i) h t b = Ok (e, b')"
  shows "named i b b'"
proof (cases "shdr_link h \<noteq> of_nat (b_symsh b)")
  case True
  then show ?thesis using assms by (auto simp: grp_name_def intro: namedI)
next
  case False
  then obtain s where s: "b_s b = Some s"
    using assms by (cases "b_s b") (auto simp: grp_name_def)
  obtain r s' where p: "then_if0 (pmelf_seek (shdr_offset (sht_shdrs t ! b_symsh b) +
      ucast ((if BFD_IS_ELF64 b then 24 else 16) * shdr_info h :: u32)) s) (get_esym lsb (BFD_IS_ELF64 b)) = (r, s')"
    by fastforce
  have l: "links_only b (b\<lparr>b_s := Some s'\<rparr>)"
    by (rule links_only_strm [OF s seek_get_only_read [OF p]])
  show ?thesis
    using assms False s p namedI [OF l] unfolding grp_name_def
    by (auto simp: Let_def simp del: upd_sec.simps split: res.splits if_splits option.splits)
qed

lemma getgrp_only_read: "only_read s (snd (pmelf_getgrp lsb mok own s h))"
  unfolding pmelf_getgrp_def
  by (rule then_do_only_read) (auto intro!: then_do_only_read getscn_only_read simp: Let_def)

lemma grp_chain_links: "grp_chain gs sec idx nsh b = (ok, b') \<Longrightarrow> links_only b b'"
  by (auto simp: grp_chain_def simp del: upd_sec.simps split: prod.splits
      intro: links_only_trans [OF grp_loop_links links_only_set] dest: grp_loop_links)

lemma grp_section_named:
  assumes "grp_section lsb mok (Sect i) idx h t b = Ok (e, fl, b')"
  shows "named i b b' \<and> (e = 0 \<longrightarrow> fl = SEC_GROUP OR SEC_EXCLUDE \<or> fl = SEC_LINK_ONCE OR SEC_GROUP OR SEC_EXCLUDE)"
proof -
  obtain s where s: "b_s b = Some s"
    using assms by (cases "b_s b") (auto simp: grp_section_def)
  obtain r s' where p: "pmelf_getgrp lsb mok False s h = (r, s')" by fastforce
  have l: "links_only b (b\<lparr>b_s := Some s'\<rparr>)"
    by (rule links_only_strm [OF s]) (metis getgrp_only_read p snd_conv)
  show ?thesis
  proof (cases r)
    case (Ok grp)
    define comdat where "comdat \<longleftrightarrow> hd grp AND 1 \<noteq> 0"
    define gs where "gs = take (unat (ucast (shdr_bytes h div 4) :: u32) - 1) (tl grp)"
    obtain ok b1 where g: "(if comdat then grp_chain gs (Sect i) idx (sht_nshdrs t) (b\<lparr>b_s := Some s'\<rparr>)
        else (True, b\<lparr>b_s := Some s'\<rparr>)) = (ok, b1)" by fastforce
    then have l1: "links_only b b1"
      using l by (auto split: if_splits intro: links_only_trans dest: grp_chain_links)
    have run: "(if \<not> ok then Ok (1, 0, b1)
        else bind_res (grp_name lsb (Sect i) h t b1) (\<lambda>(e, b).
          Ok (e, (if comdat then SEC_LINK_ONCE else 0) OR SEC_GROUP OR SEC_EXCLUDE, b))) = Ok (e, fl, b')"
      using assms unfolding grp_section_def s
      by (simp only: p Ok option.case prod.case res.case Let_def comdat_def [symmetric] gs_def [symmetric] g)
    show ?thesis
    proof (cases ok)
      case True
      then have "grp_name lsb (Sect i) h t b1 = Ok (e, b')"
        and fl: "fl = (if comdat then SEC_LINK_ONCE else 0) OR SEC_GROUP OR SEC_EXCLUDE"
        using run by (auto simp: bind_res_Ok_iff)
      then show ?thesis using named_links [OF l1 grp_name_named] by (cases comdat) auto
    next
      case False
      then show ?thesis using run l1 by (auto intro: namedI)
    qed
  next
    case (Fail c)
    then show ?thesis using assms s p l by (auto simp: grp_section_def intro: namedI)
  qed (use assms s p in \<open>auto simp: grp_section_def\<close>)
qed

section \<open>The entry of one section\<close>

definition others :: "nat \<Rightarrow> bfd \<Rightarrow> bfd \<Rightarrow> bool" where
  "others i b b' \<longleftrightarrow> rest_eq b b' \<and> length (b_sects b') = length (b_sects b) \<and>
     (\<forall>j < length (b_sects b). j \<noteq> i \<longrightarrow> sec_sim (b_sects b ! j) (b_sects b' ! j)) \<and>
     sec_sim (b_und b) (b_und b') \<and> sec_sim (b_abs b) (b_abs b') \<and> sec_sim (b_com b) (b_com b')"

lemma others_refl [simp]: "others i b b"
  by (simp add: others_def)

lemma others_trans: "others i b b1 \<Longrightarrow> others i b1 b2 \<Longrightarrow> others i b b2"
  unfolding others_def by (auto intro: rest_eq_trans sec_sim_trans)

lemma others_upd: "others i b (upd_sec (Sect i) f b)"
  by (auto simp: others_def rest_eq_def intro: option.rel_refl)

lemma others_att: "others i b (b\<lparr>b_att_sh := a\<rparr>)"
  by (auto simp: others_def rest_eq_def intro: option.rel_refl)

lemma links_others: "links_only b b' \<Longrightarrow> others i b b'"
  by (auto simp: links_only_def others_def list_all2_conv_all_nth)

lemma named_others: "named i b b' \<Longrightarrow> others i b b'"
  unfolding named_def by (blast intro: links_others others_trans [OF links_others others_upd])

text \<open>The group functions leave the section its header fields.\<close>

lemma named_section:
  assumes "named i b b'" and "i < length (b_sects b)"
  obtains g nm where "b_sects b' ! i = (b_sects b ! i)\<lparr>sc_grp_next := g, sc_name := nm\<rparr>"
proof -
  obtain b1 where l: "links_only b b1"
    "b' = b1 \<or> (\<exists>nm. b' = upd_sec (Sect i) (\<lambda>x. x\<lparr>sc_name := Some nm\<rparr>) b1)"
    using assms(1) by (auto simp: named_def)
  then obtain g where g: "b_sects b1 ! i = (b_sects b ! i)\<lparr>sc_grp_next := g\<rparr>" "length (b_sects b1) = length (b_sects b)"
    using assms(2) by (auto simp: links_only_def list_all2_conv_all_nth sec_sim_def)
  have b1: "b_sects b1 ! i = (b_sects b ! i)\<lparr>sc_grp_next := g, sc_name := sc_name (b_sects b ! i)\<rparr>"
    using g by simp
  from l(2) show ?thesis
  proof (elim disjE exE)
    assume "b' = b1"
    then show ?thesis using that b1 by blast
  next
    fix nm assume "b' = upd_sec (Sect i) (\<lambda>x. x\<lparr>sc_name := Some nm\<rparr>) b1"
    then show ?thesis using that g assms(2) by auto
  qed
qed

text \<open>What a section says after its header has been entered.\<close>

definition shown :: "Pmelf_Shtab \<Rightarrow> u32 \<Rightarrow> nat \<Rightarrow> bool" where
  "shown t symstrs i \<longleftrightarrow> \<not> sec_hidden t i (sht_shdrs t ! i) (bfd_start\<lparr>b_symstrs := symstrs\<rparr>)"

lemma sec_hidden_shown: "sec_hidden t i (sht_shdrs t ! i) b \<longleftrightarrow> \<not> shown t (b_symstrs b) i"
  by (simp add: shown_def sec_hidden_def)

definition entered :: "Pmelf_Shtab \<Rightarrow> bool \<Rightarrow> nat \<Rightarrow> asection \<Rightarrow> bool" where
  "entered t elf64 i s \<longleftrightarrow>
     (let h = sht_shdrs t ! i in
      sc_shdr s = Some i \<and> sc_size s = shdr_bytes h \<and> sc_vma s = shdr_addr h \<and>
      sc_align s = ucast (ldz (ucast (shdr_addralign h))) \<and> sc_elf64 s = elf64 \<and>
      (\<exists>off. pmelf_sec_name t h = Some off \<and>
         (shdr_type h \<noteq> SHT_GROUP \<longrightarrow> sc_name s = Some (drop off (sht_strtab t)))))"

definition flagged :: "Pmelf_Shtab \<Rightarrow> u32 \<Rightarrow> nat \<Rightarrow> asection \<Rightarrow> bool" where
  "flagged t symstrs i s \<longleftrightarrow>
     (if shown t symstrs i
      then flags_spec (shdr_type (sht_shdrs t ! i)) (shdr_flags (sht_shdrs t ! i)) (sc_flags s) \<and>
        \<not> bit (sc_flags s) 31
      else sc_flags s = SEC_BOGUS)"

definition plain_rel :: "asection \<Rightarrow> bool" where
  "plain_rel s \<longleftrightarrow> sc_rels s = 0 \<and> (sc_flags s = SEC_BOGUS \<or> \<not> bit (sc_flags s) 2)"

lemma enter_secD:
  "enter_sec h i nm s = Ok s' \<Longrightarrow> s' = s\<lparr>sc_name := Some nm, sc_size := shdr_bytes h, sc_vma := shdr_addr h,
     sc_align := ucast (ldz (ucast (shdr_addralign h))), sc_shdr := Some i, sc_rels := 0\<rparr>"
  by (auto simp: enter_sec_def bfd_set_section_alignment_def bind_res_Ok_iff split: if_splits)

lemma name_flags_result:
  assumes "name_flags nm g (header_flags typ fl x) = Ok fl'"
    and "x = 0 \<or> x = SEC_GROUP OR SEC_EXCLUDE \<or> x = SEC_LINK_ONCE OR SEC_GROUP OR SEC_EXCLUDE"
  shows "flags_spec typ fl fl'" "\<not> bit fl' 2" "\<not> bit fl' 31"
proof -
  note fb = name_flags_bits [OF assms(1)]
  show "flags_spec typ fl fl'"
    using header_flags_spec(1) [OF assms(2), of "typ" fl] by (subst flags_spec_cong [OF fb]) auto
  show "\<not> bit fl' 2" "\<not> bit fl' 31"
    using header_flags_spec(2,3) [OF assms(2), of "typ" fl] fb by simp_all
qed

lemma finish_secD:
  "finish_sec sec nm h e x b = Ok (b', e') \<Longrightarrow> \<exists>fl. e' = e \<and> b' = set_flags sec fl b \<and>
     name_flags nm (sc_grp_next (get_sec b sec) = 0) (header_flags (shdr_type h) (shdr_flags h) x) = Ok fl"
  by (auto simp: finish_sec_def bind_res_Ok_iff)

lemma switch_sec_err: "switch_sec lsb mok att sec i t nm e b = Ok (b', e') \<Longrightarrow> e \<noteq> 0 \<Longrightarrow> e' \<noteq> 0"
  by (auto simp: switch_sec_def Let_def bind_res_Ok_iff dest!: finish_secD split: if_splits)

lemma elf2bfdsec_err: "elf2bfdsec lsb mok att sec (b, p, e) = Ok (b', p', e') \<Longrightarrow> e \<noteq> 0 \<Longrightarrow> e' \<noteq> 0"
  by (auto simp: elf2bfdsec_def Let_def bind_res_Ok_iff dest: switch_sec_err split: option.splits if_splits)

text \<open>The sections with flags: those of the types that have them.\<close>

lemma switch_sec_flags:
  assumes r: "switch_sec lsb mok att (Sect i) i t nm e b = Ok (b', 0)" and i: "i < length (b_sects b)"
    and sh: "shown t (b_symstrs b) i"
  shows "\<exists>b1 fl. others i b b1 \<and> b' = set_flags (Sect i) fl b1 \<and>
    flags_spec (shdr_type (sht_shdrs t ! i)) (shdr_flags (sht_shdrs t ! i)) fl \<and> \<not> bit fl 2 \<and> \<not> bit fl 31 \<and>
    (\<exists>g nm'. b_sects b1 ! i = (b_sects b ! i)\<lparr>sc_grp_next := g, sc_name := nm'\<rparr> \<and>
       (shdr_type (sht_shdrs t ! i) \<noteq> SHT_GROUP \<longrightarrow> nm' = sc_name (b_sects b ! i)))"
proof -
  let ?h = "sht_shdrs t ! i"
  have same: "\<exists>g nm'. b_sects b1 ! i = (b_sects b ! i)\<lparr>sc_grp_next := g, sc_name := nm'\<rparr> \<and>
      (shdr_type ?h \<noteq> SHT_GROUP \<longrightarrow> nm' = sc_name (b_sects b ! i))" if "b_sects b1 = b_sects b" for b1
    by (intro exI [of _ "sc_grp_next (b_sects b ! i)"] exI [of _ "sc_name (b_sects b ! i)"]) (simp add: that)
  have hid: "\<not> sec_hidden t i ?h b" using sh by (simp add: sec_hidden_shown)
  have "(\<exists>b1. (b1 = b \<or> (\<exists>a. b1 = b\<lparr>b_att_sh := a\<rparr>)) \<and> finish_sec (Sect i) nm ?h e 0 b1 = Ok (b', 0)) \<or>
      (\<exists>x b1. shdr_type ?h = SHT_GROUP \<and> grp_section lsb mok (Sect i) (of_nat i) ?h t b = Ok (0, x, b1) \<and>
        finish_sec (Sect i) nm ?h e x b1 = Ok (b', 0))"
    using r hid unfolding switch_sec_def Let_def
    by (simp split: if_split_asm add: bind_res_Ok_iff) blast+
  then consider (plain) b1 where "b1 = b \<or> (\<exists>a. b1 = b\<lparr>b_att_sh := a\<rparr>)" "finish_sec (Sect i) nm ?h e 0 b1 = Ok (b', 0)"
    | (group) x b1 where "shdr_type ?h = SHT_GROUP" "grp_section lsb mok (Sect i) (of_nat i) ?h t b = Ok (0, x, b1)"
        "finish_sec (Sect i) nm ?h e x b1 = Ok (b', 0)"
    by blast
  then show ?thesis
  proof cases
    case plain
    then obtain fl where f: "b' = set_flags (Sect i) fl b1"
      "name_flags nm (sc_grp_next (get_sec b1 (Sect i)) = 0) (header_flags (shdr_type ?h) (shdr_flags ?h) 0) = Ok fl"
      by (auto dest: finish_secD)
    have "others i b b1" "b_sects b1 = b_sects b"
      using plain(1) by (auto intro: others_att)
    then show ?thesis using f name_flags_result [OF f(2)] same by blast
  next
    case group
    then obtain fl where f: "b' = set_flags (Sect i) fl b1"
      "name_flags nm (sc_grp_next (get_sec b1 (Sect i)) = 0) (header_flags (shdr_type ?h) (shdr_flags ?h) x) = Ok fl"
      by (auto dest: finish_secD)
    have g: "named i b b1" "x = 0 \<or> x = SEC_GROUP OR SEC_EXCLUDE \<or> x = SEC_LINK_ONCE OR SEC_GROUP OR SEC_EXCLUDE"
      using grp_section_named [OF group(2)] by blast+
    obtain g' nm' where "b_sects b1 ! i = (b_sects b ! i)\<lparr>sc_grp_next := g', sc_name := nm'\<rparr>"
      by (rule named_section [OF g(1) i])
    then show ?thesis
      using f(1) name_flags_result [OF f(2) g(2)] named_others [OF g(1)] group(1) by blast
  qed
qed

lemma elf2bfdsec_enters:
  assumes t: "b_shtab b = Some t" and i: "i < length (sht_shdrs t)" "i < 65536" "i < length (b_sects b)"
    and u: "sec_sim zero_sec (b_sects b ! i)"
    and r: "elf2bfdsec lsb mok att (Sect i) (b, of_nat i, e) = Ok (b', p', 0)"
  shows "p' = of_nat (i + 1) \<and> others i b b' \<and> entered t (BFD_IS_ELF64 b) i (b_sects b' ! i) \<and>
    flagged t (b_symstrs b) i (b_sects b' ! i) \<and> plain_rel (b_sects b' ! i)"
proof -
  let ?h = "sht_shdrs t ! i"
  have idx: "unat (ucast (of_nat i :: u32) :: u16) = i"
    using i(2) by (simp add: unsigned_ucast_eq take_bit_nat_eq_self unat_of_nat)
  define b1 where "b1 = upd_sec (Sect i) (\<lambda>s. s\<lparr>sc_elf64 := sc_elf64 s \<or> BFD_IS_ELF64 b, sc_flags := SEC_BOGUS\<rparr>) b"
  obtain off where off: "pmelf_sec_name t ?h = Some off"
    using r i t by (cases "pmelf_sec_name t ?h") (auto simp: elf2bfdsec_def idx Let_def)
  let ?nm = "drop off (sht_strtab t)"
  obtain s where s: "enter_sec ?h i ?nm (get_sec b1 (Sect i)) = Ok s"
    and sw: "switch_sec lsb (mok i) att (Sect i) i t ?nm e (upd_sec (Sect i) (\<lambda>_. s) b1) = Ok (b', 0)"
    and p': "p' = of_nat i + 1"
    using r i t off unfolding elf2bfdsec_def by (auto simp: idx Let_def b1_def bind_res_Ok_iff simp del: upd_sec.simps)
  define b2 where "b2 = upd_sec (Sect i) (\<lambda>_. s) b1"
  obtain gz where z: "b_sects b ! i = zero_sec\<lparr>sc_grp_next := gz\<rparr>" using u by (auto simp: sec_sim_def)
  have s_eq: "s = zero_sec\<lparr>sc_grp_next := gz, sc_elf64 := BFD_IS_ELF64 b, sc_flags := SEC_BOGUS, sc_name := Some ?nm,
      sc_size := shdr_bytes ?h, sc_vma := shdr_addr ?h,
      sc_align := ucast (ldz (ucast (shdr_addralign ?h))), sc_shdr := Some i, sc_rels := 0\<rparr>"
    using enter_secD [OF s] i(3) by (simp add: b1_def z zero_sec_def)
  have b2: "b_sects b2 ! i = s" "others i b b2" "length (b_sects b2) = length (b_sects b)"
    "b_symstrs b2 = b_symstrs b"
    using i(3) others_trans [OF others_upd others_upd, of i b] by (simp_all add: b2_def b1_def del: upd_sec.simps) (simp_all)
  show ?thesis
  proof (cases "shown t (b_symstrs b) i")
    case True
    obtain b3 fl g nm' where f: "others i b2 b3" "b' = set_flags (Sect i) fl b3"
      "flags_spec (shdr_type ?h) (shdr_flags ?h) fl" "\<not> bit fl 2" "\<not> bit fl 31"
      "b_sects b3 ! i = s\<lparr>sc_grp_next := g, sc_name := nm'\<rparr>"
      "shdr_type ?h \<noteq> SHT_GROUP \<longrightarrow> nm' = sc_name s"
      using switch_sec_flags [OF sw [folded b2_def]] b2 True i(3) by auto
    have len: "i < length (b_sects b3)" using f(1) b2(3) i(3) by (simp add: others_def)
    have "others i b b'" unfolding f(2) set_flags_def
      by (rule others_trans [OF others_trans [OF b2(2) f(1)] others_upd])
    moreover have "b_sects b' ! i = s\<lparr>sc_grp_next := g, sc_name := nm', sc_flags := fl\<rparr>"
      using f(2,6) len by (simp add: set_flags_def)
    ultimately show ?thesis
      using f(3,4,5,7) True off p' by (simp add: entered_def flagged_def plain_rel_def s_eq Let_def)
  next
    case False
    then have "sec_hidden t i ?h b2" by (simp add: sec_hidden_shown b2(4))
    then have "b' = b2" using sw [folded b2_def] by (simp add: switch_sec_def Let_def)
    then show ?thesis
      using b2 False off p' by (simp add: entered_def flagged_def plain_rel_def s_eq Let_def)
  qed
qed

section \<open>The whole table\<close>

lemma map_over_shown:
  assumes step: "\<And>i b x b' x'. P i (b, x) \<Longrightarrow> i < b_nsects b \<Longrightarrow> sc_flags (b_sects b ! i) \<noteq> SEC_BOGUS \<Longrightarrow>
      f (Sect i) (b, x) = Ok (b', x') \<Longrightarrow> P (i + 1) (b', x')"
    and skip: "\<And>i b x. P i (b, x) \<Longrightarrow> i < b_nsects b \<Longrightarrow> sc_flags (b_sects b ! i) = SEC_BOGUS \<Longrightarrow> P (i + 1) (b, x)"
    and start: "P i (b, x)" and run: "map_over k i f (b, x) = Ok (b', x')"
  shows "\<exists>j. P j (b', x') \<and> \<not> j < b_nsects b'"
  using start run
proof (induction k arbitrary: i b x)
  case 0
  then show ?case by (auto split: if_splits)
next
  case (Suc k)
  show ?case
  proof (cases "i < b_nsects b")
    case True
    show ?thesis
    proof (cases "sc_flags (b_sects b ! i) = SEC_BOGUS")
      case False
      then obtain b1 x1 where "f (Sect i) (b, x) = Ok (b1, x1)" "map_over k (i + 1) f (b1, x1) = Ok (b', x')"
        using Suc.prems True by (auto simp: bind_res_Ok_iff)
      then show ?thesis using Suc.IH step [OF Suc.prems(1) True False] by blast
    qed (use Suc.prems Suc.IH [OF skip [OF Suc.prems(1) True]] True in auto)
  qed (use Suc.prems in auto)
qed

lemma map_over_inv:
  assumes step: "\<And>i b x b' x'. P i (b, x) \<Longrightarrow> i < b_nsects b \<Longrightarrow> f (Sect i) (b, x) = Ok (b', x') \<Longrightarrow> P (i + 1) (b', x')"
    and skip: "\<And>i b x. P i (b, x) \<Longrightarrow> i < b_nsects b \<Longrightarrow> sc_flags (b_sects b ! i) = SEC_BOGUS \<Longrightarrow> P (i + 1) (b, x)"
    and start: "P i (b, x)" and run: "map_over k i f (b, x) = Ok (b', x')"
  shows "\<exists>j. P j (b', x') \<and> \<not> j < b_nsects b'"
  by (rule map_over_shown [where P = P, OF _ skip start run]) (rule step)

text \<open>The sections before \<open>i\<close> have been entered, those after it are empty but for links of groups.\<close>

definition filled :: "Pmelf_Shtab \<Rightarrow> bfd \<Rightarrow> nat \<Rightarrow> bfd \<times> u32 \<times> int \<Rightarrow> bool" where
  "filled t b0 i bx \<longleftrightarrow> (case bx of (b, p, e) \<Rightarrow> e = 0 \<longrightarrow>
     p = of_nat i \<and> i \<le> length (sht_shdrs t) \<and> rest_eq b0 b \<and> length (b_sects b) = length (b_sects b0) \<and>
     sec_sim (b_und b0) (b_und b) \<and> sec_sim (b_abs b0) (b_abs b) \<and> sec_sim (b_com b0) (b_com b) \<and>
     (\<forall>j < i. entered t (BFD_IS_ELF64 b0) j (b_sects b ! j) \<and> flagged t (b_symstrs b0) j (b_sects b ! j) \<and>
        plain_rel (b_sects b ! j)) \<and>
     (\<forall>j. i \<le> j \<longrightarrow> j < length (b_sects b) \<longrightarrow> sec_sim zero_sec (b_sects b ! j)))"

lemma sec_sim_keeps:
  assumes "sec_sim s s'"
  shows "entered t c i s \<Longrightarrow> entered t c i s'" "flagged t y i s \<Longrightarrow> flagged t y i s'" "plain_rel s \<Longrightarrow> plain_rel s'"
  using sec_simD [OF assms] by (simp_all add: entered_def flagged_def plain_rel_def)

lemma filled_step:
  assumes t: "b_shtab b0 = Some t" and n: "b_nsects b0 = length (sht_shdrs t)" "length (sht_shdrs t) < 65536"
      "length (sht_shdrs t) \<le> length (b_sects b0)"
    and I: "filled t b0 i (b, p, e)" and i: "i < b_nsects b"
    and r: "elf2bfdsec lsb mok att (Sect i) (b, p, e) = Ok (b', p', e')"
  shows "filled t b0 (i + 1) (b', p', e')"
proof (cases "e' = 0")
  case True
  then have e: "e = 0" using elf2bfdsec_err r by blast
  have I': "p = of_nat i" "rest_eq b0 b" "length (b_sects b) = length (b_sects b0)"
      "sec_sim (b_und b0) (b_und b)" "sec_sim (b_abs b0) (b_abs b)" "sec_sim (b_com b0) (b_com b)"
      "\<And>j. j < i \<Longrightarrow> entered t (BFD_IS_ELF64 b0) j (b_sects b ! j) \<and> flagged t (b_symstrs b0) j (b_sects b ! j) \<and>
        plain_rel (b_sects b ! j)"
      "\<And>j. i \<le> j \<Longrightarrow> j < length (b_sects b) \<Longrightarrow> sec_sim zero_sec (b_sects b ! j)"
    using I e by (auto simp: filled_def)
  have bt: "b_shtab b = Some t" "b_symstrs b = b_symstrs b0" "BFD_IS_ELF64 b = BFD_IS_ELF64 b0"
    "b_nsects b = b_nsects b0"
    using I'(2) t by (auto simp: rest_eq_def BFD_IS_ELF64_def)
  have lt: "i < length (sht_shdrs t)" "i < 65536" "i < length (b_sects b)"
    using i n bt(4) I'(3) by auto
  have E: "p' = of_nat (i + 1) \<and> others i b b' \<and> entered t (BFD_IS_ELF64 b0) i (b_sects b' ! i) \<and>
    flagged t (b_symstrs b0) i (b_sects b' ! i) \<and> plain_rel (b_sects b' ! i)"
    using elf2bfdsec_enters [OF bt(1) lt I'(8) [OF order_refl lt(3)]] r e True I'(1) bt by simp
  then have o: "others i b b'" by blast
  have sim: "sec_sim (b_sects b ! j) (b_sects b' ! j)" if "j < length (b_sects b)" "j \<noteq> i" for j
    using o that by (simp add: others_def)
  have len: "length (b_sects b') = length (b_sects b)" using o by (simp add: others_def)
  have "entered t (BFD_IS_ELF64 b0) j (b_sects b' ! j) \<and> flagged t (b_symstrs b0) j (b_sects b' ! j) \<and>
      plain_rel (b_sects b' ! j)" if "j < i + 1" for j
  proof (cases "j = i")
    case False
    then have "j < i" using that by simp
    then show ?thesis using I'(7) [of j] sim [of j] lt(3) sec_sim_keeps by (metis order.strict_trans nat_neq_iff)
  qed (use E in blast)
  moreover have "sec_sim zero_sec (b_sects b' ! j)" if "i + 1 \<le> j" "j < length (b_sects b')" for j
    using I'(8) [of j] sim [of j] that len by (auto intro: sec_sim_trans)
  moreover have "rest_eq b0 b'" "sec_sim (b_und b0) (b_und b')" "sec_sim (b_abs b0) (b_abs b')" "sec_sim (b_com b0) (b_com b')"
    using o I' by (auto simp: others_def intro: rest_eq_trans sec_sim_trans)
  ultimately show ?thesis
    using E len I'(3) lt(1) unfolding filled_def by auto
qed (simp add: filled_def)

section \<open>Marking relocations\<close>

fun valid_sec :: "bfd \<Rightarrow> secref \<Rightarrow> bool" where
  "valid_sec b (Sect i) \<longleftrightarrow> i < length (b_sects b)"
| "valid_sec b _ \<longleftrightarrow> True"

lemma get_upd_sec:
  "get_sec (upd_sec r f b) q = (if q = r \<and> valid_sec b r then f (get_sec b r) else get_sec b q)"
  by (cases r; cases q) (auto simp: nth_list_update list_update_beyond)

lemma upd_sec_rest [simp]:
  "b_nsects (upd_sec r f b) = b_nsects b" "b_shtab (upd_sec r f b) = b_shtab b"
  "length (b_sects (upd_sec r f b)) = length (b_sects b)" "valid_sec (upd_sec r f b) q = valid_sec b q"
  by (cases r; cases q; simp)+

lemma shdr2sec_valid: "shdr2sec b x bogus = Some r \<Longrightarrow> b_nsects b \<le> length (b_sects b) \<Longrightarrow> valid_sec b r"
  by (auto simp: shdr2sec_def split: if_splits)

definition is_rel :: "Elf_Shdr \<Rightarrow> bool" where
  "is_rel h \<longleftrightarrow> shdr_type h = SHT_REL \<or> shdr_type h = SHT_RELA"

definition relocs_for :: "bfd \<Rightarrow> Elf_Shdr \<Rightarrow> secref \<Rightarrow> bool" where
  "relocs_for b h r \<longleftrightarrow> is_rel h \<and> shdr2sec b (shdr_info h) False = Some r"

definition flags_sane :: "bfd \<Rightarrow> bool" where
  "flags_sane b \<longleftrightarrow> b_nsects b \<le> length (b_sects b) \<and>
     (\<forall>i < b_nsects b. sc_flags (b_sects b ! i) = SEC_BOGUS \<or> \<not> bit (sc_flags (b_sects b ! i)) 31)"

lemma not_bogus: "\<not> bit (x :: u32) 31 \<Longrightarrow> x \<noteq> SEC_BOGUS"
  by auto

lemma mark_keeps:
  assumes s: "flags_sane b" and r: "shdr2sec b x False = Some r"
  shows "flags_sane (upd_sec r (mark n) b)" "shdr2sec (upd_sec r (mark n) b) y False = shdr2sec b y False"
proof -
  have v: "valid_sec b r" using shdr2sec_valid [OF r] s by (simp add: flags_sane_def)
  have new: "b_sects (upd_sec r (mark n) b) ! i = (if r = Sect i then mark n (b_sects b ! i) else b_sects b ! i)" for i
    using get_upd_sec [of r "mark n" b "Sect i"] v by auto
  have tgt: "\<not> bit (sc_flags (b_sects b ! i)) 31" if "r = Sect i" for i
  proof -
    have "i < b_nsects b \<and> sc_flags (b_sects b ! i) \<noteq> SEC_BOGUS"
      using r that by (auto simp: shdr2sec_def split: if_splits)
    then show ?thesis using s by (auto simp: flags_sane_def)
  qed
  have mk: "\<not> bit (sc_flags (mark n z)) 31" if "\<not> bit (sc_flags z) 31" for z
    using that by (simp add: mark_def bit_or_iff)
  have fl: "sc_flags (b_sects (upd_sec r (mark n) b) ! i) = SEC_BOGUS \<longleftrightarrow> sc_flags (b_sects b ! i) = SEC_BOGUS" for i
  proof (cases "r = Sect i")
    case True
    then show ?thesis using new [of i] not_bogus [OF tgt [OF True]] not_bogus [OF mk [OF tgt [OF True]]] by simp
  qed (simp add: new)
  show "flags_sane (upd_sec r (mark n) b)"
    using s tgt mk by (auto simp: flags_sane_def new)
  show "shdr2sec (upd_sec r (mark n) b) y False = shdr2sec b y False"
    using fl by (auto simp: shdr2sec_def)
qed

lemma mark_loop_marks:
  assumes "mark_loop n hs b rv = (k, b')" and "0 \<le> k" and "0 \<le> rv" and "flags_sane b"
    and "1 \<le> n" and "n + length hs < 65536"
  shows "rest_eq b b' \<and> length (b_sects b') = length (b_sects b) \<and> flags_sane b' \<and>
    (\<forall>x. shdr2sec b' x False = shdr2sec b x False) \<and>
    (\<forall>r. (\<forall>q < length hs. \<not> relocs_for b (hs ! q) r) \<longrightarrow> get_sec b' r = get_sec b r) \<and>
    (\<forall>r. \<forall>q < length hs. relocs_for b (hs ! q) r \<longrightarrow>
       get_sec b' r = mark (n + q) (get_sec b r) \<and> sc_rels (get_sec b r) = 0) \<and>
    (\<forall>q < length hs. is_rel (hs ! q) \<longrightarrow> (\<exists>r. relocs_for b (hs ! q) r))"
  using assms
proof (induction n hs b rv rule: mark_loop.induct)
  case (1 n b rv)
  then show ?case by simp
next
  case (2 n h hs b rv)
  show ?case
  proof (cases "shdr_type h \<noteq> SHT_REL \<and> shdr_type h \<noteq> SHT_RELA")
    case True
    then have "\<not> relocs_for b h r" "\<not> is_rel h" for r by (simp_all add: relocs_for_def is_rel_def)
    moreover have "mark_loop (n + 1) hs b rv = (k, b')" using 2(3) True by simp
    ultimately show ?thesis
      using 2(1) [OF True] 2(4-8) by (simp add: All_less_Suc2)
  next
    case False
    obtain r where r: "shdr2sec b (shdr_info h) False = Some r"
      and fb: "sc_flags (get_sec b r) \<noteq> SEC_BOGUS" and rl: "\<not> sc_rels (get_sec b r) \<noteq> 0"
      and run: "mark_loop (n + 1) hs (upd_sec r (mark n) b) (rv + 1) = (k, b')"
      using 2(3,4) False
      by (auto simp del: upd_sec.simps split: option.splits if_splits)
    let ?b1 = "upd_sec r (mark n) b"
    note keep = mark_keeps [OF 2(6) r, of n]
    have IH: "rest_eq ?b1 b' \<and> length (b_sects b') = length (b_sects ?b1) \<and> flags_sane b' \<and>
      (\<forall>x. shdr2sec b' x False = shdr2sec ?b1 x False) \<and>
      (\<forall>r. (\<forall>q < length hs. \<not> relocs_for ?b1 (hs ! q) r) \<longrightarrow> get_sec b' r = get_sec ?b1 r) \<and>
      (\<forall>r. \<forall>q < length hs. relocs_for ?b1 (hs ! q) r \<longrightarrow>
         get_sec b' r = mark (n + 1 + q) (get_sec ?b1 r) \<and> sc_rels (get_sec ?b1 r) = 0) \<and>
      (\<forall>q < length hs. is_rel (hs ! q) \<longrightarrow> (\<exists>r. relocs_for ?b1 (hs ! q) r))"
      using 2(2) [OF False r fb rl, OF run 2(4) _ keep(1)] 2(5-8) by simp
    have same: "relocs_for ?b1 g q \<longleftrightarrow> relocs_for b g q" for g q by (simp add: relocs_for_def keep(2))
    have v: "valid_sec b r" using shdr2sec_valid [OF r] 2(6) by (simp add: flags_sane_def)
    have "(of_nat n :: u16) \<noteq> 0"
      using 2(7,8) by (simp add: of_nat_neq_0)
    then have nz: "sc_rels (get_sec ?b1 r) \<noteq> 0" by (simp add: get_upd_sec v mark_def)
    have no: "\<not> relocs_for b (hs ! q) r" if "q < length hs" for q
      using IH nz that same by blast
    have h: "relocs_for b h q \<longleftrightarrow> q = r" for q using False r by (auto simp: relocs_for_def is_rel_def)
    have re: "rest_eq b ?b1" by (cases r) (auto simp: rest_eq_def intro: option.rel_refl)
    have later: "get_sec b' ra = mark (n + 1 + q) (get_sec b ra) \<and> sc_rels (get_sec b ra) = 0"
      if "q < length hs" "relocs_for b (hs ! q) ra" for q ra
    proof -
      have "ra \<noteq> r" using no that by blast
      moreover have "get_sec b' ra = mark (n + 1 + q) (get_sec ?b1 ra) \<and> sc_rels (get_sec ?b1 ra) = 0"
        using IH that same by blast
      ultimately show ?thesis by (simp add: get_upd_sec)
    qed
    have none: "get_sec b' ra = get_sec b ra" if "\<forall>q < length (h # hs). \<not> relocs_for b ((h # hs) ! q) ra" for ra
    proof -
      have "ra \<noteq> r" and "\<forall>q < length hs. \<not> relocs_for ?b1 (hs ! q) ra"
        using that by (simp_all add: All_less_Suc2 h same)
      then show ?thesis using IH by (simp add: get_upd_sec)
    qed
    have some: "get_sec b' ra = mark (n + q) (get_sec b ra) \<and> sc_rels (get_sec b ra) = 0"
      if "q < length (h # hs)" "relocs_for b ((h # hs) ! q) ra" for q ra
    proof (cases q)
      case 0
      then have "ra = r" using that h by simp
      then show ?thesis using IH rl no 0 by (simp add: get_upd_sec v same)
    next
      case (Suc m)
      then show ?thesis using later [of m ra] that by simp
    qed
    have all: "\<forall>q < length (h # hs). is_rel ((h # hs) ! q) \<longrightarrow> (\<exists>r. relocs_for b ((h # hs) ! q) r)"
      using IH h [of r] by (auto simp: All_less_Suc2 same)
    have "rest_eq b b'" using rest_eq_trans [OF re] IH by blast
    then show ?thesis using IH none some all unfolding keep(2) by (metis upd_sec_rest(3))
  qed
qed

section \<open>Opening\<close>

lemma get_all_length: "fst (get_all get n s) = Ok hs \<Longrightarrow> length hs = n"
  by (induction n arbitrary: s hs) (auto dest!: then_do_OkD)

lemma unat_u16_less: "unat (n :: u16) < 65536"
  using unsigned_less [of n, where 'a=nat] by simp

lemma getshtab_length:
  assumes "pmelf_getshtab lsb mok s eh = (Ok t, s')"
  shows "length (sht_shdrs t) = unat (sht_nshdrs t)" "length (sht_shdrs t) < 65536"
proof -
  have "fst (pmelf_getshtab lsb mok s eh) = Ok t" using assms by simp
  then have "length (sht_shdrs t) = unat (sht_nshdrs t) \<and> unat (sht_nshdrs t) < 65536"
    unfolding pmelf_getshtab_def
    by (auto dest!: then_do_OkD get_all_length simp: Let_def fst_null_on_fail then_if0_def unat_u16_less
        split: if_splits Elf_Ehdr.splits res.splits prod.splits)
  then show "length (sht_shdrs t) = unat (sht_nshdrs t)" "length (sht_shdrs t) < 65536" by auto
qed

definition sections_ok :: "bfd \<Rightarrow> Pmelf_Shtab \<Rightarrow> bool" where
  "sections_ok b t \<longleftrightarrow> b_shtab b = Some t \<and> b_nsects b = length (sht_shdrs t) \<and> flags_sane b \<and>
     (\<forall>i < b_nsects b. entered t (BFD_IS_ELF64 b) i (b_sects b ! i) \<and> flagged t (b_symstrs b) i (b_sects b ! i))"

lemma flagged_mark:
  assumes "flagged t y i s" and "shown t y i" shows "flagged t y i (mark n s)"
proof -
  have k: "bit (sc_flags (mark n s)) k = bit (sc_flags s) k" if "k \<in> {0, 1, 3, 4, 5, 8}" for k
    using that by (elim insertE) (simp_all add: mark_def bit_or_iff)
  have "\<not> bit (sc_flags (mark n s)) 31" using assms by (simp add: flagged_def mark_def bit_or_iff)
  then show ?thesis using assms flags_spec_cong [OF k] by (simp add: flagged_def)
qed

lemma entered_mark: "entered t c i (mark n s) = entered t c i s"
  by (simp add: entered_def mark_def)

lemma bogus_iff_hidden: "flagged t y i s \<Longrightarrow> sc_flags s = SEC_BOGUS \<longleftrightarrow> \<not> shown t y i"
  using not_bogus [of "sc_flags s"] by (auto simp: flagged_def split: if_splits)

text \<open>After the first pass.\<close>

lemma filled_end:
  assumes "filled t b0 j (b, p, 0)" and "\<not> j < b_nsects b" and "b_shtab b0 = Some t"
    and "b_nsects b0 = length (sht_shdrs t)" and "length (sht_shdrs t) \<le> length (b_sects b0)"
  shows "sections_ok b t \<and> rest_eq b0 b \<and> (\<forall>i < b_nsects b. plain_rel (b_sects b ! i))"
proof -
  have f: "rest_eq b0 b" "j \<le> length (sht_shdrs t)" "length (b_sects b) = length (b_sects b0)"
    "\<And>i. i < j \<Longrightarrow> entered t (BFD_IS_ELF64 b0) i (b_sects b ! i) \<and> flagged t (b_symstrs b0) i (b_sects b ! i) \<and>
        plain_rel (b_sects b ! i)"
    using assms(1) by (auto simp: filled_def)
  have e: "b_nsects b = b_nsects b0" "b_shtab b = Some t" "BFD_IS_ELF64 b = BFD_IS_ELF64 b0" "b_symstrs b = b_symstrs b0"
    using f(1) assms(3) by (auto simp: rest_eq_def BFD_IS_ELF64_def)
  have j: "j = length (sht_shdrs t)" using f(2) assms(2,4) e(1) by simp
  have "flags_sane b"
    unfolding flags_sane_def
    using f(3,4) e(1) assms(4,5) j by (fastforce simp: flagged_def split: if_splits)
  then show ?thesis using f e j assms(4) by (auto simp: sections_ok_def)
qed

text \<open>After the second pass: the sections that have relocations.\<close>

definition relocs_marked :: "bfd \<Rightarrow> Pmelf_Shtab \<Rightarrow> bool" where
  "relocs_marked b t \<longleftrightarrow>
     (\<forall>m. 1 \<le> m \<longrightarrow> m < length (sht_shdrs t) \<longrightarrow>
        is_rel (sht_shdrs t ! m) \<longrightarrow> (\<exists>r. relocs_for b (sht_shdrs t ! m) r \<and> sc_rels (get_sec b r) = of_nat m)) \<and>
     (\<forall>i < b_nsects b. sc_flags (b_sects b ! i) \<noteq> SEC_BOGUS \<longrightarrow>
        (sc_flags (b_sects b ! i) AND SEC_RELOC \<noteq> 0 \<longleftrightarrow>
         (\<exists>m. 1 \<le> m \<and> m < length (sht_shdrs t) \<and> relocs_for b (sht_shdrs t ! m) (Sect i))))"

lemma mark_relocs_marks:
  assumes ok: "sections_ok b t" and pl: "\<forall>i < b_nsects b. plain_rel (b_sects b ! i)"
    and len: "length (sht_shdrs t) < 65536"
    and r: "mark_relocs b = Ok (k, b')" "0 \<le> k"
  shows "sections_ok b' t \<and> relocs_marked b' t \<and> rest_eq b b'"
proof -
  have b: "b_shtab b = Some t" "b_nsects b = length (sht_shdrs t)" "flags_sane b"
    "\<And>i. i < b_nsects b \<Longrightarrow> entered t (BFD_IS_ELF64 b) i (b_sects b ! i) \<and> flagged t (b_symstrs b) i (b_sects b ! i)"
    using ok by (auto simp: sections_ok_def)
  let ?hs = "tl (sht_shdrs t)"
  have M: "rest_eq b b' \<and> length (b_sects b') = length (b_sects b) \<and> flags_sane b' \<and>
    (\<forall>x. shdr2sec b' x False = shdr2sec b x False) \<and>
    (\<forall>r. (\<forall>q < length ?hs. \<not> relocs_for b (?hs ! q) r) \<longrightarrow> get_sec b' r = get_sec b r) \<and>
    (\<forall>r. \<forall>q < length ?hs. relocs_for b (?hs ! q) r \<longrightarrow>
       get_sec b' r = mark (1 + q) (get_sec b r) \<and> sc_rels (get_sec b r) = 0) \<and>
    (\<forall>q < length ?hs. is_rel (?hs ! q) \<longrightarrow> (\<exists>r. relocs_for b (?hs ! q) r))"
    using mark_loop_marks [of 1 ?hs b 0 k b'] r b(1,3) len by (simp add: mark_relocs_def)
  have re: "rest_eq b b'" using M by blast
  have keep: "b_shtab b' = Some t" "b_nsects b' = b_nsects b" "BFD_IS_ELF64 b' = BFD_IS_ELF64 b"
    "b_symstrs b' = b_symstrs b"
    using re b(1) by (auto simp: rest_eq_def BFD_IS_ELF64_def)
  have same: "relocs_for b' h q \<longleftrightarrow> relocs_for b h q" for h q using M by (simp add: relocs_for_def)
  have hs: "sht_shdrs t ! m = ?hs ! (m - 1) \<and> m - 1 < length ?hs" if "1 \<le> m" "m < length (sht_shdrs t)" for m
    using that by (cases m) (auto simp: nth_tl)
  have tgt: "shown t (b_symstrs b) i" if "relocs_for b h (Sect i)" "i < b_nsects b" for h i
  proof -
    have "sc_flags (b_sects b ! i) \<noteq> SEC_BOGUS"
      using that by (auto simp: relocs_for_def shdr2sec_def split: if_splits)
    then show ?thesis using bogus_iff_hidden b(4) [OF that(2)] by blast
  qed
  have sec: "b_sects b' ! i = b_sects b ! i \<and> (\<forall>q < length ?hs. \<not> relocs_for b (?hs ! q) (Sect i)) \<or>
      (\<exists>q < length ?hs. relocs_for b (?hs ! q) (Sect i) \<and> b_sects b' ! i = mark (1 + q) (b_sects b ! i))" for i
    using M by (metis get_sec.simps(4))
  have S: "sections_ok b' t"
    unfolding sections_ok_def keep
  proof (intro conjI allI impI)
    fix i assume i: "i < b_nsects b"
    show "entered t (BFD_IS_ELF64 b) i (b_sects b' ! i)"
      using sec [of i] b(4) [OF i] entered_mark by auto
    show "flagged t (b_symstrs b) i (b_sects b' ! i)"
      using sec [of i] b(4) [OF i] flagged_mark tgt [OF _ i] by auto
  qed (use M b in auto)
  have R1: "\<exists>r. relocs_for b' (sht_shdrs t ! m) r \<and> sc_rels (get_sec b' r) = of_nat m"
    if m: "1 \<le> m" "m < length (sht_shdrs t)" and ty: "is_rel (sht_shdrs t ! m)" for m
  proof -
    let ?q = "m - 1"
    have q: "?q < length ?hs" "sht_shdrs t ! m = ?hs ! ?q" using hs [OF m] by auto
    then obtain r where r: "relocs_for b (?hs ! ?q) r" using M ty by metis
    then have "get_sec b' r = mark m (get_sec b r)" using M q(1) m(1) by (metis le_add_diff_inverse)
    then show ?thesis using r q(2) by (auto simp: same mark_def)
  qed
  have R2: "sc_flags (b_sects b' ! i) AND SEC_RELOC \<noteq> 0 \<longleftrightarrow>
         (\<exists>m. 1 \<le> m \<and> m < length (sht_shdrs t) \<and> relocs_for b' (sht_shdrs t ! m) (Sect i))"
    if i: "i < b_nsects b" and nb: "sc_flags (b_sects b' ! i) \<noteq> SEC_BOGUS" for i
  proof (cases "\<exists>q < length ?hs. relocs_for b (?hs ! q) (Sect i)")
    case True
    then obtain q where q: "q < length ?hs" "relocs_for b (?hs ! q) (Sect i)" by blast
    then have "b_sects b' ! i = mark (1 + q) (b_sects b ! i)" using M by (metis get_sec.simps(4))
    then have "sc_flags (b_sects b' ! i) AND SEC_RELOC \<noteq> 0"
      by (simp add: mark_def flag_bits bit_or_iff)
    moreover have "relocs_for b' (sht_shdrs t ! (q + 1)) (Sect i)" using q by (simp add: same nth_tl)
    ultimately show ?thesis using q(1) by (metis le_add2 length_tl less_diff_conv)
  next
    case False
    then have e: "b_sects b' ! i = b_sects b ! i" using sec [of i] by blast
    then have "\<not> bit (sc_flags (b_sects b' ! i)) 2"
      using pl i nb by (auto simp: plain_rel_def)
    moreover have "\<not> relocs_for b' (sht_shdrs t ! m) (Sect i)" if "1 \<le> m" "m < length (sht_shdrs t)" for m
      using False hs [OF that] by (auto simp: same)
    ultimately show ?thesis by (auto simp: flag_bits)
  qed
  show ?thesis
    using S re R1 R2 keep(2) by (auto simp: relocs_marked_def)
qed

lemma open_tablesD:
  assumes "open_tables lsb mok att s b = Ok (True, b')"
  obtains t s1 n symsh symstrs s2 strh strs s3 b1 b2 p nrels where
    "pmelf_getshtab lsb (\<lambda>i. mok (i + 1)) s (b_ehdr b) = (Ok t, s1)"
    "pmelf_find_symhdrs s1 t = (Ok (n, symsh, symstrs), s2)" "2 \<le> sint n"
    "shtab_at t symstrs = Ok strh" "pmelf_getscn (mok 4) False s2 strh 0 0 = (Ok strs, s3)"
    "b1 = b\<lparr>b_s := Some s3, b_shtab := Some t, b_nsyms := sint n, b_symsh := symsh, b_symstrs := symstrs,
       b_strtabs := [(strs, shdr_bytes strh)],
       b_sects := replicate (unat (sht_nshdrs t) + MAX_USR_SECTS) zero_sec, b_nsects := unat (sht_nshdrs t)\<rparr>"
    "bfd_map_over_sections (elf2bfdsec lsb (\<lambda>i. mok (i + 7)) att) (b1, 0, 0) = Ok (b2, p, 0)"
    "mark_relocs b2 = Ok (nrels, b')" "0 \<le> nrels"
proof -
  obtain r1 s1 where 1: "pmelf_getshtab lsb (\<lambda>i. mok (i + 1)) s (b_ehdr b) = (r1, s1)" by fastforce
  with assms obtain t where t: "r1 = Ok t" by (cases r1) (auto simp: open_tables_def)
  obtain r2 s2 where 2: "pmelf_find_symhdrs s1 t = (r2, s2)" by fastforce
  with assms 1 t obtain n symsh symstrs where n: "r2 = Ok (n, symsh, symstrs)"
    by (cases r2) (auto simp: open_tables_def)
  have n2: "2 \<le> sint n" using assms 1 t 2 n by (simp add: open_tables_def split: if_splits)
  with assms 1 t 2 n obtain strh where 3: "shtab_at t symstrs = Ok strh"
    by (auto simp: open_tables_def bind_res_Ok_iff)
  obtain r4 s3 where 4: "pmelf_getscn (mok 4) False s2 strh 0 0 = (r4, s3)" by fastforce
  with assms 1 t 2 n n2 3 obtain strs where strs: "r4 = Ok strs" by (cases r4) (auto simp: open_tables_def)
  define b1 where "b1 = b\<lparr>b_s := Some s3, b_shtab := Some t, b_nsyms := sint n, b_symsh := symsh, b_symstrs := symstrs,
       b_strtabs := [(strs, shdr_bytes strh)],
       b_sects := replicate (unat (sht_nshdrs t) + MAX_USR_SECTS) zero_sec, b_nsects := unat (sht_nshdrs t)\<rparr>"
  have "open_sections lsb (\<lambda>i. mok (i + 7)) att b1 = Ok (True, b')"
    using assms 1 t 2 n n2 3 4 strs
    by (simp add: open_tables_def Let_def secinit_def b1_def split: if_splits)
  then obtain b2 p nrels where "bfd_map_over_sections (elf2bfdsec lsb (\<lambda>i. mok (i + 7)) att) (b1, 0, 0) = Ok (b2, p, 0)"
    "mark_relocs b2 = Ok (nrels, b')" "0 \<le> nrels"
    by (auto simp: open_sections_def bind_res_Ok_iff split: if_splits)
  then show ?thesis using that [OF 1 [unfolded t] 2 [unfolded n] n2 3 4 [unfolded strs] b1_def] by blast
qed

text \<open>
  Opening a file whose header, section table and symbol table are in order: what is left to do are the
  two passes over the sections, on a descriptor that holds the tables of the file.
\<close>

definition open_start :: "Elf_Ehdr \<Rightarrow> bfd_arch_info \<Rightarrow> Pmelf_Shtab \<Rightarrow> Pmelf_Symtab \<Rightarrow> bfd \<Rightarrow> strm \<Rightarrow> bfd" where
  "open_start eh a t symt b s =
     b\<lparr>b_ehdr := eh, b_arch := Some a, b_att_sh := None, b_s := Some s, b_shtab := Some t,
       b_nsyms := symt_nsyms symt, b_symsh := symt_idx symt,
       b_symstrs := get_shtabN t (shdr_link (sht_shdrs t ! symt_idx symt)),
       b_strtabs := [(symt_strtab symt, symt_strtablen symt)],
       b_sects := replicate (unat (sht_nshdrs t) + MAX_USR_SECTS) zero_sec, b_nsects := unat (sht_nshdrs t)\<rparr>"

definition stream_of :: "bool \<Rightarrow> bytes \<Rightarrow> u8 \<Rightarrow> strm \<Rightarrow> bool" where
  "stream_of lsb d c s \<longleftrightarrow> strm_ok s \<and> strm_data s = d \<and> st_clss s = c \<and> st_needswap s = (lsb \<noteq> file_lsb d)"

lemma open_reads:
  assumes f: "file_ok f" "fo_data f = d" and e: "ehdr_spec d = Ok eh" and t: "shtab_spec d eh = Some t"
    and names: "named_headers t SHT_SYMTAB" and k: "k < length (sht_shdrs t)"
      "\<forall>m<length (sht_shdrs t). is_symhdr t SHT_SYMTAB (str_bytes ''.symtab'') (sht_shdrs t ! m) \<longleftrightarrow> m = k"
    and y: "symtab_spec d t k = Some symt" "2 \<le> symt_nsyms symt"
    and a: "(if ai_name myarch = bfd_get_target (b\<lparr>b_ehdr := eh\<rparr>) then Some myarch
             else find_arch (b\<lparr>b_ehdr := eh\<rparr>)) = Some a"
    and b: "b_inited b" "b_s b = None" and mok: "\<And>i. mok i"
  shows "\<exists>s. stream_of lsb d (ehdr_clss eh) s \<and>
    bfd_openstreamr lsb mok att False f b =
      bind_res (open_sections lsb (\<lambda>i. mok (i + 7)) att (open_start eh a t symt b s))
        (\<lambda>(ok, b). Ok (if ok then (True, b) else (False, bfd_cleanup b)))"
proof -
  have s0: "strm_ok (pmelf_newstrm f)" "strm_data (pmelf_newstrm f) = d"
    using f by (simp_all add: pmelf_newstrm_def strm_ok.simps strm_data.simps)
  obtain s1 where o: "pmelf_getehdr lsb (pmelf_newstrm f) = (Ok eh, s1)" and s1: "stream_of lsb d (ehdr_clss eh) s1"
    using opened_stream [OF s0(1), unfolded s0(2), OF e, of lsb]
    by (metis prod.collapse stream_of_def)
  obtain s2 where sh: "pmelf_getshtab lsb (\<lambda>i. mok (i + 1)) s1 eh = (Ok t, s2)"
    using getshtab_spec [of s1 eh lsb t "\<lambda>i. mok (i + 1)"] s1 e t mok by (metis prod.collapse stream_of_def)
  have s2: "stream_of lsb d (ehdr_clss eh) s2"
    using getshtab_only_read [of s1 lsb "\<lambda>i. mok (i + 1)" eh] s1 sh by (auto simp: only_read_def stream_of_def)
  note c = shtab_spec_clss [OF e t]
  let ?h = "sht_shdrs t ! k" and ?c = "sht_clss t"
  define s3 where "s3 = snd (pmelf_seek (shdr_offset ?h) s2)"
  have fs: "pmelf_find_symhdrs s2 t = (Ok (shdr_size ?c ?h div ucast (get_symsz ?c), k, get_shtabN t (shdr_link ?h)), s3)"
    using find_symhdrs_complete [of s2 t False k symt] names k y(1) s2
    by (simp add: pmelf_find_symhdrs_def s3_def stream_of_def)
  note D = symtab_specD [OF y(1)]
  let ?esz = "if ?c = ELFCLASS64 then 24 else 16 :: nat"
  let ?str = "sht_shdrs t ! unat (shdr_link ?h)"
  define n where "n = shdr_size ?c ?h div ucast (get_symsz ?c)"
  have esz: "unat (ucast (get_symsz ?c) :: u64) = ?esz" by (simp add: get_symsz_def)
  have un: "unat n = unat (shdr_size ?c ?h) div ?esz" by (simp only: n_def unat_div esz)
  have "length d < 2 ^ 63" using strm_src.small [OF s0(1)] s0(2) by simp
  then have "unat n < 2 ^ 63"
    using un D(3) div_le_dividend [of "unat (shdr_size ?c ?h)" ?esz] by linarith
  then have nsint: "sint n = symt_nsyms symt"
    using unat_small_sint [of n] un by (subst D(7)) simp
  have s3: "stream_of lsb d (ehdr_clss eh) s3"
    using seek_only_read [of s2 "shdr_offset ?h"] s2 by (auto simp: only_read_def stream_of_def s3_def)
  have cl: "shdr_clss_ok (st_clss s3) ?str" using c(1,3) D(4) s3 by (simp add: list_all_length stream_of_def)
  have "fst (pmelf_getscn (mok 4) False s3 ?str 0 0) = Ok (symt_strtab symt)"
    using getscn_whole [OF _ cl, of False "mok 4"] s3 D(5,6) c(1) mok by (subst D(7)) (simp add: stream_of_def)
  then obtain s4 where g: "pmelf_getscn (mok 4) False s3 ?str 0 0 = (Ok (symt_strtab symt), s4)"
    by (metis prod.collapse)
  have s4: "stream_of lsb d (ehdr_clss eh) s4"
    using getscn_only_read [of s3 "mok 4" False ?str 0 0] s3 g by (auto simp: only_read_def stream_of_def)
  have at: "shtab_at t (get_shtabN t (shdr_link ?h)) = Ok ?str"
    by (rule shtab_at_get_shtabN [OF D(4) c(2)])
  have bytes: "shdr_bytes ?str = symt_strtablen symt" "symt_idx symt = k"
    by (subst D(7); simp add: shdr_bytes_def shdr_size_def)+
  have "open_tables lsb mok att s1 (b\<lparr>b_s := Some s1, b_ehdr := eh, b_arch := Some a, b_att_sh := None\<rparr>) =
      open_sections lsb (\<lambda>i. mok (i + 7)) att (open_start eh a t symt b s4)"
    using sh fs g at mok nsint y(2) bytes
    by (simp add: open_tables_def open_start_def n_def [symmetric] secinit_def)
  moreover have "(if ai_name myarch = bfd_get_target (b\<lparr>b_s := Some s1, b_ehdr := eh\<rparr>) then Some myarch
      else find_arch (b\<lparr>b_s := Some s1, b_ehdr := eh\<rparr>)) = Some a"
  proof -
    have fa: "find_arch (b\<lparr>b_s := Some s1, b_ehdr := eh\<rparr>) = find_arch (b\<lparr>b_ehdr := eh\<rparr>)"
      by (simp add: find_arch_def)
    have "bfd_get_target (b\<lparr>b_s := Some s1, b_ehdr := eh\<rparr>) = bfd_get_target (b\<lparr>b_ehdr := eh\<rparr>)"
      unfolding bfd_get_target_def fa by (simp split: option.split)
    then show ?thesis using a fa by (simp split: if_split_asm)
  qed
  ultimately have "bfd_openstreamr lsb mok att False f b =
      bind_res (open_sections lsb (\<lambda>i. mok (i + 7)) att (open_start eh a t symt b s4))
        (\<lambda>(ok, b). Ok (if ok then (True, b) else (False, bfd_cleanup b)))"
    using b mok o by (simp add: bfd_openstreamr_def Let_def)
  with s4 show ?thesis by blast
qed

section \<open>An object file for the witnesses\<close>

text \<open>
  A little-endian x86-64 object: a text section of eight bytes with one relocation, a symbol table
  with a function \<open>f\<close> in it and an undefined \<open>g\<close>, and a table of strings.
\<close>

definition obj_strs :: bytes where
  "obj_strs = 0 # str_mem ''.symtab'' @ str_mem ''.text'' @ str_mem ''.rela.text'' @ str_mem ''f'' @ str_mem ''g''"

definition obj_ehdr :: Elf64_Ehdr where
  "obj_ehdr = sample_ehdr64\<lparr>e_shnum64 := 5, e_shstrndx64 := 4, e_shoff64 := 64\<rparr>"

definition obj_shdr :: "u32 \<Rightarrow> u32 \<Rightarrow> u64 \<Rightarrow> u64 \<Rightarrow> u64 \<Rightarrow> u32 \<Rightarrow> u32 \<Rightarrow> u64 \<Rightarrow> Elf64_Shdr" where
  "obj_shdr nm ty fl off len link info ent =
     \<lparr>sh_name64 = nm, sh_type64 = ty, sh_flags64 = fl, sh_addr64 = 0, sh_offset64 = off, sh_size64 = len,
      sh_link64 = link, sh_info64 = info, sh_addralign64 = 4, sh_entsize64 = ent\<rparr>"

definition obj_sym :: "u32 \<Rightarrow> u8 \<Rightarrow> u16 \<Rightarrow> u64 \<Rightarrow> Elf64_Sym" where
  "obj_sym nm info ndx sz = \<lparr>st_name64 = nm, st_info64 = info, st_other64 = 0, st_shndx64 = ndx,
     st_value64 = 0, st_size64 = sz\<rparr>"

definition obj_shdrs :: "Elf64_Shdr list" where
  "obj_shdrs = [obj_shdr 0 0 0 0 0 0 0 0, obj_shdr 9 1 6 384 8 0 0 0, obj_shdr 15 4 0 392 24 3 1 24,
     obj_shdr 1 2 0 416 72 4 1 24, obj_shdr 0 3 0 488 30 0 0 0]"

text \<open>The relocation enters the address of \<open>g\<close>, the third symbol, at the start of the section.\<close>

definition obj_file :: bytes where
  "obj_file = bytes_ehdr64 True obj_ehdr @ concat (map (bytes_shdr64 True) obj_shdrs)
     @ replicate 8 0x90 @ le_bytes 8 (0 :: u64) @ le_bytes 8 (0x200000001 :: u64) @ le_bytes 8 (4 :: u64)
     @ bytes_sym64 True (obj_sym 0 0 0 0) @ bytes_sym64 True (obj_sym 26 0x12 1 8)
     @ bytes_sym64 True (obj_sym 28 0x10 0 0) @ obj_strs"

definition obj_fobj :: file_obj where "obj_fobj = \<lparr>fo_data = obj_file, fo_pos = 0, fo_writable = False\<rparr>"

definition obj_sht :: Pmelf_Shtab where
  "obj_sht = \<lparr>sht_shdrs = map S64 obj_shdrs, sht_nshdrs = 5, sht_strtab = obj_strs,
     sht_strtablen = 30, sht_idx = 4, sht_clss = 2\<rparr>"

definition obj_symt :: Pmelf_Symtab where
  "obj_symt = \<lparr>symt_syms = map T64 [obj_sym 0 0 0 0, obj_sym 26 0x12 1 8, obj_sym 28 0x10 0 0], symt_nsyms = 3,
     symt_strtab = obj_strs, symt_strtablen = 30, symt_idx = 3, symt_clss = 2\<rparr>"

definition obj_start :: "strm \<Rightarrow> bfd" where
  "obj_start s = open_start (E64 obj_ehdr) myarch obj_sht obj_symt (bfd_init bfd_start) s"

definition obj_bfd :: "strm \<Rightarrow> bfd" where
  "obj_bfd s = (case open_sections True (\<lambda>_. True) False (obj_start s) of Ok (_, b) \<Rightarrow> b | _ \<Rightarrow> bfd_start)"

lemma obj_sections: "open_sections True (\<lambda>_. True) False (obj_start s) = Ok (True, obj_bfd s)"
proof -
  have "(case open_sections True (\<lambda>_. True) False (obj_start s) of Ok (ok, _) \<Rightarrow> ok | _ \<Rightarrow> False)" by code_simp
  then show ?thesis by (auto simp: obj_bfd_def split: res.split_asm)
qed

lemma obj_specs1: "ehdr_spec obj_file = Ok (E64 obj_ehdr)" by code_simp

lemma obj_lengths: "length obj_strs = 30" "length obj_file = 518" "file_lsb obj_file"
  by code_simp+

lemma obj_ehdr_length: "length (bytes_ehdr64 True obj_ehdr) = 64"
  by code_simp

lemma obj_slices:
  "slice_at 64 64 obj_file = bytes_shdr64 True (obj_shdrs ! 0)"
  "slice_at 128 64 obj_file = bytes_shdr64 True (obj_shdrs ! 1)"
  "slice_at 192 64 obj_file = bytes_shdr64 True (obj_shdrs ! 2)"
  "slice_at 256 64 obj_file = bytes_shdr64 True (obj_shdrs ! 3)"
  "slice_at 320 64 obj_file = bytes_shdr64 True (obj_shdrs ! 4)"
  "slice_at 416 24 obj_file = bytes_sym64 True (obj_sym 0 0 0 0)"
  "slice_at 440 24 obj_file = bytes_sym64 True (obj_sym 26 0x12 1 8)"
  "slice_at 464 24 obj_file = bytes_sym64 True (obj_sym 28 0x10 0 0)"
  "slice_at 488 30 obj_file = obj_strs"
  using obj_lengths(1) obj_ehdr_length by (simp_all add: obj_file_def obj_shdrs_def image_simps)

lemma upt_5: "[0..<5] = [0, 1, 2, 3, 4 :: nat]" "[0..<3] = [0, 1, 2 :: nat]"
  by (simp_all add: upt_rec)

lemma obj_specs2: "shtab_spec obj_file (E64 obj_ehdr) = Some obj_sht"
proof -
  have "file_shdrs obj_file (E64 obj_ehdr) = map S64 obj_shdrs"
    by (simp add: file_shdrs_def file_shdrs64_def obj_lengths obj_slices upt_5 image_simps obj_ehdr_def obj_shdrs_def)
  then show ?thesis
    by (simp add: shtab_spec_def obj_lengths obj_slices obj_ehdr_def obj_sht_def obj_shdrs_def obj_shdr_def
        shdr_offset_def shdr_size_def)
qed

lemma obj_specs3: "symtab_spec obj_file obj_sht 3 = Some obj_symt"
  by (simp add: symtab_spec_def obj_lengths obj_slices obj_sht_def obj_symt_def obj_shdrs_def obj_shdr_def
      shdr_offset_def shdr_size_def shdr_link_def shdr_entsize_def file_syms_def file_syms64_def upt_5 image_simps)

lemmas obj_specs = obj_specs1 obj_specs2 obj_specs3

lemma obj_opens:
  "\<exists>s. stream_of True obj_file 2 s \<and>
    bfd_openstreamr True (\<lambda>_. True) False False obj_fobj (bfd_init bfd_start) = Ok (True, obj_bfd s)"
proof -
  have "length obj_file = 518" by code_simp
  then have f: "file_ok obj_fobj" "fo_data obj_fobj = obj_file" by (simp_all add: file_ok_def obj_fobj_def)
  have 1: "named_headers obj_sht SHT_SYMTAB" "3 < length (sht_shdrs obj_sht)" "2 \<le> symt_nsyms obj_symt"
    "list_all (\<lambda>m. is_symhdr obj_sht SHT_SYMTAB (str_bytes ''.symtab'') (sht_shdrs obj_sht ! m) \<longleftrightarrow> m = 3) [0..<5]"
    "length (sht_shdrs obj_sht) = 5"
    by code_simp+
  have 2: "(if ai_name myarch = bfd_get_target ((bfd_init bfd_start)\<lparr>b_ehdr := E64 obj_ehdr\<rparr>) then Some myarch
      else find_arch ((bfd_init bfd_start)\<lparr>b_ehdr := E64 obj_ehdr\<rparr>)) = Some myarch"
    by code_simp
  have 3: "b_inited (bfd_init bfd_start)" "b_s (bfd_init bfd_start) = None" by (simp_all add: bfd_init_def bfd_start_def)
  have "\<forall>m<length (sht_shdrs obj_sht).
      is_symhdr obj_sht SHT_SYMTAB (str_bytes ''.symtab'') (sht_shdrs obj_sht ! m) \<longleftrightarrow> m = 3"
    using 1(4,5) by (simp add: list_all_iff)
  from open_reads [OF f obj_specs(1,2) 1(1,2) this obj_specs(3) 1(3) 2 3, of "\<lambda>_. True" True False]
  show ?thesis using obj_sections by (auto simp: obj_start_def)
qed

text \<open>C7: After an object file has been opened there is a section for every section header, with the size,
  address, alignment and (for other than groups) the name of the header; the sections without a
  counterpart are bogus, and the flags of the others are those their type and ELF flags ask for. Every
  relocation section belongs to one section, no section has two, and the sections marked as having
  relocations are those.\<close>

theorem object_sections:
  assumes "bfd_openstreamr lsb mok att False f b0 = Ok (True, b)"
  shows "\<exists>t. sections_ok b t \<and> relocs_marked b t"
proof -
  obtain eh s a where o: "open_tables lsb mok att s (b0\<lparr>b_s := Some s, b_ehdr := eh, b_arch := Some a, b_att_sh := None\<rparr>) = Ok (True, b)"
    using assms by (auto simp: bfd_openstreamr_def Let_def bind_res_Ok_iff split: if_splits prod.splits res.splits option.splits)
  obtain t s1 b1 b2 p nrels where sh: "pmelf_getshtab lsb (\<lambda>i. mok (i + 1)) s eh = (Ok t, s1)"
    and b1: "b_shtab b1 = Some t" "b_nsects b1 = unat (sht_nshdrs t)"
      "b_sects b1 = replicate (unat (sht_nshdrs t) + MAX_USR_SECTS) zero_sec"
    and run: "bfd_map_over_sections (elf2bfdsec lsb (\<lambda>i. mok (i + 7)) att) (b1, 0, 0) = Ok (b2, p, 0)"
    and mk: "mark_relocs b2 = Ok (nrels, b)" "0 \<le> nrels"
  proof (rule open_tablesD [OF o])
    fix t s1 n symsh symstrs s2 strh strs s3 b1 b2 p nrels
    assume h: "pmelf_getshtab lsb (\<lambda>i. mok (i + 1)) s
        (b_ehdr (b0\<lparr>b_s := Some s, b_ehdr := eh, b_arch := Some a, b_att_sh := None\<rparr>)) = (Ok t, s1)"
      "b1 = b0\<lparr>b_s := Some s, b_ehdr := eh, b_arch := Some a, b_att_sh := None,
         b_s := Some s3, b_shtab := Some t, b_nsyms := sint n, b_symsh := symsh, b_symstrs := symstrs,
         b_strtabs := [(strs, shdr_bytes strh)],
         b_sects := replicate (unat (sht_nshdrs t) + MAX_USR_SECTS) zero_sec, b_nsects := unat (sht_nshdrs t)\<rparr>"
      "bfd_map_over_sections (elf2bfdsec lsb (\<lambda>i. mok (i + 7)) att) (b1, 0, 0) = Ok (b2, p, 0)"
      "mark_relocs b2 = Ok (nrels, b)" "0 \<le> nrels"
    show ?thesis by (rule that [of t s1 b1 b2 p nrels]) (use h in simp_all)
  qed
  note len = getshtab_length [OF sh]
  have n: "b_nsects b1 = length (sht_shdrs t)" "length (sht_shdrs t) \<le> length (b_sects b1)"
    using b1 len by simp_all
  have start: "filled t b1 0 (b1, 0, 0)"
    by (auto simp: filled_def b1 nth_append)
  have skip: "filled t b1 (i + 1) (b, x)"
    if "filled t b1 i (b, x)" "i < b_nsects b" "sc_flags (b_sects b ! i) = SEC_BOGUS" for i b x
  proof (cases "snd x = 0")
    case True
    then have "sec_sim zero_sec (b_sects b ! i)"
      using that n by (auto simp: filled_def rest_eq_def split: prod.splits)
    then show ?thesis using that(3) by (auto simp: sec_sim_def zero_sec_def)
  qed (auto simp: filled_def split: prod.splits)
  have step: "filled t b1 (i + 1) (b', x')"
    if "filled t b1 i (b, x)" "i < b_nsects b" "elf2bfdsec lsb (\<lambda>i. mok (i + 7)) att (Sect i) (b, x) = Ok (b', x')"
    for i b x b' x'
    using filled_step [OF b1(1) n(1) len(2) n(2), of i b "fst x" "snd x"] that by (cases x; cases x') simp
  have mo: "map_over (length (b_sects b1)) 0 (elf2bfdsec lsb (\<lambda>i. mok (i + 7)) att) (b1, 0, 0) = Ok (b2, p, 0)"
    using run by (simp add: bfd_map_over_sections_def)
  have "\<exists>j. filled t b1 j (b2, p, 0) \<and> \<not> j < b_nsects b2"
    by (rule map_over_inv [where P = "filled t b1", OF _ _ start mo]) (erule (2) step, erule (2) skip)
  then obtain j where j: "filled t b1 j (b2, p, 0)" "\<not> j < b_nsects b2" by blast
  have F: "sections_ok b2 t \<and> rest_eq b1 b2 \<and> (\<forall>i < b_nsects b2. plain_rel (b_sects b2 ! i))"
    by (rule filled_end [OF j b1(1) n])
  have "sections_ok b t \<and> relocs_marked b t \<and> rest_eq b2 b"
    by (rule mark_relocs_marks [OF conjunct1 [OF F] conjunct2 [OF conjunct2 [OF F]] len(2) mk])
  then show ?thesis by blast
qed

lemma object_sections_witness: "\<exists>s t. sections_ok (obj_bfd s) t \<and> relocs_marked (obj_bfd s) t"
  using obj_opens object_sections by blast

end
