(* ===== verification/RelocMem.thy ===== *)
theory RelocMem imports ElfTypes begin

text \<open>
  The memory relocations patch, and what every relocation engine promises. Memory is a function from
  addresses to bytes; \<open>memcpy\<close> between it and an integer object is \<open>load_n\<close> and \<open>store_n\<close>, in the
  byte order of the host. The locale \<open>reloc_engine\<close> is the contract of \<open>pmbfd_perform_relocation\<close>
  that the loader relies on when it relocates a section.
\<close>

section \<open>Memory\<close>

type_synonym 'a mem = "'a word \<Rightarrow> u8"

definition load_n :: "bool \<Rightarrow> nat \<Rightarrow> 'a::len mem \<Rightarrow> 'a word \<Rightarrow> 'b::len word" where
  "load_n lsb n m a = host_word lsb (map (\<lambda>i. m (a + of_nat i)) [0..<n])"

definition store_n :: "bool \<Rightarrow> nat \<Rightarrow> 'b::len word \<Rightarrow> 'a::len word \<Rightarrow> 'a mem \<Rightarrow> 'a mem" where
  "store_n lsb n w a m =
     (\<lambda>x. let i = unat (x - a) in if i < n then host_bytes lsb n w ! i else m x)"

text \<open>The \<open>n\<close> addresses from \<open>a\<close>, going round the end of the address space.\<close>

definition area :: "'a::len word \<Rightarrow> nat \<Rightarrow> 'a word set" where
  "area a n = {x. unat (x - a) < n}"

lemma store_n_outside: "x \<notin> area a n \<Longrightarrow> store_n lsb n w a m x = m x"
  by (simp add: store_n_def area_def Let_def)

lemma unat_of_nat_small: "i < 2 ^ LENGTH('a) \<Longrightarrow> unat (of_nat i :: 'a::len word) = i"
  by (simp add: unsigned_of_nat take_bit_nat_eq_self)

lemma load_store_n:
  fixes a :: "'a::len word" and w :: "'b::len word"
  assumes "n \<le> 2 ^ LENGTH('a)" and "LENGTH('b) \<le> 8 * n"
  shows "load_n lsb n (store_n lsb n w a m) a = w"
proof -
  have "map (\<lambda>i. store_n lsb n w a m (a + of_nat i)) [0..<n] = host_bytes lsb n w"
  proof (rule nth_equalityI)
    fix i assume "i < length (map (\<lambda>i. store_n lsb n w a m (a + of_nat i)) [0..<n])"
    then have i: "i < n" by simp
    then have "unat (of_nat i :: 'a word) = i"
      using assms(1) by (intro unat_of_nat_small) simp
    then show "map (\<lambda>i. store_n lsb n w a m (a + of_nat i)) [0..<n] ! i = host_bytes lsb n w ! i"
      using i by (simp add: store_n_def)
  qed simp
  then show ?thesis
    using host_word_host_bytes [OF assms(2), of lsb w] by (simp add: load_n_def)
qed

lemma load_n_same:
  assumes "\<And>x. x \<in> area a n \<Longrightarrow> m x = m' x" and "n \<le> 2 ^ LENGTH('a)"
  shows "load_n lsb n m a = load_n lsb n m' (a :: 'a::len word)"
proof -
  have "m (a + of_nat i) = m' (a + of_nat i)" if "i < n" for i
  proof -
    have "unat (of_nat i :: 'a word) = i" using that assms(2) by (intro unat_of_nat_small) simp
    then show ?thesis using that assms(1) by (simp add: area_def)
  qed
  then have "map (\<lambda>i. m (a + of_nat i)) [0..<n] = map (\<lambda>i. m' (a + of_nat i)) [0..<n]" by simp
  then show ?thesis unfolding load_n_def by (rule arg_cong)
qed

lemma area_memI: "k < n \<Longrightarrow> n \<le> 2 ^ LENGTH('a) \<Longrightarrow> a + of_nat k \<in> area (a :: 'a::len word) n"
  by (simp add: area_def unat_of_nat_small)

section \<open>The contract of a relocation engine\<close>

datatype reloc_status = bfd_reloc_ok | bfd_reloc_overflow | bfd_reloc_outofrange | bfd_reloc_continue
  | bfd_reloc_notsupported | bfd_reloc_other | bfd_reloc_undefined | bfd_reloc_dangerous

text \<open>
  An input section has an address and a size; \<open>symb\<close> is the symbol of the relocation: whether it is
  undefined, and its value.
\<close>

record 'w target_sec =
  ts_vma :: 'w
  ts_size :: 'w

record 'w target_sym =
  ty_und :: bool
  ty_value :: 'w

text \<open>
  Relocations performed one after the other: like the loop of the loader it goes on after one that fails, and
  counts those.
\<close>

fun perform_all :: "('r \<Rightarrow> 'm \<Rightarrow> reloc_status \<times> 'm) \<Rightarrow> 'r list \<Rightarrow> 'm \<Rightarrow> nat \<times> 'm" where
  "perform_all perform [] m = (0, m)"
| "perform_all perform (r # rs) m =
     (let (st, m') = perform r m; (errors, m'') = perform_all perform rs m'
      in (if st = bfd_reloc_ok then errors else errors + 1, m''))"

text \<open>
  What the loader relies on: a relocation that is not performed changes nothing, and one that is
  performed changes at most the bytes of its field.
\<close>

locale reloc_engine =
  fixes perform :: "'r \<Rightarrow> 'a::len mem \<Rightarrow> reloc_status \<times> 'a mem"
    and field :: "'r \<Rightarrow> 'a word set"
  assumes refused: "fst (perform r m) \<noteq> bfd_reloc_ok \<Longrightarrow> snd (perform r m) = m"
    and frame: "x \<notin> field r \<Longrightarrow> snd (perform r m) x = m x"
begin

lemma all_frame:
  "(\<And>r. r \<in> set rs \<Longrightarrow> x \<notin> field r) \<Longrightarrow> snd (perform_all perform rs m) x = m x"
proof (induction rs arbitrary: m)
  case (Cons r rs)
  have "snd (perform r m) x = m x" using Cons.prems by (intro frame) simp
  with Cons show ?case by (auto simp: split_beta)
qed simp

text \<open>When all relocations fail nothing is changed.\<close>

lemma errors_le: "fst (perform_all perform rs m) \<le> length rs"
  by (induction rs arbitrary: m) (simp_all add: split_beta le_SucI)

lemma all_refused: "fst (perform_all perform rs m) = length rs \<Longrightarrow> snd (perform_all perform rs m) = m"
proof (induction rs arbitrary: m)
  case (Cons r rs)
  have "fst (perform r m) \<noteq> bfd_reloc_ok" "fst (perform_all perform rs (snd (perform r m))) = length rs"
    using Cons.prems errors_le [of rs "snd (perform r m)"] by (auto simp: split_beta split: if_split_asm)
  then show ?case using Cons.IH refused by (simp add: split_beta)
qed simp

end

text \<open>The field of a relocation that passes the test against the size of the section.\<close>

definition field_in :: "'a::len word target_sec \<Rightarrow> 'a word \<Rightarrow> nat \<Rightarrow> 'a word set" where
  "field_in sec off n =
     (if off + of_nat n > ts_size sec then {} else area (ts_vma sec + off) n)"

lemma field_in_section:
  fixes off :: "'a::len word"
  assumes "unat off + n < 2 ^ LENGTH('a)"
  shows "field_in sec off n \<subseteq> area (ts_vma sec) (unat (ts_size sec))"
proof
  fix x assume x: "x \<in> field_in sec off n"
  then have le: "off + of_nat n \<le> ts_size sec" and d: "unat (x - (ts_vma sec + off)) < n"
    by (auto simp: field_in_def area_def split: if_splits)
  have "unat (off + of_nat n) = unat off + n"
    using assms by (simp add: unat_word_ariths unat_of_nat_small)
  then have sz: "unat off + n \<le> unat (ts_size sec)" using le by (simp add: word_le_nat_alt)
  have "x - ts_vma sec = (x - (ts_vma sec + off)) + off" by simp
  then have "unat (x - ts_vma sec) = unat (x - (ts_vma sec + off)) + unat off"
    using d assms by (metis (no_types, lifting) add.commute add_less_mono1 less_trans unat_add_lem)
  then show "x \<in> area (ts_vma sec) (unat (ts_size sec))" using d sz by (simp add: area_def)
qed

end
