(* ===== verification/Ctyps.thy ===== *)
theory Ctyps imports RelocMem begin

text \<open>
  Types and values of the interpreter (\<open>ctyps.h\<close>, \<open>ctyps.c\<close>, \<open>gentab.c\<close>): the type codes and the
  macros on them, conversions, comparison, arithmetic, assignment, dereferencing and calls. The host
  has 64-bit \<open>long\<close> and pointers. What the C code leaves undefined (a shift by the width or more, a
  division by zero, a conversion out of range) is the outcome \<open>CUB\<close>, a failed assertion \<open>CAbort\<close>.
  Floating point arithmetic is a parameter, the numbers are the bit patterns in the union.
\<close>

section \<open>Types\<close>

text \<open>
  The constants of the enumeration, and the two other codes that the macros make of \<open>void\<close>:
  \<open>TVoidA\<close> is what \<open>CEXP_TYPE_BASE2PTR(TVoid)\<close> gives (a pointer with elements of no size, not
  \<open>TVoidP\<close>), \<open>TVoidB\<close> what \<open>CEXP_TYPE_PTR2BASE(TVoidP)\<close> gives.
\<close>

datatype CexpType =
    TVoid | TVoidP | TUChar | TUCharP | TUShort | TUShortP | TUInt | TUIntP | TULong | TULongP
  | TFloat | TFloatP | TDouble | TDoubleP | TFuncP | TDFuncP | TVoidA | TVoidB

fun type_code :: "CexpType \<Rightarrow> u32" where
  "type_code TVoid = 0"
| "type_code TVoidP = 0 OR push_bit 8 1 OR 1"
| "type_code TUChar = 2 OR push_bit 8 1"
| "type_code TUCharP = 2 OR push_bit 8 1 OR 1"
| "type_code TUShort = 4 OR push_bit 8 2"
| "type_code TUShortP = 4 OR push_bit 8 2 OR 1"
| "type_code TUInt = 6 OR push_bit 8 4"
| "type_code TUIntP = 6 OR push_bit 8 4 OR 1"
| "type_code TULong = 8 OR push_bit 8 8"
| "type_code TULongP = 8 OR push_bit 8 8 OR 1"
| "type_code TFloat = 10 OR push_bit 8 4"
| "type_code TFloatP = 10 OR push_bit 8 4 OR 1"
| "type_code TDouble = 12 OR push_bit 8 8"
| "type_code TDoubleP = 12 OR push_bit 8 8 OR 1"
| "type_code TFuncP = 8 OR push_bit 8 8 OR 64 OR 1"
| "type_code TDFuncP = 12 OR push_bit 8 8 OR 64 OR 1"
| "type_code TVoidA = 1"
| "type_code TVoidB = push_bit 8 1"

definition PTRQ :: "CexpType \<Rightarrow> bool" where
  "PTRQ t \<longleftrightarrow> type_code t AND 1 \<noteq> 0"

definition FUNQ :: "CexpType \<Rightarrow> bool" where
  "FUNQ t \<longleftrightarrow> type_code t AND 64 \<noteq> 0"

definition MASK_SIZE :: "CexpType \<Rightarrow> nat" where
  "MASK_SIZE t = unat (type_code t AND 0x1f)"

definition INDX :: "CexpType \<Rightarrow> nat" where
  "INDX t = unat (drop_bit 1 (type_code t AND 0x1f))"

definition SCALARQ :: "CexpType \<Rightarrow> bool" where
  "SCALARQ t \<longleftrightarrow> \<not> PTRQ t \<and> INDX TUChar \<le> INDX t \<and> INDX TULong \<ge> INDX t"

definition FPQ :: "CexpType \<Rightarrow> bool" where
  "FPQ t \<longleftrightarrow> \<not> PTRQ t \<and> INDX TFloat \<le> INDX t"

definition BASE_TYPE_SIZE :: "CexpType \<Rightarrow> nat" where
  "BASE_TYPE_SIZE t = unat (drop_bit 8 (type_code t) AND 0xff)"

definition TYPE_SIZE :: "CexpType \<Rightarrow> nat" where
  "TYPE_SIZE t = (if PTRQ t then 8 else BASE_TYPE_SIZE t)"

fun PTR2BASE :: "CexpType \<Rightarrow> CexpType" where
  "PTR2BASE TVoidP = TVoidB" | "PTR2BASE TUCharP = TUChar" | "PTR2BASE TUShortP = TUShort"
| "PTR2BASE TUIntP = TUInt" | "PTR2BASE TULongP = TULong" | "PTR2BASE TFloatP = TFloat"
| "PTR2BASE TDoubleP = TDouble" | "PTR2BASE TFuncP = TULong" | "PTR2BASE TDFuncP = TDouble"
| "PTR2BASE TVoidA = TVoid" | "PTR2BASE t = t"

fun BASE2PTR :: "CexpType \<Rightarrow> CexpType" where
  "BASE2PTR TVoid = TVoidA" | "BASE2PTR TUChar = TUCharP" | "BASE2PTR TUShort = TUShortP"
| "BASE2PTR TUInt = TUIntP" | "BASE2PTR TULong = TULongP" | "BASE2PTR TFloat = TFloatP"
| "BASE2PTR TDouble = TDoubleP" | "BASE2PTR TVoidB = TVoidP" | "BASE2PTR t = t"

text \<open>The macros, evaluated once for every type.\<close>

lemma type_code_numeral [simp]:
  "type_code TVoidP = 0x101" "type_code TUChar = 0x102" "type_code TUCharP = 0x103"
  "type_code TUShort = 0x204" "type_code TUShortP = 0x205" "type_code TUInt = 0x406"
  "type_code TUIntP = 0x407" "type_code TULong = 0x808" "type_code TULongP = 0x809"
  "type_code TFloat = 0x40a" "type_code TFloatP = 0x40b" "type_code TDouble = 0x80c"
  "type_code TDoubleP = 0x80d" "type_code TFuncP = 0x849" "type_code TDFuncP = 0x84d"
  "type_code TVoidB = 0x100"
  by code_simp+

declare type_code.simps(2-16) [simp del] type_code.simps(18) [simp del]

lemma PTRQ_simps [simp]:
  "\<not> PTRQ TVoid" "PTRQ TVoidP" "\<not> PTRQ TUChar" "PTRQ TUCharP" "\<not> PTRQ TUShort" "PTRQ TUShortP"
  "\<not> PTRQ TUInt" "PTRQ TUIntP" "\<not> PTRQ TULong" "PTRQ TULongP" "\<not> PTRQ TFloat" "PTRQ TFloatP"
  "\<not> PTRQ TDouble" "PTRQ TDoubleP" "PTRQ TFuncP" "PTRQ TDFuncP" "PTRQ TVoidA" "\<not> PTRQ TVoidB"
  by code_simp+

lemma FUNQ_iff [simp]: "FUNQ t \<longleftrightarrow> t = TFuncP \<or> t = TDFuncP"
  by (cases t) (simp_all add: FUNQ_def)

lemma INDX_simps [simp]:
  "INDX TVoid = 0" "INDX TVoidP = 0" "INDX TUChar = 1" "INDX TUCharP = 1" "INDX TUShort = 2"
  "INDX TUShortP = 2" "INDX TUInt = 3" "INDX TUIntP = 3" "INDX TULong = 4" "INDX TULongP = 4"
  "INDX TFloat = 5" "INDX TFloatP = 5" "INDX TDouble = 6" "INDX TDoubleP = 6" "INDX TFuncP = 4"
  "INDX TDFuncP = 6" "INDX TVoidA = 0" "INDX TVoidB = 0"
  by code_simp+

lemma SCALARQ_iff [simp]: "SCALARQ t \<longleftrightarrow> t = TUChar \<or> t = TUShort \<or> t = TUInt \<or> t = TULong"
  by (cases t) (simp_all add: SCALARQ_def)

lemma FPQ_iff [simp]: "FPQ t \<longleftrightarrow> t = TFloat \<or> t = TDouble"
  by (cases t) (simp_all add: FPQ_def)

lemma BASE_TYPE_SIZE_simps [simp]:
  "BASE_TYPE_SIZE TVoid = 0" "BASE_TYPE_SIZE TVoidP = 1" "BASE_TYPE_SIZE TUChar = 1"
  "BASE_TYPE_SIZE TUCharP = 1" "BASE_TYPE_SIZE TUShort = 2" "BASE_TYPE_SIZE TUShortP = 2"
  "BASE_TYPE_SIZE TUInt = 4" "BASE_TYPE_SIZE TUIntP = 4" "BASE_TYPE_SIZE TULong = 8"
  "BASE_TYPE_SIZE TULongP = 8" "BASE_TYPE_SIZE TFloat = 4" "BASE_TYPE_SIZE TFloatP = 4"
  "BASE_TYPE_SIZE TDouble = 8" "BASE_TYPE_SIZE TDoubleP = 8" "BASE_TYPE_SIZE TFuncP = 8"
  "BASE_TYPE_SIZE TDFuncP = 8" "BASE_TYPE_SIZE TVoidA = 0" "BASE_TYPE_SIZE TVoidB = 1"
  by code_simp+

lemma PTR2BASE_code: "type_code (PTR2BASE t) = type_code t AND NOT (1 OR 64)"
  by (cases t) simp_all

lemma BASE2PTR_code: "type_code (BASE2PTR t) = type_code t OR 1"
  by (cases t) simp_all

lemma type_code_inject: "type_code s = type_code t \<Longrightarrow> s = t"
  by (cases s; cases t) simp_all

section \<open>Values\<close>

text \<open>
  The union \<open>CexpValU\<close> is its eight bytes of storage; a member is read from and written to the bytes
  at its start, and the other bytes stay as they are.
\<close>

record CexpTypedVal =
  cv_tv :: bytes
  cv_type :: CexpType

record CexpTypedAddr =
  ca_ptv :: u64
  ca_type :: CexpType

definition get_c :: "bool \<Rightarrow> bytes \<Rightarrow> u8" where "get_c lsb u = host_word lsb (take 1 u)"
definition get_s :: "bool \<Rightarrow> bytes \<Rightarrow> u16" where "get_s lsb u = host_word lsb (take 2 u)"
definition get_i :: "bool \<Rightarrow> bytes \<Rightarrow> u32" where "get_i lsb u = host_word lsb (take 4 u)"
definition get_l :: "bool \<Rightarrow> bytes \<Rightarrow> u64" where "get_l lsb u = host_word lsb (take 8 u)"

definition set_c :: "bool \<Rightarrow> u8 \<Rightarrow> bytes \<Rightarrow> bytes" where "set_c lsb w u = host_bytes lsb 1 w @ drop 1 u"
definition set_s :: "bool \<Rightarrow> u16 \<Rightarrow> bytes \<Rightarrow> bytes" where "set_s lsb w u = host_bytes lsb 2 w @ drop 2 u"
definition set_i :: "bool \<Rightarrow> u32 \<Rightarrow> bytes \<Rightarrow> bytes" where "set_i lsb w u = host_bytes lsb 4 w @ drop 4 u"
definition set_l :: "bool \<Rightarrow> u64 \<Rightarrow> bytes \<Rightarrow> bytes" where "set_l lsb w u = host_bytes lsb 8 w @ drop 8 u"

text \<open>The members \<open>p\<close>, \<open>f\<close> and \<open>d\<close> have the storage of \<open>l\<close>, \<open>i\<close> and \<open>l\<close>.\<close>

abbreviation get_p :: "bool \<Rightarrow> bytes \<Rightarrow> u64" where "get_p \<equiv> get_l"
abbreviation get_f :: "bool \<Rightarrow> bytes \<Rightarrow> u32" where "get_f \<equiv> get_i"
abbreviation get_d :: "bool \<Rightarrow> bytes \<Rightarrow> u64" where "get_d \<equiv> get_l"
abbreviation set_p :: "bool \<Rightarrow> u64 \<Rightarrow> bytes \<Rightarrow> bytes" where "set_p \<equiv> set_l"
abbreviation set_f :: "bool \<Rightarrow> u32 \<Rightarrow> bytes \<Rightarrow> bytes" where "set_f \<equiv> set_i"
abbreviation set_d :: "bool \<Rightarrow> u64 \<Rightarrow> bytes \<Rightarrow> bytes" where "set_d \<equiv> set_l"

lemma get_set [simp]:
  "get_c lsb (set_c lsb a u) = a" "get_s lsb (set_s lsb b u) = b"
  "get_i lsb (set_i lsb c u) = c" "get_l lsb (set_l lsb d u) = d"
  by (simp_all add: get_c_def get_s_def get_i_def get_l_def set_c_def set_s_def set_i_def set_l_def
      host_word_host_bytes)

text \<open>The messages of the operations.\<close>

datatype cexp_err = ElementTooSmall | WouldTruncate | ForbiddenCast | DerefNull | DerefType | AddrOfPtr
  | CmpPtrFloat | CmpOp | OpScalars | OpFloats | OpDoubles | PtrMismatch | OpTwoPtrs | PtrMisaligned
  | SubPtr | PtrIncr | LhsType | NegType | CplType | UnknownUnOp | PromotePtr | VoidValue | TA2TVType
  | NeedFun | DerefNullFun | TooManyArgs

text \<open>An operation ends with a value, or with a message and what it has written until then.\<close>

datatype 'a cexp_res = COk 'a | CErr cexp_err 'a | CAbort | CUB

text \<open>
  Floating point: conversion from an unsigned number, the integral part (nothing for a number that has
  none), conversion between the two formats, arithmetic and comparison.
\<close>

record fp_ops =
  fp_i2f :: "nat \<Rightarrow> u32"
  fp_i2d :: "nat \<Rightarrow> u64"
  fp_ftrunc :: "u32 \<Rightarrow> int option"
  fp_dtrunc :: "u64 \<Rightarrow> int option"
  fp_f2d :: "u32 \<Rightarrow> u64"
  fp_d2f :: "u64 \<Rightarrow> u32"
  fp_fadd :: "u32 \<Rightarrow> u32 \<Rightarrow> u32"
  fp_fsub :: "u32 \<Rightarrow> u32 \<Rightarrow> u32"
  fp_fmul :: "u32 \<Rightarrow> u32 \<Rightarrow> u32"
  fp_fdiv :: "u32 \<Rightarrow> u32 \<Rightarrow> u32"
  fp_dadd :: "u64 \<Rightarrow> u64 \<Rightarrow> u64"
  fp_dsub :: "u64 \<Rightarrow> u64 \<Rightarrow> u64"
  fp_dmul :: "u64 \<Rightarrow> u64 \<Rightarrow> u64"
  fp_ddiv :: "u64 \<Rightarrow> u64 \<Rightarrow> u64"
  fp_dlt :: "u64 \<Rightarrow> u64 \<Rightarrow> bool"
  fp_dle :: "u64 \<Rightarrow> u64 \<Rightarrow> bool"
  fp_deq :: "u64 \<Rightarrow> u64 \<Rightarrow> bool"
  fp_fneg :: "u32 \<Rightarrow> u32"
  fp_dneg :: "u64 \<Rightarrow> u64"
  fp_fzero :: "u32 \<Rightarrow> bool"
  fp_dzero :: "u64 \<Rightarrow> bool"

section \<open>Conversions\<close>

text \<open>
  The table of converters by the index of the source and the target type. The converters from one of
  the unsigned types or a pointer write the number in the target member.
\<close>

definition conv_int :: "bool \<Rightarrow> fp_ops \<Rightarrow> nat \<Rightarrow> nat \<Rightarrow> bytes \<Rightarrow> bytes" where
  "conv_int lsb fp n to u =
     (if to = 0 then set_p lsb (of_nat n) u
      else if to = 1 then set_c lsb (of_nat n) u
      else if to = 2 then set_s lsb (of_nat n) u
      else if to = 3 then set_i lsb (of_nat n) u
      else if to = 4 then set_l lsb (of_nat n) u
      else if to = 5 then set_f lsb (fp_i2f fp n) u
      else set_d lsb (fp_i2d fp n) u)"

text \<open>A floating point number whose integral part is not in the range of the target is undefined.\<close>

definition conv_trunc :: "int option \<Rightarrow> nat \<Rightarrow> (nat \<Rightarrow> bytes) \<Rightarrow> bytes cexp_res" where
  "conv_trunc t w f =
     (case t of None \<Rightarrow> CUB | Some n \<Rightarrow> if 0 \<le> n \<and> n < 2 ^ w then COk (f (nat n)) else CUB)"

definition conv_fp :: "bool \<Rightarrow> fp_ops \<Rightarrow> int option \<Rightarrow> nat \<Rightarrow> bytes \<Rightarrow> bytes cexp_res" where
  "conv_fp lsb fp t to u =
     (if to = 1 then conv_trunc t 8 (\<lambda>n. set_c lsb (of_nat n) u)
      else if to = 2 then conv_trunc t 16 (\<lambda>n. set_s lsb (of_nat n) u)
      else if to = 3 then conv_trunc t 32 (\<lambda>n. set_i lsb (of_nat n) u)
      else conv_trunc t 64 (\<lambda>n. set_l lsb (of_nat n) u))"

text \<open>\<open>None\<close> is the empty entry of the table.\<close>

definition ctab :: "bool \<Rightarrow> fp_ops \<Rightarrow> nat \<Rightarrow> nat \<Rightarrow> (bytes \<Rightarrow> bytes cexp_res) option" where
  "ctab lsb fp from to =
     (if from = 0 then Some (\<lambda>u. COk (conv_int lsb fp (unat (get_p lsb u)) to u))
      else if from = 1 then Some (\<lambda>u. COk (conv_int lsb fp (unat (get_c lsb u)) to u))
      else if from = 2 then Some (\<lambda>u. COk (conv_int lsb fp (unat (get_s lsb u)) to u))
      else if from = 3 then Some (\<lambda>u. COk (conv_int lsb fp (unat (get_i lsb u)) to u))
      else if from = 4 then Some (\<lambda>u. COk (conv_int lsb fp (unat (get_l lsb u)) to u))
      else if from = 5 then
        (if to = 0 then None
         else if to = 5 then Some (\<lambda>u. COk (set_f lsb (get_f lsb u) u))
         else if to = 6 then Some (\<lambda>u. COk (set_d lsb (fp_f2d fp (get_f lsb u)) u))
         else Some (\<lambda>u. conv_fp lsb fp (fp_ftrunc fp (get_f lsb u)) to u))
      else
        (if to = 0 then None
         else if to = 5 then Some (\<lambda>u. COk (set_f lsb (fp_d2f fp (get_d lsb u)) u))
         else if to = 6 then Some (\<lambda>u. COk (set_d lsb (get_d lsb u) u))
         else Some (\<lambda>u. conv_fp lsb fp (fp_dtrunc fp (get_d lsb u)) to u)))"

text \<open>
  Whether a value fits a type. The bound is \<open>1 << (8*size)\<close> as an \<open>int\<close>, which is undefined from a
  size of four bytes on.
\<close>

definition fits :: "bool \<Rightarrow> CexpTypedVal \<Rightarrow> CexpType \<Rightarrow> bool cexp_res" where
  "fits lsb v t =
     (if FPQ t \<and> \<not> FPQ (cv_type v) \<and> t = TFloat then
        COk ((case cv_type v of
                TULong \<Rightarrow> unat (get_l lsb (cv_tv v))
              | TUInt \<Rightarrow> unat (get_i lsb (cv_tv v))
              | _ \<Rightarrow> 0) < 2 ^ 24)
      else if \<not> FPQ t \<and> FPQ (cv_type v) then COk False
      else if TYPE_SIZE t < TYPE_SIZE (cv_type v) then
        (let bound = (\<lambda>n. if 8 * TYPE_SIZE t \<ge> 32 then CUB else COk (n < (2 :: nat) ^ (8 * TYPE_SIZE t)))
         in if PTRQ (cv_type v) then bound (unat (get_p lsb (cv_tv v)))
            else (case cv_type v of
                TUChar \<Rightarrow> bound (unat (get_c lsb (cv_tv v)))
              | TUShort \<Rightarrow> bound (unat (get_s lsb (cv_tv v)))
              | TUInt \<Rightarrow> bound (unat (get_i lsb (cv_tv v)))
              | TULong \<Rightarrow> bound (unat (get_l lsb (cv_tv v)))
              | TFloat \<Rightarrow> COk False
              | TDouble \<Rightarrow> COk False
              | _ \<Rightarrow> CAbort))
      else COk True)"

definition cexpTypeCast :: "bool \<Rightarrow> fp_ops \<Rightarrow> CexpTypedVal \<Rightarrow> CexpType \<Rightarrow> bool \<Rightarrow> CexpTypedVal cexp_res" where
  "cexpTypeCast lsb fp v t force =
     (if PTRQ (cv_type v) \<and> PTRQ t then
        (if \<not> force \<and> BASE_TYPE_SIZE t > BASE_TYPE_SIZE (cv_type v) then CErr ElementTooSmall v
         else COk (v\<lparr>cv_type := t\<rparr>))
      else
        let from = (if PTRQ (cv_type v) then INDX TVoidP else INDX (cv_type v));
            to = (if \<not> PTRQ (cv_type v) \<and> PTRQ t then INDX TVoidP else INDX t)
        in case ctab lsb fp from to of
             None \<Rightarrow> CErr ForbiddenCast v
           | Some c \<Rightarrow>
               (case (if force then COk True else fits lsb v t) of
                  COk True \<Rightarrow>
                    (case c (cv_tv v) of
                       COk u \<Rightarrow> COk (v\<lparr>cv_tv := u, cv_type := t\<rparr>)
                     | CErr e u \<Rightarrow> CErr e v
                     | CAbort \<Rightarrow> CAbort
                     | CUB \<Rightarrow> CUB)
                | COk False \<Rightarrow> CErr WouldTruncate v
                | CErr e b \<Rightarrow> CErr e v
                | CAbort \<Rightarrow> CAbort
                | CUB \<Rightarrow> CUB))"

section \<open>Operations\<close>

definition bind_c :: "'a cexp_res \<Rightarrow> 'b \<Rightarrow> ('a \<Rightarrow> 'b cexp_res) \<Rightarrow> 'b cexp_res" where
  "bind_c r y f = (case r of COk v \<Rightarrow> f v | CErr e v \<Rightarrow> CErr e y | CAbort \<Rightarrow> CAbort | CUB \<Rightarrow> CUB)"

lemma bind_c_simps [simp]:
  "bind_c (COk v) y f = f v" "bind_c (CErr e v) y f = CErr e y" "bind_c CAbort y f = CAbort"
  "bind_c CUB y f = CUB"
  by (simp_all add: bind_c_def)

definition cexpTVPtrDeref ::
    "bool \<Rightarrow> 64 mem \<Rightarrow> CexpTypedVal \<Rightarrow> CexpTypedVal \<Rightarrow> CexpTypedVal cexp_res" where
  "cexpTVPtrDeref lsb m to from =
     (let p = get_p lsb (cv_tv from);
          put = (\<lambda>u. COk (to\<lparr>cv_tv := u, cv_type := PTR2BASE (cv_type from)\<rparr>))
      in if p = 0 then CErr DerefNull to
         else (case cv_type from of
             TUCharP \<Rightarrow> put (set_c lsb (load_n lsb 1 m p) (cv_tv to))
           | TUShortP \<Rightarrow> put (set_s lsb (load_n lsb 2 m p) (cv_tv to))
           | TUIntP \<Rightarrow> put (set_i lsb (load_n lsb 4 m p) (cv_tv to))
           | TULongP \<Rightarrow> put (set_l lsb (load_n lsb 8 m p) (cv_tv to))
           | TFloatP \<Rightarrow> put (set_f lsb (load_n lsb 4 m p) (cv_tv to))
           | TDoubleP \<Rightarrow> put (set_d lsb (load_n lsb 8 m p) (cv_tv to))
           | _ \<Rightarrow> CErr DerefType to))"

definition cexpTVPtr :: "bool \<Rightarrow> CexpTypedVal \<Rightarrow> CexpTypedAddr \<Rightarrow> CexpTypedVal cexp_res" where
  "cexpTVPtr lsb ptr a =
     (if PTRQ (ca_type a) then CErr AddrOfPtr ptr
      else COk (ptr\<lparr>cv_tv := set_p lsb (ca_ptv a) (cv_tv ptr), cv_type := BASE2PTR (ca_type a)\<rparr>))"

datatype CexpBinOp = ONoop | OLt | OLe | OEq | ONe | OGe | OGt | OAdd | OSub | OMul | ODiv | OMod
  | OShL | OShR | OAnd | OXor | OOr

text \<open>The order of the operators is used: comparisons come before \<open>OAdd\<close>.\<close>

fun op_code :: "CexpBinOp \<Rightarrow> int" where
  "op_code ONoop = -1" | "op_code OLt = 5" | "op_code OLe = 6" | "op_code OEq = 7" | "op_code ONe = 8"
| "op_code OGe = 9" | "op_code OGt = 10" | "op_code OAdd = 11" | "op_code OSub = 12" | "op_code OMul = 13"
| "op_code ODiv = 14" | "op_code OMod = 15" | "op_code OShL = 16" | "op_code OShR = 17"
| "op_code OAnd = 18" | "op_code OXor = 19" | "op_code OOr = 20"

text \<open>
  The result \<open>y\<close> may be the object one of the operands is in; the code then reads the type of that
  operand after it has set the type of the result.
\<close>

datatype y_alias = Distinct | IsX1 | IsX2

definition truth :: "bool \<Rightarrow> u64" where "truth b = (if b then 1 else 0)"

definition compare_d :: "fp_ops \<Rightarrow> CexpBinOp \<Rightarrow> u64 \<Rightarrow> u64 \<Rightarrow> bool option" where
  "compare_d fp opr a b =
     (case opr of
        OLt \<Rightarrow> Some (fp_dlt fp a b) | OLe \<Rightarrow> Some (fp_dle fp a b) | OEq \<Rightarrow> Some (fp_deq fp a b)
      | ONe \<Rightarrow> Some (\<not> fp_deq fp a b) | OGe \<Rightarrow> Some (fp_dle fp b a) | OGt \<Rightarrow> Some (fp_dlt fp b a)
      | _ \<Rightarrow> None)"

definition compare_l :: "CexpBinOp \<Rightarrow> u64 \<Rightarrow> u64 \<Rightarrow> bool option" where
  "compare_l opr a b =
     (case opr of
        OLt \<Rightarrow> Some (a < b) | OLe \<Rightarrow> Some (a \<le> b) | OEq \<Rightarrow> Some (a = b)
      | ONe \<Rightarrow> Some (a \<noteq> b) | OGe \<Rightarrow> Some (a \<ge> b) | OGt \<Rightarrow> Some (a > b)
      | _ \<Rightarrow> None)"

definition compare_vals ::
    "bool \<Rightarrow> fp_ops \<Rightarrow> y_alias \<Rightarrow> CexpTypedVal \<Rightarrow> CexpTypedVal \<Rightarrow> CexpTypedVal \<Rightarrow> CexpBinOp \<Rightarrow> CexpTypedVal cexp_res"
  where
  "compare_vals lsb fp al y x1 x2 opr =
     (let f = FPQ (cv_type x1) \<or> FPQ (cv_type x2) in
      if f \<and> (PTRQ (cv_type x1) \<or> PTRQ (cv_type x2)) then CErr CmpPtrFloat y
      else
        let y = y\<lparr>cv_type := TULong\<rparr>;
            xx1 = (if al = IsX1 then x1\<lparr>cv_type := TULong\<rparr> else x1);
            xx2 = (if al = IsX2 then x2\<lparr>cv_type := TULong\<rparr> else x2);
            ty = (if f then TDouble else TULong)
        in bind_c (cexpTypeCast lsb fp xx1 ty False) y (\<lambda>xx1.
           bind_c (cexpTypeCast lsb fp xx2 ty False) y (\<lambda>xx2.
             case (if f then compare_d fp opr (get_d lsb (cv_tv xx1)) (get_d lsb (cv_tv xx2))
                   else compare_l opr (get_l lsb (cv_tv xx1)) (get_l lsb (cv_tv xx2))) of
               None \<Rightarrow> CErr CmpOp y
             | Some b \<Rightarrow> COk (y\<lparr>cv_tv := set_l lsb (truth b) (cv_tv y)\<rparr>))))"

text \<open>The arithmetic on \<open>unsigned long\<close>; division by zero and shifts by 64 or more are undefined.\<close>

definition arith_l :: "CexpBinOp \<Rightarrow> u64 \<Rightarrow> u64 \<Rightarrow> u64 cexp_res" where
  "arith_l opr a b =
     (case opr of
        OAdd \<Rightarrow> COk (a + b) | OSub \<Rightarrow> COk (a - b) | OMul \<Rightarrow> COk (a * b)
      | ODiv \<Rightarrow> if b = 0 then CUB else COk (a div b)
      | OMod \<Rightarrow> if b = 0 then CUB else COk (a mod b)
      | OShL \<Rightarrow> if b \<ge> 64 then CUB else COk (push_bit (unat b) a)
      | OShR \<Rightarrow> if b \<ge> 64 then CUB else COk (drop_bit (unat b) a)
      | OAnd \<Rightarrow> COk (a AND b) | OXor \<Rightarrow> COk (a XOR b) | OOr \<Rightarrow> COk (a OR b)
      | _ \<Rightarrow> CErr OpScalars 0)"

definition arith_f :: "fp_ops \<Rightarrow> CexpBinOp \<Rightarrow> u32 \<Rightarrow> u32 \<Rightarrow> u32 option" where
  "arith_f fp opr a b =
     (case opr of OAdd \<Rightarrow> Some (fp_fadd fp a b) | OSub \<Rightarrow> Some (fp_fsub fp a b)
      | OMul \<Rightarrow> Some (fp_fmul fp a b) | ODiv \<Rightarrow> Some (fp_fdiv fp a b) | _ \<Rightarrow> None)"

definition arith_d :: "fp_ops \<Rightarrow> CexpBinOp \<Rightarrow> u64 \<Rightarrow> u64 \<Rightarrow> u64 option" where
  "arith_d fp opr a b =
     (case opr of OAdd \<Rightarrow> Some (fp_dadd fp a b) | OSub \<Rightarrow> Some (fp_dsub fp a b)
      | OMul \<Rightarrow> Some (fp_dmul fp a b) | ODiv \<Rightarrow> Some (fp_ddiv fp a b) | _ \<Rightarrow> None)"

definition binop ::
    "bool \<Rightarrow> fp_ops \<Rightarrow> CexpTypedVal \<Rightarrow> CexpTypedVal \<Rightarrow> CexpTypedVal \<Rightarrow> CexpBinOp \<Rightarrow> CexpTypedVal cexp_res" where
  "binop lsb fp y x1 x2 opr =
     (if \<not> (cv_type x1 = cv_type x2 \<and> \<not> PTRQ (cv_type x1)) then CAbort
      else if SCALARQ (cv_type x1) then
        bind_c (cexpTypeCast lsb fp x1 TULong False) y (\<lambda>z1.
        bind_c (cexpTypeCast lsb fp x2 TULong False) y (\<lambda>z2.
          let y = y\<lparr>cv_type := TULong\<rparr> in
          bind_c (arith_l opr (get_l lsb (cv_tv z1)) (get_l lsb (cv_tv z2))) y (\<lambda>r.
            cexpTypeCast lsb fp (y\<lparr>cv_tv := set_l lsb r (cv_tv y)\<rparr>) (cv_type x1) True)))
      else
        let y = y\<lparr>cv_type := cv_type x1\<rparr> in
        if cv_type y = TFloat then
          (case arith_f fp opr (get_f lsb (cv_tv x1)) (get_f lsb (cv_tv x2)) of
             None \<Rightarrow> CErr OpFloats y | Some r \<Rightarrow> COk (y\<lparr>cv_tv := set_f lsb r (cv_tv y)\<rparr>))
        else if cv_type y = TDouble then
          (case arith_d fp opr (get_d lsb (cv_tv x1)) (get_d lsb (cv_tv x2)) of
             None \<Rightarrow> CErr OpDoubles y | Some r \<Rightarrow> COk (y\<lparr>cv_tv := set_d lsb r (cv_tv y)\<rparr>))
        else COk y)"

text \<open>Delivers both values.\<close>

definition cexpTypePromote ::
    "bool \<Rightarrow> fp_ops \<Rightarrow> CexpTypedVal \<Rightarrow> CexpTypedVal \<Rightarrow> (CexpTypedVal \<times> CexpTypedVal) cexp_res" where
  "cexpTypePromote lsb fp a b =
     (if PTRQ (cv_type a) \<or> PTRQ (cv_type b) then CErr PromotePtr (a, b)
      else
        let small_is_a =
              (if FPQ (cv_type a) \<noteq> FPQ (cv_type b) then FPQ (cv_type b)
               else \<not> BASE_TYPE_SIZE (cv_type a) > BASE_TYPE_SIZE (cv_type b))
        in if small_is_a
           then bind_c (cexpTypeCast lsb fp a (cv_type b) False) (a, b) (\<lambda>a'. COk (a', b))
           else bind_c (cexpTypeCast lsb fp b (cv_type a) False) (a, b) (\<lambda>b'. COk (a, b')))"

definition ptr_diff ::
    "bool \<Rightarrow> y_alias \<Rightarrow> CexpTypedVal \<Rightarrow> CexpTypedVal \<Rightarrow> CexpTypedVal \<Rightarrow> CexpBinOp \<Rightarrow> CexpTypedVal cexp_res" where
  "ptr_diff lsb al y x1 x2 opr =
     (if cv_type x1 \<noteq> cv_type x2 then CErr PtrMismatch y
      else if opr \<noteq> OSub then CErr OpTwoPtrs y
      else
        let diff = get_p lsb (cv_tv x1) - get_p lsb (cv_tv x2);
            s = of_nat (BASE_TYPE_SIZE (if al = IsX1 then TULong else cv_type x1)) :: u64;
            y = y\<lparr>cv_type := TULong\<rparr>
        in if s = 0 then CUB
           else if diff mod s \<noteq> 0 then CErr PtrMisaligned y
           else COk (y\<lparr>cv_tv := set_l lsb (diff div s) (cv_tv y)\<rparr>))"

definition ptr_arith ::
    "bool \<Rightarrow> fp_ops \<Rightarrow> CexpTypedVal \<Rightarrow> CexpTypedVal \<Rightarrow> CexpTypedVal \<Rightarrow> CexpBinOp \<Rightarrow> CexpTypedVal cexp_res" where
  "ptr_arith lsb fp y ptr inc opr =
     (if op_code OSub < op_code opr then CErr PtrIncr y
      else (case cexpTypeCast lsb fp inc TULong False of
          COk v \<Rightarrow>
            let n = get_l lsb (cv_tv v) * of_nat (BASE_TYPE_SIZE (cv_type ptr));
                p = get_p lsb (cv_tv ptr)
            in COk (y\<lparr>cv_tv := set_p lsb (if opr = OSub then p - n else p + n) (cv_tv y),
                      cv_type := cv_type ptr\<rparr>)
        | CErr e v \<Rightarrow> CErr PtrIncr y
        | CAbort \<Rightarrow> CAbort
        | CUB \<Rightarrow> CUB))"

definition cexpTVBinOp ::
    "bool \<Rightarrow> fp_ops \<Rightarrow> y_alias \<Rightarrow> CexpTypedVal \<Rightarrow> CexpTypedVal \<Rightarrow> CexpTypedVal \<Rightarrow> CexpBinOp \<Rightarrow> CexpTypedVal cexp_res"
  where
  "cexpTVBinOp lsb fp al y x1 x2 opr =
     (if op_code OAdd > op_code opr then compare_vals lsb fp al y x1 x2 opr
      else if PTRQ (cv_type x1) \<and> PTRQ (cv_type x2) then ptr_diff lsb al y x1 x2 opr
      else if PTRQ (cv_type x1) then ptr_arith lsb fp y x1 x2 opr
      else if PTRQ (cv_type x2) then
        (if opr = OSub then CErr SubPtr y else ptr_arith lsb fp y x2 x1 opr)
      else bind_c (cexpTypePromote lsb fp x1 x2) y (\<lambda>(v, w). binop lsb fp y v w opr))"

text \<open>Assignment writes the member of the type of the target; the object at a null address does not exist.\<close>

definition cexpTVAssign ::
    "bool \<Rightarrow> fp_ops \<Rightarrow> CexpTypedAddr \<Rightarrow> CexpTypedVal \<Rightarrow> 64 mem \<Rightarrow> 64 mem cexp_res" where
  "cexpTVAssign lsb fp y x m =
     bind_c (cexpTypeCast lsb fp x (ca_type y) False) m (\<lambda>xx.
       let u = cv_tv xx; a = ca_ptv y;
           put = (\<lambda>m'. if a = 0 then CUB else COk m')
       in case ca_type y of
            TUChar \<Rightarrow> put (store_n lsb 1 (get_c lsb u) a m)
          | TUShort \<Rightarrow> put (store_n lsb 2 (get_s lsb u) a m)
          | TUInt \<Rightarrow> put (store_n lsb 4 (get_i lsb u) a m)
          | TULong \<Rightarrow> put (store_n lsb 8 (get_l lsb u) a m)
          | TFloat \<Rightarrow> put (store_n lsb 4 (get_f lsb u) a m)
          | TDouble \<Rightarrow> put (store_n lsb 8 (get_d lsb u) a m)
          | _ \<Rightarrow> if PTRQ (ca_type y) then put (store_n lsb 8 (get_p lsb u) a m)
                  else CErr LhsType m)"

definition cexpTA2TV :: "bool \<Rightarrow> 64 mem \<Rightarrow> CexpTypedVal \<Rightarrow> CexpTypedAddr \<Rightarrow> CexpTypedVal cexp_res" where
  "cexpTA2TV lsb m v a =
     (if ca_ptv a = 0 then CErr DerefNull v
      else
        let v = v\<lparr>cv_type := ca_type a\<rparr>; u = cv_tv v; p = ca_ptv a;
            put = (\<lambda>u. COk (v\<lparr>cv_tv := u\<rparr>))
        in case ca_type a of
             TVoid \<Rightarrow> CErr VoidValue v
           | TUChar \<Rightarrow> put (set_c lsb (load_n lsb 1 m p) u)
           | TUShort \<Rightarrow> put (set_s lsb (load_n lsb 2 m p) u)
           | TUInt \<Rightarrow> put (set_i lsb (load_n lsb 4 m p) u)
           | TULong \<Rightarrow> put (set_l lsb (load_n lsb 8 m p) u)
           | TFloat \<Rightarrow> put (set_f lsb (load_n lsb 4 m p) u)
           | TDouble \<Rightarrow> put (set_d lsb (load_n lsb 8 m p) u)
           | _ \<Rightarrow> if PTRQ (ca_type a) then put (set_p lsb (load_n lsb 8 m p) u)
                   else CErr TA2TVType v)"

datatype CexpUnOp = ONeg | OCpl

text \<open>
  Negation of the two wider types converts to the signed type first, so that the smallest signed
  number overflows; the narrower types are computed as \<open>int\<close>.
\<close>

definition cexpTVUnOp ::
    "bool \<Rightarrow> fp_ops \<Rightarrow> CexpTypedVal \<Rightarrow> CexpTypedVal \<Rightarrow> CexpUnOp \<Rightarrow> CexpTypedVal cexp_res" where
  "cexpTVUnOp lsb fp y x opr =
     (let y = y\<lparr>cv_type := cv_type x\<rparr>; u = cv_tv x;
          put = (\<lambda>w. COk (y\<lparr>cv_tv := w\<rparr>))
      in case opr of
        ONeg \<Rightarrow> (case cv_type x of
             TUChar \<Rightarrow> put (set_c lsb (- get_c lsb u) (cv_tv y))
           | TUShort \<Rightarrow> put (set_s lsb (- get_s lsb u) (cv_tv y))
           | TUInt \<Rightarrow> if get_i lsb u = 0x80000000 then CUB else put (set_i lsb (- get_i lsb u) (cv_tv y))
           | TULong \<Rightarrow> if get_l lsb u = 0x8000000000000000 then CUB
                       else put (set_l lsb (- get_l lsb u) (cv_tv y))
           | TFloat \<Rightarrow> put (set_f lsb (fp_fneg fp (get_f lsb u)) (cv_tv y))
           | TDouble \<Rightarrow> put (set_d lsb (fp_dneg fp (get_d lsb u)) (cv_tv y))
           | _ \<Rightarrow> CErr NegType y)
      | OCpl \<Rightarrow>
          if \<not> SCALARQ (cv_type x) then CErr CplType y
          else bind_c (cexpTypeCast lsb fp x TULong False) x (\<lambda>z.
            cexpTypeCast lsb fp (z\<lparr>cv_tv := set_l lsb (NOT (get_l lsb (cv_tv z))) (cv_tv z)\<rparr>)
              (cv_type x) True))"

definition cexpTVTrueQ :: "bool \<Rightarrow> fp_ops \<Rightarrow> CexpTypedVal \<Rightarrow> u64 cexp_res" where
  "cexpTVTrueQ lsb fp v =
     (let u = cv_tv v in
      if PTRQ (cv_type v) then COk (truth (get_p lsb u \<noteq> 0))
      else case cv_type v of
             TUChar \<Rightarrow> COk (ucast (get_c lsb u))
           | TUShort \<Rightarrow> COk (ucast (get_s lsb u))
           | TUInt \<Rightarrow> COk (ucast (get_i lsb u))
           | TULong \<Rightarrow> COk (get_l lsb u)
           | TFloat \<Rightarrow> COk (truth (\<not> fp_fzero fp (get_f lsb u)))
           | TDouble \<Rightarrow> COk (truth (\<not> fp_dzero fp (get_d lsb u)))
           | _ \<Rightarrow> CAbort)"

definition cexpTypeGuessFromSize :: "int \<Rightarrow> CexpType" where
  "cexpTypeGuessFromSize s =
     (if int (BASE_TYPE_SIZE TUCharP) = s then TUChar
      else if int (BASE_TYPE_SIZE TUShortP) = s then TUShort
      else if int (BASE_TYPE_SIZE TULongP) = s then TULong
      else if int (BASE_TYPE_SIZE TUIntP) = s then TUInt
      else if int (BASE_TYPE_SIZE TDoubleP) = s then TDouble
      else if int (BASE_TYPE_SIZE TFloatP) = s then TFloat
      else TVoid)"

definition type_desc :: "string list" where
  "type_desc =
     [''void        '', ''void*       '', ''uchar       '', ''uchar*      '', ''ushort      '',
      ''ushort*     '', ''uint        '', ''uint*       '', ''ulong       '', ''ulong*      '',
      ''float       '', ''float*      '', ''double      '', ''double*     '']"

definition cexpTypeInfoString :: "CexpType \<Rightarrow> string cexp_res" where
  "cexpTypeInfoString t =
     (if FUNQ t then
        (if t = TFuncP then COk ''long (*)()  ''
         else if t = TDFuncP then COk ''double (*)()'' else CAbort)
      else if MASK_SIZE t < length type_desc then COk (type_desc ! MASK_SIZE t) else CAbort)"

section \<open>Calls\<close>

text \<open>
  The portable implementation. Up to \<open>MAXARGS\<close> arguments are passed when all of them are integers,
  up to \<open>MAXBITS\<close> otherwise, as \<open>unsigned long\<close> or \<open>double\<close>; the rest is padded with zeroes. The
  functions called are not part of the program: \<open>ufunc\<close> and \<open>dfunc\<close> give what the function at an
  address returns for a list of arguments, when it is called as a function of this result. A wrapper of
  the jump table is compiled for an integer result and called through a cast for a double; that this
  delivers what the function returns is up to the compiler, and part of what \<open>dfunc\<close> stands for.
\<close>

datatype fn_arg = UL u64 | DB u64

definition MAXARGS :: nat where "MAXARGS = 10"
definition MAXBITS :: nat where "MAXBITS = 5"

text \<open>The loop over the arguments: the mask of the floating point arguments, and the converted arguments.\<close>

fun fn_args ::
    "bool \<Rightarrow> fp_ops \<Rightarrow> CexpTypedVal list \<Rightarrow> nat \<Rightarrow> u32 \<Rightarrow> CexpTypedVal list \<Rightarrow>
       (u32 \<times> CexpTypedVal list \<times> bool) cexp_res" where
  "fn_args lsb fp [] nargs fpargs args = COk (fpargs, args, False)"
| "fn_args lsb fp (v # vs) nargs fpargs args =
     (if \<not> nargs < MAXARGS then COk (fpargs, args, True)
      else
        let fpargs = push_bit 1 fpargs;
            f = FPQ (cv_type v);
            fpargs = (if f then fpargs OR 1 else fpargs)
        in bind_c (cexpTypeCast lsb fp v (if f then TDouble else TULong) False) (fpargs, args, False)
             (\<lambda>v'. fn_args lsb fp vs (Suc nargs) fpargs (args @ [v'])))"

definition zero_val :: "bool \<Rightarrow> CexpTypedVal" where
  "zero_val lsb = \<lparr>cv_tv = set_l lsb 0 (replicate 8 0), cv_type = TULong\<rparr>"

text \<open>Padding shifts the mask once for every zero that is added.\<close>

definition pad_mask :: "u32 \<Rightarrow> nat \<Rightarrow> u32" where
  "pad_mask fpargs nargs = (if fpargs = 0 then 0 else push_bit (MAXBITS - nargs) fpargs)"

definition pad_args :: "bool \<Rightarrow> u32 \<Rightarrow> CexpTypedVal list \<Rightarrow> CexpTypedVal list" where
  "pad_args lsb fpargs args =
     args @ replicate ((if fpargs = 0 then MAXARGS else MAXBITS) - length args) (zero_val lsb)"

text \<open>
  The wrapper that \<open>gentab\<close> writes for a mask: the highest of its \<open>MAXBITS\<close> bits is the first argument.
\<close>

definition callargs :: "bool \<Rightarrow> u32 \<Rightarrow> CexpTypedVal list \<Rightarrow> fn_arg list" where
  "callargs lsb msk args =
     map (\<lambda>j. if bit msk (MAXBITS - 1 - j) then DB (get_d lsb (cv_tv (args ! j)))
               else UL (get_l lsb (cv_tv (args ! j)))) [0..<MAXBITS]"

text \<open>The address that is called, and what is passed.\<close>

definition fn_passed ::
    "bool \<Rightarrow> fp_ops \<Rightarrow> CexpTypedVal \<Rightarrow> CexpTypedVal list \<Rightarrow> (u64 \<times> fn_arg list) cexp_res" where
  "fn_passed lsb fp fn vs =
     (let p = get_p lsb (cv_tv fn) in
      if \<not> FUNQ (cv_type fn) then CErr NeedFun (p, [])
      else if p = 0 then CErr DerefNullFun (p, [])
      else bind_c (fn_args lsb fp vs 0 0 []) (p, []) (\<lambda>(fpargs, args, more).
        if more \<or> fpargs \<noteq> 0 \<and> length args > MAXBITS then CErr TooManyArgs (p, [])
        else
          let padded = pad_args lsb fpargs args
          in COk (p, if fpargs \<noteq> 0 then callargs lsb (pad_mask fpargs (length args)) padded
                     else map (\<lambda>a. UL (get_l lsb (cv_tv a))) padded)))"

definition cexpTVFnCall ::
    "bool \<Rightarrow> fp_ops \<Rightarrow> (u64 \<Rightarrow> fn_arg list \<Rightarrow> u64) \<Rightarrow> (u64 \<Rightarrow> fn_arg list \<Rightarrow> u64) \<Rightarrow>
       CexpTypedVal \<Rightarrow> CexpTypedVal \<Rightarrow> CexpTypedVal list \<Rightarrow> CexpTypedVal cexp_res" where
  "cexpTVFnCall lsb fp ufunc dfunc rval fn vs =
     bind_c (fn_passed lsb fp fn vs) rval (\<lambda>(p, passed).
       let rval = rval\<lparr>cv_type := PTR2BASE (cv_type fn)\<rparr>
       in COk (if cv_type fn = TDFuncP
               then rval\<lparr>cv_tv := set_d lsb (dfunc p passed) (cv_tv rval)\<rparr>
               else rval\<lparr>cv_tv := set_l lsb (ufunc p passed) (cv_tv rval)\<rparr>))"

section \<open>Numbers and their conversions\<close>

text \<open>The unsigned number a value of an integer or pointer type is.\<close>

definition uval :: "bool \<Rightarrow> CexpTypedVal \<Rightarrow> nat" where
  "uval lsb v =
     (case cv_type v of
        TUChar \<Rightarrow> unat (get_c lsb (cv_tv v)) | TUShort \<Rightarrow> unat (get_s lsb (cv_tv v))
      | TUInt \<Rightarrow> unat (get_i lsb (cv_tv v)) | _ \<Rightarrow> unat (get_l lsb (cv_tv v)))"

definition integral :: "CexpType \<Rightarrow> bool" where
  "integral t \<longleftrightarrow> SCALARQ t \<or> PTRQ t"

definition width :: "CexpType \<Rightarrow> nat" where
  "width t = 8 * TYPE_SIZE t"

lemma width_simps [simp]:
  "width TUChar = 8" "width TUShort = 16" "width TUInt = 32" "width TULong = 64"
  "PTRQ t \<Longrightarrow> width t = 64"
  by (simp_all add: width_def TYPE_SIZE_def)

lemma integral_cases:
  assumes "integral t"
  obtains "t = TUChar" | "t = TUShort" | "t = TUInt" | "t = TULong" | "PTRQ t"
  using assms by (auto simp: integral_def)

lemma integral_not_FPQ: "integral t \<Longrightarrow> \<not> FPQ t"
  by (auto simp: integral_def)

lemma width_le_64: "integral t \<Longrightarrow> width t \<le> 64"
  by (erule integral_cases) simp_all

lemma uval_less: "integral (cv_type v) \<Longrightarrow> uval lsb v < 2 ^ width (cv_type v)"
  using unsigned_less [of "get_c lsb (cv_tv v)", where 'a=nat]
    unsigned_less [of "get_s lsb (cv_tv v)", where 'a=nat]
    unsigned_less [of "get_i lsb (cv_tv v)", where 'a=nat]
    unsigned_less [of "get_l lsb (cv_tv v)", where 'a=nat]
  by (erule_tac integral_cases) (auto simp: uval_def split: CexpType.split)

lemma uval_less_64: "uval lsb v < 2 ^ 64"
  using unsigned_less [of "get_c lsb (cv_tv v)", where 'a=nat]
    unsigned_less [of "get_s lsb (cv_tv v)", where 'a=nat]
    unsigned_less [of "get_i lsb (cv_tv v)", where 'a=nat]
    unsigned_less [of "get_l lsb (cv_tv v)", where 'a=nat]
  by (auto simp: uval_def split: CexpType.split)

text \<open>The index of the converter for a source, and the number it starts from.\<close>

lemma ctab_from:
  assumes "integral (cv_type v)"
  shows "ctab lsb fp (if PTRQ (cv_type v) then INDX TVoidP else INDX (cv_type v)) to =
    Some c \<Longrightarrow> c (cv_tv v) = COk (conv_int lsb fp (uval lsb v) to (cv_tv v))"
  using assms by (cases "cv_type v") (auto simp: integral_def ctab_def uval_def)

lemma ctab_some:
  assumes "integral (cv_type v)"
  shows "\<exists>c. ctab lsb fp (if PTRQ (cv_type v) then INDX TVoidP else INDX (cv_type v)) to = Some c"
  using assms by (cases "cv_type v") (auto simp: integral_def ctab_def)

lemma uval_conv_int:
  assumes "integral t" and "\<not> (PTRQ s \<and> PTRQ t)"
  shows "uval lsb \<lparr>cv_tv = conv_int lsb fp n (if \<not> PTRQ s \<and> PTRQ t then INDX TVoidP else INDX t) u,
    cv_type = t\<rparr> = n mod 2 ^ width t"
  using assms
  by (cases t) (auto simp: integral_def uval_def conv_int_def unat_of_nat)

text \<open>A cast that is forced, or whose source fits, writes the number modulo the width of the target.\<close>

lemma cast_value:
  assumes "integral (cv_type v)" and "integral t" and "\<not> (PTRQ (cv_type v) \<and> PTRQ t)"
    and "force \<or> fits lsb v t = COk True"
  shows "\<exists>v'. cexpTypeCast lsb fp v t force = COk v' \<and> cv_type v' = t \<and>
    uval lsb v' = uval lsb v mod 2 ^ width t"
proof -
  let ?from = "if PTRQ (cv_type v) then INDX TVoidP else INDX (cv_type v)"
  let ?to = "if \<not> PTRQ (cv_type v) \<and> PTRQ t then INDX TVoidP else INDX t"
  obtain c where c: "ctab lsb fp ?from ?to = Some c" using ctab_some [OF assms(1)] by blast
  have "cexpTypeCast lsb fp v t force =
      COk \<lparr>cv_tv = conv_int lsb fp (uval lsb v) ?to (cv_tv v), cv_type = t\<rparr>"
    using assms(3,4) c ctab_from [OF assms(1) c] by (auto simp: cexpTypeCast_def Let_def)
  then show ?thesis using uval_conv_int [OF assms(2,3)] by auto
qed

lemma cast_pointers:
  assumes "PTRQ (cv_type v)" and "PTRQ t" and "force \<or> BASE_TYPE_SIZE t \<le> BASE_TYPE_SIZE (cv_type v)"
  shows "cexpTypeCast lsb fp v t force = COk (v\<lparr>cv_type := t\<rparr>)"
  using assms by (auto simp: cexpTypeCast_def)

lemma uval_pointer: "PTRQ (cv_type v) \<Longrightarrow> uval lsb v = unat (get_l lsb (cv_tv v))"
  by (auto simp: uval_def split: CexpType.split)

text \<open>Whether an integer fits: always in a type that is not smaller, otherwise when its number does;
  for a target of four bytes the test is undefined.\<close>

lemma fits_integral:
  assumes "integral (cv_type v)" and "integral t"
  shows "fits lsb v t =
    (if TYPE_SIZE (cv_type v) \<le> TYPE_SIZE t then COk True
     else if TYPE_SIZE t = 4 then CUB
     else COk (uval lsb v < 2 ^ width t))"
  using assms(2) assms(1)
  by (elim integral_cases) (auto simp: fits_def TYPE_SIZE_def uval_def Let_def split: CexpType.split)

text \<open>A small machine for the witnesses: floating point numbers that are themselves integers.\<close>

definition fp_int :: fp_ops where
  "fp_int = \<lparr>fp_i2f = of_nat, fp_i2d = of_nat, fp_ftrunc = (\<lambda>w. Some (uint w)),
     fp_dtrunc = (\<lambda>w. Some (uint w)), fp_f2d = ucast, fp_d2f = ucast,
     fp_fadd = (+), fp_fsub = (-), fp_fmul = (*), fp_fdiv = (div),
     fp_dadd = (+), fp_dsub = (-), fp_dmul = (*), fp_ddiv = (div),
     fp_dlt = (<), fp_dle = (\<le>), fp_deq = (=), fp_fneg = uminus, fp_dneg = uminus,
     fp_fzero = (\<lambda>w. w = 0), fp_dzero = (\<lambda>w. w = 0)\<rparr>"

definition num_val :: "CexpType \<Rightarrow> u64 \<Rightarrow> CexpTypedVal" where
  "num_val t n = \<lparr>cv_tv = le_bytes 8 n, cv_type = t\<rparr>"

lemma cv_type_num_val [simp]: "cv_type (num_val t n) = t"
  by (simp add: num_val_def)

lemma le_word_take_le_bytes:
  assumes "8 * k = LENGTH('b)" and "k \<le> m"
  shows "(le_word (take k (le_bytes m w)) :: 'b::len word) = ucast (w :: u64)"
proof (rule bit_word_eqI)
  fix i assume i: "i < LENGTH('b)"
  then have "i div 8 < k" "8 * (i div 8) + i mod 8 = i" using assms(1) by auto
  then show "bit (le_word (take k (le_bytes m w)) :: 'b word) i = bit (ucast w :: 'b word) i"
    using i assms by (auto simp: bit_le_word bit_le_bytes bit_simps dest: bit_imp_le_length)
qed

lemma uval_num_val [simp]:
  assumes "integral t"
  shows "uval True (num_val t n) = unat n mod 2 ^ width t"
  using assms
proof (cases rule: integral_cases)
  assume "t = TUChar"
  then show ?thesis
    using le_word_take_le_bytes [of 1 8 n, where 'b=8]
    by (simp add: uval_def num_val_def get_c_def host_word_def unsigned_ucast_eq take_bit_eq_mod)
next
  assume "t = TUShort"
  then show ?thesis
    using le_word_take_le_bytes [of 2 8 n, where 'b=16]
    by (simp add: uval_def num_val_def get_s_def host_word_def unsigned_ucast_eq take_bit_eq_mod)
next
  assume "t = TUInt"
  then show ?thesis
    using le_word_take_le_bytes [of 4 8 n, where 'b=32]
    by (simp add: uval_def num_val_def get_i_def host_word_def unsigned_ucast_eq take_bit_eq_mod)
next
  assume "t = TULong"
  then show ?thesis
    using le_word_take_le_bytes [of 8 8 n, where 'b=64] unsigned_less [of n, where 'a=nat]
    by (simp add: uval_def num_val_def get_l_def host_word_def)
next
  assume "PTRQ t"
  then show ?thesis
    using le_word_take_le_bytes [of 8 8 n, where 'b=64] unsigned_less [of n, where 'a=nat]
      uval_pointer [of "num_val t n" True]
    by (simp add: num_val_def get_l_def host_word_def)
qed

text \<open>C29: A forced cast between integer and pointer types delivers the number modulo the size of the
  target; an implicit cast between them, other than from one pointer into another, delivers the number
  unchanged when it fits and is refused otherwise, except that it is undefined when the target has four
  bytes and the source eight.\<close>

theorem cast_integral:
  assumes "integral (cv_type v)" and "integral t" and "\<not> (PTRQ (cv_type v) \<and> PTRQ t)"
  shows "(\<exists>v'. cexpTypeCast lsb fp v t True = COk v' \<and> cv_type v' = t \<and>
      uval lsb v' = uval lsb v mod 2 ^ width t)
    \<and> (if TYPE_SIZE t = 4 \<and> TYPE_SIZE (cv_type v) = 8 then cexpTypeCast lsb fp v t False = CUB
       else if uval lsb v < 2 ^ width t
       then \<exists>v'. cexpTypeCast lsb fp v t False = COk v' \<and> cv_type v' = t \<and> uval lsb v' = uval lsb v
       else cexpTypeCast lsb fp v t False = CErr WouldTruncate v)"
proof (rule conjI)
  show "\<exists>v'. cexpTypeCast lsb fp v t True = COk v' \<and> cv_type v' = t \<and>
      uval lsb v' = uval lsb v mod 2 ^ width t"
    using cast_value [OF assms] by blast
  let ?from = "if PTRQ (cv_type v) then INDX TVoidP else INDX (cv_type v)"
  let ?to = "if \<not> PTRQ (cv_type v) \<and> PTRQ t then INDX TVoidP else INDX t"
  obtain c where c: "ctab lsb fp ?from ?to = Some c" using ctab_some [OF assms(1)] by blast
  have refuse: "cexpTypeCast lsb fp v t False = CErr WouldTruncate v" if "fits lsb v t = COk False"
    using that assms(3) c by (auto simp: cexpTypeCast_def Let_def)
  have undef: "cexpTypeCast lsb fp v t False = CUB" if "fits lsb v t = CUB"
    using that assms(3) c by (auto simp: cexpTypeCast_def Let_def)
  have small: "uval lsb v < 2 ^ width t" if "TYPE_SIZE (cv_type v) \<le> TYPE_SIZE t"
    using uval_less [OF assms(1), of lsb] that
    by (auto simp: width_def intro: less_le_trans power_increasing)
  have eight: "TYPE_SIZE (cv_type v) = 8" if "TYPE_SIZE t = 4" "\<not> TYPE_SIZE (cv_type v) \<le> TYPE_SIZE t"
    using assms(1) that by (elim integral_cases) (auto simp: TYPE_SIZE_def)
  note F = fits_integral [OF assms(1,2), of lsb]
  show "if TYPE_SIZE t = 4 \<and> TYPE_SIZE (cv_type v) = 8 then cexpTypeCast lsb fp v t False = CUB
       else if uval lsb v < 2 ^ width t
       then \<exists>v'. cexpTypeCast lsb fp v t False = COk v' \<and> cv_type v' = t \<and> uval lsb v' = uval lsb v
       else cexpTypeCast lsb fp v t False = CErr WouldTruncate v"
  proof (cases "TYPE_SIZE (cv_type v) \<le> TYPE_SIZE t")
    case True
    then have "fits lsb v t = COk True" using F by simp
    then show ?thesis using cast_value [OF assms, of False lsb fp] small [OF True] True by auto
  next
    case False
    show ?thesis
    proof (cases "TYPE_SIZE t = 4")
      case True
      then show ?thesis using F False undef eight [OF True False] by simp
    next
      case n4: False
      then have f: "fits lsb v t = COk (uval lsb v < 2 ^ width t)" using F False by simp
      show ?thesis
      proof (cases "uval lsb v < 2 ^ width t")
        case True
        then show ?thesis using f n4 cast_value [OF assms, of False lsb fp] by simp
      next
        case False
        then show ?thesis using f n4 refuse by simp
      qed
    qed
  qed
qed

lemma cast_integral_witness:
  "\<exists>v'. cexpTypeCast True fp_int (num_val TULong 500) TUChar True = COk v' \<and> uval True v' = 244"
proof -
  have "uval True (num_val TULong 500) = 500" by (simp add: integral_def)
  then show ?thesis
    using cast_integral [of "num_val TULong 500" TUChar True fp_int]
    by (auto simp: integral_def)
qed

section \<open>Arithmetic and comparison\<close>

text \<open>What the operators mean on numbers of \<open>w\<close> bits, where they are defined.\<close>

definition arith_spec :: "nat \<Rightarrow> CexpBinOp \<Rightarrow> nat \<Rightarrow> nat \<Rightarrow> nat option" where
  "arith_spec w opr a b =
     (case opr of
        OAdd \<Rightarrow> Some ((a + b) mod 2 ^ w)
      | OSub \<Rightarrow> Some (nat ((int a - int b) mod 2 ^ w))
      | OMul \<Rightarrow> Some (a * b mod 2 ^ w)
      | ODiv \<Rightarrow> if b = 0 then None else Some (a div b)
      | OMod \<Rightarrow> if b = 0 then None else Some (a mod b)
      | OShL \<Rightarrow> if b \<ge> 64 then None else Some (a * 2 ^ b mod 2 ^ w)
      | OShR \<Rightarrow> if b \<ge> 64 then None else Some (a div 2 ^ b)
      | OAnd \<Rightarrow> Some (a AND b)
      | OXor \<Rightarrow> Some (a XOR b)
      | OOr \<Rightarrow> Some (a OR b)
      | _ \<Rightarrow> None)"

lemma mod_mod_pow: "w \<le> 64 \<Longrightarrow> (x mod 2 ^ 64) mod 2 ^ w = x mod 2 ^ w" for x :: nat
  by (rule mod_mod_cancel) (simp only: le_imp_power_dvd)

lemma int_unat_diff: "int (unat (x - y)) = (int (unat x) - int (unat y)) mod 2 ^ 64" for x y :: u64
  using uint_word_ariths(2) [of x y] by simp

lemma arith_l_spec:
  assumes w: "w \<le> 64" and a: "a < 2 ^ w" and b: "b < 2 ^ w" and r: "arith_spec w opr a b = Some r"
  shows "\<exists>x. arith_l opr (of_nat a) (of_nat b) = COk x \<and> unat x mod 2 ^ w = r"
proof -
  have p: "(2 :: nat) ^ w \<le> 2 ^ 64" using w by (rule power_increasing) simp
  have a64: "unat (of_nat a :: u64) = a" and b64: "unat (of_nat b :: u64) = b"
    using a b p by (simp_all add: unat_of_nat)
  have z: "(of_nat b :: u64) = 0 \<longleftrightarrow> b = 0"
    by (simp only: unat_eq_zero [symmetric] b64)
  have ge: "(of_nat b :: u64) \<ge> 64 \<longleftrightarrow> b \<ge> 64"
    by (simp add: word_le_nat_alt b64)
  have div_lt: "a div k < 2 ^ w" and mod_lt: "a mod k < 2 ^ w" for k
    using a by (meson div_le_dividend mod_less_eq_dividend le_less_trans)+
  have bitlt: "a AND b < 2 ^ w" "a XOR b < 2 ^ w" "a OR b < 2 ^ w"
    using a b by (simp_all flip: take_bit_nat_eq_self_iff)
  note mm = mod_mod_pow [OF w]
  show ?thesis
  proof (cases opr)
    case OAdd
    have "unat (of_nat a + of_nat b :: u64) mod 2 ^ w = (a + b) mod 2 ^ w"
      using mm [of "a + b"] by (simp only: unat_word_ariths(1) a64 b64) simp
    then show ?thesis using OAdd r by (simp add: arith_spec_def arith_l_def)
  next
    case OSub
    have "int (unat (of_nat a - of_nat b :: u64)) = (int a - int b) mod 2 ^ 64"
      using int_unat_diff [of "of_nat a" "of_nat b"] a64 b64 by simp
    then have "int (unat (of_nat a - of_nat b :: u64) mod 2 ^ w) = (int a - int b) mod 2 ^ w"
      using mod_mod_cancel [of "2 ^ w :: int" "2 ^ 64" "int a - int b"] w
      by (simp only: zmod_int le_imp_power_dvd) simp
    then show ?thesis using OSub r by (auto simp: arith_spec_def arith_l_def)
  next
    case OMul
    have "unat (of_nat a * of_nat b :: u64) mod 2 ^ w = (a * b) mod 2 ^ w"
      using mm [of "a * b"] by (simp only: unat_word_ariths(2) a64 b64) simp
    then show ?thesis using OMul r by (simp add: arith_spec_def arith_l_def)
  next
    case ODiv
    have "unat (of_nat a div of_nat b :: u64) = a div b" by (simp only: unat_div a64 b64)
    then show ?thesis using ODiv r z div_lt [of b] by (auto simp: arith_spec_def arith_l_def split: if_splits)
  next
    case OMod
    have "unat (of_nat a mod of_nat b :: u64) = a mod b" by (simp only: unat_mod a64 b64)
    then show ?thesis using OMod r z mod_lt [of b] by (auto simp: arith_spec_def arith_l_def split: if_splits)
  next
    case OShL
    have "unat (push_bit b (of_nat a :: u64)) = a * 2 ^ b mod 2 ^ 64"
      by (simp only: unsigned_push_bit_eq a64) (simp add: push_bit_eq_mult take_bit_eq_mod)
    then have "unat (push_bit b (of_nat a :: u64)) mod 2 ^ w = a * 2 ^ b mod 2 ^ w" using mm by metis
    then show ?thesis using OShL r ge b64 by (auto simp: arith_spec_def arith_l_def split: if_splits)
  next
    case OShR
    have "unat (drop_bit b (of_nat a :: u64)) = a div 2 ^ b"
      by (simp only: unsigned_drop_bit_eq a64) (use a p in \<open>simp add: drop_bit_eq_div take_bit_nat_eq_self\<close>)
    then show ?thesis using OShR r ge b64 div_lt by (auto simp: arith_spec_def arith_l_def split: if_splits)
  next
    case OAnd
    then show ?thesis using r a64 b64 bitlt by (auto simp: arith_spec_def arith_l_def unsigned_and_eq)
  next
    case OXor
    then show ?thesis using r a64 b64 bitlt by (auto simp: arith_spec_def arith_l_def unsigned_xor_eq)
  next
    case OOr
    then show ?thesis using r a64 b64 bitlt by (auto simp: arith_spec_def arith_l_def unsigned_or_eq)
  qed (use r in \<open>simp_all add: arith_spec_def\<close>)
qed

text \<open>The values of the two operands after promotion: the numbers they had, in the larger type.\<close>

definition promoted :: "CexpType \<Rightarrow> CexpType \<Rightarrow> CexpType" where
  "promoted s t = (if BASE_TYPE_SIZE s > BASE_TYPE_SIZE t then s else t)"

lemma cast_widen:
  assumes "integral (cv_type v)" and "integral t" and "\<not> (PTRQ (cv_type v) \<and> PTRQ t)"
    and "TYPE_SIZE (cv_type v) \<le> TYPE_SIZE t"
  shows "\<exists>v'. cexpTypeCast lsb fp v t False = COk v' \<and> cv_type v' = t \<and> uval lsb v' = uval lsb v"
proof -
  have "uval lsb v < 2 ^ width t"
    using uval_less [OF assms(1), of lsb] assms(4)
    by (auto simp: width_def intro: less_le_trans power_increasing)
  then show ?thesis
    using cast_value [OF assms(1-3), of False lsb fp] fits_integral [OF assms(1,2), of lsb] assms(4) by auto
qed

lemma scalar_integral: "SCALARQ t \<Longrightarrow> integral t \<and> \<not> PTRQ t \<and> TYPE_SIZE t = BASE_TYPE_SIZE t"
  by (auto simp: integral_def TYPE_SIZE_def)

lemma promote_scalars:
  assumes "SCALARQ (cv_type a)" and "SCALARQ (cv_type b)"
  shows "\<exists>v w. cexpTypePromote lsb fp a b = COk (v, w)
    \<and> cv_type v = promoted (cv_type a) (cv_type b) \<and> cv_type w = promoted (cv_type a) (cv_type b)
    \<and> uval lsb v = uval lsb a \<and> uval lsb w = uval lsb b"
proof -
  note I = scalar_integral [OF assms(1)] scalar_integral [OF assms(2)]
  have np: "\<not> PTRQ (cv_type a)" "\<not> PTRQ (cv_type b)" "\<not> FPQ (cv_type a)" "\<not> FPQ (cv_type b)"
    using I assms by auto
  show ?thesis
  proof (cases "BASE_TYPE_SIZE (cv_type a) > BASE_TYPE_SIZE (cv_type b)")
    case True
    then show ?thesis
      using cast_widen [of b "cv_type a" lsb fp] I np by (auto simp: cexpTypePromote_def promoted_def)
  next
    case False
    then show ?thesis
      using cast_widen [of a "cv_type b" lsb fp] I np by (auto simp: cexpTypePromote_def promoted_def)
  qed
qed

lemma uval_long: "cv_type v = TULong \<Longrightarrow> get_l lsb (cv_tv v) = of_nat (uval lsb v)"
  by (simp add: uval_def)

lemma binop_scalars:
  assumes "SCALARQ (cv_type v)" and "cv_type w = cv_type v"
    and "arith_spec (width (cv_type v)) opr (uval lsb v) (uval lsb w) = Some r"
  shows "\<exists>z. binop lsb fp y v w opr = COk z \<and> cv_type z = cv_type v \<and> uval lsb z = r"
proof -
  note I = scalar_integral [OF assms(1)]
  have iw: "integral (cv_type w)" "\<not> PTRQ (cv_type w)" using I assms(2) by simp_all
  have ul: "integral TULong" "\<not> PTRQ TULong" by (simp_all add: integral_def)
  have le8: "TYPE_SIZE (cv_type v) \<le> TYPE_SIZE TULong" using assms(1) by (auto simp: TYPE_SIZE_def)
  obtain v1 where v1: "cexpTypeCast lsb fp v TULong False = COk v1" "cv_type v1 = TULong"
    "uval lsb v1 = uval lsb v"
    using cast_widen [of v TULong lsb fp] I ul le8 by blast
  obtain w1 where w1: "cexpTypeCast lsb fp w TULong False = COk w1" "cv_type w1 = TULong"
    "uval lsb w1 = uval lsb w"
    using cast_widen [of w TULong lsb fp] iw ul le8 assms(2) by auto
  have w64: "width (cv_type v) \<le> 64" using width_le_64 I by blast
  have lt: "uval lsb v < 2 ^ width (cv_type v)" "uval lsb w < 2 ^ width (cv_type v)"
    using uval_less [of v lsb] uval_less [of w lsb] I iw assms(2) by auto
  obtain x where x: "arith_l opr (of_nat (uval lsb v)) (of_nat (uval lsb w)) = COk x"
    "unat x mod 2 ^ width (cv_type v) = r"
    using arith_l_spec [OF w64 lt assms(3)] by blast
  let ?y = "y\<lparr>cv_type := TULong, cv_tv := set_l lsb x (cv_tv (y\<lparr>cv_type := TULong\<rparr>))\<rparr>"
  have "uval lsb ?y = unat x" by (simp add: uval_def)
  then obtain z where "cexpTypeCast lsb fp ?y (cv_type v) True = COk z" "cv_type z = cv_type v"
    "uval lsb z = unat x mod 2 ^ width (cv_type v)"
    using cast_value [of ?y "cv_type v" True lsb fp] I ul by auto
  moreover have "binop lsb fp y v w opr = cexpTypeCast lsb fp ?y (cv_type v) True"
    using assms(1,2) I v1 w1 x uval_long [OF v1(2), of lsb] uval_long [OF w1(2), of lsb]
    by (simp add: binop_def Let_def del: SCALARQ_iff)
  ultimately show ?thesis using x(2) by simp
qed

text \<open>C5: Arithmetic on two unsigned integers of any widths is carried out in the wider type and modulo
  its size: the result of every operator is the one of \<open>arith_spec\<close>, wherever that is defined, whatever
  object the result is written to.\<close>

theorem integer_arithmetic:
  assumes "SCALARQ (cv_type x1)" and "SCALARQ (cv_type x2)" and "op_code opr \<ge> op_code OAdd"
    and "arith_spec (width (promoted (cv_type x1) (cv_type x2))) opr (uval lsb x1) (uval lsb x2) = Some r"
  shows "\<exists>z. cexpTVBinOp lsb fp al y x1 x2 opr = COk z \<and>
    cv_type z = promoted (cv_type x1) (cv_type x2) \<and> uval lsb z = r"
proof -
  obtain v w where p: "cexpTypePromote lsb fp x1 x2 = COk (v, w)"
    and t: "cv_type v = promoted (cv_type x1) (cv_type x2)" "cv_type w = promoted (cv_type x1) (cv_type x2)"
    and u: "uval lsb v = uval lsb x1" "uval lsb w = uval lsb x2"
    using promote_scalars [OF assms(1,2), of lsb fp] by blast
  have s: "SCALARQ (cv_type v)" using assms(1,2) t(1) unfolding promoted_def by presburger
  have np: "\<not> PTRQ (cv_type x1)" "\<not> PTRQ (cv_type x2)"
    using scalar_integral [OF assms(1)] scalar_integral [OF assms(2)] by simp_all
  have "cexpTVBinOp lsb fp al y x1 x2 opr = binop lsb fp y v w opr"
    using assms(3) np p by (simp add: cexpTVBinOp_def)
  then show ?thesis using binop_scalars [OF s] t u assms(4) by auto
qed

lemma integer_arithmetic_witness:
  "\<exists>z. cexpTVBinOp True fp_int Distinct (num_val TULong 0) (num_val TUChar 200) (num_val TUShort 65400) OAdd
     = COk z \<and> uval True z = 64"
proof -
  have "uval True (num_val TUChar 200) = 200" "uval True (num_val TUShort 65400) = 65400"
    by (simp_all add: integral_def)
  then show ?thesis
    using integer_arithmetic [of "num_val TUChar 200" "num_val TUShort 65400" OAdd True 64 fp_int Distinct
        "num_val TULong 0"]
    by (auto simp: promoted_def arith_spec_def)
qed

lemma uval_set_long [simp]:
  "uval lsb (y\<lparr>cv_type := TULong, cv_tv := set_l lsb w u\<rparr>) = unat w"
  by (simp add: uval_def)

lemma unat_minus_of_nat: "0 < k \<Longrightarrow> k < 2 ^ 64 \<Longrightarrow> unat (- of_nat k :: u64) = 2 ^ 64 - k"
proof -
  assume k: "0 < k" "k < 2 ^ 64"
  have "k + (2 ^ 64 - k) = 2 ^ 64" using k(2) by (rule le_add_diff_inverse [OF less_imp_le])
  then have "of_nat k + of_nat (2 ^ 64 - k) = (of_nat (2 ^ 64) :: u64)"
    by (simp only: of_nat_add [symmetric])
  also have "(of_nat (2 ^ 64) :: u64) = 0" by simp
  finally have "- of_nat k = (of_nat (2 ^ 64 - k) :: u64)" by (rule minus_unique)
  then have "unat (- of_nat k :: u64) = unat (of_nat (2 ^ 64 - k) :: u64)" by (rule arg_cong)
  also have "\<dots> = 2 ^ 64 - k" using k(1) by (intro unat_of_nat_small) simp
  finally show ?thesis .
qed

text \<open>C30: Two integers or pointers of any types are compared as the numbers they are, and the result is
  the number one or zero.\<close>

theorem integer_comparison:
  assumes "integral (cv_type x1)" and "integral (cv_type x2)"
    and "opr \<in> {OLt, OLe, OEq, ONe, OGe, OGt}"
  shows "\<exists>z. cexpTVBinOp lsb fp Distinct y x1 x2 opr = COk z \<and> cv_type z = TULong \<and>
    uval lsb z = (if (case opr of OLt \<Rightarrow> uval lsb x1 < uval lsb x2 | OLe \<Rightarrow> uval lsb x1 \<le> uval lsb x2
        | OEq \<Rightarrow> uval lsb x1 = uval lsb x2 | ONe \<Rightarrow> uval lsb x1 \<noteq> uval lsb x2
        | OGe \<Rightarrow> uval lsb x1 \<ge> uval lsb x2 | _ \<Rightarrow> uval lsb x1 > uval lsb x2) then 1 else 0)"
proof -
  have ul: "integral TULong" "\<not> PTRQ TULong" by (simp_all add: integral_def)
  have le8: "TYPE_SIZE t \<le> TYPE_SIZE TULong" if "integral t" for t
    using that by (elim integral_cases) (auto simp: TYPE_SIZE_def)
  obtain v where v: "cexpTypeCast lsb fp x1 TULong False = COk v" "cv_type v = TULong"
    "uval lsb v = uval lsb x1"
    using cast_widen [OF assms(1) ul(1), of lsb fp] ul le8 [OF assms(1)] by blast
  obtain w where w: "cexpTypeCast lsb fp x2 TULong False = COk w" "cv_type w = TULong"
    "uval lsb w = uval lsb x2"
    using cast_widen [OF assms(2) ul(1), of lsb fp] ul le8 [OF assms(2)] by blast
  have gv: "get_l lsb (cv_tv v) = of_nat (uval lsb x1)" "get_l lsb (cv_tv w) = of_nat (uval lsb x2)"
    using uval_long [OF v(2), of lsb] uval_long [OF w(2), of lsb] v(3) w(3) by simp_all
  have un: "unat (of_nat (uval lsb x1) :: u64) = uval lsb x1" "unat (of_nat (uval lsb x2) :: u64) = uval lsb x2"
    using uval_less_64 by (simp_all add: unat_of_nat)
  have eq: "(of_nat (uval lsb x1) :: u64) = of_nat (uval lsb x2) \<longleftrightarrow> uval lsb x1 = uval lsb x2"
    using un by metis
  have nf: "\<not> FPQ (cv_type x1)" "\<not> FPQ (cv_type x2)"
    using integral_not_FPQ assms(1,2) by blast+
  have opc: "op_code opr < op_code OAdd" using assms(3) by auto
  let ?b = "compare_l opr (of_nat (uval lsb x1)) (of_nat (uval lsb x2))"
  have c: "?b = Some (case opr of OLt \<Rightarrow> uval lsb x1 < uval lsb x2 | OLe \<Rightarrow> uval lsb x1 \<le> uval lsb x2
        | OEq \<Rightarrow> uval lsb x1 = uval lsb x2 | ONe \<Rightarrow> uval lsb x1 \<noteq> uval lsb x2
        | OGe \<Rightarrow> uval lsb x1 \<ge> uval lsb x2 | _ \<Rightarrow> uval lsb x1 > uval lsb x2)"
    using assms(3) un eq by (auto simp: compare_l_def word_less_nat_alt word_le_nat_alt)
  have "cexpTVBinOp lsb fp Distinct y x1 x2 opr =
      COk (y\<lparr>cv_type := TULong, cv_tv := set_l lsb (truth (the ?b)) (cv_tv y)\<rparr>)"
    using opc nf v(1) w(1) by (simp add: cexpTVBinOp_def compare_vals_def gv c Let_def)
  then show ?thesis unfolding c by (simp add: truth_def)
qed

lemma integer_comparison_witness:
  "\<exists>z. cexpTVBinOp True fp_int Distinct (num_val TULong 0) (num_val TUChar 200) (num_val TUIntP 300) OLt
     = COk z \<and> uval True z = 1"
  using integer_comparison [of "num_val TUChar 200" "num_val TUIntP 300" OLt True fp_int "num_val TULong 0"]
  by (auto simp: integral_def)

lemma arith_on_pointer:
  assumes "PTRQ (cv_type p)" and "SCALARQ (cv_type n)" and "opr = OAdd \<or> opr = OSub"
  shows "cexpTVBinOp lsb fp al y p n opr =
    COk (y\<lparr>cv_tv := set_l lsb (let k = of_nat (uval lsb n * BASE_TYPE_SIZE (cv_type p))
                     in if opr = OSub then get_l lsb (cv_tv p) - k else get_l lsb (cv_tv p) + k) (cv_tv y),
           cv_type := cv_type p\<rparr>)"
proof -
  note I = scalar_integral [OF assms(2)]
  have "TYPE_SIZE (cv_type n) \<le> TYPE_SIZE TULong" using assms(2) by (auto simp: TYPE_SIZE_def)
  then obtain v where v: "cexpTypeCast lsb fp n TULong False = COk v" "cv_type v = TULong"
    "uval lsb v = uval lsb n"
    using cast_widen [of n TULong lsb fp] I by (auto simp: integral_def)
  have np: "\<not> PTRQ (cv_type n)" using I by simp
  show ?thesis
    using assms(1,3) np v uval_long [OF v(2), of lsb]
    by (auto simp: cexpTVBinOp_def ptr_arith_def Let_def)
qed

lemma ptr_diff_value:
  assumes "PTRQ (cv_type p)" and "cv_type q = cv_type p" and "BASE_TYPE_SIZE (cv_type p) \<noteq> 0"
    and "(get_l lsb (cv_tv p) - get_l lsb (cv_tv q)) mod of_nat (BASE_TYPE_SIZE (cv_type p)) = 0"
  shows "cexpTVBinOp lsb fp Distinct y p q OSub =
    COk (y\<lparr>cv_type := TULong, cv_tv := set_l lsb ((get_l lsb (cv_tv p) - get_l lsb (cv_tv q)) div
      of_nat (BASE_TYPE_SIZE (cv_type p))) (cv_tv y)\<rparr>)"
proof -
  have "(of_nat (BASE_TYPE_SIZE (cv_type p)) :: u64) \<noteq> 0"
    using assms(3) by (cases "cv_type p") simp_all
  then show ?thesis
    using assms by (simp add: cexpTVBinOp_def ptr_diff_def Let_def)
qed

text \<open>C36: Adding the difference of two pointers of the same type, as the interpreter computes it, to the
  second one gives the first one again, also when the first one is the lower address.\<close>

theorem pointer_difference_adds_back:
  assumes "PTRQ (cv_type p)" and "cv_type q = cv_type p" and "BASE_TYPE_SIZE (cv_type p) \<noteq> 0"
    and "(get_l lsb (cv_tv p) - get_l lsb (cv_tv q)) mod of_nat (BASE_TYPE_SIZE (cv_type p)) = 0"
  shows "\<exists>d r. cexpTVBinOp lsb fp Distinct y p q OSub = COk d \<and> cv_type d = TULong \<and>
    cexpTVBinOp lsb fp al y' q d OAdd = COk r \<and> cv_type r = cv_type p \<and> uval lsb r = uval lsb p"
proof -
  let ?p = "get_l lsb (cv_tv p)" and ?q = "get_l lsb (cv_tv q)"
  let ?s = "of_nat (BASE_TYPE_SIZE (cv_type p)) :: u64"
  define d where "d = y\<lparr>cv_type := TULong, cv_tv := set_l lsb ((?p - ?q) div ?s) (cv_tv y)\<rparr>"
  have "cexpTVBinOp lsb fp Distinct y p q OSub = COk d"
    using ptr_diff_value [OF assms] by (simp add: d_def)
  moreover have "(?p - ?q) div ?s * ?s = ?p - ?q"
    using div_mult_mod_eq [of "?p - ?q" ?s] assms(4) by simp
  then have "get_l lsb (cv_tv q) + of_nat (uval lsb d * BASE_TYPE_SIZE (cv_type q)) = ?p"
    using assms(2) by (simp add: d_def uval_def)
  moreover have "uval lsb r = unat (get_l lsb (cv_tv r))" if "cv_type r = cv_type p" for r
    using that assms(1) uval_pointer by simp
  ultimately show ?thesis
    using arith_on_pointer [of q d OAdd lsb fp al y'] assms(1,2)
    by (auto simp: d_def uval_pointer Let_def)
qed

lemma get_l_num_val: "PTRQ t \<Longrightarrow> get_l True (cv_tv (num_val t n)) = n"
proof -
  assume t: "PTRQ t"
  then have "unat (get_l True (cv_tv (num_val t n))) = unat n"
    using uval_num_val [of t n] unsigned_less [of n, where 'a=nat] uval_pointer [of "num_val t n" True]
    by (simp add: integral_def)
  then show ?thesis by (simp only: word_unat_eq_iff)
qed

lemma pointer_difference_adds_back_witness:
  "\<exists>d r. cexpTVBinOp True fp_int Distinct (num_val TULong 0) (num_val TUIntP 96) (num_val TUIntP 104) OSub = COk d \<and>
    cexpTVBinOp True fp_int Distinct (num_val TULong 0) (num_val TUIntP 104) d OAdd = COk r \<and> uval True r = 96"
  using pointer_difference_adds_back [of "num_val TUIntP 96" "num_val TUIntP 104" True fp_int
      "num_val TULong 0" Distinct "num_val TULong 0"]
  by (auto simp: integral_def get_l_num_val)

text \<open>The difference of two pointers is divided as an unsigned number: when the first pointer is
  below the second, the result is not the negative number of elements between them (as an
  \<open>unsigned long\<close>) unless the elements have one byte.\<close>

lemma pointer_difference_negative:
  assumes "PTRQ (cv_type p)" and "cv_type q = cv_type p" and "BASE_TYPE_SIZE (cv_type p) \<ge> 2"
    and "get_l lsb (cv_tv q) = get_l lsb (cv_tv p) + of_nat (n * BASE_TYPE_SIZE (cv_type p))"
    and "0 < n" and "n * BASE_TYPE_SIZE (cv_type p) < 2 ^ 64"
  shows "\<exists>d. cexpTVBinOp lsb fp Distinct y p q OSub = COk d \<and> uval lsb d \<noteq> 2 ^ 64 - n \<and>
    uval lsb d = (2 ^ 64 - n * BASE_TYPE_SIZE (cv_type p)) div BASE_TYPE_SIZE (cv_type p)"
proof -
  let ?p = "get_l lsb (cv_tv p)" and ?q = "get_l lsb (cv_tv q)"
  let ?b = "BASE_TYPE_SIZE (cv_type p)"
  let ?s = "of_nat ?b :: u64"
  have b: "?b = 2 \<or> ?b = 4 \<or> ?b = 8" using assms(3) by (cases "cv_type p") simp_all
  have us: "unat ?s = ?b" using b by auto
  have nb: "0 < n * ?b" using assms(3,5) by simp
  have "?p - ?q = - of_nat (n * ?b)" using assms(4) by simp
  then have diff: "unat (?p - ?q) = 2 ^ 64 - n * ?b"
    using unat_minus_of_nat [OF nb assms(6)] by (simp only:)
  have "?b dvd 2 ^ 64" using b by auto
  then have "(2 ^ 64 - n * ?b) mod ?b = 0"
    by (meson dvd_diff_nat dvd_triv_right mod_0_imp_dvd dvd_imp_mod_0)
  then have "unat ((?p - ?q) mod ?s) = 0" by (simp only: unat_mod diff us)
  then have m: "(?p - ?q) mod ?s = 0" by (simp only: unat_eq_zero)
  have d: "unat ((?p - ?q) div ?s) = (2 ^ 64 - n * ?b) div ?b" by (simp only: unat_div diff us)
  have "(2 ^ 64 - n * ?b) div ?b \<le> 2 ^ 64 div ?b - n"
    using b by auto
  also have "\<dots> < 2 ^ 64 - n" using b assms(6) by auto
  finally have ne: "(2 ^ 64 - n * ?b) div ?b \<noteq> 2 ^ 64 - n" by simp
  show ?thesis
    using ptr_diff_value [OF assms(1,2) _ m, of fp y] assms(3) d ne by (auto simp: uval_def)
qed
lemma pointer_difference_negative_witness:
  "\<exists>d. cexpTVBinOp True fp_int Distinct (num_val TULong 0) (num_val TUIntP 96) (num_val TUIntP 104) OSub = COk d \<and>
    uval True d = 4611686018427387902"
  using pointer_difference_negative [of "num_val TUIntP 96" "num_val TUIntP 104" True 2 fp_int "num_val TULong 0"]
  by (auto simp: get_l_num_val)

section \<open>Assignment\<close>

lemma BASE_size_integral: "integral t \<Longrightarrow> TYPE_SIZE t = 1 \<or> TYPE_SIZE t = 2 \<or> TYPE_SIZE t = 4 \<or> TYPE_SIZE t = 8"
  by (erule integral_cases) (auto simp: TYPE_SIZE_def)

text \<open>Writing a value of an integral type through an address, and reading it back.\<close>

lemma store_value:
  assumes "integral t" and "cv_type v = t" and "a \<noteq> 0"
    and "cexpTypeCast lsb fp x t False = COk v"
  shows "\<exists>m'. cexpTVAssign lsb fp \<lparr>ca_ptv = a, ca_type = t\<rparr> x m = COk m' \<and>
    (\<forall>b. b \<notin> area a (TYPE_SIZE t) \<longrightarrow> m' b = m b) \<and>
    (\<forall>v0. \<exists>v'. cexpTA2TV lsb m' v0 \<lparr>ca_ptv = a, ca_type = t\<rparr> = COk v' \<and> cv_type v' = t \<and>
       uval lsb v' = uval lsb v)"
  using assms
  by (cases t)
    (auto simp: integral_def cexpTVAssign_def cexpTA2TV_def Let_def TYPE_SIZE_def uval_def load_store_n
      store_n_outside)

text \<open>C28: What an assignment to an object of an integer or pointer type does with the value of such a type: a
  value of 8 bytes for an object of 4 bytes is undefined, whatever it is, for the size is tested with a shift
  of 1 by 32 bits; a pointer to smaller elements than the target wants, and a number that does not fit the
  object, are refused and change nothing; otherwise reading the object then delivers the value, and no byte
  outside the object changes.\<close>

theorem assigned_value_reads_back:
  assumes "integral (cv_type x)" and "integral t" and "a \<noteq> 0"
  shows "if TYPE_SIZE t = 4 \<and> TYPE_SIZE (cv_type x) = 8
      then cexpTVAssign lsb fp \<lparr>ca_ptv = a, ca_type = t\<rparr> x m = CUB
    else if PTRQ (cv_type x) \<and> PTRQ t \<and> BASE_TYPE_SIZE (cv_type x) < BASE_TYPE_SIZE t
      then cexpTVAssign lsb fp \<lparr>ca_ptv = a, ca_type = t\<rparr> x m = CErr ElementTooSmall m
    else if uval lsb x \<ge> 2 ^ width t
      then cexpTVAssign lsb fp \<lparr>ca_ptv = a, ca_type = t\<rparr> x m = CErr WouldTruncate m
    else \<exists>m'. cexpTVAssign lsb fp \<lparr>ca_ptv = a, ca_type = t\<rparr> x m = COk m' \<and>
      (\<forall>b. b \<notin> area a (TYPE_SIZE t) \<longrightarrow> m' b = m b) \<and>
      (\<forall>v0. \<exists>v. cexpTA2TV lsb m' v0 \<lparr>ca_ptv = a, ca_type = t\<rparr> = COk v \<and> cv_type v = t \<and>
         uval lsb v = uval lsb x)"
proof -
  have stored: ?thesis if v: "cexpTypeCast lsb fp x t False = COk v" "cv_type v = t" "uval lsb v = uval lsb x"
    and ok: "\<not> (TYPE_SIZE t = 4 \<and> TYPE_SIZE (cv_type x) = 8)" "uval lsb x < 2 ^ width t"
      "\<not> (PTRQ (cv_type x) \<and> PTRQ t \<and> BASE_TYPE_SIZE (cv_type x) < BASE_TYPE_SIZE t)" for v
    unfolding if_not_P [OF ok(1)] if_not_P [OF ok(3)] if_not_P [OF ok(2) [unfolded not_le [symmetric]]]
    using store_value [OF assms(2) v(2) assms(3) v(1), of m] v(3) by simp
  show ?thesis
  proof (cases "PTRQ (cv_type x) \<and> PTRQ t")
    case True
    then have t: "TYPE_SIZE t \<noteq> 4" "width t = 64" by (simp_all add: TYPE_SIZE_def)
    show ?thesis
    proof (cases "BASE_TYPE_SIZE (cv_type x) < BASE_TYPE_SIZE t")
      case small: True
      then show ?thesis using True t by (simp add: cexpTVAssign_def cexpTypeCast_def bind_c_def)
    next
      case False
      have "uval lsb (x\<lparr>cv_type := t\<rparr>) = uval lsb x"
        using True by (cases t; cases "cv_type x") (simp_all add: uval_def)
      then show ?thesis
        using stored [of "x\<lparr>cv_type := t\<rparr>"] True False t uval_less_64 [of lsb x]
        by (simp add: cexpTypeCast_def)
    qed
  next
    case False
    note F = fits_integral [OF assms(1,2), of lsb]
    obtain c where c: "ctab lsb fp (if PTRQ (cv_type x) then INDX TVoidP else INDX (cv_type x))
        (if \<not> PTRQ (cv_type x) \<and> PTRQ t then INDX TVoidP else INDX t) = Some c"
      using ctab_some [OF assms(1)] by blast
    have size: "TYPE_SIZE t = 4 \<and> TYPE_SIZE (cv_type x) = 8 \<longleftrightarrow> TYPE_SIZE t = 4 \<and> TYPE_SIZE t < TYPE_SIZE (cv_type x)"
      using assms(1) by (elim integral_cases) (auto simp: TYPE_SIZE_def)
    show ?thesis
    proof (cases "fits lsb x t")
      case (COk f)
      have nb: "\<not> (TYPE_SIZE t = 4 \<and> TYPE_SIZE (cv_type x) = 8)" using COk F size by (auto split: if_splits)
      have lt: "f \<longleftrightarrow> uval lsb x < 2 ^ width t"
      proof (cases "TYPE_SIZE (cv_type x) \<le> TYPE_SIZE t")
        case le: True
        then have "(2 :: nat) ^ width (cv_type x) \<le> 2 ^ width t" by (simp add: width_def)
        from less_le_trans [OF uval_less [OF assms(1)] this] show ?thesis using COk F le by simp
      qed (use COk F nb size in \<open>auto split: if_splits\<close>)
      show ?thesis
      proof (cases f)
        case True
        then have "fits lsb x t = COk True" using COk by simp
        from cast_value [OF assms(1,2) False disjI2 [OF this]]
        obtain v where v: "cexpTypeCast lsb fp x t False = COk v" "cv_type v = t"
          "uval lsb v = uval lsb x mod 2 ^ width t" by blast
        show ?thesis by (rule stored [OF v(1,2)]) (use v(3) lt True nb False in auto)
      next
        case no: False
        then show ?thesis using False c COk lt nb by (auto simp: cexpTVAssign_def cexpTypeCast_def bind_c_def Let_def)
      qed
    next
      case CUB
      then have "TYPE_SIZE t = 4 \<and> TYPE_SIZE (cv_type x) = 8" using F size by (auto split: if_splits)
      then show ?thesis using CUB False c by (auto simp: cexpTVAssign_def cexpTypeCast_def bind_c_def Let_def)
    qed (use F in \<open>auto split: if_splits\<close>)
  qed
qed

lemma assigned_value_reads_back_witness:
  "\<exists>m' v. cexpTVAssign True fp_int \<lparr>ca_ptv = 16, ca_type = TUShort\<rparr> (num_val TULong 300) (\<lambda>_. 0) = COk m' \<and>
    cexpTA2TV True m' (num_val TULong 0) \<lparr>ca_ptv = 16, ca_type = TUShort\<rparr> = COk v \<and> uval True v = 300"
  using assigned_value_reads_back [where x = "num_val TULong 300" and t = TUShort and lsb = True and a = 16
      and fp = fp_int and m = "\<lambda>_. 0"]
  by (fastforce simp: integral_def TYPE_SIZE_def)

section \<open>What a call passes\<close>

text \<open>The argument that the called function receives for a value.\<close>

definition passed_as :: "bool \<Rightarrow> fp_ops \<Rightarrow> CexpTypedVal \<Rightarrow> fn_arg" where
  "passed_as lsb fp v =
     (if cv_type v = TFloat then DB (fp_f2d fp (get_f lsb (cv_tv v)))
      else if cv_type v = TDouble then DB (get_d lsb (cv_tv v))
      else UL (of_nat (uval lsb v)))"

definition passable :: "CexpTypedVal \<Rightarrow> bool" where
  "passable v \<longleftrightarrow> integral (cv_type v) \<or> FPQ (cv_type v)"

definition as_arg :: "bool \<Rightarrow> bool \<Rightarrow> CexpTypedVal \<Rightarrow> fn_arg" where
  "as_arg lsb f v = (if f then DB (get_d lsb (cv_tv v)) else UL (get_l lsb (cv_tv v)))"

lemma passable_cast:
  assumes "passable v"
  shows "\<exists>v'. cexpTypeCast lsb fp v (if FPQ (cv_type v) then TDouble else TULong) False = COk v' \<and>
    as_arg lsb (FPQ (cv_type v)) v' = passed_as lsb fp v"
proof (cases "FPQ (cv_type v)")
  case True
  then show ?thesis
    by (auto simp: cexpTypeCast_def ctab_def fits_def TYPE_SIZE_def as_arg_def passed_as_def)
next
  case False
  then have i: "integral (cv_type v)" using assms by (auto simp: passable_def)
  have "TYPE_SIZE (cv_type v) \<le> TYPE_SIZE TULong"
    using BASE_size_integral [OF i] by (auto simp: TYPE_SIZE_def)
  then obtain v' where "cexpTypeCast lsb fp v TULong False = COk v'" "cv_type v' = TULong"
    "uval lsb v' = uval lsb v"
    using cast_widen [OF i, of TULong lsb fp] by (auto simp: integral_def)
  then show ?thesis
    using False uval_long [of v' lsb] by (auto simp: as_arg_def passed_as_def)
qed

text \<open>The mask of the loop over the arguments.\<close>

definition mask_from :: "u32 \<Rightarrow> bool list \<Rightarrow> u32" where
  "mask_from m ks = foldl (\<lambda>m f. if f then push_bit 1 m OR 1 else push_bit 1 m) m ks"

lemma mask_from_Nil [simp]: "mask_from m [] = m"
  by (simp add: mask_from_def)

lemma mask_from_Cons: "mask_from m (f # ks) = mask_from (if f then push_bit 1 m OR 1 else push_bit 1 m) ks"
  by (simp add: mask_from_def)

lemma bit_mask_from:
  "i < 32 \<Longrightarrow> bit (mask_from 0 ks) i \<longleftrightarrow> i < length ks \<and> ks ! (length ks - 1 - i)"
proof (induction ks arbitrary: i rule: rev_induct)
  case Nil
  then show ?case by simp
next
  case (snoc f ks)
  have e: "mask_from 0 (ks @ [f]) = push_bit 1 (mask_from 0 ks) OR of_bool f"
    by (simp add: mask_from_def)
  show ?case
  proof (cases i)
    case 0
    then show ?thesis unfolding e by (simp add: bit_simps bit_0 nth_append even_or_iff)
  next
    case (Suc j)
    then have "bit (mask_from 0 (ks @ [f])) i \<longleftrightarrow> bit (mask_from 0 ks) j"
      unfolding e using snoc.prems
      by (simp only: bit_or_iff bit_push_bit_iff) (auto simp: bit_of_bool_iff)
    then show ?thesis using snoc.IH [of j] snoc.prems Suc by (auto simp: nth_append)
  qed
qed

lemma mask_from_0_iff: "length ks \<le> 32 \<Longrightarrow> mask_from 0 ks = 0 \<longleftrightarrow> True \<notin> set ks"
proof -
  assume l: "length ks \<le> 32"
  have "mask_from 0 ks = 0 \<longleftrightarrow> (\<forall>i<32. \<not> bit (mask_from 0 ks) i)"
    by (auto simp: bit_eq_iff dest: bit_imp_le_length)
  also have "\<dots> \<longleftrightarrow> (\<forall>i<length ks. \<not> ks ! (length ks - 1 - i))"
    using l by (auto simp: bit_mask_from)
  also have "\<dots> \<longleftrightarrow> (\<forall>i<length (rev ks). \<not> rev ks ! i)"
    by (auto simp: rev_nth)
  also have "\<dots> \<longleftrightarrow> True \<notin> set (rev ks)" by (simp only: in_set_conv_nth) blast
  finally show ?thesis by simp
qed

lemma fn_args_ok:
  assumes "\<forall>v\<in>set vs. passable v" and "nargs + length vs \<le> MAXARGS"
  shows "\<exists>as. fn_args lsb fp vs nargs m args = COk (mask_from m (map (\<lambda>v. FPQ (cv_type v)) vs), args @ as, False) \<and>
    length as = length vs \<and>
    (\<forall>j<length vs. as_arg lsb (FPQ (cv_type (vs ! j))) (as ! j) = passed_as lsb fp (vs ! j))"
  using assms
proof (induction vs arbitrary: nargs m args)
  case Nil
  then show ?case by simp
next
  case (Cons v vs)
  let ?f = "FPQ (cv_type v)"
  let ?m = "if ?f then push_bit 1 m OR 1 else push_bit 1 m"
  obtain v' where c: "cexpTypeCast lsb fp v (if ?f then TDouble else TULong) False = COk v'"
    "as_arg lsb ?f v' = passed_as lsb fp v"
    using passable_cast [of v lsb fp] Cons.prems(1) by auto
  obtain as where as: "fn_args lsb fp vs (Suc nargs) ?m (args @ [v']) =
      COk (mask_from ?m (map (\<lambda>v. FPQ (cv_type v)) vs), (args @ [v']) @ as, False)"
    "length as = length vs"
    "\<forall>j<length vs. as_arg lsb (FPQ (cv_type (vs ! j))) (as ! j) = passed_as lsb fp (vs ! j)"
    using Cons.IH [of "Suc nargs" ?m "args @ [v']"] Cons.prems by auto
  have "fn_args lsb fp (v # vs) nargs m args =
      COk (mask_from m (map (\<lambda>v. FPQ (cv_type v)) (v # vs)), args @ v' # as, False)"
    using Cons.prems(2) c(1) as(1)
    by (cases ?f) (simp_all add: mask_from_Cons Let_def del: FPQ_iff)
  then show ?case
    using as(2,3) c(2) by (intro exI [of _ "v' # as"]) (auto simp: nth_Cons split: nat.splits)
qed

lemma fn_args_more:
  assumes "\<forall>v\<in>set vs. passable v" and "nargs + length vs > MAXARGS" and "nargs \<le> MAXARGS"
  shows "\<exists>m' as. fn_args lsb fp vs nargs m args = COk (m', as, True)"
  using assms
proof (induction vs arbitrary: nargs m args)
  case Nil
  then show ?case by simp
next
  case (Cons v vs)
  obtain v' where c: "cexpTypeCast lsb fp v (if FPQ (cv_type v) then TDouble else TULong) False = COk v'"
    using passable_cast [of v lsb fp] Cons.prems(1) by auto
  show ?case
  proof (cases "nargs < MAXARGS")
    case True
    then show ?thesis
      using Cons.IH [of "Suc nargs"] Cons.prems c by (simp add: Let_def del: FPQ_iff)
  next
    case False
    then show ?thesis by simp
  qed
qed
lemma as_arg_zero: "as_arg lsb False (zero_val lsb) = UL 0"
  by (simp add: as_arg_def zero_val_def)

text \<open>The bits of the padded mask: the kinds of the arguments, then integers.\<close>

lemma bit_pad_mask:
  assumes "length ks \<le> MAXBITS" and "j < MAXBITS" and "mask_from 0 ks \<noteq> 0"
  shows "bit (pad_mask (mask_from 0 ks) (length ks)) (MAXBITS - 1 - j) \<longleftrightarrow> j < length ks \<and> ks ! j"
proof -
  have lt: "MAXBITS - 1 - j < 32" "length ks \<le> 5" "j < 5"
    using assms(1,2) by (simp_all add: MAXBITS_def)
  show ?thesis
  proof (cases "j < length ks")
    case True
    then have "MAXBITS - 1 - j = (MAXBITS - length ks) + (length ks - 1 - j)"
      using lt by (simp add: MAXBITS_def)
    then have "bit (pad_mask (mask_from 0 ks) (length ks)) (MAXBITS - 1 - j) \<longleftrightarrow>
        bit (mask_from 0 ks) (length ks - 1 - j)"
      using assms(3) lt by (simp add: pad_mask_def bit_push_bit_iff)
    then show ?thesis using True lt by (auto simp: bit_mask_from)
  next
    case False
    then have "\<not> MAXBITS - length ks \<le> MAXBITS - 1 - j" using lt by (simp add: MAXBITS_def)
    then show ?thesis using False assms(3) by (simp add: pad_mask_def bit_push_bit_iff)
  qed
qed

lemma callargs_pad:
  assumes "length as = length ks" and "length ks \<le> MAXBITS" and "mask_from 0 ks \<noteq> 0"
  shows "callargs lsb (pad_mask (mask_from 0 ks) (length ks)) (as @ replicate (MAXBITS - length as) (zero_val lsb)) =
    map2 (as_arg lsb) ks as @ replicate (MAXBITS - length ks) (UL 0)"
proof (rule nth_equalityI)
  show "length (callargs lsb (pad_mask (mask_from 0 ks) (length ks))
      (as @ replicate (MAXBITS - length as) (zero_val lsb))) =
    length (map2 (as_arg lsb) ks as @ replicate (MAXBITS - length ks) (UL 0))"
    using assms by (simp add: callargs_def)
  fix j
  assume "j < length (callargs lsb (pad_mask (mask_from 0 ks) (length ks))
      (as @ replicate (MAXBITS - length as) (zero_val lsb)))"
  then have j: "j < MAXBITS" by (simp add: callargs_def)
  note b = bit_pad_mask [OF assms(2) j assms(3)]
  show "callargs lsb (pad_mask (mask_from 0 ks) (length ks))
      (as @ replicate (MAXBITS - length as) (zero_val lsb)) ! j =
    (map2 (as_arg lsb) ks as @ replicate (MAXBITS - length ks) (UL 0)) ! j"
  proof (cases "j < length ks")
    case True
    then show ?thesis
      using j b assms(1) by (simp add: callargs_def nth_append as_arg_def del: One_nat_def)
  next
    case False
    then show ?thesis
      using j b assms(1,2) as_arg_zero [of lsb]
      by (simp add: callargs_def nth_append as_arg_def del: One_nat_def)
  qed
qed

text \<open>C27: A call of a function at a non-null address, with arguments of types that have values, passes exactly
  the arguments given, in their order:
  floating point numbers as doubles, all other values as their numbers, followed by zeroes up to the
  fixed number of arguments; more arguments than that are refused.\<close>

theorem call_passes_arguments:
  assumes "FUNQ (cv_type fn)" and "get_p lsb (cv_tv fn) \<noteq> 0" and "list_all passable vs"
  shows "cexpTVFnCall lsb fp ufunc dfunc rval fn vs =
    (let fpu = list_ex (\<lambda>v. FPQ (cv_type v)) vs; n = (if fpu then MAXBITS else MAXARGS);
         passed = map (passed_as lsb fp) vs @ replicate (n - length vs) (UL 0)
     in if length vs > n then CErr TooManyArgs rval
        else if cv_type fn = TDFuncP
        then COk \<lparr>cv_tv = set_d lsb (dfunc (get_p lsb (cv_tv fn)) passed) (cv_tv rval), cv_type = TDouble\<rparr>
        else COk \<lparr>cv_tv = set_l lsb (ufunc (get_p lsb (cv_tv fn)) passed) (cv_tv rval), cv_type = TULong\<rparr>)"
proof (cases "length vs \<le> MAXARGS")
  case False
  then have "\<exists>m' as. fn_args lsb fp vs 0 0 [] = COk (m', as, True)"
    using fn_args_more [of vs 0 lsb fp 0 "[]"] assms(3) by (simp add: list_all_iff)
  then show ?thesis
    using False assms(1,2) by (auto simp: cexpTVFnCall_def fn_passed_def Let_def MAXARGS_def MAXBITS_def)
next
  case True
  let ?ks = "map (\<lambda>v. FPQ (cv_type v)) vs"
  obtain as where a: "fn_args lsb fp vs 0 0 [] = COk (mask_from 0 ?ks, as, False)"
    "length as = length vs"
    "\<forall>j<length vs. as_arg lsb (FPQ (cv_type (vs ! j))) (as ! j) = passed_as lsb fp (vs ! j)"
    using fn_args_ok [of vs 0 lsb fp 0 "[]"] True assms(3) by (auto simp: list_all_iff)
  have l32: "length ?ks \<le> 32" using True by (simp add: MAXARGS_def)
  have fpu: "mask_from 0 ?ks \<noteq> 0 \<longleftrightarrow> list_ex (\<lambda>v. FPQ (cv_type v)) vs"
    using mask_from_0_iff [OF l32] by (auto simp: list_ex_iff image_iff)
  have m2: "map2 (as_arg lsb) ?ks as = map (passed_as lsb fp) vs"
    using a(2,3) by (auto intro!: nth_equalityI)
  show ?thesis
  proof (cases "list_ex (\<lambda>v. FPQ (cv_type v)) vs")
    case ex: True
    then have nz: "mask_from 0 ?ks \<noteq> 0" using fpu by blast
    show ?thesis
    proof (cases "length vs \<le> MAXBITS")
      case le: True
      have "callargs lsb (pad_mask (mask_from 0 ?ks) (length vs)) (pad_args lsb (mask_from 0 ?ks) as) =
          map (passed_as lsb fp) vs @ replicate (MAXBITS - length vs) (UL 0)"
        using callargs_pad [of as ?ks lsb] a(2) le nz m2 by (simp add: pad_args_def)
      then show ?thesis
        using assms(1,2) a(1,2) ex nz le by (auto simp: cexpTVFnCall_def fn_passed_def Let_def)
    next
      case False
      then show ?thesis using assms(1,2) a(1,2) ex nz by (auto simp: cexpTVFnCall_def fn_passed_def Let_def)
    qed
  next
    case nex: False
    then have z: "mask_from 0 ?ks = 0" using fpu by blast
    have kf: "\<And>j. j < length vs \<Longrightarrow> \<not> FPQ (cv_type (vs ! j))"
      using nex by (auto simp: list_ex_iff)
    have "map (\<lambda>a. UL (get_l lsb (cv_tv a))) as = map (passed_as lsb fp) vs"
      using a(2,3) kf by (auto intro!: nth_equalityI simp: as_arg_def)
    moreover have "UL (get_l lsb (cv_tv (zero_val lsb))) = UL 0"
      using as_arg_zero [of lsb] by (simp add: as_arg_def)
    ultimately show ?thesis
      using assms(1,2) a(1,2) nex z True by (auto simp: cexpTVFnCall_def fn_passed_def Let_def pad_args_def)
  qed
qed

lemma call_passes_arguments_witness:
  "cexpTVFnCall True fp_int (\<lambda>a args. if args = [UL 3, DB 9, UL 0, UL 0, UL 0] then a else 0) (\<lambda>_ _. 0)
     (num_val TULong 0) (num_val TFuncP 77) [num_val TUChar 3, num_val TDouble 9] =
   COk \<lparr>cv_tv = set_l True 77 (le_bytes 8 (0 :: u64)), cv_type = TULong\<rparr>"
proof -
  have "get_p True (cv_tv (num_val TFuncP 77)) = 77" "get_d True (cv_tv (num_val TDouble 9)) = 9"
    "uval True (num_val TUChar 3) = 3"
    by code_simp+
  moreover have "cv_tv (num_val TULong 0) = le_bytes 8 (0 :: u64)" by (simp add: num_val_def)
  moreover have "replicate (5 - 2) (UL 0) = [UL 0, UL 0, UL 0]" by (simp add: numeral_eq_Suc)
  ultimately show ?thesis
    using call_passes_arguments [of "num_val TFuncP 77" True "[num_val TUChar 3, num_val TDouble 9]" fp_int
        "\<lambda>a args. if args = [UL 3, DB 9, UL 0, UL 0, UL 0] then a else 0" "\<lambda>_ _. 0" "num_val TULong 0"]
    by (simp add: passable_def integral_def passed_as_def Let_def MAXBITS_def)
qed
section \<open>No assertion fails\<close>

lemma fits_not_abort:
  "TYPE_SIZE (cv_type v) \<le> TYPE_SIZE t \<or> integral (cv_type v) \<or> FPQ (cv_type v) \<Longrightarrow>
     fits lsb v t \<noteq> CAbort"
  by (cases "cv_type v") (auto simp: fits_def integral_def Let_def)

lemma fits_not_err: "fits lsb v t \<noteq> CErr e b"
  by (cases "cv_type v") (auto simp: fits_def Let_def)

lemma conv_fp_not_abort: "conv_fp lsb fp n to u \<noteq> CAbort"
  by (auto simp: conv_fp_def conv_trunc_def split: option.splits)

lemma ctab_not_abort: "ctab lsb fp from to = Some c \<Longrightarrow> c u \<noteq> CAbort"
  by (auto simp: ctab_def conv_fp_not_abort split: if_splits)

lemma cast_not_abort:
  assumes "TYPE_SIZE (cv_type v) \<le> TYPE_SIZE t \<or> integral (cv_type v) \<or> FPQ (cv_type v)"
  shows "cexpTypeCast lsb fp v t force \<noteq> CAbort"
proof (cases "PTRQ (cv_type v) \<and> PTRQ t")
  case True
  then show ?thesis by (simp add: cexpTypeCast_def)
next
  case False
  let ?from = "if PTRQ (cv_type v) then INDX TVoidP else INDX (cv_type v)"
  let ?to = "if \<not> PTRQ (cv_type v) \<and> PTRQ t then INDX TVoidP else INDX t"
  let ?fit = "if force then COk True else fits lsb v t"
  have f: "?fit \<noteq> CAbort" using fits_not_abort [OF assms, of lsb] by simp
  show ?thesis
  proof (cases "ctab lsb fp ?from ?to")
    case None
    then show ?thesis using False by (simp add: cexpTypeCast_def Let_def)
  next
    case (Some c)
    note n = ctab_not_abort [OF Some, of "cv_tv v"]
    show ?thesis
      using False Some f n
      by (cases ?fit; cases "c (cv_tv v)") (auto simp: cexpTypeCast_def Let_def split: bool.split)
  qed
qed

lemma cast_type: "cexpTypeCast lsb fp v t force = COk v' \<Longrightarrow> cv_type v' = t"
  by (auto simp: cexpTypeCast_def Let_def split: option.splits cexp_res.splits if_splits bool.splits)

lemma bind_c_abort: "bind_c r y f = CAbort \<longleftrightarrow> r = CAbort \<or> (\<exists>v. r = COk v \<and> f v = CAbort)"
  by (cases r) auto

lemma promote_not_abort: "cexpTypePromote lsb fp a b \<noteq> CAbort"
proof (cases "PTRQ (cv_type a) \<or> PTRQ (cv_type b)")
  case True
  then show ?thesis by (auto simp: cexpTypePromote_def)
next
  case False
  have "cexpTypeCast lsb fp a (cv_type b) False \<noteq> CAbort"
    if "FPQ (cv_type a) \<or> FPQ (cv_type b) \<or> \<not> BASE_TYPE_SIZE (cv_type a) > BASE_TYPE_SIZE (cv_type b)"
    using that False cast_not_abort [of a "cv_type b" lsb fp False]
    by (cases "cv_type a"; cases "cv_type b") (auto simp: TYPE_SIZE_def integral_def)
  moreover have "cexpTypeCast lsb fp b (cv_type a) False \<noteq> CAbort"
    if "FPQ (cv_type a) \<or> FPQ (cv_type b) \<or> BASE_TYPE_SIZE (cv_type a) > BASE_TYPE_SIZE (cv_type b)"
    using that False cast_not_abort [of b "cv_type a" lsb fp False]
    by (cases "cv_type a"; cases "cv_type b") (auto simp: TYPE_SIZE_def integral_def)
  ultimately show ?thesis
    using False by (auto simp: cexpTypePromote_def Let_def bind_c_abort)
qed

lemma promote_types:
  "cexpTypePromote lsb fp a b = COk (v, w) \<Longrightarrow> cv_type v = cv_type w \<and> \<not> PTRQ (cv_type v)"
  by (auto simp: cexpTypePromote_def bind_c_def Let_def dest!: cast_type split: if_splits cexp_res.splits)

lemma arith_l_not_abort: "arith_l opr a b \<noteq> CAbort"
  by (cases opr) (auto simp: arith_l_def)

lemma binop_not_abort:
  assumes "cv_type v = cv_type w" and "\<not> PTRQ (cv_type v)"
  shows "binop lsb fp y v w opr \<noteq> CAbort"
proof (cases "SCALARQ (cv_type v)")
  case True
  then have i: "integral (cv_type v)" "integral (cv_type w)" using assms(1) by (simp_all add: integral_def)
  have c1: "cexpTypeCast lsb fp v TULong False \<noteq> CAbort" "cexpTypeCast lsb fp w TULong False \<noteq> CAbort"
    using i cast_not_abort by blast+
  have "integral TULong" by (simp add: integral_def)
  then have c2: "cexpTypeCast lsb fp (y\<lparr>cv_type := TULong, cv_tv := u\<rparr>) t True \<noteq> CAbort" for u t
    using cast_not_abort [of "y\<lparr>cv_type := TULong, cv_tv := u\<rparr>"] by simp
  show ?thesis
    using True assms c1 c2 arith_l_not_abort
    by (auto simp: binop_def Let_def bind_c_abort simp del: SCALARQ_iff)
next
  case False
  then show ?thesis
    using assms by (auto simp: binop_def Let_def simp del: SCALARQ_iff split: option.splits)
qed

text \<open>No binary operation, on values of whatever types, ends in one of the assertions of the
  code.\<close>

lemma binary_operation_never_aborts:
  "cexpTVBinOp lsb fp al y x1 x2 opr \<noteq> CAbort"
proof -
  have up: "TYPE_SIZE t \<le> 8" for t by (cases t) (auto simp: TYPE_SIZE_def)
  have c8: "cexpTypeCast lsb fp v TULong False \<noteq> CAbort" "cexpTypeCast lsb fp v TDouble False \<noteq> CAbort" for v
    using cast_not_abort [of v TULong lsb fp False] cast_not_abort [of v TDouble lsb fp False]
      up [of "cv_type v"] by (auto simp: TYPE_SIZE_def)
  have cmp: "compare_vals lsb fp al y x1 x2 opr \<noteq> CAbort"
    using c8 by (simp add: compare_vals_def Let_def bind_c_abort del: FPQ_iff split: option.split)
  have diff: "ptr_diff lsb al y x1 x2 opr \<noteq> CAbort" by (auto simp: ptr_diff_def Let_def)
  have arith: "ptr_arith lsb fp y p n opr \<noteq> CAbort" for p n
    using c8(1) [of n] by (cases "cexpTypeCast lsb fp n TULong False") (simp_all add: ptr_arith_def Let_def)
  have bin: "bind_c (cexpTypePromote lsb fp x1 x2) y (\<lambda>(v, w). binop lsb fp y v w opr) \<noteq> CAbort"
  proof (cases "cexpTypePromote lsb fp x1 x2")
    case (COk vw)
    then show ?thesis
      using promote_types [of lsb fp x1 x2 "fst vw" "snd vw"] binop_not_abort [of "fst vw" "snd vw" lsb fp y opr]
      by (cases vw) auto
  qed (use promote_not_abort [of lsb fp x1 x2] in simp_all)
  show ?thesis using cmp diff arith bin by (simp add: cexpTVBinOp_def)
qed

section \<open>Unary operators\<close>

lemma unat_uminus: "unat (- x) = (2 ^ LENGTH('a) - unat x) mod 2 ^ LENGTH('a)" for x :: "'a::len word"
proof -
  have "unat x + (2 ^ LENGTH('a) - unat x) = 2 ^ LENGTH('a)"
    using unsigned_less [of x, where 'a=nat] by (intro le_add_diff_inverse less_imp_le)
  then have "(of_nat (unat x + (2 ^ LENGTH('a) - unat x)) :: 'a word) = of_nat (2 ^ LENGTH('a))"
    by (rule arg_cong)
  then have "x + of_nat (2 ^ LENGTH('a) - unat x) = 0" by simp
  then have "- x = of_nat (2 ^ LENGTH('a) - unat x)" by (rule minus_unique)
  then show ?thesis by (simp only: unat_of_nat)
qed

lemma complement_mod:
  assumes w: "w \<le> 64" and u: "u < 2 ^ w"
  shows "(2 ^ 64 - 1 - u) mod 2 ^ w = 2 ^ w - 1 - (u::nat)"
proof -
  have e: "(2::nat) ^ 64 = 2 ^ (64 - w) * 2 ^ w" using w by (simp only: power_add [symmetric]) simp
  have "2 ^ 64 - 1 - u = (2 ^ (64 - w) - 1) * 2 ^ w + (2 ^ w - 1 - u)"
    unfolding e using u by (simp add: diff_mult_distrib)
  then have "(2 ^ 64 - 1 - u) mod 2 ^ w = (2 ^ w - 1 - u) mod 2 ^ w"
    by (simp only: mod_mult_self3)
  also have "\<dots> = 2 ^ w - 1 - u" by (intro mod_less) simp
  finally show ?thesis .
qed

lemma unat_complement: "unat (NOT x) = 2 ^ 64 - 1 - unat (x :: u64)"
proof -
  have "unat (-1 - x) = unat (-1 :: u64) - unat x" by (rule unat_sub) simp
  moreover have "unat (-1 :: u64) = 2 ^ 64 - 1" by (simp add: unsigned_minus_1_eq_mask mask_eq_exp_minus_1)
  moreover have "NOT x = -1 - x" by (simp add: not_eq_complement)
  ultimately show ?thesis by simp
qed

lemma negation:
  assumes "SCALARQ (cv_type x)"
  shows "if width (cv_type x) \<ge> 32 \<and> uval lsb x = 2 ^ (width (cv_type x) - 1)
       then cexpTVUnOp lsb fp y x ONeg = CUB
       else \<exists>z. cexpTVUnOp lsb fp y x ONeg = COk z \<and> cv_type z = cv_type x \<and>
         uval lsb z = (2 ^ width (cv_type x) - uval lsb x) mod 2 ^ width (cv_type x)"
proof -
  have i: "unat w = 2 ^ 31 \<longleftrightarrow> w = 0x80000000" for w :: u32
    by (simp add: word_unat_eq_iff)
  have l: "unat w = 2 ^ 63 \<longleftrightarrow> w = 0x8000000000000000" for w :: u64
    by (simp add: word_unat_eq_iff)
  note ui = unat_uminus [of "w :: u32" for w, simplified] unat_uminus [of "w :: u64" for w, simplified]
    unat_uminus [of "w :: u8" for w, simplified] unat_uminus [of "w :: u16" for w, simplified]
  consider "cv_type x = TUChar" | "cv_type x = TUShort" | "cv_type x = TUInt" | "cv_type x = TULong"
    using assms by auto
  then show ?thesis
  proof cases
    case 1
    then show ?thesis by (simp add: cexpTVUnOp_def Let_def uval_def ui)
  next
    case 2
    then show ?thesis by (simp add: cexpTVUnOp_def Let_def uval_def ui)
  next
    case 3
    then show ?thesis using i [of "get_i lsb (cv_tv x)"] by (simp add: cexpTVUnOp_def Let_def uval_def ui)
  next
    case 4
    then show ?thesis using l [of "get_l lsb (cv_tv x)"] by (simp add: cexpTVUnOp_def Let_def uval_def ui)
  qed
qed

lemma complement:
  assumes "SCALARQ (cv_type x)"
  shows "\<exists>z. cexpTVUnOp lsb fp y x OCpl = COk z \<and> cv_type z = cv_type x \<and>
      uval lsb z = 2 ^ width (cv_type x) - 1 - uval lsb x"
proof -
  note I = scalar_integral [OF assms]
  have ul: "integral TULong" "\<not> PTRQ TULong" by (simp_all add: integral_def)
  have le8: "TYPE_SIZE (cv_type x) \<le> TYPE_SIZE TULong" using assms by (auto simp: TYPE_SIZE_def)
  obtain v where v: "cexpTypeCast lsb fp x TULong False = COk v" "cv_type v = TULong"
    "uval lsb v = uval lsb x"
    using cast_widen [of x TULong lsb fp] I ul le8 by blast
  define c where "c = v\<lparr>cv_tv := set_l lsb (NOT (get_l lsb (cv_tv v))) (cv_tv v)\<rparr>"
  have tc: "cv_type c = TULong" using v(2) by (simp add: c_def)
  have "get_l lsb (cv_tv c) = NOT (of_nat (uval lsb x))"
    unfolding v(3) [symmetric] uval_long [OF v(2), symmetric] by (simp add: c_def)
  moreover have "uval lsb c = unat (get_l lsb (cv_tv c))" by (simp add: uval_def tc)
  ultimately have "uval lsb c = unat (NOT (of_nat (uval lsb x) :: u64))" by (simp only:)
  also have "\<dots> = 2 ^ 64 - 1 - unat (of_nat (uval lsb x) :: u64)" by (rule unat_complement)
  also have "unat (of_nat (uval lsb x) :: u64) = uval lsb x"
    using uval_less_64 [of lsb x] by (intro unat_of_nat_small) simp
  finally have uc: "uval lsb c = 2 ^ 64 - 1 - uval lsb x" .
  have ix: "integral (cv_type x)" "\<not> PTRQ (cv_type x)" using I by blast+
  have ic: "integral (cv_type c)" "\<not> (PTRQ (cv_type c) \<and> PTRQ (cv_type x))"
    unfolding tc using ul by blast+
  obtain z where z: "cexpTypeCast lsb fp c (cv_type x) True = COk z" "cv_type z = cv_type x"
    "uval lsb z = uval lsb c mod 2 ^ width (cv_type x)"
    using cast_value [OF ic(1) ix(1) ic(2), of True lsb fp] by blast
  have "uval lsb z = 2 ^ width (cv_type x) - 1 - uval lsb x"
    unfolding z(3) uc by (rule complement_mod [OF width_le_64 [OF ix(1)] uval_less [OF ix(1)]])
  moreover have "cexpTVUnOp lsb fp y x OCpl = COk z"
    using assms v(1) z(1) [unfolded c_def] by (simp add: cexpTVUnOp_def Let_def del: SCALARQ_iff)
  ultimately show ?thesis using z(2) by blast
qed

text \<open>The complement of an unsigned integer has all its bits inverted, and its negative is the
  additive inverse modulo the size of its type, except that negating 2^31 in four bytes and 2^63 in eight
  bytes is undefined.\<close>

lemma unary_operators:
  assumes "SCALARQ (cv_type x)"
  shows "(\<exists>z. cexpTVUnOp lsb fp y x OCpl = COk z \<and> cv_type z = cv_type x \<and>
      uval lsb z = 2 ^ width (cv_type x) - 1 - uval lsb x)
    \<and> (if width (cv_type x) \<ge> 32 \<and> uval lsb x = 2 ^ (width (cv_type x) - 1)
       then cexpTVUnOp lsb fp y x ONeg = CUB
       else \<exists>z. cexpTVUnOp lsb fp y x ONeg = COk z \<and> cv_type z = cv_type x \<and>
         uval lsb z = (2 ^ width (cv_type x) - uval lsb x) mod 2 ^ width (cv_type x))"
  using complement [OF assms] negation [OF assms] by blast

lemma unary_operators_witness:
  "\<exists>z. cexpTVUnOp True fp_int (num_val TULong 0) (num_val TUShort 5) OCpl = COk z \<and> uval True z = 65530"
  using unary_operators [of "num_val TUShort 5" True fp_int "num_val TULong 0"]
  by (auto simp: integral_def)

end
