(* ===== verification/Syms.thy ===== *)
theory Syms imports Ctyps "HOL-Library.List_Lexorder" "HOL-Library.Char_ord" "HOL-Library.Multiset" begin

text \<open>
  Symbol tables (\<open>cexpsyms.h\<close>, \<open>cexpsymsP.h\<close>, \<open>cexpsyms.c\<close>): the comparison of names with its treatment
  of versions, construction, sorting and look-up by name, by expression and by address. A pointer to a
  symbol is its index in the table. \<open>sc\<close> tells whether \<open>char\<close> is signed, \<open>mok\<close> which allocations of a
  call succeed. The sorting function of the C library is a parameter with the contract \<open>qsort_ok\<close>.
\<close>

section \<open>Names\<close>

definition LINKER_VERSION_SEPARATOR :: char where "LINKER_VERSION_SEPARATOR = CHR ''@''"

text \<open>The number a \<open>char\<close> is promoted to.\<close>

definition chv :: "bool \<Rightarrow> char \<Rightarrow> int" where
  "chv sc c = (let n = of_char c in if sc \<and> n \<ge> 128 then n - 256 else n)"

text \<open>The comparison of a key with a name in the table; the names are the strings before the final 0.\<close>

fun namecomp :: "bool \<Rightarrow> string \<Rightarrow> string \<Rightarrow> int" where
  "namecomp sc [] c =
     (case c of [] \<Rightarrow> 0 | x # _ \<Rightarrow> if x = LINKER_VERSION_SEPARATOR then 0 else -1)"
| "namecomp sc (k # ks) [] = chv sc k"
| "namecomp sc (k # ks) (c # cs) =
     (let rval = chv sc k - chv sc c in if rval \<noteq> 0 then rval else namecomp sc ks cs)"

text \<open>
  A name is \<open>plain\<close> when it is a C string of 7-bit characters that carries no version. On plain names the
  comparison is the lexicographic order.
\<close>

definition plain :: "string \<Rightarrow> bool" where
  "plain s \<longleftrightarrow> (\<forall>c \<in> set s. c \<noteq> CHR 0x00 \<and> c \<noteq> LINKER_VERSION_SEPARATOR \<and> of_char c < (128 :: int))"

lemma plain_simps [simp]:
  "plain []"
  "plain (c # s) \<longleftrightarrow>
     c \<noteq> CHR 0x00 \<and> c \<noteq> LINKER_VERSION_SEPARATOR \<and> of_char c < (128 :: int) \<and> plain s"
  by (auto simp: plain_def)

lemma chv_7bit [simp]: "of_char c < (128 :: int) \<Longrightarrow> chv sc c = of_char c"
  by (simp add: chv_def)

lemma of_char_pos: "c \<noteq> CHR 0x00 \<Longrightarrow> 0 < (of_char c :: int)"
proof -
  assume "c \<noteq> CHR 0x00"
  then have "(of_char c :: int) \<noteq> of_char (CHR 0x00)" by (simp only: of_char_eq_iff not_False_eq_True)
  moreover have "0 \<le> (of_char c :: int)"
    using pos_mod_sign [of "256 :: int" "of_char c"] by simp
  ultimately show ?thesis by simp
qed

lemma less_char_int: "c < d \<longleftrightarrow> of_char c < (of_char d :: int)"
  by (metis less_char_def of_nat_less_iff of_nat_of_char)

lemma namecomp_0_iff: "plain k \<Longrightarrow> plain c \<Longrightarrow> namecomp sc k c = 0 \<longleftrightarrow> k = c"
  by (induction sc k c rule: namecomp.induct) (auto simp: Let_def split: list.splits dest: of_char_pos)

lemma namecomp_less_iff: "plain k \<Longrightarrow> plain c \<Longrightarrow> namecomp sc k c < 0 \<longleftrightarrow> k < c"
  by (induction sc k c rule: namecomp.induct)
    (auto simp: Let_def less_char_int split: list.splits dest: of_char_pos)

lemma namecomp_le_iff: "plain k \<Longrightarrow> plain c \<Longrightarrow> namecomp sc k c \<le> 0 \<longleftrightarrow> k \<le> c"
  using namecomp_0_iff [of k c sc] namecomp_less_iff [of k c sc] by (auto simp: le_less)

section \<open>Symbols and tables\<close>

text \<open>The name of the record behind the last symbol is a null pointer.\<close>

record CexpSym =
  sy_name :: "string option"
  sy_value :: CexpTypedAddr
  sy_size :: u32
  sy_flags :: u32
  sy_help :: "string option"

definition CEXP_SYMFLG_GLBL :: u32 where "CEXP_SYMFLG_GLBL = push_bit 0 1"
definition CEXP_SYMFLG_WEAK :: u32 where "CEXP_SYMFLG_WEAK = push_bit 1 1"
definition CEXP_SYMFLG_MALLOC_HELP :: u32 where "CEXP_SYMFLG_MALLOC_HELP = push_bit 3 1"
definition CEXP_SYMFLG_SECT :: u32 where "CEXP_SYMFLG_SECT = push_bit 4 1"

text \<open>The record after \<open>memset\<close>.\<close>

definition zero_sym :: CexpSym where
  "zero_sym = \<lparr>sy_name = None, sy_value = \<lparr>ca_ptv = 0, ca_type = TVoid\<rparr>, sy_size = 0, sy_flags = 0,
     sy_help = None\<rparr>"

text \<open>
  \<open>st_syms\<close> are the records of the array that have been written, \<open>None\<close> the null pointer; \<open>st_strtbl\<close> the
  chunks of characters, the newest first; \<open>st_aindex\<close> the indices of symbols.
\<close>

record CexpSymTbl =
  st_nentries :: nat
  st_size :: nat
  st_syms :: "CexpSym list option"
  st_strtbl :: "string list"
  st_aindex :: "nat list option"

definition zero_tbl :: CexpSymTbl where
  "zero_tbl = \<lparr>st_nentries = 0, st_size = 0, st_syms = None, st_strtbl = [], st_aindex = None\<rparr>"

definition syms_of :: "CexpSymTbl \<Rightarrow> CexpSym list" where
  "syms_of t = (case st_syms t of None \<Rightarrow> [] | Some ss \<Rightarrow> ss)"

definition name_of :: "CexpSym \<Rightarrow> string" where
  "name_of s = (case sy_name s of None \<Rightarrow> [] | Some n \<Rightarrow> n)"

definition addrcomp :: "CexpSym \<Rightarrow> CexpSym \<Rightarrow> int" where
  "addrcomp a b =
     (if ca_ptv (sy_value a) > ca_ptv (sy_value b) then 1
      else if ca_ptv (sy_value a) < ca_ptv (sy_value b) then -1 else 0)"

section \<open>Sorting and searching in the C library\<close>

text \<open>
  What \<open>qsort\<close> promises: when the comparison is consistent on the elements (a total preorder), the result
  has the same elements in ascending order.
\<close>

definition consistent :: "('a \<Rightarrow> 'a \<Rightarrow> int) \<Rightarrow> 'a set \<Rightarrow> bool" where
  "consistent cmp A \<longleftrightarrow>
     (\<forall>a \<in> A. \<forall>b \<in> A. (cmp a b < 0 \<longleftrightarrow> cmp b a > 0)) \<and>
     (\<forall>a \<in> A. \<forall>b \<in> A. \<forall>c \<in> A. cmp a b \<le> 0 \<longrightarrow> cmp b c \<le> 0 \<longrightarrow> cmp a c \<le> 0)"

definition qsort_ok :: "(('a \<Rightarrow> 'a \<Rightarrow> int) \<Rightarrow> 'a list \<Rightarrow> 'a list) \<Rightarrow> bool" where
  "qsort_ok qs \<longleftrightarrow>
     (\<forall>cmp xs. consistent cmp (set xs) \<longrightarrow>
        mset (qs cmp xs) = mset xs \<and> sorted_wrt (\<lambda>a b. cmp a b \<le> 0) (qs cmp xs))"

text \<open>A function that meets the contract.\<close>

fun insert_by :: "('a \<Rightarrow> 'a \<Rightarrow> int) \<Rightarrow> 'a \<Rightarrow> 'a list \<Rightarrow> 'a list" where
  "insert_by cmp x [] = [x]"
| "insert_by cmp x (y # ys) = (if cmp x y \<le> 0 then x # y # ys else y # insert_by cmp x ys)"

definition sort_by :: "('a \<Rightarrow> 'a \<Rightarrow> int) \<Rightarrow> 'a list \<Rightarrow> 'a list" where
  "sort_by cmp xs = foldr (insert_by cmp) xs []"

lemma mset_insert_by [simp]: "mset (insert_by cmp x ys) = add_mset x (mset ys)"
  by (induction ys) auto

lemma mset_sort_by [simp]: "mset (sort_by cmp xs) = mset xs"
  by (induction xs) (simp_all add: sort_by_def)

lemma set_insert_by [simp]: "set (insert_by cmp x ys) = insert x (set ys)"
  by (induction ys) auto

lemma set_sort_by [simp]: "set (sort_by cmp xs) = set xs"
  by (induction xs) (simp_all add: sort_by_def)

lemma consistentD:
  assumes "consistent cmp A" and "a \<in> A" and "b \<in> A"
  shows "cmp a b < 0 \<longleftrightarrow> cmp b a > 0"
    and "c \<in> A \<Longrightarrow> cmp a b \<le> 0 \<Longrightarrow> cmp b c \<le> 0 \<Longrightarrow> cmp a c \<le> 0"
  using assms unfolding consistent_def by blast+

lemma consistent_mono: "consistent cmp A \<Longrightarrow> B \<subseteq> A \<Longrightarrow> consistent cmp B"
  unfolding consistent_def by blast

lemma sorted_insert_by:
  assumes "consistent cmp (insert x (set ys))" and "sorted_wrt (\<lambda>a b. cmp a b \<le> 0) ys"
  shows "sorted_wrt (\<lambda>a b. cmp a b \<le> 0) (insert_by cmp x ys)"
  using assms
proof (induction ys)
  case (Cons y ys)
  have c: "consistent cmp (insert x (set ys))"
    by (rule consistent_mono [OF Cons.prems(1)]) auto
  have in1: "x \<in> insert x (set (y # ys))" "y \<in> insert x (set (y # ys))" by simp_all
  show ?case
  proof (cases "cmp x y \<le> 0")
    case True
    have "cmp x z \<le> 0" if "z \<in> set ys" for z
      using consistentD(2) [OF Cons.prems(1) in1, of z] Cons.prems(2) True that by simp
    then show ?thesis using True Cons.prems(2) by simp
  next
    case False
    then have "cmp y x \<le> 0" using consistentD(1) [OF Cons.prems(1) in1(2,1)] by linarith
    then show ?thesis using False Cons.IH [OF c] Cons.prems(2) by simp
  qed
qed simp

lemma sorted_sort_by: "consistent cmp (set xs) \<Longrightarrow> sorted_wrt (\<lambda>a b. cmp a b \<le> 0) (sort_by cmp xs)"
proof (induction xs)
  case (Cons x xs)
  have "consistent cmp (set xs)" by (rule consistent_mono [OF Cons.prems]) auto
  then show ?case
    using Cons.IH Cons.prems sorted_insert_by [of cmp x "sort_by cmp xs"]
    by (simp add: sort_by_def [of cmp "x # xs"] sort_by_def [of cmp xs, symmetric])
qed (simp add: sort_by_def)

lemma sort_by_ok [simp]: "qsort_ok sort_by"
  by (simp add: qsort_ok_def sorted_sort_by)

text \<open>
  \<open>bsearch\<close>: \<open>cmp i\<close> compares the key with the element at \<open>i\<close>, \<open>None\<close> when there is no such element.
\<close>

function bsearch :: "(nat \<Rightarrow> int option) \<Rightarrow> nat \<Rightarrow> nat \<Rightarrow> nat res" where
  "bsearch cmp l u =
     (if l < u then
        let idx = (l + u) div 2 in
        case cmp idx of
          None \<Rightarrow> UB
        | Some c \<Rightarrow> if c < 0 then bsearch cmp l idx
                     else if c > 0 then bsearch cmp (idx + 1) u
                     else Ok idx
      else Fail 0)"
  by auto
termination by (relation "measure (\<lambda>(cmp, l, u). u - l)") auto

declare bsearch.simps [simp del]

text \<open>
  The elements below \<open>l\<close> are less than the key and those from \<open>u\<close> on are greater, and this stays so.
\<close>

lemma bsearch_sorted:
  assumes "\<forall>i<n. cmp i \<noteq> None"
    and "\<forall>i j. i < j \<longrightarrow> j < n \<longrightarrow> the (cmp i) \<le> 0 \<longrightarrow> the (cmp j) < 0"
    and "u \<le> n" and "\<forall>i<l. cmp i \<noteq> Some 0" and "\<forall>i. u \<le> i \<and> i < n \<longrightarrow> cmp i \<noteq> Some 0"
  shows "(\<exists>i<n. cmp i = Some 0 \<and> bsearch cmp l u = Ok i)
    \<or> (\<forall>i<n. cmp i \<noteq> Some 0) \<and> bsearch cmp l u = Fail 0"
  using assms(3-)
proof (induction "u - l" arbitrary: l u rule: less_induct)
  case less
  show ?case
  proof (cases "l < u")
    case False
    then have "cmp i \<noteq> Some 0" if "i < n" for i
      using less.prems that by (cases "i < l") auto
    then show ?thesis using False by (simp add: bsearch.simps)
  next
    case True
    define m where "m = (l + u) div 2"
    have m: "l \<le> m" "m < u" "m < n" using True less.prems(1) by (auto simp: m_def)
    then obtain c where c: "cmp m = Some c" using assms(1) by blast
    consider "c < 0" | "c > 0" | "c = 0" by linarith
    then show ?thesis
    proof cases
      case 1
      have "cmp i \<noteq> Some 0" if "m \<le> i" "i < n" for i
        using assms(2) [rule_format, of m i] c 1 that by (cases "i = m") auto
      then have "(\<exists>i<n. cmp i = Some 0 \<and> bsearch cmp l m = Ok i)
          \<or> (\<forall>i<n. cmp i \<noteq> Some 0) \<and> bsearch cmp l m = Fail 0"
        using less.hyps [of m l] less.prems m by simp
      moreover have "bsearch cmp l u = bsearch cmp l m"
        by (subst bsearch.simps) (use True c 1 in \<open>simp add: Let_def m_def [symmetric]\<close>)
      ultimately show ?thesis by simp
    next
      case 2
      have "cmp i \<noteq> Some 0" if "i < m + 1" for i
        using assms(2) [rule_format, of i m] c 2 that m by (cases "i = m") auto
      then have "(\<exists>i<n. cmp i = Some 0 \<and> bsearch cmp (m + 1) u = Ok i)
          \<or> (\<forall>i<n. cmp i \<noteq> Some 0) \<and> bsearch cmp (m + 1) u = Fail 0"
        using less.hyps [of u "m + 1"] less.prems m by simp
      moreover have "bsearch cmp l u = bsearch cmp (m + 1) u"
        by (subst bsearch.simps) (use True c 2 in \<open>simp add: Let_def m_def [symmetric]\<close>)
      ultimately show ?thesis by simp
    next
      case 3
      have "bsearch cmp l u = Ok m"
        by (subst bsearch.simps) (use True c 3 in \<open>simp add: Let_def m_def [symmetric]\<close>)
      then show ?thesis using c 3 m by auto
    qed
  qed
qed

section \<open>Look-up by name\<close>

definition cexpSymTblLookup :: "bool \<Rightarrow> string \<Rightarrow> CexpSymTbl \<Rightarrow> nat res" where
  "cexpSymTblLookup sc key t =
     bsearch (\<lambda>i. if i < length (syms_of t) then map_option (namecomp sc key) (sy_name (syms_of t ! i))
                  else None) 0 (st_nentries t)"

text \<open>
  The symbols from number \<open>s\<close> on whose name matches, until \<open>mx\<close> have been found: the last one found, and
  what is left of \<open>mx\<close>; nothing when the end of the table is reached.
\<close>

fun regex_loop :: "(string \<Rightarrow> bool) \<Rightarrow> CexpSym list \<Rightarrow> nat \<Rightarrow> int \<Rightarrow> nat option \<Rightarrow> (nat option \<times> int) res" where
  "regex_loop re [] s mx found = UB"
| "regex_loop re (x # xs) s mx found =
     (case sy_name x of
        None \<Rightarrow> Ok (None, mx)
      | Some n \<Rightarrow>
          if mx = 0 then Ok (found, mx)
          else if re n then regex_loop re xs (s + 1) (mx - 1) (Some s)
          else regex_loop re xs (s + 1) mx found)"

definition lookupRegex_rc ::
    "(string \<Rightarrow> bool) \<Rightarrow> int option \<Rightarrow> nat option \<Rightarrow> CexpSymTbl \<Rightarrow> (nat option \<times> int) res" where
  "lookupRegex_rc rc pmax s t =
     (let mx = (case pmax of None \<Rightarrow> 24 | Some n \<Rightarrow> n); k = (case s of None \<Rightarrow> 0 | Some k \<Rightarrow> k)
      in regex_loop rc (drop k (syms_of t)) k mx None)"

text \<open>\<open>regcomp\<close> is the compiler of the library of regular expressions.\<close>

definition cexpSymTblLookupRegex ::
    "(string \<Rightarrow> (string \<Rightarrow> bool) option) \<Rightarrow> string \<Rightarrow> int option \<Rightarrow> nat option \<Rightarrow> CexpSymTbl \<Rightarrow>
       (nat option \<times> int) res" where
  "cexpSymTblLookupRegex regcomp re pmax s t =
     (case regcomp re of
        None \<Rightarrow> Ok (None, case pmax of None \<Rightarrow> 24 | Some n \<Rightarrow> n)
      | Some rc \<Rightarrow> lookupRegex_rc rc pmax s t)"

section \<open>Construction\<close>

definition cexpNewSymTbl :: "(nat \<Rightarrow> bool) \<Rightarrow> nat \<Rightarrow> CexpSymTbl option" where
  "cexpNewSymTbl mok n_entries =
     (if \<not> mok 0 then None
      else if n_entries \<noteq> 0 \<and> \<not> mok 1 then None
      else Some (zero_tbl\<lparr>st_syms := if n_entries \<noteq> 0 then Some [] else None, st_size := n_entries\<rparr>))"

definition marker :: string where "marker = ''+%2W''"

text \<open>The inner loop: the first record from \<open>fr\<close> on whose name differs from \<open>key\<close>.\<close>

function skip_eq :: "bool \<Rightarrow> CexpSym list \<Rightarrow> string \<Rightarrow> nat \<Rightarrow> nat res" where
  "skip_eq sc ss key fr =
     (if fr < length ss then
        (case sy_name (ss ! fr) of
           None \<Rightarrow> UB
         | Some c \<Rightarrow> if namecomp sc key c = 0 then skip_eq sc ss key (fr + 1) else Ok fr)
      else UB)"
  by auto
termination by (relation "measure (\<lambda>(sc, ss, key, fr). length ss - fr)") auto

declare skip_eq.simps [simp del]

lemma skip_eq_ge: "skip_eq sc ss key fr = Ok k \<Longrightarrow> fr \<le> k"
proof (induction sc ss key fr rule: skip_eq.induct)
  case (1 sc ss key fr)
  show ?case
    using 1(2) [unfolded skip_eq.simps [of sc ss key fr]] 1(1)
    by (auto split: if_splits option.splits dest: Suc_leD)
qed

text \<open>The outer loop.\<close>

function elim_dups :: "bool \<Rightarrow> nat \<Rightarrow> CexpSym list \<Rightarrow> nat \<Rightarrow> nat \<Rightarrow> (CexpSym list \<times> nat) res" where
  "elim_dups sc n ss fr to =
     (if fr < n then
        (case sy_name (ss ! to) of
           None \<Rightarrow> UB
         | Some key \<Rightarrow>
             (case skip_eq sc ss key fr of
                Ok fr' \<Rightarrow> elim_dups sc n (ss[to + 1 := ss ! fr']) (fr' + 1) (to + 1)
              | _ \<Rightarrow> UB))
      else Ok (ss, to))"
  by auto
termination
  by (relation "measure (\<lambda>(sc, n, ss, fr, to). n - fr)") (auto dest: skip_eq_ge)

declare elim_dups.simps [simp del]

definition cexpSortSymTbl ::
    "bool \<Rightarrow> ((CexpSym \<Rightarrow> CexpSym \<Rightarrow> int) \<Rightarrow> CexpSym list \<Rightarrow> CexpSym list) \<Rightarrow> CexpSymTbl \<Rightarrow> CexpSymTbl res" where
  "cexpSortSymTbl sc qs t =
     (let n = st_nentries t; ss = syms_of t in
      if n = 0 then Ok t
      else if length ss \<le> n \<or> n \<ge> 2 \<and> list_ex (\<lambda>s. sy_name s = None) (take n ss) then UB
      else
        let ss = qs (\<lambda>a b. namecomp sc (name_of a) (name_of b)) (take n ss) @ drop n ss;
            old = sy_name (ss ! n);
            ss = ss[n := (ss ! n)\<lparr>sy_name := Some marker\<rparr>]
        in bind_res (elim_dups sc n ss 1 0) (\<lambda>(ss, to).
             Ok (t\<lparr>st_syms := Some (ss[n := (ss ! n)\<lparr>sy_name := old\<rparr>]), st_nentries := to + 1\<rparr>)))"

text \<open>
  What is added to a table: symbols of an object file with the two callbacks (\<open>filter\<close> gives the name of
  a symbol that is wanted, \<open>assign\<close> fills in the record), or an array of records of its own.
\<close>

datatype 'e ext_syms =
    External "'e list" "'e \<Rightarrow> string option" "'e \<Rightarrow> CexpSym \<Rightarrow> CexpSym"
  | Prefab "CexpSym list" nat

definition new_syms :: "'e list \<Rightarrow> ('e \<Rightarrow> string option) \<Rightarrow> ('e \<Rightarrow> CexpSym \<Rightarrow> CexpSym) \<Rightarrow> CexpSym list" where
  "new_syms es flt asg =
     List.map_filter (\<lambda>e. map_option (\<lambda>n. asg e (zero_sym\<lparr>sy_name := Some n\<rparr>)) (flt e)) es"

text \<open>
  Delivers whether the result is a table, and the table (the one passed in, which changes, or the new one).
  The fields of the last record other than its name are not initialised; they stand as zeroes here.
\<close>

definition cexpAddSymTbl ::
    "(nat \<Rightarrow> bool) \<Rightarrow> bool \<Rightarrow> CexpSymTbl option \<Rightarrow> 'e ext_syms \<Rightarrow> (bool \<times> CexpSymTbl option) res" where
  "cexpAddSymTbl mok nocopy stbl ext =
     (case (case stbl of Some t \<Rightarrow> Some t | None \<Rightarrow> if mok 0 then Some zero_tbl else None) of
        None \<Rightarrow> Ok (False, None)
      | Some rval \<Rightarrow>
          (case ext of
             Prefab ss nsyms \<Rightarrow>
               if st_syms rval \<noteq> None then Ok (False, stbl)
               else Ok (True, Some (rval\<lparr>st_syms := Some ss, st_nentries := st_nentries rval + nsyms\<rparr>))
           | External es flt asg \<Rightarrow>
               if st_syms rval \<noteq> None \<and> st_size rval = 0 then Ok (False, stbl)
               else
                 let names = List.map_filter flt es;
                     nDstSyms = length names;
                     nDstChars = (if nocopy then 0 else sum_list (map (\<lambda>n. length n + 1) names));
                     nent = st_nentries rval;
                     space = (if nent \<le> st_size rval then st_size rval - nent else 2 ^ 64 - (nent - st_size rval));
                     grow = nDstSyms > space
                 in if grow \<and> \<not> mok 1 then Ok (False, map_option (\<lambda>t. t\<lparr>st_syms := None\<rparr>) stbl)
                 else
                   let rval = (if grow then rval\<lparr>st_syms := Some (syms_of rval), st_size := nent + nDstSyms\<rparr>
                               else rval)
                   in if nDstChars \<noteq> 0 \<and> \<not> (mok 2 \<and> mok 3) then Ok (False, map_option (\<lambda>_. rval) stbl)
                   else
                     let rval = (if nDstChars \<noteq> 0
                                 then rval\<lparr>st_strtbl := concat (map (\<lambda>n. n @ [CHR 0x00]) names) # st_strtbl rval\<rparr>
                                 else rval);
                         ss = syms_of rval;
                         k = nent + nDstSyms;
                         final = (if k < length ss then ss ! k else zero_sym)\<lparr>sy_name := None\<rparr>
                     in if st_syms rval = None then UB
                     else Ok (True, Some (rval\<lparr>st_syms :=
                            Some (take nent ss @ new_syms es flt asg @ final # drop (k + 1) ss),
                            st_nentries := k\<rparr>))))"

definition cexpCreateSymTbl ::
    "bool \<Rightarrow> ((CexpSym \<Rightarrow> CexpSym \<Rightarrow> int) \<Rightarrow> CexpSym list \<Rightarrow> CexpSym list) \<Rightarrow> (nat \<Rightarrow> bool) \<Rightarrow> 'e ext_syms \<Rightarrow>
       CexpSymTbl res" where
  "cexpCreateSymTbl sc qs mok ext =
     bind_res (cexpAddSymTbl mok False None ext) (\<lambda>(ok, rval).
       case (ok, rval) of (True, Some t) \<Rightarrow> cexpSortSymTbl sc qs t | _ \<Rightarrow> Fail 0)"

section \<open>Look-up by address\<close>

definition cexpIndexSymTbl ::
    "((nat \<Rightarrow> nat \<Rightarrow> int) \<Rightarrow> nat list \<Rightarrow> nat list) \<Rightarrow> bool \<Rightarrow> CexpSymTbl \<Rightarrow> (int \<times> CexpSymTbl) res" where
  "cexpIndexSymTbl qi mok t =
     (let n = st_nentries t; ss = syms_of t in
      if n \<noteq> 0 \<and> \<not> mok then Ok (-1, t\<lparr>st_aindex := None\<rparr>)
      else if length ss < n then UB
      else Ok (0, t\<lparr>st_aindex := Some (qi (\<lambda>i j. addrcomp (ss ! i) (ss ! j)) [0..<n])\<rparr>))"

text \<open>The binary search; \<open>val i\<close> is the address of the symbol at \<open>i\<close> in the index.\<close>

function addr_search :: "(nat \<Rightarrow> u64 option) \<Rightarrow> u64 \<Rightarrow> int \<Rightarrow> int \<Rightarrow> int res" where
  "addr_search val addr lo hi =
     (if lo < hi then
        let mid = (lo + hi + 1) div 2 in
        case val (nat mid) of
          None \<Rightarrow> UB
        | Some v \<Rightarrow> if addr < v then addr_search val addr lo (mid - 1) else addr_search val addr mid hi
      else Ok lo)"
  by auto
termination by (relation "measure (\<lambda>(val, addr, lo, hi). nat (hi - lo))") auto

declare addr_search.simps [simp del]

definition aindex_val :: "CexpSymTbl \<Rightarrow> nat \<Rightarrow> u64 option" where
  "aindex_val t i =
     (case st_aindex t of
        None \<Rightarrow> None
      | Some ai \<Rightarrow> if i < length ai \<and> ai ! i < length (syms_of t)
                   then Some (ca_ptv (sy_value (syms_of t ! (ai ! i)))) else None)"

definition cexpSymTblLkAddrIdx :: "u64 \<Rightarrow> CexpSymTbl \<Rightarrow> int res" where
  "cexpSymTblLkAddrIdx addr t = addr_search (aindex_val t) addr 0 (int (st_nentries t) - 1)"

definition cexpSymTblLkAddr :: "u64 \<Rightarrow> CexpSymTbl \<Rightarrow> nat res" where
  "cexpSymTblLkAddr addr t =
     bind_res (cexpSymTblLkAddrIdx addr t) (\<lambda>i.
       case st_aindex t of
         None \<Rightarrow> UB
       | Some ai \<Rightarrow> if nat i < length ai then Ok (ai ! nat i) else UB)"

definition cexpSymName :: "CexpSym option \<Rightarrow> string option" where
  "cexpSymName s = (case s of None \<Rightarrow> None | Some s \<Rightarrow> sy_name s)"

definition cexpSymValue :: "CexpSym option \<Rightarrow> u64" where
  "cexpSymValue s = (case s of None \<Rightarrow> 0 | Some s \<Rightarrow> ca_ptv (sy_value s))"

section \<open>Sorting and elimination of duplicates\<close>

text \<open>
  A name that may stand in a table: plain, and not the marker of the loop. A table is well formed when its
  symbols have such names, in strictly ascending order.
\<close>

definition name_ok :: "CexpSym \<Rightarrow> bool" where
  "name_ok s \<longleftrightarrow> (\<exists>n. sy_name s = Some n \<and> plain n \<and> n \<noteq> marker)"

definition entries :: "CexpSymTbl \<Rightarrow> CexpSym list" where
  "entries t = take (st_nentries t) (syms_of t)"

definition tbl_ok :: "CexpSymTbl \<Rightarrow> bool" where
  "tbl_ok t \<longleftrightarrow> st_nentries t \<le> length (syms_of t) \<and> list_all name_ok (entries t) \<and>
     sorted_wrt (<) (map name_of (entries t))"

lemma name_okD: "name_ok s \<Longrightarrow> sy_name s = Some (name_of s) \<and> plain (name_of s) \<and> name_of s \<noteq> marker"
  by (auto simp: name_ok_def name_of_def)

lemma plain_marker [simp]: "plain marker"
  by (simp add: marker_def LINKER_VERSION_SEPARATOR_def)

lemma skip_eq_run:
  assumes "plain key" and "key \<noteq> marker" and "list_all name_ok rest" and "sy_name m = Some marker"
  shows "skip_eq sc (pre @ rest @ m # suf) key (length pre) =
     Ok (length pre + length (takeWhile (\<lambda>x. name_of x = key) rest))"
  using assms(3)
proof (induction rest arbitrary: pre)
  case Nil
  then show ?case using assms by (subst skip_eq.simps) (simp add: nth_append namecomp_0_iff)
next
  case (Cons x rest)
  have x: "sy_name x = Some (name_of x)" "plain (name_of x)" using Cons.prems by (auto dest: name_okD)
  have "skip_eq sc (pre @ (x # rest) @ m # suf) key (length pre) =
      (if name_of x = key then skip_eq sc ((pre @ [x]) @ rest @ m # suf) key (length (pre @ [x]))
       else Ok (length pre))"
    using x assms(1) by (subst skip_eq.simps) (auto simp: nth_append namecomp_0_iff)
  then show ?case using Cons.IH [of "pre @ [x]"] Cons.prems by simp
qed

text \<open>What the loop keeps: the first record of every run of equal names.\<close>

fun squeeze :: "CexpSym \<Rightarrow> CexpSym list \<Rightarrow> CexpSym list" where
  "squeeze p [] = []"
| "squeeze p (x # xs) = (if name_of x = name_of p then squeeze p xs else x # squeeze x xs)"

lemma squeeze_dropWhile: "squeeze p xs = squeeze p (dropWhile (\<lambda>x. name_of x = name_of p) xs)"
  by (induction xs) auto

text \<open>When the last run has more than one record the loop stops at the marker and copies it.\<close>

definition last_single :: "CexpSym \<Rightarrow> CexpSym list \<Rightarrow> bool" where
  "last_single p xs \<longleftrightarrow> xs = [] \<or> name_of (last xs) \<notin> name_of ` set (p # butlast xs)"

lemma elim_dups_run:
  assumes "ss = done @ junk @ rest @ m # suf" and "done \<noteq> []" and "n = length (done @ junk @ rest)"
    and "list_all name_ok (last done # rest)" and "sy_name m = Some marker"
    and "last_single (last done) rest"
  shows "\<exists>ss' to'. elim_dups sc n ss (length (done @ junk)) (length done - 1) = Ok (ss', to') \<and>
     length ss' = length ss \<and> to' < n \<and>
     take (to' + 1) ss' = done @ squeeze (last done) rest"
  using assms
proof (induction "length rest" arbitrary: ss "done" junk rest rule: less_induct)
  case less
  let ?key = "name_of (last done)"
  let ?eq = "\<lambda>x. name_of x = ?key"
  have key: "sy_name (last done) = Some ?key" "plain ?key" "?key \<noteq> marker"
    using less.prems(4) by (auto dest: name_okD)
  have at: "ss ! (length done - 1) = last done"
    using less.prems(1,2) by (simp add: nth_append last_conv_nth)
  show ?case
  proof (cases "rest = []")
    case True
    have lt: "length done - 1 < n" using less.prems(2,3) by (cases "done") simp_all
    have pos: "length done - 1 + 1 = length done" using less.prems(2) by (cases "done") simp_all
    have tk: "take (length done - 1 + 1) ss = done @ squeeze (last done) rest"
      unfolding pos less.prems(1) True by simp
    have run: "elim_dups sc n ss (length (done @ junk)) (length done - 1) = Ok (ss, length done - 1)"
      using less.prems(3) True by (subst elim_dups.simps) simp
    show ?thesis by (rule exI [of _ ss], rule exI [of _ "length done - 1"]) (simp only: run tk lt)
  next
    case False
    have tw: "dropWhile ?eq rest \<noteq> []"
    proof
      assume "dropWhile ?eq rest = []"
      then have "?eq (last rest)" using False by (simp add: dropWhile_eq_Nil_conv)
      then show False using less.prems(6) False by (simp add: last_single_def)
    qed
    then obtain x xs where dw: "dropWhile ?eq rest = x # xs" by (meson neq_Nil_conv)
    define tk where "tk = takeWhile ?eq rest"
    have rest: "rest = tk @ x # xs" using dw takeWhile_dropWhile_id [of ?eq rest] by (simp add: tk_def)
    have nx: "name_of x \<noteq> ?key" using hd_dropWhile [OF tw] by (simp add: dw)
    have sk: "skip_eq sc ss ?key (length (done @ junk)) = Ok (length (done @ junk) + length tk)"
      using skip_eq_run [OF key(2,3), of rest m sc "done @ junk" suf] less.prems(1,4,5) by (simp add: tk_def)
    have atx: "ss ! (length (done @ junk) + length tk) = x"
      unfolding less.prems(1) rest by (simp add: nth_append)
    obtain j js where js: "junk @ tk @ [x] = j # js" by (cases "junk @ tk @ [x]") auto
    have ss': "ss[length done := x] = (done @ [x]) @ js @ xs @ m # suf"
    proof -
      have "ss = done @ (junk @ tk @ [x]) @ xs @ m # suf" unfolding less.prems(1) rest by simp
      also have "\<dots> = done @ j # js @ xs @ m # suf" unfolding js by simp
      finally show ?thesis by simp
    qed
    have len: "length js = length junk + length tk"
      using arg_cong [OF js, of length] by simp
    have ls: "last_single x xs"
    proof (cases "xs = []")
      case False
      then have "last rest = last xs" "set (x # butlast xs) \<subseteq> set (butlast rest)"
        unfolding rest by (auto simp: butlast_append)
      then show ?thesis using less.prems(6) \<open>rest \<noteq> []\<close> by (auto simp: last_single_def)
    qed (simp add: last_single_def)
    have IH: "\<exists>ss' to'. elim_dups sc n ((done @ [x]) @ js @ xs @ m # suf) (length ((done @ [x]) @ js))
        (length (done @ [x]) - 1) = Ok (ss', to') \<and>
      length ss' = length ((done @ [x]) @ js @ xs @ m # suf) \<and> to' < n \<and>
      take (to' + 1) ss' = (done @ [x]) @ squeeze (last (done @ [x])) xs"
    proof (rule less.hyps [OF _ refl])
      show "length xs < length rest" unfolding rest by simp
      have "n = length done + length (junk @ tk @ [x]) + length xs" using less.prems(3) unfolding rest by simp
      then show "n = length ((done @ [x]) @ js @ xs)" unfolding js by simp
      show "list_all name_ok (last (done @ [x]) # xs)" using less.prems(4) unfolding rest by simp
    qed (use less.prems(5) ls in simp_all)
    have step: "elim_dups sc n ss (length (done @ junk)) (length done - 1) =
       elim_dups sc n ((done @ [x]) @ js @ xs @ m # suf) (length ((done @ [x]) @ js)) (length (done @ [x]) - 1)"
      using less.prems(2,3) False sk at key(1) atx ss'
      by (subst elim_dups.simps) (simp add: len add.assoc)
    have "squeeze (last done) rest = x # squeeze x xs"
      using squeeze_dropWhile [of "last done" rest] nx by (simp add: dw)
    moreover have "length ss = length ((done @ [x]) @ js @ xs @ m # suf)"
      using arg_cong [OF ss', of length] by simp
    ultimately show ?thesis using IH unfolding step by simp
  qed
qed

lemma squeeze_set: "set (squeeze p xs) \<subseteq> set xs"
  by (induction p xs rule: squeeze.induct) auto

lemma squeeze_names: "insert (name_of p) (name_of ` set (squeeze p xs)) = insert (name_of p) (name_of ` set xs)"
  by (induction p xs rule: squeeze.induct) auto

lemma squeeze_sorted:
  "sorted (map name_of (p # xs)) \<Longrightarrow> sorted_wrt (<) (map name_of (p # squeeze p xs))"
proof (induction p xs rule: squeeze.induct)
  case (2 p x xs)
  show ?case
  proof (cases "name_of x = name_of p")
    case False
    have "name_of x \<le> y" if "y \<in> name_of ` set (squeeze x xs)" for y
      using "2.prems" that squeeze_set [of x xs] by auto
    then show ?thesis using 2 False by fastforce
  qed (use 2 in simp)
qed simp

lemma consistent_names:
  "list_all name_ok xs \<Longrightarrow> consistent (\<lambda>a b. namecomp sc (name_of a) (name_of b)) (set xs)"
  unfolding consistent_def
proof (intro conjI ballI impI)
  assume ok: "list_all name_ok xs"
  then have pl: "\<And>a. a \<in> set xs \<Longrightarrow> plain (name_of a)" by (auto simp: list_all_iff dest: name_okD)
  fix a b assume a: "a \<in> set xs" and b: "b \<in> set xs"
  have "namecomp sc (name_of b) (name_of a) > 0 \<longleftrightarrow> \<not> name_of b \<le> name_of a"
    using namecomp_le_iff [of "name_of b" "name_of a" sc] pl a b by auto
  then show "namecomp sc (name_of a) (name_of b) < 0 \<longleftrightarrow> namecomp sc (name_of b) (name_of a) > 0"
    using namecomp_less_iff [of "name_of a" "name_of b" sc] pl a b by auto
  fix c assume "c \<in> set xs" "namecomp sc (name_of a) (name_of b) \<le> 0" "namecomp sc (name_of b) (name_of c) \<le> 0"
  then show "namecomp sc (name_of a) (name_of c) \<le> 0"
    using namecomp_le_iff [of "name_of a" "name_of b" sc] namecomp_le_iff [of "name_of b" "name_of c" sc]
      namecomp_le_iff [of "name_of a" "name_of c" sc] pl a b by auto
qed

text \<open>The greatest name occurs only once.\<close>

definition greatest_once :: "CexpSym list \<Rightarrow> bool" where
  "greatest_once xs \<longleftrightarrow> count_list (map name_of xs) (Max (name_of ` set xs)) = 1"

lemma last_single_sorted:
  assumes "sorted (map name_of (p # xs))" and "greatest_once (p # xs)"
  shows "last_single p xs"
proof (cases "xs = []")
  case False
  then have split: "xs = butlast xs @ [last xs]" by simp
  have "y \<le> name_of (last xs)" if "y \<in> name_of ` set (p # xs)" for y
  proof -
    have "sorted (map name_of ((p # butlast xs) @ [last xs]))" using assms(1) split by simp
    then have "\<forall>z \<in> set (p # butlast xs). name_of z \<le> name_of (last xs)"
      by (subst (asm) map_append) (auto simp: sorted_append)
    moreover have "set (p # xs) = insert (last xs) (set (p # butlast xs))"
      by (subst split) auto
    ultimately show ?thesis using that by auto
  qed
  then have "Max (name_of ` set (p # xs)) = name_of (last xs)"
    using False by (intro Max_eqI) auto
  then have "count_list (map name_of (p # xs)) (name_of (last xs)) = 1"
    using assms(2) by (simp add: greatest_once_def)
  moreover have "map name_of (p # xs) = map name_of (p # butlast xs) @ [name_of (last xs)]"
    by (subst (1) split) simp
  ultimately have "count_list (map name_of (p # butlast xs) @ [name_of (last xs)]) (name_of (last xs)) = 1"
    by (simp only:)
  then have "count_list (map name_of (p # butlast xs)) (name_of (last xs)) = 0"
    unfolding count_list_append by simp
  then show ?thesis
    by (simp add: last_single_def count_list_0_iff split: if_splits)
qed (simp add: last_single_def)

lemma sort_tbl:
  assumes qs: "qsort_ok qs" and n: "0 < st_nentries t" "st_nentries t < length (syms_of t)"
    and ok: "list_all name_ok (entries t)" and once: "greatest_once (entries t)"
  shows "\<exists>t'. cexpSortSymTbl sc qs t = Ok t' \<and> tbl_ok t' \<and> st_nentries t' \<le> st_nentries t \<and>
     name_of ` set (entries t') = name_of ` set (entries t) \<and> set (entries t') \<subseteq> set (entries t)"
proof -
  let ?cmp = "\<lambda>a b. namecomp sc (name_of a) (name_of b)"
  let ?n = "st_nentries t" and ?ss = "syms_of t"
  define ys where "ys = qs ?cmp (entries t)"
  define m where "m = (?ss ! ?n)\<lparr>sy_name := Some marker\<rparr>"
  have sorted: "mset ys = mset (entries t)" "sorted_wrt (\<lambda>a b. ?cmp a b \<le> 0) ys"
    using qs consistent_names [OF ok, of sc] unfolding qsort_ok_def ys_def by blast+
  have set: "set ys = set (entries t)" and len: "length ys = ?n"
    using sorted(1) n(2) mset_eq_setD mset_eq_length [OF sorted(1)] by (auto simp: entries_def)
  have oky: "list_all name_ok ys" using ok set by (simp add: list_all_iff)
  have "sorted_wrt (\<lambda>a b. name_of a \<le> name_of b) ys"
    using sorted(2)
  proof (rule sorted_wrt_mono_rel [rotated])
    fix a b assume "a \<in> set ys" "b \<in> set ys" "?cmp a b \<le> 0"
    then show "name_of a \<le> name_of b"
      using oky namecomp_le_iff [of "name_of a" "name_of b" sc] by (auto simp: list_all_iff dest: name_okD)
  qed
  then have srt: "sorted (map name_of ys)" by (simp add: sorted_wrt_map)
  have "mset (map name_of ys) = mset (map name_of (entries t))" using sorted(1) by simp
  then have "greatest_once ys"
    using once set by (metis count_mset greatest_once_def)
  obtain y ys' where ys: "ys = y # ys'" using len n(1) by (cases ys) auto
  have ls: "last_single y ys'"
    by (rule last_single_sorted) (use srt \<open>greatest_once ys\<close> ys in simp_all)
  define arr where "arr = [y] @ [] @ ys' @ m # drop (?n + 1) ?ss"
  obtain ss' to' where run: "elim_dups sc ?n arr 1 0 = Ok (ss', to')" "length ss' = length arr" "to' < ?n"
    "take (to' + 1) ss' = y # squeeze y ys'"
    using elim_dups_run [OF arr_def, of ?n sc] ls oky len by (auto simp: ys m_def)
  have take_ss: "take ?n ?ss = entries t" by (simp add: entries_def)
  have arr: "(ys @ drop ?n ?ss)[?n := m] = arr"
  proof -
    have d: "drop ?n ?ss = ?ss ! ?n # drop (?n + 1) ?ss" using n(2) by (simp add: Cons_nth_drop_Suc)
    have "(ys @ x # zs)[length ys := m] = ys @ m # zs" for x zs by simp
    then show ?thesis unfolding d len by (simp only: arr_def ys) simp
  qed
  have nth: "(ys @ drop ?n ?ss) ! ?n = ?ss ! ?n" using len n(2) by (simp add: nth_append)
  define fin where "fin = ss'[?n := (ss' ! ?n)\<lparr>sy_name := sy_name (?ss ! ?n)\<rparr>]"
  define t' where "t' = t\<lparr>st_syms := Some fin, st_nentries := to' + 1\<rparr>"
  have none: "\<not> list_ex (\<lambda>s. sy_name s = None) (entries t)"
    using ok by (auto simp: list_all_iff list_ex_iff dest: name_okD)
  have "cexpSortSymTbl sc qs t = Ok t'"
    using n none run(1)
    by (simp add: cexpSortSymTbl_def Let_def take_ss ys_def [symmetric] nth m_def [symmetric] arr
        t'_def fin_def)
  moreover have ent: "entries t' = y # squeeze y ys'"
    using run(3,4) by (simp add: entries_def t'_def syms_of_def fin_def)
  have sub: "set (entries t') \<subseteq> set (entries t)"
    unfolding ent set [symmetric] ys using squeeze_set [of y ys'] by auto
  moreover have "tbl_ok t'"
    unfolding tbl_ok_def
  proof (intro conjI)
    show "st_nentries t' \<le> length (syms_of t')"
      using run(2,3) len by (simp add: t'_def syms_of_def fin_def arr_def ys)
    show "list_all name_ok (entries t')" using sub ok by (auto simp: list_all_iff)
    show "sorted_wrt (<) (map name_of (entries t'))"
      unfolding ent by (rule squeeze_sorted) (use srt ys in simp)
  qed
  moreover have "name_of ` set (entries t') = name_of ` set (entries t)"
    unfolding ent set [symmetric] ys using squeeze_names [of y ys'] by simp
  moreover have "st_nentries t' \<le> ?n" using run(3) by (simp add: t'_def)
  ultimately show ?thesis by blast
qed

lemma lookup_tbl_ok:
  assumes "tbl_ok t" and "plain key"
  shows "(\<exists>i < st_nentries t. cexpSymTblLookup sc key t = Ok i \<and> sy_name (syms_of t ! i) = Some key)
    \<or> key \<notin> name_of ` set (entries t) \<and> cexpSymTblLookup sc key t = Fail 0"
proof -
  let ?n = "st_nentries t" and ?ss = "syms_of t"
  let ?cmp = "\<lambda>i. if i < length ?ss then map_option (namecomp sc key) (sy_name (?ss ! i)) else None"
  have len: "?n \<le> length ?ss" using assms(1) by (simp add: tbl_ok_def)
  have nm: "sy_name (?ss ! i) = Some (name_of (?ss ! i)) \<and> plain (name_of (?ss ! i))" if "i < ?n" for i
    using assms(1) that len name_okD [of "?ss ! i"] by (auto simp: tbl_ok_def entries_def list_all_length)
  have cmp: "?cmp i = Some (namecomp sc key (name_of (?ss ! i)))" if "i < ?n" for i
    using nm [OF that] that len by simp
  have less: "name_of (?ss ! i) < name_of (?ss ! j)" if "i < j" "j < ?n" for i j
    using assms(1) that len by (auto simp: tbl_ok_def entries_def sorted_wrt_iff_nth_less)
  have dec: "\<forall>i j. i < j \<longrightarrow> j < ?n \<longrightarrow> the (?cmp i) \<le> 0 \<longrightarrow> the (?cmp j) < 0"
  proof (intro allI impI)
    fix i j assume ij: "i < j" "j < ?n" "the (?cmp i) \<le> 0"
    then have i: "i < ?n" by simp
    have "key \<le> name_of (?ss ! i)"
      using ij(3) namecomp_le_iff [OF assms(2), of "name_of (?ss ! i)" sc] nm [OF i] unfolding cmp [OF i] by simp
    then have "key < name_of (?ss ! j)" using less [OF ij(1,2)] by simp
    then show "the (?cmp j) < 0"
      using namecomp_less_iff [OF assms(2), of "name_of (?ss ! j)" sc] nm [OF ij(2)] unfolding cmp [OF ij(2)] by simp
  qed
  have eq: "?cmp i = Some 0 \<longleftrightarrow> name_of (?ss ! i) = key" if "i < ?n" for i
    using cmp [OF that] nm [OF that] namecomp_0_iff [OF assms(2)] by auto
  have "(\<exists>i<?n. ?cmp i = Some 0 \<and> bsearch ?cmp 0 ?n = Ok i)
      \<or> (\<forall>i<?n. ?cmp i \<noteq> Some 0) \<and> bsearch ?cmp 0 ?n = Fail 0"
    by (rule bsearch_sorted [where n = ?n]) (use cmp dec in auto)
  moreover have "key \<notin> name_of ` set (entries t)" if "\<forall>i<?n. ?cmp i \<noteq> Some 0"
  proof
    assume "key \<in> name_of ` set (entries t)"
    then obtain i where "i < ?n" "name_of (?ss ! i) = key"
      using len by (auto simp: entries_def in_set_conv_nth)
    then show False using that eq by blast
  qed
  moreover have "sy_name (?ss ! i) = Some key" if "i < ?n" "?cmp i = Some 0" for i
    using eq that nm by blast
  ultimately show ?thesis unfolding cexpSymTblLookup_def by blast
qed

section \<open>Tables made from an object file\<close>

lemma length_new_syms: "length (new_syms es flt asg) = length (List.map_filter flt es)"
  by (induction es) (auto simp: new_syms_def map_filter_simps split: option.split)

lemma names_new_syms:
  "\<forall>e n s. flt e = Some n \<longrightarrow> sy_name (asg e s) = sy_name s \<Longrightarrow>
     map sy_name (new_syms es flt asg) = map Some (List.map_filter flt es)"
  by (induction es) (auto simp: new_syms_def map_filter_simps split: option.split)

lemma set_new_syms:
  "set (new_syms es flt asg) =
     {asg e (zero_sym\<lparr>sy_name := Some n\<rparr>) | e n. e \<in> set es \<and> flt e = Some n}"
  by (induction es) (auto simp: new_syms_def map_filter_simps split: option.splits)

lemma add_new_table:
  assumes "mok 0" "mok 1" "mok 2" "mok 3" and "List.map_filter flt es \<noteq> []"
  shows "\<exists>t. cexpAddSymTbl mok False None (External es flt asg) = Ok (True, Some t) \<and>
     st_nentries t = length (List.map_filter flt es) \<and> st_nentries t < length (syms_of t) \<and>
     entries t = new_syms es flt asg"
  using assms
  by (auto simp: cexpAddSymTbl_def Let_def zero_tbl_def entries_def syms_of_def length_new_syms split: if_splits)

text \<open>C11: A table made from the symbols of an object file, at least one, when their names are of 7-bit
  characters without a version, the greatest one occurs once, and no allocation fails: looking up such a name
  gives a symbol of this name, as the object file has it, and fails only for a name that no symbol has.\<close>

theorem symbol_table_lookup:
  assumes "qsort_ok qs" and "mok 0" "mok 1" "mok 2" "mok 3"
    and "List.map_filter flt es = names" and "names \<noteq> []" and "\<forall>n \<in> set names. plain n \<and> n \<noteq> marker"
    and "count_list names (Max (set names)) = 1"
    and keep: "\<forall>e n s. flt e = Some n \<longrightarrow> sy_name (asg e s) = sy_name s"
  shows "\<exists>t. cexpCreateSymTbl sc qs mok (External es flt asg) = Ok t \<and>
    (\<forall>key. plain key \<longrightarrow>
       (case cexpSymTblLookup sc key t of
          Ok i \<Rightarrow> i < st_nentries t \<and>
            (\<exists>e \<in> set es. flt e = Some key \<and> syms_of t ! i = asg e (zero_sym\<lparr>sy_name := Some key\<rparr>))
        | Fail n \<Rightarrow> n = 0 \<and> key \<notin> set names
        | _ \<Rightarrow> False))"
proof -
  let ?new = "new_syms es flt asg"
  obtain t0 where t0: "cexpAddSymTbl mok False None (External es flt asg) = Ok (True, Some t0)"
    "st_nentries t0 = length names" "st_nentries t0 < length (syms_of t0)" "entries t0 = ?new"
    using add_new_table [of mok flt es asg] assms(2-7) by auto
  have sn: "map sy_name ?new = map Some names"
    using names_new_syms [OF keep, of es] assms(6) by simp
  have "map name_of ?new = map (\<lambda>x. case x of None \<Rightarrow> [] | Some n \<Rightarrow> n) (map sy_name ?new)"
    by (simp add: name_of_def)
  then have nm: "map name_of ?new = names" unfolding sn by (simp add: comp_def)
  have "list_all (\<lambda>x. \<exists>n. x = Some n \<and> plain n \<and> n \<noteq> marker) (map sy_name ?new)"
    unfolding sn using assms(8) by (simp add: list_all_iff)
  then have ok: "list_all name_ok (entries t0)" by (simp add: t0(4) list_all_iff name_ok_def)
  have once: "greatest_once (entries t0)"
    using assms(9) unfolding greatest_once_def t0(4) list.set_map [symmetric] nm .
  have pos: "0 < st_nentries t0" using t0(2) assms(7) by simp
  obtain t where t: "cexpSortSymTbl sc qs t0 = Ok t" "tbl_ok t"
    "name_of ` set (entries t) = set names" "set (entries t) \<subseteq> set ?new"
    using sort_tbl [OF assms(1) pos t0(3) ok once, of sc] nm t0(4) by (metis list.set_map)
  have "case cexpSymTblLookup sc key t of
          Ok i \<Rightarrow> i < st_nentries t \<and>
            (\<exists>e \<in> set es. flt e = Some key \<and> syms_of t ! i = asg e (zero_sym\<lparr>sy_name := Some key\<rparr>))
        | Fail n \<Rightarrow> n = 0 \<and> key \<notin> set names
        | _ \<Rightarrow> False" if "plain key" for key
    using lookup_tbl_ok [OF t(2) that, of sc]
  proof (elim disjE exE conjE)
    fix i assume i: "i < st_nentries t" "cexpSymTblLookup sc key t = Ok i" "sy_name (syms_of t ! i) = Some key"
    have "syms_of t ! i \<in> set (entries t)"
      using i(1) t(2) by (auto simp: tbl_ok_def entries_def in_set_conv_nth)
    then obtain e n where e: "e \<in> set es" "flt e = Some n" "syms_of t ! i = asg e (zero_sym\<lparr>sy_name := Some n\<rparr>)"
      using t(4) unfolding set_new_syms by blast
    have "sy_name (syms_of t ! i) = Some n" using keep e(2) unfolding e(3) by simp
    then show ?thesis using i e by auto
  qed (use t(3) in simp)
  then show ?thesis using t0(1) t(1) by (simp add: cexpCreateSymTbl_def)
qed

lemma symbol_table_lookup_witness:
  "\<exists>t. cexpCreateSymTbl True sort_by (\<lambda>_. True) (External [''b'', ''a''] Some (\<lambda>e s. s)) = Ok t \<and>
     cexpSymTblLookup True ''a'' t = Ok 0"
proof -
  have "\<exists>t. cexpCreateSymTbl True sort_by (\<lambda>_. True) (External [''b'', ''a''] Some (\<lambda>e s. s)) = Ok t \<and>
    (\<forall>key. plain key \<longrightarrow>
       (case cexpSymTblLookup True key t of
          Ok i \<Rightarrow> i < st_nentries t \<and>
            (\<exists>e \<in> set [''b'', ''a'']. Some e = Some key \<and> syms_of t ! i = (\<lambda>e s. s) e (zero_sym\<lparr>sy_name := Some key\<rparr>))
        | Fail n \<Rightarrow> n = 0 \<and> key \<notin> set [''b'', ''a'']
        | _ \<Rightarrow> False))"
  proof (rule symbol_table_lookup)
    show "List.map_filter Some [''b'', ''a''] = [''b'', ''a'']" by (simp add: map_filter_simps)
    show "\<forall>n\<in>set [''b'', ''a'']. plain n \<and> n \<noteq> marker"
      by (simp add: marker_def LINKER_VERSION_SEPARATOR_def)
    show "count_list [''b'', ''a''] (Max (set [''b'', ''a''])) = 1" by code_simp
  qed simp_all
  moreover have "(case cexpCreateSymTbl True sort_by (\<lambda>_. True) (External [''b'', ''a''] Some (\<lambda>e s. s)) of
      Ok t \<Rightarrow> cexpSymTblLookup True ''a'' t = Ok 0 | _ \<Rightarrow> False)"
    by code_simp
  ultimately show ?thesis by auto
qed

text \<open>
  When the greatest name occurs twice the marker gets into the table, and the search loses the symbol
  before it; a symbol with a version can be missed by the search for its name.
\<close>

definition made_from :: "string list \<Rightarrow> CexpSymTbl res" where
  "made_from names = cexpCreateSymTbl True sort_by (\<lambda>_. True) (External names Some (\<lambda>e s. s))"

lemma duplicate_at_end_lost:
  "bind_res (made_from [''a'', ''b'', ''c'', ''d'', ''e'', ''e'']) (cexpSymTblLookup True ''e'') = Fail 0"
  "bind_res (made_from [''a'', ''b'', ''c'', ''d'', ''e'', ''e'']) (\<lambda>t. Ok (map sy_name (entries t))) =
     Ok [Some ''a'', Some ''b'', Some ''c'', Some ''d'', Some ''e'', Some marker]"
  by code_simp+

lemma versioned_name_missed:
  "bind_res (made_from [''foo1'', ''foo2'', ''foo@v'']) (cexpSymTblLookup True ''foo'') = Fail 0"
  "bind_res (made_from [''foo@v'']) (cexpSymTblLookup True ''foo'') = Ok 0"
  by code_simp+

lemma regex_match_at_end_lost:
  "bind_res (made_from [''a'', ''b'']) (lookupRegex_rc (\<lambda>n. n = ''b'') (Some 1) None) = Ok (None, 0)"
  "bind_res (made_from [''a'', ''b'']) (lookupRegex_rc (\<lambda>n. n = ''a'') (Some 1) None) = Ok (Some 0, 0)"
  by code_simp+

lemma empty_table_writes_null:
  "cexpCreateSymTbl sc qs (\<lambda>_. True) (External [] flt asg) = UB"
  by (simp add: cexpCreateSymTbl_def cexpAddSymTbl_def zero_tbl_def map_filter_simps Let_def)

section \<open>The symbol closest to an address\<close>

lemma addr_search_run:
  assumes "\<forall>i<n. val i = Some (v i)" and "0 \<le> lo" "lo \<le> hi" "hi < int n"
    and "lo = 0 \<or> v (nat lo) \<le> addr" and "\<forall>i<n. hi < int i \<longrightarrow> addr < v i"
    and mono: "\<forall>i j. i \<le> j \<longrightarrow> j < n \<longrightarrow> v i \<le> v j"
  shows "\<exists>k<n. addr_search val addr lo hi = Ok (int k) \<and> (k = 0 \<or> v k \<le> addr) \<and>
     (\<forall>i<n. k < i \<longrightarrow> addr < v i)"
  using assms(2-6)
proof (induction "nat (hi - lo)" arbitrary: lo hi rule: less_induct)
  case less
  show ?case
  proof (cases "lo < hi")
    case False
    then have "addr_search val addr lo hi = Ok (int (nat lo))"
      using less.prems(1) by (subst addr_search.simps) simp
    moreover have "hi = lo" using False less.prems(2) by simp
    ultimately show ?thesis using less.prems by (intro exI [of _ "nat lo"]) auto
  next
    case True
    define mid where "mid = (lo + hi + 1) div 2"
    have mid: "lo < mid" "mid \<le> hi" "nat mid < n" "int (nat mid) = mid"
      using True less.prems by (auto simp: mid_def)
    have step: "addr_search val addr lo hi =
       (if addr < v (nat mid) then addr_search val addr lo (mid - 1) else addr_search val addr mid hi)"
      using True assms(1) mid(3) by (subst addr_search.simps) (simp add: Let_def mid_def [symmetric])
    show ?thesis
    proof (cases "addr < v (nat mid)")
      case lt: True
      have "addr < v i" if "i < n" "mid - 1 < int i" for i
        using mono [rule_format, of "nat mid" i] lt that mid by simp
      then show ?thesis
        using less.hyps [of "mid - 1" lo] less.prems mid lt step by simp
    next
      case ge: False
      then show ?thesis using less.hyps [of hi mid] less.prems mid step by simp
    qed
  qed
qed

lemma consistent_addr: "consistent (\<lambda>i j. addrcomp (ss ! i) (ss ! j)) A"
  by (auto simp: consistent_def addrcomp_def split: if_splits)

text \<open>C15: In an indexed table that is not empty, the symbol found for an address is one with the greatest
  address not above it, and one with the lowest address when all symbols are above it.\<close>

theorem closest_symbol_below:
  assumes "qsort_ok qi" and "st_nentries t = n" and "0 < n" and "n \<le> length (syms_of t)"
    and "\<And>i. a i = ca_ptv (sy_value (syms_of t ! i))"
  shows "\<exists>t' j. cexpIndexSymTbl qi True t = Ok (0, t') \<and> cexpSymTblLkAddr addr t' = Ok j \<and> j < n \<and>
    (if \<exists>i<n. a i \<le> addr then a j \<le> addr \<and> (\<forall>i<n. a i \<le> addr \<longrightarrow> a i \<le> a j)
     else \<forall>i<n. a j \<le> a i)"
proof -
  let ?cmp = "\<lambda>i j. addrcomp (syms_of t ! i) (syms_of t ! j)"
  define ai where "ai = qi ?cmp [0..<n]"
  define t' where "t' = t\<lparr>st_aindex := Some ai\<rparr>"
  have idx: "cexpIndexSymTbl qi True t = Ok (0, t')"
    using assms(2,4) by (simp add: cexpIndexSymTbl_def Let_def t'_def ai_def)
  have srt: "mset ai = mset [0..<n]" "sorted_wrt (\<lambda>i j. ?cmp i j \<le> 0) ai"
    using assms(1) consistent_addr unfolding qsort_ok_def ai_def by blast+
  have len: "length ai = n" using mset_eq_length [OF srt(1)] by simp
  have set: "set ai = {..<n}" using mset_eq_setD [OF srt(1)] by (simp add: lessThan_atLeast0)
  define v where "v i = a (ai ! i)" for i
  have in_n: "ai ! i < n" if "i < n" for i using nth_mem [of i ai] that len set by simp
  have val: "\<forall>i<n. aindex_val t' i = Some (v i)"
    using in_n len assms(4) by (auto simp: aindex_val_def t'_def v_def assms(5) syms_of_def intro: less_le_trans)
  have mono: "\<forall>i j. i \<le> j \<longrightarrow> j < n \<longrightarrow> v i \<le> v j"
  proof (intro allI impI)
    fix i j assume ij: "i \<le> j" "j < n"
    show "v i \<le> v j"
    proof (cases "i = j")
      case False
      then have "?cmp (ai ! i) (ai ! j) \<le> 0"
        using sorted_wrt_nth_less [OF srt(2), of i j] ij len by simp
      then show ?thesis by (auto simp: addrcomp_def v_def assms(5) split: if_splits)
    qed simp
  qed
  obtain k where k: "k < n" "addr_search (aindex_val t') addr 0 (int n - 1) = Ok (int k)"
    "k = 0 \<or> v k \<le> addr" "\<forall>i<n. k < i \<longrightarrow> addr < v i"
    using addr_search_run [OF val _ _ _ _ _ mono, of 0 "int n - 1" addr] assms(3) by auto
  have lk: "cexpSymTblLkAddr addr t' = Ok (ai ! k)"
    using k(1,2) len assms(2) by (simp add: cexpSymTblLkAddr_def cexpSymTblLkAddrIdx_def t'_def)
  have ex: "\<exists>m<n. a i = v m" if "i < n" for i
  proof -
    have "i \<in> set ai" using that set by simp
    then obtain m where "m < length ai" "ai ! m = i" unfolding in_set_conv_nth by blast
    then show ?thesis using len by (auto simp: v_def)
  qed
  have le_k: "m \<le> k" if "m < n" "v m \<le> addr" for m
  proof (rule ccontr)
    assume "\<not> m \<le> k"
    then have "addr < v m" using k(4) that(1) by simp
    then show False using that(2) by simp
  qed
  have "if \<exists>i<n. a i \<le> addr then a (ai ! k) \<le> addr \<and> (\<forall>i<n. a i \<le> addr \<longrightarrow> a i \<le> a (ai ! k))
     else \<forall>i<n. a (ai ! k) \<le> a i"
  proof (cases "\<exists>i<n. a i \<le> addr")
    case True
    then obtain i m where "a i \<le> addr" "m < n" "a i = v m" using ex by blast
    then have m: "m < n" "v m \<le> addr" by simp_all
    have "m \<le> k" using le_k m by blast
    then have vk: "v k \<le> addr" using k(3) m by (cases "k = 0") auto
    have "a i \<le> v k" if i: "i < n" "a i \<le> addr" for i
    proof -
      obtain l where l: "l < n" "a i = v l" using ex i(1) by blast
      then have "l \<le> k" using le_k i(2) by simp
      then show ?thesis using mono k(1) l(2) by simp
    qed
    then show ?thesis using True vk by (auto simp: v_def)
  next
    case False
    then have "\<not> v k \<le> addr" using in_n [OF k(1)] by (auto simp: v_def)
    then have "k = 0" using k(3) by blast
    then have "v k \<le> a i" if "i < n" for i using ex [OF that] mono by auto
    then show ?thesis using False by (auto simp: v_def)
  qed
  then show ?thesis using idx lk in_n [OF k(1)] by blast
qed

definition sym_at :: "u64 \<Rightarrow> CexpSym" where
  "sym_at p = zero_sym\<lparr>sy_name := Some ''s'', sy_value := \<lparr>ca_ptv = p, ca_type = TVoid\<rparr>\<rparr>"

lemma closest_symbol_below_witness:
  "\<exists>t' j. cexpIndexSymTbl sort_by True
      (zero_tbl\<lparr>st_nentries := 3, st_syms := Some [sym_at 30, sym_at 10, sym_at 20]\<rparr>) = Ok (0, t') \<and>
    cexpSymTblLkAddr 25 t' = Ok j \<and> j < 3"
  using closest_symbol_below [of sort_by "zero_tbl\<lparr>st_nentries := 3, st_syms := Some [sym_at 30, sym_at 10, sym_at 20]\<rparr>"
      3 _ 25, OF sort_by_ok _ _ _ refl]
  by (auto simp: syms_of_def zero_tbl_def)

end
