(* ===== verification/Bitmaps.thy ===== *)
theory Bitmaps imports Prelude begin

text \<open>
  The bitmaps of module numbers (\<open>cexpmodP.h\<close>): eight words of 64 bits with 32 numbers each. The shifted
  \<open>1\<close> in the macros is an \<open>int\<close>, so that number 31 of a word sets the upper half as well. The lemmas show
  that the bitmaps nevertheless are sets of numbers.
\<close>

definition MAX_NUM_MODULES :: nat where "MAX_NUM_MODULES = 256"
definition LD_WORDLEN :: nat where "LD_WORDLEN = 5"
definition BITMAP_DEPTH :: nat where "BITMAP_DEPTH = MAX_NUM_MODULES div 2 ^ LD_WORDLEN"

type_synonym bitmap = "u64 list"

definition bm_bit :: "nat \<Rightarrow> u64" where
  "bm_bit n = signed (push_bit (n mod 2 ^ LD_WORDLEN) (1 :: u32))"

definition BITMAP_SET :: "bitmap \<Rightarrow> nat \<Rightarrow> bitmap" where
  "BITMAP_SET bm n = bm[n div 2 ^ LD_WORDLEN := bm ! (n div 2 ^ LD_WORDLEN) OR bm_bit n]"

definition BITMAP_CLR :: "bitmap \<Rightarrow> nat \<Rightarrow> bitmap" where
  "BITMAP_CLR bm n = bm[n div 2 ^ LD_WORDLEN := bm ! (n div 2 ^ LD_WORDLEN) AND NOT (bm_bit n)]"

definition BITMAP_TST :: "bitmap \<Rightarrow> nat \<Rightarrow> bool" where
  "BITMAP_TST bm n \<longleftrightarrow> bm ! (n div 2 ^ LD_WORDLEN) AND bm_bit n \<noteq> 0"

definition no_bits :: bitmap where "no_bits = replicate BITMAP_DEPTH 0"

section \<open>Bitmaps are sets\<close>

text \<open>The upper half of every word repeats bit 31.\<close>

definition bm_ok :: "bitmap \<Rightarrow> bool" where
  "bm_ok bm \<longleftrightarrow> length bm = 8 \<and> (\<forall>w \<in> set bm. \<forall>j. 32 \<le> j \<and> j < 64 \<longrightarrow> bit w j = bit w 31)"

lemma bm_bit_bit: "bit (bm_bit n) j \<longleftrightarrow> j < 64 \<and> (if j < 32 then j = n mod 32 else n mod 32 = 31)"
  by (auto simp: bm_bit_def LD_WORDLEN_def bit_simps min_def not_less)

lemma and_nonzero: "w AND v \<noteq> 0 \<longleftrightarrow> (\<exists>j. bit w j \<and> bit v j)" for w :: "'a::len word"
  by (auto simp: bit_eq_iff [of "w AND v" 0] bit_simps dest: bit_imp_le_length intro: bit_imp_le_length)

lemma bm_okD: "bm_ok bm \<Longrightarrow> i < 8 \<Longrightarrow> 32 \<le> j \<Longrightarrow> j < 64 \<Longrightarrow> bit (bm ! i) j = bit (bm ! i) 31"
  by (auto simp: bm_ok_def)

lemma TST_bit:
  assumes "bm_ok bm" and "n < 256"
  shows "BITMAP_TST bm n \<longleftrightarrow> bit (bm ! (n div 32)) (n mod 32)"
proof -
  let ?w = "bm ! (n div 32)"
  have i: "n div 32 < 8" using assms(2) by auto
  have "(\<exists>j. bit ?w j \<and> bit (bm_bit n) j) \<longleftrightarrow> bit ?w (n mod 32)"
  proof
    assume "\<exists>j. bit ?w j \<and> bit (bm_bit n) j"
    then obtain j where j: "bit ?w j" "bit (bm_bit n) j" by blast
    then show "bit ?w (n mod 32)"
      using bm_okD [OF assms(1) i, of j] by (auto simp: bm_bit_bit not_less split: if_splits)
  next
    assume "bit ?w (n mod 32)"
    then show "\<exists>j. bit ?w j \<and> bit (bm_bit n) j" by (intro exI [of _ "n mod 32"]) (simp add: bm_bit_bit)
  qed
  then show ?thesis by (simp add: BITMAP_TST_def and_nonzero LD_WORDLEN_def)
qed

lemma SET_ok: "bm_ok bm \<Longrightarrow> n < 256 \<Longrightarrow> bm_ok (BITMAP_SET bm n)"
proof -
  assume a: "bm_ok bm" "n < 256"
  then have i: "n div 32 < 8" "length bm = 8" by (auto simp: bm_ok_def)
  have "bit w j = bit w 31" if w: "w \<in> set (BITMAP_SET bm n)" and j: "32 \<le> j" "j < 64" for w j
  proof -
    have len: "length (BITMAP_SET bm n) = 8" using i(2) by (simp add: BITMAP_SET_def)
    obtain k where "k < length (BITMAP_SET bm n)" "BITMAP_SET bm n ! k = w"
      using w unfolding in_set_conv_nth by blast
    then have k: "k < 8" "w = BITMAP_SET bm n ! k" using len by simp_all
    have "(bit (bm ! k) j = bit (bm ! k) 31)" by (rule bm_okD [OF a(1) k(1) j])
    moreover have "bit (bm_bit n) j = bit (bm_bit n) 31" using j by (auto simp: bm_bit_bit)
    ultimately show ?thesis
      using j i k by (simp add: BITMAP_SET_def LD_WORDLEN_def nth_list_update bit_simps)
  qed
  then show ?thesis using i by (auto simp: bm_ok_def BITMAP_SET_def)
qed

lemma CLR_ok: "bm_ok bm \<Longrightarrow> n < 256 \<Longrightarrow> bm_ok (BITMAP_CLR bm n)"
proof -
  assume a: "bm_ok bm" "n < 256"
  then have i: "n div 32 < 8" "length bm = 8" by (auto simp: bm_ok_def)
  have "bit w j = bit w 31" if w: "w \<in> set (BITMAP_CLR bm n)" and j: "32 \<le> j" "j < 64" for w j
  proof -
    have len: "length (BITMAP_CLR bm n) = 8" using i(2) by (simp add: BITMAP_CLR_def)
    obtain k where "k < length (BITMAP_CLR bm n)" "BITMAP_CLR bm n ! k = w"
      using w unfolding in_set_conv_nth by blast
    then have k: "k < 8" "w = BITMAP_CLR bm n ! k" using len by simp_all
    have "(bit (bm ! k) j = bit (bm ! k) 31)" by (rule bm_okD [OF a(1) k(1) j])
    moreover have "bit (bm_bit n) j = bit (bm_bit n) 31" using j by (auto simp: bm_bit_bit)
    ultimately show ?thesis
      using j i k by (simp add: BITMAP_CLR_def LD_WORDLEN_def nth_list_update bit_simps)
  qed
  then show ?thesis using i by (auto simp: bm_ok_def BITMAP_CLR_def)
qed

lemma div_mod_eq: "(m :: nat) div 32 = n div 32 \<Longrightarrow> m mod 32 = n mod 32 \<Longrightarrow> m = n"
  by (metis div_mult_mod_eq)

lemma TST_SET:
  assumes "bm_ok bm" and "n < 256" and "m < 256"
  shows "BITMAP_TST (BITMAP_SET bm n) m \<longleftrightarrow> m = n \<or> BITMAP_TST bm m"
proof -
  have i: "n div 32 < 8" "m div 32 < 8" "length bm = 8" using assms by (auto simp: bm_ok_def)
  have "BITMAP_TST (BITMAP_SET bm n) m \<longleftrightarrow> bit (BITMAP_SET bm n ! (m div 32)) (m mod 32)"
    by (rule TST_bit [OF SET_ok [OF assms(1,2)] assms(3)])
  also have "\<dots> \<longleftrightarrow> m = n \<or> bit (bm ! (m div 32)) (m mod 32)"
    using i div_mod_eq [of m n]
    by (auto simp: BITMAP_SET_def LD_WORDLEN_def nth_list_update bit_simps bm_bit_bit)
  finally show ?thesis by (simp add: TST_bit [OF assms(1,3)])
qed

lemma TST_CLR:
  assumes "bm_ok bm" and "n < 256" and "m < 256"
  shows "BITMAP_TST (BITMAP_CLR bm n) m \<longleftrightarrow> m \<noteq> n \<and> BITMAP_TST bm m"
proof -
  have i: "n div 32 < 8" "m div 32 < 8" "length bm = 8" using assms by (auto simp: bm_ok_def)
  have "BITMAP_TST (BITMAP_CLR bm n) m \<longleftrightarrow> bit (BITMAP_CLR bm n ! (m div 32)) (m mod 32)"
    by (rule TST_bit [OF CLR_ok [OF assms(1,2)] assms(3)])
  also have "\<dots> \<longleftrightarrow> m \<noteq> n \<and> bit (bm ! (m div 32)) (m mod 32)"
    using i div_mod_eq [of m n]
    by (auto simp: BITMAP_CLR_def LD_WORDLEN_def nth_list_update bit_simps bm_bit_bit)
  finally show ?thesis by (simp add: TST_bit [OF assms(1,3)])
qed

lemma no_bits_ok [simp]: "bm_ok no_bits"
  by (auto simp: bm_ok_def no_bits_def BITMAP_DEPTH_def MAX_NUM_MODULES_def LD_WORDLEN_def)

lemma TST_no_bits: "n < 256 \<Longrightarrow> \<not> BITMAP_TST no_bits n"
  by (simp add: TST_bit)
    (simp add: no_bits_def BITMAP_DEPTH_def MAX_NUM_MODULES_def LD_WORDLEN_def less_mult_imp_div_less)

text \<open>All words are zero exactly when no number is in the set.\<close>

lemma all_zero_iff:
  assumes "bm_ok bm"
  shows "(\<forall>w \<in> set bm. w = 0) \<longleftrightarrow> (\<forall>n<256. \<not> BITMAP_TST bm n)"
proof
  assume z: "\<forall>w \<in> set bm. w = 0"
  have "\<not> bit (bm ! (n div 32)) (n mod 32)" if "n < 256" for n
  proof -
    have "bm ! (n div 32) \<in> set bm" using that assms by (auto simp: bm_ok_def)
    then have "bm ! (n div 32) = 0" using z by blast
    then show ?thesis by simp
  qed
  then show "\<forall>n<256. \<not> BITMAP_TST bm n" using TST_bit [OF assms] by simp
next
  assume n: "\<forall>n<256. \<not> BITMAP_TST bm n"
  show "\<forall>w \<in> set bm. w = 0"
  proof
    fix w assume "w \<in> set bm"
    then obtain i where i: "i < 8" "w = bm ! i" using assms by (auto simp: in_set_conv_nth bm_ok_def)
    have low: "\<not> bit w j" if "j < 32" for j
    proof -
      have "i * 32 + j < 256" "(i * 32 + j) div 32 = i" "(i * 32 + j) mod 32 = j" using i(1) that by auto
      then show ?thesis using n TST_bit [OF assms, of "i * 32 + j"] i(2) by auto
    qed
    have "\<not> bit w j" if "j < 64" for j
      using low [of j] low [of 31] bm_okD [OF assms i(1), of j] i(2) that by (cases "j < 32") auto
    then show "w = 0" by (intro bit_word_eqI) auto
  qed
qed

end
