(* ===== verification/Segs.thy ===== *)
theory Segs imports Prelude "HOL-Library.Multiset" begin

text \<open>
  The memory segments a module is loaded into (\<open>cexpsegsP.h\<close>, \<open>cexpsegs.c\<close>, \<open>cexpsegs-dflt.c\<close>,
  \<open>cexpsegs-powerpc-rtems.c\<close>). A table of segments ends with a record without a name. The blocks the
  program holds are a list; what \<open>malloc\<close> and the region manager of RTEMS deliver is a parameter, 0 for
  a failure.
\<close>

section \<open>Segments\<close>

text \<open>The functions a segment may name: those of \<open>malloc\<close> and those of an RTEMS region.\<close>

datatype seg_fn = MallocFn | RegionFn

record CexpSegment =
  sg_chunk :: u64
  sg_vmacalc :: u64
  sg_size :: u64
  sg_attributes :: u64
  sg_name :: "string option"
  sg_allocat :: "seg_fn option"
  sg_release :: "seg_fn option"
  sg_pvt :: u64

definition SEG_ATTR_EXEC :: u64 where "SEG_ATTR_EXEC = push_bit 0 1"
definition SEG_ATTR_RO :: u64 where "SEG_ATTR_RO = push_bit 1 1"

definition zero_seg :: CexpSegment where
  "zero_seg = \<lparr>sg_chunk = 0, sg_vmacalc = 0, sg_size = 0, sg_attributes = 0, sg_name = None,
     sg_allocat = None, sg_release = None, sg_pvt = 0\<rparr>"

definition cexpSegsCreate :: "bool \<Rightarrow> nat \<Rightarrow> CexpSegment list option" where
  "cexpSegsCreate mok n = (if mok then Some (replicate (n + 1) zero_seg) else None)"

text \<open>
  The blocks that are held: by \<open>malloc\<close> and from the region. \<open>addr\<close> is what the allocator delivers.
\<close>

record blocks =
  bl_malloc :: "u64 list"
  bl_region :: "u64 list"

definition malloc_allocat :: "u64 \<Rightarrow> CexpSegment \<Rightarrow> blocks \<Rightarrow> int \<times> CexpSegment \<times> blocks" where
  "malloc_allocat addr s b =
     (if sg_size s \<noteq> 0 then
        (if addr = 0 then (-1, s\<lparr>sg_chunk := 0\<rparr>, b)
         else (0, s\<lparr>sg_chunk := addr\<rparr>, b\<lparr>bl_malloc := addr # bl_malloc b\<rparr>))
      else (0, s\<lparr>sg_chunk := 0\<rparr>, b))"

text \<open>\<open>free\<close> of a null pointer does nothing, of something that is not held is undefined.\<close>

definition malloc_release :: "CexpSegment \<Rightarrow> blocks \<Rightarrow> (CexpSegment \<times> blocks) res" where
  "malloc_release s b =
     (let s' = s\<lparr>sg_chunk := 0, sg_size := 0\<rparr> in
      if sg_chunk s = 0 then Ok (s', b)
      else if sg_chunk s \<in> set (bl_malloc b)
      then Ok (s', b\<lparr>bl_malloc := remove1 (sg_chunk s) (bl_malloc b)\<rparr>)
      else UB)"

definition region_allocat :: "u64 \<Rightarrow> CexpSegment \<Rightarrow> blocks \<Rightarrow> int \<times> CexpSegment \<times> blocks" where
  "region_allocat addr s b =
     (if sg_size s = 0 then (0, s\<lparr>sg_chunk := 0\<rparr>, b)
      else if addr = 0 then (-1, s, b)
      else (0, s\<lparr>sg_chunk := addr\<rparr>, b\<lparr>bl_region := addr # bl_region b\<rparr>))"

text \<open>The region manager refuses a block that is not one of its own.\<close>

definition region_release :: "CexpSegment \<Rightarrow> blocks \<Rightarrow> (CexpSegment \<times> blocks) res" where
  "region_release s b =
     (if sg_chunk s \<noteq> 0 then
        (if sg_chunk s \<in> set (bl_region b)
         then Ok (s\<lparr>sg_chunk := 0, sg_size := 0\<rparr>, b\<lparr>bl_region := remove1 (sg_chunk s) (bl_region b)\<rparr>)
         else Ok (s, b))
      else Ok (s\<lparr>sg_size := 0\<rparr>, b))"

definition call_allocat :: "seg_fn \<Rightarrow> u64 \<Rightarrow> CexpSegment \<Rightarrow> blocks \<Rightarrow> int \<times> CexpSegment \<times> blocks" where
  "call_allocat f = (case f of MallocFn \<Rightarrow> malloc_allocat | RegionFn \<Rightarrow> region_allocat)"

definition call_release :: "seg_fn \<Rightarrow> CexpSegment \<Rightarrow> blocks \<Rightarrow> (CexpSegment \<times> blocks) res" where
  "call_release f = (case f of MallocFn \<Rightarrow> malloc_release | RegionFn \<Rightarrow> region_release)"

text \<open>The first element of \<open>addrs\<close> is what the allocator delivers for the first segment, and so on.\<close>

fun cexpSegsAlloc ::
    "CexpSegment list \<Rightarrow> u64 list \<Rightarrow> blocks \<Rightarrow> (int \<times> CexpSegment list \<times> blocks) res" where
  "cexpSegsAlloc [] addrs b = UB"
| "cexpSegsAlloc (s # ss) addrs b =
     (if sg_name s = None then Ok (0, s # ss, b)
      else case sg_allocat s of
             None \<Rightarrow> Ok (-1, s # ss, b)
           | Some f \<Rightarrow>
               (case call_allocat f (hd (addrs @ [0])) s b of
                  (rc, s', b') \<Rightarrow>
                    if rc \<noteq> 0 then Ok (-1, s' # ss, b')
                    else bind_res (cexpSegsAlloc ss (tl addrs) b') (\<lambda>(rc, ss', b'). Ok (rc, s' # ss', b'))))"

fun segs_release :: "CexpSegment list \<Rightarrow> blocks \<Rightarrow> blocks res" where
  "segs_release [] b = UB"
| "segs_release (s # ss) b =
     (if sg_name s = None then Ok b
      else case sg_release s of
             None \<Rightarrow> segs_release ss b
           | Some f \<Rightarrow> bind_res (call_release f s b) (\<lambda>(s', b'). segs_release ss b'))"

text \<open>\<open>None\<close> is the null pointer.\<close>

definition cexpSegsDelete :: "CexpSegment list option \<Rightarrow> blocks \<Rightarrow> blocks res" where
  "cexpSegsDelete s b = (case s of None \<Rightarrow> Ok b | Some ss \<Rightarrow> segs_release ss b)"

section \<open>The two configurations\<close>

text \<open>By default there is one segment for everything.\<close>

definition dflt_cexpSegsInit :: "bool \<Rightarrow> CexpSegment list option \<times> int" where
  "dflt_cexpSegsInit mok =
     (case cexpSegsCreate mok 1 of
        None \<Rightarrow> (None, 0)
      | Some a \<Rightarrow> (Some (a[0 := (a ! 0)\<lparr>sg_attributes := SEG_ATTR_EXEC, sg_name := Some ''.all'',
          sg_allocat := Some MallocFn, sg_release := Some MallocFn\<rparr>]), 1))"

definition dflt_cexpSegsMatch :: "bool \<Rightarrow> nat" where "dflt_cexpSegsMatch sec_code = 0"

text \<open>
  On the PowerPC under RTEMS text has a segment of its own, which comes from a region when there is one of
  a useful size (\<open>region_size\<close>), so that calls can reach it.
\<close>

definition SEG_TEXT :: nat where "SEG_TEXT = 0"
definition SEG_DFLT :: nat where "SEG_DFLT = 1"
definition NSEGS :: nat where "NSEGS = 2"
definition LIMIT_32M :: u64 where "LIMIT_32M = 0x02000000"

text \<open>The checks on where the region lies; the size that is left.\<close>

definition text_region_size :: "u64 \<Rightarrow> u64 \<Rightarrow> u64" where
  "text_region_size start_unaligned region_size =
     (if start_unaligned \<ge> LIMIT_32M then 0
      else if start_unaligned + region_size > LIMIT_32M then LIMIT_32M - start_unaligned
      else region_size)"

definition ppc_cexpSegsInit :: "bool \<Rightarrow> u64 \<Rightarrow> u64 \<Rightarrow> CexpSegment list option \<times> int" where
  "ppc_cexpSegsInit mok region_size text_region =
     (case cexpSegsCreate mok NSEGS of
        None \<Rightarrow> (None, 0)
      | Some a \<Rightarrow>
          let t = (a ! SEG_TEXT)\<lparr>sg_attributes := SEG_ATTR_EXEC OR SEG_ATTR_RO, sg_name := Some ''.text''\<rparr>;
              t = (if region_size > 1000
                   then t\<lparr>sg_allocat := Some RegionFn, sg_release := Some RegionFn, sg_pvt := text_region\<rparr>
                   else t\<lparr>sg_allocat := Some MallocFn, sg_release := Some MallocFn\<rparr>);
              d = (a ! SEG_DFLT)\<lparr>sg_attributes := 0, sg_name := Some ''.data'',
                   sg_allocat := Some MallocFn, sg_release := Some MallocFn\<rparr>
          in (Some (a[SEG_TEXT := t, SEG_DFLT := d]), int NSEGS))"

definition ppc_cexpSegsMatch :: "bool \<Rightarrow> nat" where
  "ppc_cexpSegsMatch sec_code = (if sec_code then SEG_TEXT else SEG_DFLT)"

section \<open>Every block is given back\<close>

text \<open>A table as the initialisation makes it: both functions of a segment belong together.\<close>

definition seg_ok :: "CexpSegment \<Rightarrow> bool" where
  "seg_ok s \<longleftrightarrow> sg_name s \<noteq> None \<and> sg_chunk s = 0 \<and> sg_allocat s \<noteq> None \<and> sg_release s = sg_allocat s"

lemma call_allocat_fields:
  "call_allocat f a s b = (rc, s', b') \<Longrightarrow> sg_name s' = sg_name s \<and> sg_release s' = sg_release s"
  by (cases f) (auto simp: call_allocat_def malloc_allocat_def region_allocat_def split: if_splits)

text \<open>
  After an allocation the block is the one that is held in addition, and the release of the segment gives
  back this very block, whatever else is held by then.
\<close>

lemma release_after_alloc:
  assumes "call_allocat f a s b = (rc, s', b')" and "sg_chunk s = 0"
  shows "\<exists>xs ys. mset (bl_malloc b') = mset xs + mset (bl_malloc b) \<and>
     mset (bl_region b') = mset ys + mset (bl_region b) \<and>
     (\<forall>c. mset xs \<subseteq># mset (bl_malloc c) \<longrightarrow> mset ys \<subseteq># mset (bl_region c) \<longrightarrow>
       (\<exists>s2 c'. call_release f s' c = Ok (s2, c') \<and>
          mset (bl_malloc c) = mset xs + mset (bl_malloc c') \<and>
          mset (bl_region c) = mset ys + mset (bl_region c')))"
proof (cases f)
  case MallocFn
  show ?thesis
  proof (cases "sg_size s = 0 \<or> a = 0")
    case True
    then show ?thesis
      using assms MallocFn
      by (intro exI [of _ "[]"])
        (auto simp: call_allocat_def call_release_def malloc_allocat_def malloc_release_def Let_def split: if_splits)
  next
    case False
    then show ?thesis
      using assms MallocFn
      by (intro exI [of _ "[a]"] exI [of _ "[]"])
        (auto simp: call_allocat_def call_release_def malloc_allocat_def malloc_release_def Let_def
          single_subset_iff)
  qed
next
  case RegionFn
  show ?thesis
  proof (cases "sg_size s = 0 \<or> a = 0")
    case True
    then show ?thesis
      using assms RegionFn
      by (intro exI [of _ "[]"])
        (auto simp: call_allocat_def call_release_def region_allocat_def region_release_def Let_def split: if_splits)
  next
    case False
    then show ?thesis
      using assms RegionFn
      by (intro exI [of _ "[]"] exI [of _ "[a]"])
        (auto simp: call_allocat_def call_release_def region_allocat_def region_release_def Let_def
          single_subset_iff)
  qed
qed

text \<open>A segment that was never allocated has nothing to give back.\<close>

lemma release_unallocated:
  "list_all seg_ok ss \<Longrightarrow> segs_release (ss @ [zero_seg]) c = Ok c"
  by (induction ss)
    (auto simp: zero_seg_def seg_ok_def call_release_def malloc_release_def region_release_def Let_def
      split: seg_fn.split)

lemma alloc_then_release:
  assumes "list_all seg_ok ss"
  shows "\<exists>rc ss' b' X Y. cexpSegsAlloc (ss @ [zero_seg]) addrs b = Ok (rc, ss', b') \<and>
     mset (bl_malloc b') = X + mset (bl_malloc b) \<and> mset (bl_region b') = Y + mset (bl_region b) \<and>
     (\<forall>c. X \<subseteq># mset (bl_malloc c) \<longrightarrow> Y \<subseteq># mset (bl_region c) \<longrightarrow>
       (\<exists>c'. segs_release ss' c = Ok c' \<and> mset (bl_malloc c) = X + mset (bl_malloc c') \<and>
          mset (bl_region c) = Y + mset (bl_region c')))"
  using assms
proof (induction ss arbitrary: addrs b)
  case Nil
  then show ?case by (auto simp: zero_seg_def)
next
  case (Cons s ss)
  then have rest: "list_all seg_ok ss" and "seg_ok s" by simp_all
  then have s: "sg_name s \<noteq> None" "sg_chunk s = 0" "sg_release s = sg_allocat s"
    by (auto simp: seg_ok_def)
  obtain f where f: "sg_allocat s = Some f" using Cons.prems by (auto simp: seg_ok_def)
  obtain rc1 s1 b1 where call: "call_allocat f (hd (addrs @ [0])) s b = (rc1, s1, b1)"
    by (metis prod_cases3)
  obtain xs ys where one: "mset (bl_malloc b1) = mset xs + mset (bl_malloc b)"
    "mset (bl_region b1) = mset ys + mset (bl_region b)"
    and gives: "\<And>c. mset xs \<subseteq># mset (bl_malloc c) \<Longrightarrow> mset ys \<subseteq># mset (bl_region c) \<Longrightarrow>
       \<exists>s2 c'. call_release f s1 c = Ok (s2, c') \<and>
          mset (bl_malloc c) = mset xs + mset (bl_malloc c') \<and> mset (bl_region c) = mset ys + mset (bl_region c')"
    using release_after_alloc [OF call s(2)] by blast
  have s1: "sg_name s1 \<noteq> None" "sg_release s1 = Some f"
    using call_allocat_fields [OF call] s f by auto
  show ?case
  proof (cases "rc1 = 0")
    case False
    have "\<exists>c'. segs_release (s1 # ss @ [zero_seg]) c = Ok c' \<and>
        mset (bl_malloc c) = mset xs + mset (bl_malloc c') \<and> mset (bl_region c) = mset ys + mset (bl_region c')"
      if "mset xs \<subseteq># mset (bl_malloc c)" "mset ys \<subseteq># mset (bl_region c)" for c
      using gives [OF that] s1 release_unallocated [OF rest] by auto
    moreover have "cexpSegsAlloc ((s # ss) @ [zero_seg]) addrs b = Ok (-1, s1 # ss @ [zero_seg], b1)"
      using s(1) f call False by simp
    ultimately show ?thesis using one by blast
  next
    case True
    obtain rc ss' b' X Y where IH: "cexpSegsAlloc (ss @ [zero_seg]) (tl addrs) b1 = Ok (rc, ss', b')"
      "mset (bl_malloc b') = X + mset (bl_malloc b1)" "mset (bl_region b') = Y + mset (bl_region b1)"
      and IHb: "\<And>c. X \<subseteq># mset (bl_malloc c) \<Longrightarrow> Y \<subseteq># mset (bl_region c) \<Longrightarrow>
         \<exists>c'. segs_release ss' c = Ok c' \<and> mset (bl_malloc c) = X + mset (bl_malloc c') \<and>
            mset (bl_region c) = Y + mset (bl_region c')"
      using Cons.IH [OF rest, of "tl addrs" b1] by blast
    have "\<exists>c'. segs_release (s1 # ss') c = Ok c' \<and>
        mset (bl_malloc c) = (X + mset xs) + mset (bl_malloc c') \<and>
        mset (bl_region c) = (Y + mset ys) + mset (bl_region c')"
      if sub: "X + mset xs \<subseteq># mset (bl_malloc c)" "Y + mset ys \<subseteq># mset (bl_region c)" for c
    proof -
      have "mset xs \<subseteq># mset (bl_malloc c)" "mset ys \<subseteq># mset (bl_region c)"
        by (rule subset_mset.order_trans [OF mset_subset_eq_add_right sub(1)],
            rule subset_mset.order_trans [OF mset_subset_eq_add_right sub(2)])
      then obtain s2 c1 where c1: "call_release f s1 c = Ok (s2, c1)"
        "mset (bl_malloc c) = mset xs + mset (bl_malloc c1)" "mset (bl_region c) = mset ys + mset (bl_region c1)"
        using gives by blast
      have "X \<subseteq># mset (bl_malloc c1)" "Y \<subseteq># mset (bl_region c1)"
        using sub unfolding c1(2,3) by (simp_all add: add.commute)
      then obtain c' where "segs_release ss' c1 = Ok c'" "mset (bl_malloc c1) = X + mset (bl_malloc c')"
        "mset (bl_region c1) = Y + mset (bl_region c')"
        using IHb by blast
      then show ?thesis using s1 c1 by (auto simp: ac_simps)
    qed
    moreover have "cexpSegsAlloc ((s # ss) @ [zero_seg]) addrs b = Ok (rc, s1 # ss', b')"
      using s(1) f call True IH(1) by (cases "sg_name s") simp_all
    moreover have "mset (bl_malloc b') = (X + mset xs) + mset (bl_malloc b)"
      "mset (bl_region b') = (Y + mset ys) + mset (bl_region b)"
      using IH(2,3) one by (simp_all add: ac_simps)
    ultimately show ?thesis by blast
  qed
qed

text \<open>The loader enters the sizes, and uses the counter, of the segments but not of the record at the end.\<close>

definition laid_out :: "CexpSegment list \<Rightarrow> CexpSegment list \<Rightarrow> bool" where
  "laid_out a a' \<longleftrightarrow> length a' = length a \<and>
     (\<forall>i < length a. if sg_name (a ! i) = None then a' ! i = a ! i
        else \<exists>v n. a' ! i = (a ! i)\<lparr>sg_vmacalc := v, sg_size := n\<rparr>)"

text \<open>
  What the loader relies on: a table whose segments have not been allocated and know how to be, and a
  match that stays within it. Both configurations provide it.
\<close>

locale segment_provider =
  fixes init :: "CexpSegment list option \<times> int" and matching :: "bool \<Rightarrow> nat"
  assumes init_ok: "fst init = Some a \<Longrightarrow>
      \<exists>ss. a = ss @ [zero_seg] \<and> list_all seg_ok ss \<and> snd init = int (length ss) \<and> ss \<noteq> []"
    and match_ok: "fst init = Some a \<Longrightarrow> int (matching code) < snd init"
begin

lemma alloc_delete:
  assumes "fst init = Some a" and "laid_out a a'"
  shows "\<exists>rc ss b' b''. cexpSegsAlloc a' addrs b = Ok (rc, ss, b') \<and> cexpSegsDelete (Some ss) b' = Ok b'' \<and>
     mset (bl_malloc b'') = mset (bl_malloc b) \<and> mset (bl_region b'') = mset (bl_region b)"
proof -
  obtain ss where ss: "a = ss @ [zero_seg]" "list_all seg_ok ss" using init_ok [OF assms(1)] by blast
  have len: "length a' = length a" using assms(2) by (simp add: laid_out_def)
  then obtain ss' l where a': "a' = ss' @ [l]" "length ss' = length ss"
    using ss(1) by (cases a' rule: rev_cases) auto
  have "a' ! length ss = zero_seg"
    using assms(2) ss(1) unfolding laid_out_def by (auto simp: zero_seg_def)
  then have l: "l = zero_seg" using a' by (simp add: nth_append)
  have "seg_ok (ss' ! i)" if i: "i < length ss" for i
  proof -
    have "seg_ok (a ! i)" "a' ! i = ss' ! i" using ss i a' by (auto simp: nth_append list_all_length)
    moreover have "\<exists>v n. a' ! i = (a ! i)\<lparr>sg_vmacalc := v, sg_size := n\<rparr>"
      using assms(2) i ss(1) \<open>seg_ok (a ! i)\<close> by (auto simp: laid_out_def seg_ok_def split: if_splits)
    ultimately show ?thesis by (auto simp: seg_ok_def)
  qed
  then have ok: "list_all seg_ok ss'" using a'(2) by (simp add: list_all_length)
  obtain rc r b' X Y where run: "cexpSegsAlloc (ss' @ [zero_seg]) addrs b = Ok (rc, r, b')"
    "mset (bl_malloc b') = X + mset (bl_malloc b)" "mset (bl_region b') = Y + mset (bl_region b)"
    "\<And>c. X \<subseteq># mset (bl_malloc c) \<Longrightarrow> Y \<subseteq># mset (bl_region c) \<Longrightarrow>
       \<exists>c'. segs_release r c = Ok c' \<and> mset (bl_malloc c) = X + mset (bl_malloc c') \<and>
          mset (bl_region c) = Y + mset (bl_region c')"
    using alloc_then_release [OF ok, of addrs b] by blast
  have "X \<subseteq># mset (bl_malloc b')" "Y \<subseteq># mset (bl_region b')" using run(2,3) by simp_all
  from run(4) [OF this] obtain b'' where "segs_release r b' = Ok b''"
    "mset (bl_malloc b') = X + mset (bl_malloc b'')" "mset (bl_region b') = Y + mset (bl_region b'')" by blast
  then show ?thesis using run(1-3) a'(1) l by (auto simp: cexpSegsDelete_def)
qed

end

interpretation dflt: segment_provider "dflt_cexpSegsInit mok" dflt_cexpSegsMatch
proof
  show "\<exists>ss. a = ss @ [zero_seg] \<and> list_all seg_ok ss \<and> snd (dflt_cexpSegsInit mok) = int (length ss) \<and> ss \<noteq> []"
    if "fst (dflt_cexpSegsInit mok) = Some a" for a
    using that
    by (intro exI [of _ "butlast a"])
      (auto simp: dflt_cexpSegsInit_def cexpSegsCreate_def zero_seg_def seg_ok_def split: if_splits)
  show "int (dflt_cexpSegsMatch code) < snd (dflt_cexpSegsInit mok)" if "fst (dflt_cexpSegsInit mok) = Some a" for a code
    using that by (auto simp: dflt_cexpSegsInit_def dflt_cexpSegsMatch_def cexpSegsCreate_def split: if_splits)
qed

interpretation ppc: segment_provider "ppc_cexpSegsInit mok rsize region" ppc_cexpSegsMatch
proof
  show "\<exists>ss. a = ss @ [zero_seg] \<and> list_all seg_ok ss \<and>
      snd (ppc_cexpSegsInit mok rsize region) = int (length ss) \<and> ss \<noteq> []"
    if "fst (ppc_cexpSegsInit mok rsize region) = Some a" for a
    using that
    by (intro exI [of _ "butlast a"])
      (auto simp: ppc_cexpSegsInit_def cexpSegsCreate_def zero_seg_def seg_ok_def Let_def numeral_eq_Suc
        NSEGS_def SEG_TEXT_def SEG_DFLT_def split: if_splits)
  show "int (ppc_cexpSegsMatch code) < snd (ppc_cexpSegsInit mok rsize region)"
    if "fst (ppc_cexpSegsInit mok rsize region) = Some a" for a code
    using that by (auto simp: ppc_cexpSegsInit_def ppc_cexpSegsMatch_def cexpSegsCreate_def Let_def
        NSEGS_def SEG_TEXT_def SEG_DFLT_def split: if_splits)
qed

text \<open>C21: In both configurations, whatever sizes the loader asks for and whether or not some allocation
  fails, the release of the table gives back exactly the blocks that its allocation obtained.\<close>

theorem segments_given_back:
  assumes "fst (dflt_cexpSegsInit mok) = Some a \<or> fst (ppc_cexpSegsInit mok rsize region) = Some a"
    and "laid_out a a'"
  shows "\<exists>rc ss b' b''. cexpSegsAlloc a' addrs b = Ok (rc, ss, b') \<and> cexpSegsDelete (Some ss) b' = Ok b'' \<and>
    mset (bl_malloc b'') = mset (bl_malloc b) \<and> mset (bl_region b'') = mset (bl_region b)"
  using assms dflt.alloc_delete ppc.alloc_delete by blast

definition two_segments :: "CexpSegment list" where
  "two_segments = the (fst (ppc_cexpSegsInit True 2000 7))"

lemma segments_given_back_witness:
  "\<exists>rc ss b' b''. cexpSegsAlloc (two_segments[0 := (two_segments ! 0)\<lparr>sg_size := 64\<rparr>]) [4096]
      \<lparr>bl_malloc = [], bl_region = []\<rparr> = Ok (rc, ss, b') \<and>
    cexpSegsDelete (Some ss) b' = Ok b'' \<and> bl_malloc b'' = [] \<and> bl_region b'' = []"
proof -
  have init: "fst (ppc_cexpSegsInit True 2000 7) = Some two_segments"
    by (simp add: two_segments_def ppc_cexpSegsInit_def cexpSegsCreate_def Let_def)
  have r3: "replicate 3 x = [x, x, x]" for x :: CexpSegment by (simp add: numeral_eq_Suc)
  have el: "two_segments = [zero_seg\<lparr>sg_attributes := 3, sg_name := Some ''.text'',
      sg_allocat := Some RegionFn, sg_release := Some RegionFn, sg_pvt := 7\<rparr>,
    zero_seg\<lparr>sg_attributes := 0, sg_name := Some ''.data'', sg_allocat := Some MallocFn,
      sg_release := Some MallocFn\<rparr>, zero_seg]"
    by (simp add: two_segments_def ppc_cexpSegsInit_def cexpSegsCreate_def Let_def NSEGS_def SEG_TEXT_def
        SEG_DFLT_def SEG_ATTR_EXEC_def SEG_ATTR_RO_def r3)
  have "laid_out two_segments (two_segments[0 := (two_segments ! 0)\<lparr>sg_size := 64\<rparr>])"
    unfolding laid_out_def
  proof (intro conjI allI impI)
    fix i assume "i < length two_segments"
    then consider "i = 0" | "i = 1" | "i = 2" unfolding el by fastforce
    then show "if sg_name (two_segments ! i) = None
       then two_segments[0 := (two_segments ! 0)\<lparr>sg_size := 64\<rparr>] ! i = two_segments ! i
       else \<exists>v n. two_segments[0 := (two_segments ! 0)\<lparr>sg_size := 64\<rparr>] ! i =
         (two_segments ! i)\<lparr>sg_vmacalc := v, sg_size := n\<rparr>"
      unfolding el by cases (auto simp: zero_seg_def)
  qed simp
  then show ?thesis
    using segments_given_back [of True two_segments 2000 7] init by fastforce
qed

end
