(* ===== verification/Modules.thy ===== *)
theory Modules imports Syms Bitmaps Segs begin

text \<open>
  Modules (\<open>cexpmod.h\<close>, \<open>cexpmodP.h\<close>, \<open>cexpmod.c\<close>, and the help tables of \<open>help.c\<close>): the list of loaded
  modules with their dependencies, loading and unloading, look-up of symbols by name, expression and
  address over all modules. The object loader, the functions in a loaded module and the library of regular
  expressions are parameters; calls into a loaded module are recorded in a trace.
\<close>

section \<open>State\<close>

text \<open>
  \<open>m_addr\<close> is the address of the record, the handle of the module. Function pointers are addresses, 0 for
  none. \<open>m_segs\<close> are the segments before the record at the end of the table, \<open>m_section_syms\<close> symbols given by
  the handle of their module and their index there.
\<close>

record CexpModule =
  m_addr :: u64
  m_name :: string
  m_section_syms :: "(u64 \<times> nat) list option"
  m_text_vma :: u64
  m_symtbl :: CexpSymTbl
  m_id :: nat
  m_segs :: "CexpSegment list"
  m_memSize :: u64
  m_neededby :: bitmap
  m_needs :: bitmap
  m_ctors :: "u64 list"
  m_dtors :: "u64 list"
  m_cleanup :: u64
  m_ini :: u64
  m_fini :: u64
  m_fileName :: "string option"
  m_modPvt :: u64

definition zero_mod :: "u64 \<Rightarrow> CexpModule" where
  "zero_mod a = \<lparr>m_addr = a, m_name = [], m_section_syms = None, m_text_vma = 0, m_symtbl = zero_tbl,
     m_id = 0, m_segs = [], m_memSize = 0, m_neededby = no_bits, m_needs = no_bits, m_ctors = [],
     m_dtors = [], m_cleanup = 0, m_ini = 0, m_fini = 0, m_fileName = None, m_modPvt = 0\<rparr>"

text \<open>What is called in a module, with the function and the handle, and memory that is cleared.\<close>

datatype event = Ctor u64 | Ini u64 u64 | Fini u64 u64 | Dtor u64 | Cleanup u64 u64 | Wipe u64 u64

text \<open>\<open>ms_list\<close> is the list from \<open>cexpSystemModule\<close> on; \<open>ms_id\<close> the static variable of \<open>idAlloc\<close>.\<close>

record modstate =
  ms_list :: "CexpModule list"
  ms_id :: nat
  ms_trace :: "event list"

definition mods_init :: modstate where
  "mods_init = \<lparr>ms_list = [], ms_id = MAX_NUM_MODULES - 1, ms_trace = []\<rparr>"

text \<open>
  The surroundings: the library functions for sorting, the object loader, the built-in symbols, the result
  of a finalizer, the regular expression for help tables and the help tables in memory.
\<close>

record mod_env =
  en_sc :: bool
  en_qs :: "(CexpSym \<Rightarrow> CexpSym \<Rightarrow> int) \<Rightarrow> CexpSym list \<Rightarrow> CexpSym list"
  en_qi :: "(nat \<Rightarrow> nat \<Rightarrow> int) \<Rightarrow> nat list \<Rightarrow> nat list"
  en_loadFile :: "string \<Rightarrow> CexpModule \<Rightarrow> CexpModule list \<Rightarrow> (int \<times> CexpModule) res"
  en_systemSymbols :: "CexpSym list option"
  en_fini :: "u64 \<Rightarrow> CexpModule \<Rightarrow> int"
  en_help_regex :: "string \<Rightarrow> bool"
  en_help_tab :: "u64 \<Rightarrow> (u64 \<times> string) list"

section \<open>The list of modules\<close>

text \<open>The position of the module whose successor is the given one.\<close>

fun pred_loop :: "u64 \<Rightarrow> CexpModule list \<Rightarrow> nat \<Rightarrow> nat option" where
  "pred_loop a (p # m # ms) i = (if m_addr m = a then Some i else pred_loop a (m # ms) (i + 1))"
| "pred_loop a ms i = None"

definition predecessor :: "u64 \<Rightarrow> CexpModule list \<Rightarrow> nat option" where
  "predecessor a ms = (if a = 0 then None else pred_loop a ms 0)"

definition modIsStale :: "u64 \<Rightarrow> CexpModule list \<Rightarrow> bool" where
  "modIsStale a ms \<longleftrightarrow> \<not> list_ex (\<lambda>m. m_addr m = a) ms"

text \<open>The first module with a symbol of the name: the symbol, and the handle.\<close>

fun cexpSymLookup :: "bool \<Rightarrow> string \<Rightarrow> CexpModule list \<Rightarrow> (nat option \<times> u64) res" where
  "cexpSymLookup sc name [] = Ok (None, 0)"
| "cexpSymLookup sc name (m # ms) =
     (case cexpSymTblLookup sc name (m_symtbl m) of
        Ok i \<Rightarrow> Ok (Some i, m_addr m)
      | Fail _ \<Rightarrow> cexpSymLookup sc name ms
      | UB \<Rightarrow> UB
      | Hang \<Rightarrow> Hang)"

definition cexpModuleName :: "CexpModule \<Rightarrow> string" where "cexpModuleName m = m_name m"

definition cexpModuleFindByName ::
    "(string \<Rightarrow> (string \<Rightarrow> bool) option) \<Rightarrow> string \<Rightarrow> CexpModule list \<Rightarrow> u64" where
  "cexpModuleFindByName regcomp needle ms =
     (case regcomp needle of
        None \<Rightarrow> 0
      | Some rc \<Rightarrow> (case filter (\<lambda>m. rc (m_name m)) ms of [] \<Rightarrow> 0 | m # _ \<Rightarrow> m_addr m))"

section \<open>Addresses\<close>

definition in_segment :: "u64 \<Rightarrow> CexpSegment \<Rightarrow> bool" where
  "in_segment addr s \<longleftrightarrow> sg_chunk s \<noteq> 0 \<and> addr \<ge> sg_chunk s \<and> addr < sg_chunk s + sg_size s"

text \<open>\<open>sys\<close>: it is the system module, which is taken to lie between its first and its last symbol.\<close>

definition addrInModule :: "u64 \<Rightarrow> bool \<Rightarrow> CexpModule \<Rightarrow> bool res" where
  "addrInModule addr sys m =
     (if list_ex (in_segment addr) (m_segs m) then Ok True
      else if sys then
        (let t = m_symtbl m in
         case (aindex_val t 0, if st_nentries t = 0 then None else aindex_val t (st_nentries t - 1)) of
           (Some lo, Some hi) \<Rightarrow> Ok (addr \<ge> lo \<and> addr \<le> hi)
         | _ \<Rightarrow> UB)
      else Ok False)"

text \<open>An entry of the result: a module (its position in the list) and the index of a symbol.\<close>

type_synonym aidx = "(nat \<times> nat) option"

definition gaddr :: "CexpModule list \<Rightarrow> nat \<times> nat \<Rightarrow> u64 option" where
  "gaddr ms ar = (if fst ar < length ms then aindex_val (m_symtbl (ms ! fst ar)) (snd ar) else None)"

text \<open>
  Insertion of an entry with the address \<open>tst\<close> into the lower half of the result: entries below it move
  down, the lowest is lost. The loop starts at \<open>j = 1\<close>.
\<close>

function shift_down :: "CexpModule list \<Rightarrow> nat \<Rightarrow> u64 \<Rightarrow> aidx list \<Rightarrow> nat \<Rightarrow> (aidx list \<times> nat) res" where
  "shift_down ms margin tst ar j =
     (if j \<le> margin then
        (case ar ! j of
           None \<Rightarrow> shift_down ms margin tst (ar[j - 1 := ar ! j]) (j + 1)
         | Some e \<Rightarrow>
             (case gaddr ms e of
                None \<Rightarrow> UB
              | Some a \<Rightarrow> if tst > a then shift_down ms margin tst (ar[j - 1 := ar ! j]) (j + 1)
                          else Ok (ar, j)))
      else Ok (ar, j))"
  by auto
termination by (relation "measure (\<lambda>(ms, margin, tst, ar, j). Suc margin - j)") auto

declare shift_down.simps [simp del]

text \<open>The upper half, from the second highest entry downwards.\<close>

function shift_up :: "CexpModule list \<Rightarrow> nat \<Rightarrow> u64 \<Rightarrow> aidx list \<Rightarrow> int \<Rightarrow> (aidx list \<times> int) res" where
  "shift_up ms margin tst ar j =
     (if j > int margin then
        (case ar ! nat j of
           None \<Rightarrow> shift_up ms margin tst (ar[nat j + 1 := ar ! nat j]) (j - 1)
         | Some e \<Rightarrow>
             (case gaddr ms e of
                None \<Rightarrow> UB
              | Some a \<Rightarrow> if tst < a then shift_up ms margin tst (ar[nat j + 1 := ar ! nat j]) (j - 1)
                          else Ok (ar, j)))
      else Ok (ar, j))"
  by auto
termination by (relation "measure (\<lambda>(ms, margin, tst, ar, j). nat (j - int margin))") auto

declare shift_up.simps [simp del]

text \<open>The symbols of module \<open>k\<close> from index \<open>i - 1\<close> downwards.\<close>

fun lower_loop :: "CexpModule list \<Rightarrow> nat \<Rightarrow> u64 \<Rightarrow> nat \<Rightarrow> nat \<Rightarrow> aidx list \<Rightarrow> aidx list res" where
  "lower_loop ms margin addr k 0 ar = Ok ar"
| "lower_loop ms margin addr k (Suc i) ar =
     (case (gaddr ms (k, i), case ar ! 0 of None \<Rightarrow> Some 0 | Some e \<Rightarrow> gaddr ms e) of
        (Some tst, Some lim) \<Rightarrow>
          if tst > addr \<or> tst < lim then Ok ar
          else bind_res (shift_down ms margin tst ar 1) (\<lambda>(ar, j).
            lower_loop ms margin addr k i (ar[j - 1 := Some (k, i)]))
      | _ \<Rightarrow> UB)"

text \<open>The symbols of module \<open>k\<close> from index \<open>i\<close> on; \<open>r\<close> of them are left.\<close>

fun upper_loop :: "CexpModule list \<Rightarrow> nat \<Rightarrow> u64 \<Rightarrow> nat \<Rightarrow> nat \<Rightarrow> nat \<Rightarrow> aidx list \<Rightarrow> aidx list res" where
  "upper_loop ms margin addr k i 0 ar = Ok ar"
| "upper_loop ms margin addr k i (Suc r) ar =
     (let n = 2 * margin + 1 in
      case (gaddr ms (k, i), case ar ! (n - 1) of None \<Rightarrow> Some (- 1) | Some e \<Rightarrow> gaddr ms e) of
        (Some tst, Some lim) \<Rightarrow>
          if tst \<le> addr \<or> tst > lim then Ok ar
          else bind_res (shift_up ms margin tst ar (int n - 2)) (\<lambda>(ar, j).
            upper_loop ms margin addr k (i + 1) r (ar[nat (j + 1) := Some (k, i)]))
      | _ \<Rightarrow> UB)"

fun range_loop :: "CexpModule list \<Rightarrow> nat \<Rightarrow> u64 \<Rightarrow> nat \<Rightarrow> CexpModule list \<Rightarrow> aidx list \<Rightarrow> aidx list res" where
  "range_loop ms margin addr k [] ar = Ok ar"
| "range_loop ms margin addr k (m # rest) ar =
     bind_res (addrInModule addr (k = 0) m) (\<lambda>inm.
       if \<not> inm then range_loop ms margin addr (k + 1) rest ar
       else
         bind_res (cexpSymTblLkAddrIdx addr (m_symtbl m)) (\<lambda>cli.
         bind_res (lower_loop ms margin addr k (nat (cli + 1)) ar) (\<lambda>ar.
         bind_res (upper_loop ms margin addr k (nat (cli + 1)) (st_nentries (m_symtbl m) - nat (cli + 1)) ar) (\<lambda>ar.
           range_loop ms margin addr (k + 1) rest ar))))"

definition cexpSymLkAddrRange :: "u64 \<Rightarrow> nat \<Rightarrow> CexpModule list \<Rightarrow> aidx list res" where
  "cexpSymLkAddrRange addr margin ms = range_loop ms margin addr 0 ms (replicate (2 * margin + 1) None)"

text \<open>Without a file to print to the margin is 0. The index, -1 for none, and the position of the module.\<close>

definition cexpSymLkAddrIdx :: "u64 \<Rightarrow> CexpModule list \<Rightarrow> (int \<times> nat option) res" where
  "cexpSymLkAddrIdx addr ms =
     bind_res (cexpSymLkAddrRange addr 0 ms) (\<lambda>ar.
       case ar ! 0 of None \<Rightarrow> Ok (-1, None) | Some (k, i) \<Rightarrow> Ok (int i, Some k))"

definition cexpSymLkAddr :: "u64 \<Rightarrow> CexpModule list \<Rightarrow> (nat \<times> nat) option res" where
  "cexpSymLkAddr addr ms =
     bind_res (cexpSymLkAddrIdx addr ms) (\<lambda>(i, mo).
       case mo of
         None \<Rightarrow> Ok None
       | Some k \<Rightarrow>
           (case st_aindex (m_symtbl (ms ! k)) of
              None \<Rightarrow> UB
            | Some ai \<Rightarrow> if nat i < length ai then Ok (Some (k, ai ! nat i)) else UB))"

text \<open>The address and the text for the buffer, whose last character is always 0.\<close>

definition cexpAddrFind :: "u64 \<Rightarrow> nat \<Rightarrow> CexpModule list \<Rightarrow> (int \<times> u64 \<times> string) res" where
  "cexpAddrFind addr bufsize ms =
     bind_res (cexpSymLkAddr addr ms) (\<lambda>r.
       case r of
         None \<Rightarrow> Ok (-1, addr, [])
       | Some (k, j) \<Rightarrow>
           let s = syms_of (m_symtbl (ms ! k)) ! j
           in Ok (0, ca_ptv (sy_value s), take (bufsize - 1) (m_name (ms ! k) @ '':'' @ name_of s)))"

section \<open>Regular expressions\<close>

text \<open>
  One module: the symbols from number \<open>s\<close> on, with \<open>first\<close> telling that none of this module has matched;
  the first match of a module counts twice. Delivers the symbol at which the count is exhausted.
\<close>

fun regex_mod :: "(string \<Rightarrow> bool) \<Rightarrow> CexpSym list \<Rightarrow> nat \<Rightarrow> int \<Rightarrow> bool \<Rightarrow> (nat option \<times> int) res" where
  "regex_mod rc [] s mx first = UB"
| "regex_mod rc (x # xs) s mx first =
     (case sy_name x of
        None \<Rightarrow> Ok (None, mx)
      | Some n \<Rightarrow>
          if mx = 0 then Ok (None, mx)
          else if rc n then
            (let mx = (if first then mx - 1 else mx) - 1
             in if mx \<le> 0 then Ok (Some s, mx) else regex_mod rc xs (s + 1) mx False)
          else regex_mod rc xs (s + 1) mx first)"

fun regex_mods :: "(string \<Rightarrow> bool) \<Rightarrow> CexpModule list \<Rightarrow> nat \<Rightarrow> int \<Rightarrow> ((u64 \<times> nat) option \<times> int) res" where
  "regex_mods rc [] s mx = Ok (None, mx)"
| "regex_mods rc (m # ms) s mx =
     bind_res (regex_mod rc (drop s (syms_of (m_symtbl m))) s mx True) (\<lambda>(found, mx).
       case found of
         Some k \<Rightarrow> Ok (Some (m_addr m, k), mx)
       | None \<Rightarrow> regex_mods rc ms 0 mx)"

text \<open>
  \<open>start\<close> is where the search continues: a module and the symbol found there before, if any. The record
  after the symbol is looked at before the handle is checked.
\<close>

definition cexpSymLookupRegex ::
    "(string \<Rightarrow> bool) \<Rightarrow> int option \<Rightarrow> (u64 \<times> nat option) option \<Rightarrow> CexpModule list \<Rightarrow>
       ((u64 \<times> nat) option \<times> int) res" where
  "cexpSymLookupRegex rc pmax start ms =
     (let mx = (case pmax of None \<Rightarrow> 24 | Some n \<Rightarrow> n);
          rest_from = (\<lambda>a. dropWhile (\<lambda>m. m_addr m \<noteq> a) ms);
          search = (\<lambda>rest s. regex_mods rc rest s mx)
      in case start of
           None \<Rightarrow> search ms 0
         | Some (a, None) \<Rightarrow>
             if a = 0 then search ms 0
             else if modIsStale a ms then Ok (None, mx) else search (rest_from a) 0
         | Some (a, Some s) \<Rightarrow>
             if modIsStale a ms then UB
             else
               (case rest_from a of
                  [] \<Rightarrow> UB
                | m # rest \<Rightarrow>
                    let ss = syms_of (m_symtbl m) in
                    if s + 1 < length ss then
                      (if sy_name (ss ! (s + 1)) = None
                       then (if rest = [] then Ok (None, mx) else search rest 0)
                       else search (m # rest) (s + 1))
                    else UB))"

section \<open>Numbers and dependencies of modules\<close>

text \<open>The numbers after \<open>id\<close>, round the end, until one is not used; \<open>None\<close> when \<open>id\<close> itself is reached.\<close>

partial_function (option) id_loop :: "bitmap \<Rightarrow> nat \<Rightarrow> nat \<Rightarrow> nat option option" where
  "id_loop used start new_id =
     (let n = (new_id + 1) mod MAX_NUM_MODULES in
      if n = start then Some None
      else if BITMAP_TST used n then id_loop used start n
      else Some (Some n))"

definition used_ids :: "CexpModule list \<Rightarrow> bitmap" where
  "used_ids ms = foldl (\<lambda>used m. BITMAP_SET used (m_id m)) no_bits ms"

definition idAlloc :: "modstate \<Rightarrow> nat option res" where
  "idAlloc st =
     (case id_loop (used_ids (ms_list st)) (ms_id st) (ms_id st) of None \<Rightarrow> Hang | Some r \<Rightarrow> Ok r)"

definition addDependencies :: "CexpModule \<Rightarrow> CexpModule list \<Rightarrow> CexpModule list" where
  "addDependencies nmod ms =
     map (\<lambda>m. if BITMAP_TST (m_needs nmod) (m_id m)
               then m\<lparr>m_neededby := BITMAP_SET (m_neededby m) (m_id nmod)\<rparr> else m) ms"

section \<open>The built-in symbols\<close>

definition is_sect :: "CexpSym \<Rightarrow> bool" where
  "is_sect s \<longleftrightarrow> sy_flags s AND CEXP_SYMFLG_SECT \<noteq> 0"

definition guess_type :: "CexpSym \<Rightarrow> CexpSym" where
  "guess_type s =
     (if ca_type (sy_value s) = TVoid
      then s\<lparr>sy_value := (sy_value s)\<lparr>ca_type := cexpTypeGuessFromSize (sint (sy_size s))\<rparr>\<rparr> else s)"

text \<open>
  The array of symbols becomes the array of the table, and is sorted there. Afterwards the section symbols
  are collected from all of the original number of records; there is room for as many as were counted
  before. Allocation succeeds as \<open>mok\<close> says (0 the table, 1 the index, 2 the section symbols). The attributes
  of the program, and the disassembler, are left out.
\<close>

definition cexpLoadBuiltinSymtab :: "mod_env \<Rightarrow> (nat \<Rightarrow> bool) \<Rightarrow> CexpModule \<Rightarrow> (int \<times> CexpModule) res" where
  "cexpLoadBuiltinSymtab en mok nmod =
     (case en_systemSymbols en of
        None \<Rightarrow> Ok (-1, nmod)
      | Some ss \<Rightarrow>
          if list_all (\<lambda>s. sy_name s \<noteq> None) ss then UB
          else
          let nsyms = length (takeWhile (\<lambda>s. sy_name s \<noteq> None) ss);
              nsect = length (filter is_sect (take nsyms ss))
          in if \<not> mok 0 then Ok (-1, nmod)
          else
            bind_res (cexpCreateSymTbl (en_sc en) (en_qs en) mok (Prefab ss nsyms :: CexpSym ext_syms)) (\<lambda>t.
            bind_res (cexpIndexSymTbl (en_qi en) (mok 1) t) (\<lambda>(rc, t).
              if rc \<noteq> 0 then Ok (-1, nmod\<lparr>m_symtbl := t\<rparr>)
              else
                let nmod = nmod\<lparr>m_symtbl := t, m_text_vma := 0xdeadbeef\<rparr> in
                if \<not> mok 2 then Ok (-1, nmod)
                else
                  let arr = syms_of t;
                      sects = filter (\<lambda>i. is_sect (arr ! i)) [0..<nsyms];
                      texts = filter (\<lambda>i. sy_name (arr ! i) = Some ''.text'') sects;
                      vma = (if texts = [] then 0xdeadbeef else ca_ptv (sy_value (arr ! last texts)));
                      arr = map (\<lambda>i. if i < nsyms then guess_type (arr ! i) else arr ! i) [0..<length arr]
                  in if length sects > nsect then UB
                     else Ok (0, nmod\<lparr>m_symtbl := t\<lparr>st_syms := Some arr\<rparr>, m_text_vma := vma,
                                 m_section_syms := Some (map (Pair (m_addr nmod)) sects)\<rparr>))))"

section \<open>Help tables\<close>

text \<open>The symbols at the address of an entry, from the last in the index down to the first global one.\<close>

fun help_down :: "u64 \<Rightarrow> string \<Rightarrow> nat \<Rightarrow> CexpSymTbl \<Rightarrow> CexpSymTbl res" where
  "help_down addr hp 0 t = Ok t"
| "help_down addr hp (Suc i) t =
     (case (st_aindex t, aindex_val t i) of
        (Some ai, Some v) \<Rightarrow>
          if v \<noteq> addr then Ok t
          else
            let k = ai ! i; s = syms_of t ! k in
            if sy_flags s AND (CEXP_SYMFLG_GLBL OR CEXP_SYMFLG_SECT) = CEXP_SYMFLG_GLBL
            then Ok (t\<lparr>st_syms := Some ((syms_of t)[k := s\<lparr>sy_help := Some hp\<rparr>])\<rparr>)
            else help_down addr hp i t
      | _ \<Rightarrow> UB)"

fun cexpAddHelpToSymTab :: "(u64 \<times> string) list \<Rightarrow> CexpSymTbl \<Rightarrow> CexpSymTbl res" where
  "cexpAddHelpToSymTab [] t = Ok t"
| "cexpAddHelpToSymTab ((addr, hp) # h) t =
     bind_res (cexpSymTblLkAddrIdx addr t) (\<lambda>i.
     bind_res (help_down addr hp (nat (i + 1)) t) (cexpAddHelpToSymTab h))"

lemma length_help_down: "help_down addr hp i t = Ok t' \<Longrightarrow> length (syms_of t') = length (syms_of t)"
  by (induction addr hp i t rule: help_down.induct)
    (auto simp: Let_def syms_of_def split: option.splits if_splits)

lemma length_addHelp: "cexpAddHelpToSymTab h t = Ok t' \<Longrightarrow> length (syms_of t') = length (syms_of t)"
proof (induction h t rule: cexpAddHelpToSymTab.induct)
  case (2 addr hp h t)
  from "2.prems" obtain i t1 where i: "cexpSymTblLkAddrIdx addr t = Ok i"
    "help_down addr hp (nat (i + 1)) t = Ok t1" "cexpAddHelpToSymTab h t1 = Ok t'"
    by (auto simp: bind_res_Ok_iff)
  show ?case using "2.IH" [OF i(3)] length_help_down [OF i(2)] by simp
qed simp

lemma regex_loop_bounds:
  "regex_loop re xs s mx found = Ok (Some k, r) \<Longrightarrow> found = Some k \<or> s \<le> k \<and> k < s + length xs"
proof (induction re xs s mx found rule: regex_loop.induct)
  case (2 re x xs s mx found)
  then show ?case by (auto split: option.splits if_splits)
qed simp

lemma help_tables_dec:
  assumes "lookupRegex_rc rc (Some 1) (Some start) t = Ok (Some k, r)" and "cexpAddHelpToSymTab h t = Ok t'"
  shows "length (syms_of t') - Suc k < length (syms_of t) - start"
proof -
  have "start \<le> k \<and> k < start + length (drop start (syms_of t))"
    using assms(1) regex_loop_bounds [of rc "drop start (syms_of t)" start 1 None k r]
    by (auto simp: lookupRegex_rc_def)
  then show ?thesis using length_addHelp [OF assms(2)] by auto
qed

text \<open>Every symbol that matches is the address of a help table.\<close>

function help_tables :: "(string \<Rightarrow> bool) \<Rightarrow> (u64 \<Rightarrow> (u64 \<times> string) list) \<Rightarrow> nat \<Rightarrow> CexpSymTbl \<Rightarrow> CexpSymTbl res" where
  "help_tables rc tab start t =
     (case lookupRegex_rc rc (Some 1) (Some start) t of
        Ok (Some k, _) \<Rightarrow>
          (case cexpAddHelpToSymTab (tab (ca_ptv (sy_value (syms_of t ! k)))) t of
             Ok t' \<Rightarrow> help_tables rc tab (k + 1) t'
           | Fail e \<Rightarrow> Fail e
           | UB \<Rightarrow> UB
           | Hang \<Rightarrow> Hang)
      | Ok (None, _) \<Rightarrow> Ok t
      | Fail e \<Rightarrow> Fail e
      | UB \<Rightarrow> UB
      | Hang \<Rightarrow> Hang)"
  by auto
termination
  by (relation "measure (\<lambda>(rc, tab, start, t). length (syms_of t) - start)") (auto dest: help_tables_dec)

declare help_tables.simps [simp del]


section \<open>Loading and unloading\<close>

text \<open>The name: as given, or what follows the last slash of the file name.\<close>

definition mod_name :: "string option \<Rightarrow> string option \<Rightarrow> string" where
  "mod_name filename modulename =
     (case modulename of
        Some n \<Rightarrow> n
      | None \<Rightarrow>
          (case filename of
             Some f \<Rightarrow> if CHR ''/'' \<in> set f then rev (takeWhile (\<lambda>c. c \<noteq> CHR ''/'') (rev f)) else f
           | None \<Rightarrow> ''SYSTEM-BUILTIN''))"

definition load_symbols ::
    "mod_env \<Rightarrow> (nat \<Rightarrow> bool) \<Rightarrow> string option \<Rightarrow> CexpModule \<Rightarrow> CexpModule list \<Rightarrow> (int \<times> CexpModule) res" where
  "load_symbols en mok filename nmod ms =
     (case filename of
        Some f \<Rightarrow> en_loadFile en f nmod ms
      | None \<Rightarrow> cexpLoadBuiltinSymtab en mok nmod)"

text \<open>
  \<open>a\<close> is the result of the allocation of the record, \<open>nok\<close> tells that the copy of the name is allocated.
  The handle is 0 when nothing is loaded. Memory protection is left out.
\<close>

definition cexpModuleLoad ::
    "mod_env \<Rightarrow> u64 \<Rightarrow> bool \<Rightarrow> (nat \<Rightarrow> bool) \<Rightarrow> string option \<Rightarrow> string option \<Rightarrow> modstate \<Rightarrow>
       (modstate \<times> u64) res" where
  "cexpModuleLoad en a nok mok filename modulename st =
     (let name = mod_name filename modulename in
      if a = 0 then Ok (st, 0)
      else if list_ex (\<lambda>m. m_name m = name) (ms_list st) then Ok (st, 0)
      else
        bind_res (idAlloc st) (\<lambda>r.
          case r of
            None \<Rightarrow> Ok (st, 0)
          | Some k \<Rightarrow>
              let st = st\<lparr>ms_id := k\<rparr> in
              if \<not> nok then Ok (st, 0)
              else
                bind_res (load_symbols en mok filename ((zero_mod a)\<lparr>m_name := name, m_id := k\<rparr>) (ms_list st))
                  (\<lambda>(rc, nmod).
                  if rc \<noteq> 0 then Ok (st, 0)
                  else
                    bind_res (help_tables (en_help_regex en) (en_help_tab en) 0 (m_symtbl nmod)) (\<lambda>t.
                      let ctors = map Ctor (filter (\<lambda>f. f \<noteq> 0) (m_ctors nmod));
                          ini = (if m_ini nmod \<noteq> 0 then [Ini (m_ini nmod) a] else []);
                          nmod = nmod\<lparr>m_symtbl := t, m_ctors := []\<rparr>
                      in Ok (st\<lparr>ms_list := addDependencies nmod (ms_list st) @ [nmod],
                                ms_trace := ms_trace st @ ctors @ ini\<rparr>, a)))))"

definition wipe_segs :: "CexpSegment list \<Rightarrow> event list" where
  "wipe_segs ss = map (\<lambda>s. Wipe (sg_chunk s) (sg_size s)) (filter (\<lambda>s. sg_chunk s \<noteq> 0) ss)"

text \<open>The value returned is 0 or -1. The release of the record and its parts is left out.\<close>

definition cexpModuleUnload :: "mod_env \<Rightarrow> u64 \<Rightarrow> modstate \<Rightarrow> modstate \<times> int" where
  "cexpModuleUnload en a st =
     (let ms = ms_list st in
      if a \<noteq> 0 \<and> ms \<noteq> [] \<and> m_addr (hd ms) = a then (st, -1)
      else
        case predecessor a ms of
          None \<Rightarrow> (st, -1)
        | Some i \<Rightarrow>
            let m = ms ! (i + 1);
                fini = (if m_fini m \<noteq> 0 then [Fini (m_fini m) a] else [])
            in if list_ex (\<lambda>w. w \<noteq> 0) (m_neededby m) then (st, -1)
               else if m_fini m \<noteq> 0 \<and> en_fini en (m_fini m) m \<noteq> 0
               then (st\<lparr>ms_trace := ms_trace st @ fini\<rparr>, -1)
               else
                 let ms = map (\<lambda>n. n\<lparr>m_neededby := BITMAP_CLR (m_neededby n) (m_id m)\<rparr>) ms;
                     dtors = map Dtor (filter (\<lambda>f. f \<noteq> 0) (m_dtors m));
                     cleanup = (if m_cleanup m \<noteq> 0 then [Cleanup (m_cleanup m) a] else [])
                 in (st\<lparr>ms_list := take (i + 1) ms @ drop (i + 2) ms,
                        ms_trace := ms_trace st @ fini @ dtors @ cleanup @ wipe_segs (m_segs m)\<rparr>, 0))"

end
