(* ===== verification/ModuleSteps.thy ===== *)
theory ModuleSteps imports Modules begin

text \<open>
  The modules over time (\<open>cexpmod.c\<close>): what an object loader must keep to, the steps that load and unload
  modules, the invariant of the list and of the dependencies, and what loading, unloading, the allocation
  of numbers and the look-up over all modules deliver.
\<close>

section \<open>Dependencies\<close>

definition needs_of :: "CexpModule \<Rightarrow> nat set" where
  "needs_of m = {k. k < MAX_NUM_MODULES \<and> BITMAP_TST (m_needs m) k}"

definition neededby_of :: "CexpModule \<Rightarrow> nat set" where
  "neededby_of m = {k. k < MAX_NUM_MODULES \<and> BITMAP_TST (m_neededby m) k}"

definition mod_ok :: "CexpModule \<Rightarrow> bool" where
  "mod_ok m \<longleftrightarrow> m_addr m \<noteq> 0 \<and> m_id m < MAX_NUM_MODULES \<and> bm_ok (m_needs m) \<and> bm_ok (m_neededby m)"

text \<open>A module needs only modules before it in the list.\<close>

fun needs_earlier :: "nat set \<Rightarrow> CexpModule list \<Rightarrow> bool" where
  "needs_earlier S [] = True"
| "needs_earlier S (m # ms) = (needs_of m \<subseteq> S \<and> needs_earlier (insert (m_id m) S) ms)"

definition list_ok :: "CexpModule list \<Rightarrow> bool" where
  "list_ok ms \<longleftrightarrow>
     (\<forall>m \<in> set ms. mod_ok m) \<and> distinct (map m_addr ms) \<and> distinct (map m_name ms) \<and> distinct (map m_id ms) \<and>
     needs_earlier {} ms \<and>
     (\<forall>n \<in> set ms. neededby_of n = {m_id m | m. m \<in> set ms \<and> m_id n \<in> needs_of m})"

definition mods_ok :: "modstate \<Rightarrow> bool" where
  "mods_ok st \<longleftrightarrow> list_ok (ms_list st) \<and> ms_id st < MAX_NUM_MODULES"

lemma mods_ok_init: "mods_ok mods_init"
  by (simp add: mods_ok_def mods_init_def list_ok_def MAX_NUM_MODULES_def)

lemma needs_earlier_append:
  "needs_earlier S (xs @ ys) \<longleftrightarrow> needs_earlier S xs \<and> needs_earlier (S \<union> m_id ` set xs) ys"
  by (induction xs arbitrary: S) simp_all

lemma needs_earlier_map:
  "(\<And>m. m_id (f m) = m_id m) \<Longrightarrow> (\<And>m. m_needs (f m) = m_needs m) \<Longrightarrow>
    needs_earlier S (map f xs) = needs_earlier S xs"
  by (induction xs arbitrary: S) (auto simp: needs_of_def)

lemma needs_earlier_unused:
  "needs_earlier (insert k S) xs \<Longrightarrow> \<forall>m \<in> set xs. k \<notin> needs_of m \<Longrightarrow> needs_earlier S xs"
  by (induction xs arbitrary: S) (auto simp: insert_commute)

lemma needs_earlier_ids: "needs_earlier S xs \<Longrightarrow> m \<in> set xs \<Longrightarrow> needs_of m \<subseteq> S \<union> m_id ` set xs"
proof (induction xs arbitrary: S)
  case (Cons x xs)
  then show ?case by (cases "m = x") (auto dest!: Cons.IH)
qed simp

lemma list_okD:
  assumes "list_ok ms"
  shows "m \<in> set ms \<Longrightarrow> mod_ok m" and "distinct (map m_addr ms)" and "distinct (map m_id ms)"
    and "n \<in> set ms \<Longrightarrow> neededby_of n = {m_id m | m. m \<in> set ms \<and> m_id n \<in> needs_of m}"
    and "m \<in> set ms \<Longrightarrow> needs_of m \<subseteq> m_id ` set ms"
  using assms needs_earlier_ids [of "{}" ms] by (auto simp: list_ok_def)

text \<open>The bits of the map, seen as sets.\<close>

lemma neededby_SET:
  "mod_ok m \<Longrightarrow> k < MAX_NUM_MODULES \<Longrightarrow>
    neededby_of (m\<lparr>m_neededby := BITMAP_SET (m_neededby m) k\<rparr>) = insert k (neededby_of m)"
  by (auto simp: neededby_of_def mod_ok_def TST_SET MAX_NUM_MODULES_def)

lemma neededby_CLR:
  "mod_ok m \<Longrightarrow> k < MAX_NUM_MODULES \<Longrightarrow>
    neededby_of (m\<lparr>m_neededby := BITMAP_CLR (m_neededby m) k\<rparr>) = neededby_of m - {k}"
  by (auto simp: neededby_of_def mod_ok_def TST_CLR MAX_NUM_MODULES_def)

lemma neededby_zero: "mod_ok m \<Longrightarrow> list_ex (\<lambda>w. w \<noteq> 0) (m_neededby m) \<longleftrightarrow> neededby_of m \<noteq> {}"
  using all_zero_iff [of "m_neededby m"]
  by (auto simp: mod_ok_def neededby_of_def list_ex_iff MAX_NUM_MODULES_def)

lemma no_needs [simp]: "m_needs m = no_bits \<Longrightarrow> needs_of m = {}"
  by (auto simp: needs_of_def TST_no_bits MAX_NUM_MODULES_def)

lemma no_neededby [simp]: "m_neededby m = no_bits \<Longrightarrow> neededby_of m = {}"
  by (auto simp: neededby_of_def TST_no_bits MAX_NUM_MODULES_def)

section \<open>Adding and removing a module\<close>

definition add_dep :: "CexpModule \<Rightarrow> CexpModule \<Rightarrow> CexpModule" where
  "add_dep nmod m = (if BITMAP_TST (m_needs nmod) (m_id m)
     then m\<lparr>m_neededby := BITMAP_SET (m_neededby m) (m_id nmod)\<rparr> else m)"

lemma addDependencies_map: "addDependencies nmod ms = map (add_dep nmod) ms"
  by (simp add: addDependencies_def add_dep_def)

lemma add_dep_simps [simp]:
  "m_addr (add_dep n m) = m_addr m" "m_name (add_dep n m) = m_name m" "m_id (add_dep n m) = m_id m"
  "m_needs (add_dep n m) = m_needs m" "needs_of (add_dep n m) = needs_of m"
  by (simp_all add: add_dep_def needs_of_def)

lemma add_dep_ok: "mod_ok m \<Longrightarrow> m_id n < MAX_NUM_MODULES \<Longrightarrow> mod_ok (add_dep n m)"
  by (auto simp: add_dep_def mod_ok_def SET_ok MAX_NUM_MODULES_def)

lemma add_dep_neededby:
  "mod_ok m \<Longrightarrow> m_id n < MAX_NUM_MODULES \<Longrightarrow>
    neededby_of (add_dep n m) = neededby_of m \<union> {k. k = m_id n \<and> m_id m \<in> needs_of n}"
  by (auto simp: add_dep_def neededby_SET needs_of_def mod_ok_def)

lemma list_ok_add:
  assumes ok: "list_ok ms" and nm: "mod_ok n" "m_neededby n = no_bits" "needs_of n \<subseteq> m_id ` set ms"
    and fresh: "m_addr n \<notin> m_addr ` set ms" "m_name n \<notin> m_name ` set ms" "m_id n \<notin> m_id ` set ms"
  shows "list_ok (addDependencies n ms @ [n])"
proof -
  have id: "m_id n < MAX_NUM_MODULES" using nm(1) by (simp add: mod_ok_def)
  have none: "m_id n \<notin> needs_of m" if "m \<in> insert n (set ms)" for m
    using that nm(3) fresh(3) list_okD(5) [OF ok] by auto
  have "neededby_of (add_dep n q) = {m_id m |m. (m \<in> set ms \<or> m = n) \<and> m_id q \<in> needs_of m}" if "q \<in> set ms" for q
    using list_okD(4) [OF ok that] add_dep_neededby [OF list_okD(1) [OF ok that] id] by auto
  note q = this
  let ?ms = "map (add_dep n) ms @ [n]"
  have "\<forall>m \<in> set ?ms. mod_ok m"
    using list_okD(1) [OF ok] nm(1) id by (auto intro: add_dep_ok)
  moreover have "distinct (map m_addr ?ms)" "distinct (map m_name ?ms)" "distinct (map m_id ?ms)"
    using ok fresh by (auto simp: list_ok_def comp_def)
  moreover have "needs_earlier {} ?ms"
    using ok nm(3) by (simp add: needs_earlier_append needs_earlier_map list_ok_def image_image)
  moreover have "neededby_of q = {m_id m |m. m \<in> set ?ms \<and> m_id q \<in> needs_of m}" if qq: "q \<in> set ?ms" for q
  proof (cases "q = n")
    case True
    have "m_id n \<notin> needs_of m" if "m \<in> set ?ms" for m using that none by auto
    then show ?thesis using nm(2) True by auto
  next
    case False
    then obtain p where p: "p \<in> set ms" "q = add_dep n p" using qq by auto
    have "(\<exists>m \<in> set ?ms. k = m_id m \<and> m_id p \<in> needs_of m) \<longleftrightarrow>
        (\<exists>m. (m \<in> set ms \<or> m = n) \<and> k = m_id m \<and> m_id p \<in> needs_of m)" for k
      by auto
    then show ?thesis using q [OF p(1)] p(2) by (auto simp del: set_append set_map)
  qed
  ultimately show ?thesis unfolding list_ok_def addDependencies_map by blast
qed

definition clr_dep :: "CexpModule \<Rightarrow> CexpModule \<Rightarrow> CexpModule" where
  "clr_dep x m = m\<lparr>m_neededby := BITMAP_CLR (m_neededby m) (m_id x)\<rparr>"

lemma clr_dep_simps [simp]:
  "m_addr (clr_dep n m) = m_addr m" "m_name (clr_dep n m) = m_name m" "m_id (clr_dep n m) = m_id m"
  "m_needs (clr_dep n m) = m_needs m" "needs_of (clr_dep n m) = needs_of m"
  by (simp_all add: clr_dep_def needs_of_def)

lemma clr_dep_ok: "mod_ok m \<Longrightarrow> m_id n < MAX_NUM_MODULES \<Longrightarrow> mod_ok (clr_dep n m)"
  by (auto simp: clr_dep_def mod_ok_def CLR_ok MAX_NUM_MODULES_def)

lemma list_ok_remove:
  assumes ok: "list_ok (us @ x # vs)" and unused: "neededby_of x = {}"
  shows "list_ok (map (clr_dep x) (us @ vs))"
proof -
  let ?ms = "us @ x # vs" and ?rs = "map (clr_dep x) (us @ vs)"
  have id: "m_id x < MAX_NUM_MODULES" using list_okD(1) [OF ok, of x] by (simp add: mod_ok_def)
  have none: "m_id x \<notin> needs_of m" if "m \<in> set ?ms" for m
    using list_okD(4) [OF ok, of x] unused that by auto
  have "\<forall>m \<in> set ?rs. mod_ok m" using list_okD(1) [OF ok] id by (auto intro: clr_dep_ok)
  moreover have "distinct (map m_addr ?rs)" "distinct (map m_name ?rs)" "distinct (map m_id ?rs)"
    using ok by (auto simp: list_ok_def comp_def)
  moreover have "needs_earlier {} ?rs"
  proof -
    have "needs_earlier {} us" "needs_earlier (insert (m_id x) (m_id ` set us)) vs"
      using ok by (auto simp: list_ok_def needs_earlier_append)
    then have "needs_earlier {} (us @ vs)"
      using needs_earlier_unused [of "m_id x" _ vs] none by (auto simp: needs_earlier_append)
    then show ?thesis by (subst needs_earlier_map) simp_all
  qed
  moreover have "neededby_of q = {m_id m |m. m \<in> set ?rs \<and> m_id q \<in> needs_of m}" if qq: "q \<in> set ?rs" for q
  proof -
    obtain p where p: "p \<in> set (us @ vs)" "q = clr_dep x p" using qq by auto
    have P: "p \<in> set ?ms" using p(1) by auto
    have xid: "m_id m \<noteq> m_id x" if "m \<in> set us \<union> set vs" for m
      using ok that by (auto simp: list_ok_def image_iff)
    have "neededby_of q = {m_id m |m. m \<in> set ?ms \<and> m_id p \<in> needs_of m} - {m_id x}"
      using neededby_CLR [OF list_okD(1) [OF ok P] id] list_okD(4) [OF ok P] p(2) by (simp add: clr_dep_def)
    also have "\<dots> = {m_id m |m. m \<in> set (us @ vs) \<and> m_id p \<in> needs_of m}"
      using xid by auto
    also have "\<dots> = {m_id m |m. m \<in> set ?rs \<and> m_id q \<in> needs_of m}"
      using p(2) by (auto simp: image_iff) (metis clr_dep_simps(3,5))+
    finally show ?thesis .
  qed
  ultimately show ?thesis unfolding list_ok_def by blast
qed

section \<open>Numbers\<close>

lemma used_ids_fold:
  "bm_ok b \<Longrightarrow> \<forall>m \<in> set ms. m_id m < 256 \<Longrightarrow>
    bm_ok (foldl (\<lambda>u m. BITMAP_SET u (m_id m)) b ms) \<and>
    (\<forall>k<256. BITMAP_TST (foldl (\<lambda>u m. BITMAP_SET u (m_id m)) b ms) k \<longleftrightarrow> BITMAP_TST b k \<or> k \<in> m_id ` set ms)"
  by (induction ms arbitrary: b) (auto simp: SET_ok TST_SET)

lemma used_ids_TST:
  "list_ok ms \<Longrightarrow> k < MAX_NUM_MODULES \<Longrightarrow> BITMAP_TST (used_ids ms) k \<longleftrightarrow> k \<in> m_id ` set ms"
  using used_ids_fold [of no_bits ms] list_okD(1) [of ms]
  by (auto simp: used_ids_def mod_ok_def TST_no_bits MAX_NUM_MODULES_def)

lemma id_loop_run:
  assumes "s < 256" and "d < 256" and "\<forall>e. 0 < e \<and> e \<le> d \<longrightarrow> BITMAP_TST used ((s + e) mod 256)"
  shows "\<exists>r. id_loop used s ((s + d) mod 256) = Some r \<and>
    (case r of
       Some k \<Rightarrow> \<exists>e. 0 < e \<and> e < 256 \<and> k = (s + e) mod 256 \<and> \<not> BITMAP_TST used k \<and>
         (\<forall>i. 0 < i \<and> i < e \<longrightarrow> BITMAP_TST used ((s + i) mod 256))
     | None \<Rightarrow> \<forall>e. 0 < e \<and> e < 256 \<longrightarrow> BITMAP_TST used ((s + e) mod 256))"
  using assms(2,3)
proof (induction "256 - d" arbitrary: d rule: less_induct)
  case less
  let ?n = "(s + Suc d) mod 256"
  have n: "((s + d) mod 256 + 1) mod MAX_NUM_MODULES = ?n" by (simp add: MAX_NUM_MODULES_def mod_Suc_eq)
  show ?case
  proof (cases "?n = s")
    case True
    have "Suc d = 256"
    proof (rule ccontr)
      assume "Suc d \<noteq> 256"
      then have "Suc d < 256" using less.prems(1) by simp
      moreover have "?n = (if s + Suc d < 256 then s + Suc d else s + Suc d - 256)"
        using assms(1) less.prems(1) by (auto simp: mod_if)
      ultimately show False using True assms(1) by (auto split: if_splits)
    qed
    then have "\<forall>e. 0 < e \<and> e < 256 \<longrightarrow> BITMAP_TST used ((s + e) mod 256)" using less.prems(2) by auto
    then show ?thesis using True n by (subst id_loop.simps) (simp add: Let_def)
  next
    case False
    then have d: "Suc d < 256" using less.prems(1) assms(1) by (cases "Suc d = 256") (auto simp: mod_if)
    show ?thesis
    proof (cases "BITMAP_TST used ?n")
      case True
      have "\<forall>e. 0 < e \<and> e \<le> Suc d \<longrightarrow> BITMAP_TST used ((s + e) mod 256)"
        using less.prems(2) True le_Suc_eq by auto
      from less.hyps [OF _ d this] d show ?thesis using False True n
        by (subst id_loop.simps) (simp add: Let_def)
    next
      case u: False
      have "\<forall>i. 0 < i \<and> i < Suc d \<longrightarrow> BITMAP_TST used ((s + i) mod 256)" using less.prems(2) by simp
      then show ?thesis using False u n d
        by (subst id_loop.simps) (auto simp: Let_def intro!: exI [of _ "Suc d"])
    qed
  qed
qed

lemma cyclic: "(k :: nat) < 256 \<Longrightarrow> k \<noteq> s \<Longrightarrow> s < 256 \<Longrightarrow> \<exists>e. 0 < e \<and> e < 256 \<and> k = (s + e) mod 256"
  by (rule exI [of _ "if s < k then k - s else k + 256 - s"]) auto

lemma idAlloc_run:
  assumes "mods_ok st"
  obtains r where "idAlloc st = Ok r"
    and "\<And>k. r = Some k \<Longrightarrow> k < MAX_NUM_MODULES \<and> k \<notin> m_id ` set (ms_list st) \<and>
        (\<exists>d. k = (ms_id st + d) mod MAX_NUM_MODULES \<and> 0 < d \<and> d < MAX_NUM_MODULES \<and>
           (\<forall>i. 0 < i \<and> i < d \<longrightarrow> (ms_id st + i) mod MAX_NUM_MODULES \<in> m_id ` set (ms_list st)))"
    and "r = None \<Longrightarrow> \<forall>k < MAX_NUM_MODULES. k \<noteq> ms_id st \<longrightarrow> k \<in> m_id ` set (ms_list st)"
proof -
  have s: "ms_id st < 256" and l: "list_ok (ms_list st)"
    using assms by (simp_all add: mods_ok_def MAX_NUM_MODULES_def)
  note T = used_ids_TST [OF l, unfolded MAX_NUM_MODULES_def]
  from id_loop_run [OF s, of 0 "used_ids (ms_list st)"] s obtain r where
    r: "id_loop (used_ids (ms_list st)) (ms_id st) (ms_id st) = Some r" and
    c: "case r of
       Some k \<Rightarrow> \<exists>e. 0 < e \<and> e < 256 \<and> k = (ms_id st + e) mod 256 \<and> \<not> BITMAP_TST (used_ids (ms_list st)) k \<and>
         (\<forall>i. 0 < i \<and> i < e \<longrightarrow> BITMAP_TST (used_ids (ms_list st)) ((ms_id st + i) mod 256))
     | None \<Rightarrow> \<forall>e. 0 < e \<and> e < 256 \<longrightarrow> BITMAP_TST (used_ids (ms_list st)) ((ms_id st + e) mod 256)"
    by auto
  show ?thesis
  proof (rule that [of r])
    show "idAlloc st = Ok r" using r by (simp add: idAlloc_def)
  next
    fix k assume "r = Some k"
    then show "k < MAX_NUM_MODULES \<and> k \<notin> m_id ` set (ms_list st) \<and>
        (\<exists>d. k = (ms_id st + d) mod MAX_NUM_MODULES \<and> 0 < d \<and> d < MAX_NUM_MODULES \<and>
           (\<forall>i. 0 < i \<and> i < d \<longrightarrow> (ms_id st + i) mod MAX_NUM_MODULES \<in> m_id ` set (ms_list st)))"
      using c T by (auto simp: MAX_NUM_MODULES_def)
  next
    assume "r = None"
    then have "k \<in> m_id ` set (ms_list st)" if "k < 256" "k \<noteq> ms_id st" for k
      using c T [OF that(1)] cyclic [OF that s] by auto
    then show "\<forall>k < MAX_NUM_MODULES. k \<noteq> ms_id st \<longrightarrow> k \<in> m_id ` set (ms_list st)"
      by (simp add: MAX_NUM_MODULES_def)
  qed
qed

text \<open>C20: The allocation of a number always ends: it delivers the next number, counted round from the last
  one given out, that no module of the list has; it delivers none exactly when every number but the last one
  given out is in use.\<close>

theorem next_free_number:
  assumes "mods_ok st"
  shows "case idAlloc st of
      Ok (Some k) \<Rightarrow> k < MAX_NUM_MODULES \<and> k \<notin> m_id ` set (ms_list st) \<and>
        (\<exists>d. k = (ms_id st + d) mod MAX_NUM_MODULES \<and> 0 < d \<and> d < MAX_NUM_MODULES \<and>
           (\<forall>i. 0 < i \<and> i < d \<longrightarrow> (ms_id st + i) mod MAX_NUM_MODULES \<in> m_id ` set (ms_list st)))
    | Ok None \<Rightarrow> \<forall>k < MAX_NUM_MODULES. k \<noteq> ms_id st \<longrightarrow> k \<in> m_id ` set (ms_list st)
    | _ \<Rightarrow> False"
  by (rule idAlloc_run [OF assms]) (simp split: option.split)

section \<open>Loading\<close>

text \<open>
  What a module needs from the loader of its symbols: it keeps the fields that identify the module, and the
  new module needs only modules of the list.
\<close>

locale object_loader =
  fixes load :: "CexpModule \<Rightarrow> CexpModule list \<Rightarrow> (int \<times> CexpModule) res"
  assumes keeps: "load n ms = Ok (0, m) \<Longrightarrow> m_needs n = no_bits \<Longrightarrow> m_neededby n = no_bits \<Longrightarrow>
      m_addr m = m_addr n \<and> m_name m = m_name n \<and> m_id m = m_id n \<and> m_neededby m = no_bits"
    and deps: "load n ms = Ok (0, m) \<Longrightarrow> m_needs n = no_bits \<Longrightarrow> m_neededby n = no_bits \<Longrightarrow> list_ok ms \<Longrightarrow>
      bm_ok (m_needs m) \<and> needs_of m \<subseteq> m_id ` set ms"
begin

lemma chained_ok:
  assumes l: "load n ms = Ok (0, m)" "m_needs n = no_bits" "m_neededby n = no_bits" and ms: "list_ok ms"
    and n: "m_addr n \<noteq> 0" "m_id n < MAX_NUM_MODULES"
    and fresh: "m_addr n \<notin> m_addr ` set ms" "m_name n \<notin> m_name ` set ms" "m_id n \<notin> m_id ` set ms"
  shows "list_ok (addDependencies (m\<lparr>m_symtbl := t, m_ctors := []\<rparr>) ms @ [m\<lparr>m_symtbl := t, m_ctors := []\<rparr>])"
  by (rule list_ok_add [OF ms])
    (use keeps [OF l] deps [OF l ms] n fresh in \<open>simp_all add: mod_ok_def needs_of_def\<close>)

end

lemma builtin_keeps:
  "cexpLoadBuiltinSymtab en mok n = Ok (rc, m) \<Longrightarrow>
    m_addr m = m_addr n \<and> m_name m = m_name n \<and> m_id m = m_id n \<and> m_needs m = m_needs n \<and>
    m_neededby m = m_neededby n"
  by (auto simp: cexpLoadBuiltinSymtab_def Let_def bind_res_Ok_iff split: option.splits if_splits)

interpretation builtin: object_loader "\<lambda>m ms. cexpLoadBuiltinSymtab en mok m" for en mok
  by unfold_locales (auto dest!: builtin_keeps)

lemma load_symbols_loader:
  assumes "\<And>f. object_loader (en_loadFile en f)"
  shows "object_loader (load_symbols en mok filename)"
  using assms builtin.object_loader_axioms [of en mok]
  by (cases filename) (simp_all add: load_symbols_def [abs_def])

lemma fresh_number:
  "mods_ok st \<Longrightarrow> idAlloc st = Ok (Some k) \<Longrightarrow> k < MAX_NUM_MODULES \<and> k \<notin> m_id ` set (ms_list st)"
  using idAlloc_run [of st] by (metis res.inject(1))

lemma load_outcome:
  assumes ok: "mods_ok st" and ld: "\<And>f. object_loader (en_loadFile en f)"
    and fresh: "a \<notin> m_addr ` set (ms_list st)"
    and r: "cexpModuleLoad en a nok mok filename modulename st = Ok (st', h)"
  shows "mods_ok st' \<and>
    (h = 0 \<and> ms_list st' = ms_list st \<or>
     a \<noteq> 0 \<and> h = a \<and>
       (\<exists>m. m_addr m = a \<and> m_name m = mod_name filename modulename \<and>
          ms_list st' = addDependencies m (ms_list st) @ [m]))"
proof (cases "h = 0")
  case True
  then show ?thesis using ok r fresh_number [OF ok]
    by (auto simp: cexpModuleLoad_def Let_def bind_res_Ok_iff mods_ok_def split: if_splits option.splits)
next
  case False
  let ?name = "mod_name filename modulename"
  have name: "?name \<notin> m_name ` set (ms_list st)" and a: "a \<noteq> 0"
    using r False by (auto simp: cexpModuleLoad_def Let_def list_ex_iff split: if_splits)
  then obtain k where k: "idAlloc st = Ok (Some k)"
    using r False by (auto simp: cexpModuleLoad_def Let_def bind_res_Ok_iff split: if_splits option.splits)
  let ?n = "(zero_mod a)\<lparr>m_name := ?name, m_id := k\<rparr>"
  obtain nmod t where nmod: "load_symbols en mok filename ?n (ms_list st) = Ok (0, nmod)"
    and st': "ms_list st' = addDependencies (nmod\<lparr>m_symtbl := t, m_ctors := []\<rparr>) (ms_list st) @
                [nmod\<lparr>m_symtbl := t, m_ctors := []\<rparr>]" "h = a" "ms_id st' = k"
    using r False k a name
    by (auto simp: cexpModuleLoad_def Let_def bind_res_Ok_iff list_ex_iff split: if_splits)
  have "list_ok (ms_list st')"
    unfolding st'(1)
    by (rule object_loader.chained_ok [OF load_symbols_loader [OF ld] nmod])
      (use ok a name fresh fresh_number [OF ok k] in \<open>simp_all add: mods_ok_def zero_mod_def\<close>)
  moreover have "m_addr nmod = a \<and> m_name nmod = ?name"
    using object_loader.keeps [OF load_symbols_loader [OF ld] nmod] by (simp add: zero_mod_def)
  ultimately show ?thesis using st' a fresh_number [OF ok k] by (auto simp: mods_ok_def)
qed

section \<open>Unloading\<close>

lemma pred_loop_Some:
  "pred_loop a ms i = Some j \<Longrightarrow>
    \<exists>us p x vs. ms = us @ p # x # vs \<and> m_addr x = a \<and> j = i + length us"
proof (induction a ms i arbitrary: j rule: pred_loop.induct)
  case (1 a p m ms i)
  show ?case
  proof (cases "m_addr m = a")
    case True
    then show ?thesis using 1 by (intro exI [of _ "[]"]) auto
  next
    case False
    then obtain us q x vs where "m # ms = us @ q # x # vs" "m_addr x = a" "j = i + 1 + length us"
      using 1 by fastforce
    then show ?thesis by (intro exI [of _ "p # us"]) auto
  qed
qed simp_all

lemma pred_loop_None: "pred_loop a ms i = None \<Longrightarrow> a \<notin> m_addr ` set (tl ms)"
  by (induction a ms i rule: pred_loop.induct) (auto split: if_splits)

lemma unload_cases [consumes 1]:
  assumes ok: "list_ok (ms_list st)"
  obtains (bad) "a \<notin> m_addr ` set (tl (ms_list st))" and "cexpModuleUnload en a st = (st, -1)"
  | (good) b us x vs where "ms_list st = b # us @ x # vs" and "m_addr x = a" and
      "cexpModuleUnload en a st =
        (if neededby_of x \<noteq> {} then (st, -1)
         else if m_fini x \<noteq> 0 \<and> en_fini en (m_fini x) x \<noteq> 0
         then (st\<lparr>ms_trace := ms_trace st @ [Fini (m_fini x) a]\<rparr>, -1)
         else (st\<lparr>ms_list := map (clr_dep x) (b # us @ vs),
                  ms_trace := ms_trace st @ (if m_fini x \<noteq> 0 then [Fini (m_fini x) a] else []) @
                    map Dtor (filter (\<lambda>f. f \<noteq> 0) (m_dtors x)) @
                    (if m_cleanup x \<noteq> 0 then [Cleanup (m_cleanup x) a] else []) @ wipe_segs (m_segs x)\<rparr>, 0))"
proof (cases "a \<noteq> 0 \<and> ms_list st \<noteq> [] \<and> m_addr (hd (ms_list st)) = a")
  case True
  then have "a \<notin> m_addr ` set (tl (ms_list st))"
    using list_okD(2) [OF ok] by (cases "ms_list st") auto
  then show ?thesis using True bad by (simp add: cexpModuleUnload_def Let_def)
next
  case nh: False
  show ?thesis
  proof (cases "predecessor a (ms_list st)")
    case None
    have "a \<notin> m_addr ` set (tl (ms_list st))"
    proof (cases "a = 0")
      case True
      then show ?thesis using list_okD(1) [OF ok] by (cases "ms_list st") (auto simp: mod_ok_def)
    next
      case False
      then show ?thesis using None pred_loop_None by (auto simp: predecessor_def)
    qed
    then show ?thesis using nh None bad unfolding cexpModuleUnload_def Let_def by simp
  next
    case (Some j)
    then obtain us p x vs where l: "ms_list st = us @ p # x # vs" "m_addr x = a" "j = length us"
      using pred_loop_Some [of a "ms_list st" 0 j] by (auto simp: predecessor_def split: if_splits)
    obtain b us' where b: "ms_list st = b # us' @ x # vs" "j = length us'"
      using l(1,3) by (cases us) auto
    have x: "mod_ok x" using list_okD(1) [OF ok] l(1) by simp
    have pre: "predecessor a (b # us' @ x # vs) = Some (length us')" using Some b by simp
    have nth: "(b # us' @ x # vs) ! (length us' + 1) = x" by simp
    have rm: "take (length us' + 1) (map (clr_dep x) (b # us' @ x # vs)) @
        drop (length us' + 2) (map (clr_dep x) (b # us' @ x # vs)) = map (clr_dep x) (b # us' @ vs)"
      by simp
    show ?thesis
    proof (rule good [OF b(1) l(2)], goal_cases)
      case 1
      have nh': "\<not> (a \<noteq> 0 \<and> b # us' @ x # vs \<noteq> [] \<and> m_addr (hd (b # us' @ x # vs)) = a)" using nh b(1) by simp
      show ?case
        unfolding cexpModuleUnload_def Let_def b(1) if_not_P [OF nh'] pre option.case nth
          clr_dep_def [symmetric] rm neededby_zero [OF x] by simp
    qed
  qed
qed

text \<open>C16: Unloading a module succeeds exactly when it is loaded and not the system module, no module needs
  it and its finalizer does not object. Then the list is the one before without this module, and the others
  keep their symbols, names, numbers and needs; in all other cases -1 is returned and the list stays as it
  was.\<close>

theorem unload_outcome:
  assumes "mods_ok st" and "cexpModuleUnload en a st = (st', r)"
  shows "(r = 0 \<longleftrightarrow>
      (\<exists>x \<in> set (tl (ms_list st)). m_addr x = a \<and> (\<forall>m \<in> set (ms_list st). m_id x \<notin> needs_of m) \<and>
         (m_fini x = 0 \<or> en_fini en (m_fini x) x = 0))) \<and>
    (r = 0 \<longrightarrow> map (\<lambda>m. m\<lparr>m_neededby := []\<rparr>) (ms_list st') =
                map (\<lambda>m. m\<lparr>m_neededby := []\<rparr>) (filter (\<lambda>m. m_addr m \<noteq> a) (ms_list st))) \<and>
    (r \<noteq> 0 \<longrightarrow> r = -1 \<and> ms_list st' = ms_list st)"
proof -
  have ok: "list_ok (ms_list st)" using assms(1) by (simp add: mods_ok_def)
  from ok show ?thesis
  proof (cases rule: unload_cases [where a = a and en = en])
    case bad
    then show ?thesis using assms(2) by auto
  next
    case (good b us x vs)
    have only: "y = x" if "y \<in> set (us @ x # vs)" "m_addr y = a" for y
      using that list_okD(2) [OF ok] good(1,2) by auto
    have nb: "neededby_of x = {} \<longleftrightarrow> (\<forall>m \<in> set (ms_list st). m_id x \<notin> needs_of m)"
      using list_okD(4) [OF ok, of x] good(1) by auto
    have flt: "filter (\<lambda>m. m_addr m \<noteq> a) (b # us @ x # vs) = b # us @ vs"
    proof -
      have "filter (\<lambda>m. m_addr m \<noteq> a) us = us" "filter (\<lambda>m. m_addr m \<noteq> a) vs = vs"
        using list_okD(2) [OF ok] good(1,2) by (auto intro!: filter_True simp: image_iff)
      then show ?thesis using list_okD(2) [OF ok] good(1,2) by simp
    qed
    have x: "(\<exists>y \<in> set (tl (ms_list st)). m_addr y = a \<and> P y) \<longleftrightarrow> P x" for P
      using only good(1,2) by auto
    show ?thesis unfolding x nb [symmetric]
      unfolding good(1) flt using assms(2) good(3) good(1)
      by (auto simp: clr_dep_def split: if_splits)
  qed
qed

lemma unload_ok: "mods_ok st \<Longrightarrow> mods_ok (fst (cexpModuleUnload en a st))"
proof -
  assume m: "mods_ok st"
  then have ok: "list_ok (ms_list st)" by (simp add: mods_ok_def)
  then show ?thesis
  proof (cases rule: unload_cases [where a = a and en = en])
    case bad
    then show ?thesis using m by simp
  next
    case (good b us x vs)
    then show ?thesis using m list_ok_remove [of "b # us" x vs] ok by (simp add: mods_ok_def)
  qed
qed

text \<open>The modules can always be unloaded from the last to the first.\<close>

lemma last_not_needed:
  assumes "list_ok (us @ [x])"
  shows "neededby_of x = {}"
proof -
  have "needs_of m \<subseteq> m_id ` set us" if "m \<in> set (us @ [x])" for m
    using that assms needs_earlier_ids [of "{}" us m] by (auto simp: list_ok_def needs_earlier_append)
  moreover have "m_id x \<notin> m_id ` set us" using assms by (auto simp: list_ok_def)
  ultimately show ?thesis using list_okD(4) [OF assms, of x] by auto
qed

lemma unload_last:
  assumes m: "mods_ok st" and l: "ms_list st = b # us @ [x]" and fini: "\<And>f m. en_fini en f m = 0"
  shows "ms_list (fst (cexpModuleUnload en (m_addr x) st)) = map (clr_dep x) (b # us)"
proof -
  have ok: "list_ok (ms_list st)" using m by (simp add: mods_ok_def)
  then show ?thesis
  proof (cases rule: unload_cases [where a = "m_addr x" and en = en])
    case bad
    then show ?thesis using l by simp
  next
    case (good b' us' y vs)
    have "neededby_of x = {}" using last_not_needed [of "b # us" x] ok l by simp
    moreover have "y = x \<and> us' = us \<and> vs = []"
    proof -
      have inj: "inj_on m_addr (set (ms_list st))" using list_okD(2) [OF ok] by (simp add: distinct_map)
      have "y \<in> set (ms_list st)" using good(1) by simp
      moreover have "x \<in> set (ms_list st)" using l by simp
      ultimately have y: "y = x" using inj_onD [OF inj good(2)] by simp
      have "vs = []"
      proof (rule ccontr)
        assume "vs \<noteq> []"
        then obtain ws z where "vs = ws @ [z]" by (cases vs rule: rev_cases) auto
        then show False using good(1) l y list_okD(2) [OF ok] by auto
      qed
      then show ?thesis using good(1) l y by simp
    qed
    ultimately show ?thesis using good(3) l good(1) fini by simp
  qed
qed

fun unload_all :: "mod_env \<Rightarrow> u64 list \<Rightarrow> modstate \<Rightarrow> modstate" where
  "unload_all en [] st = st"
| "unload_all en (a # as) st = unload_all en as (fst (cexpModuleUnload en a st))"

text \<open>C18: When no finalizer objects, unloading the modules from the last loaded to the first removes all of
  them but the system module.\<close>

theorem all_modules_unload:
  assumes "mods_ok st" and "ms_list st = b # us" and "\<And>f m. en_fini en f m = 0"
  shows "map m_name (ms_list (unload_all en (rev (map m_addr us)) st)) = [m_name b]"
proof -
  have "map m_name (ms_list (unload_all en (rev as) st)) = [m_name b]"
    if "mods_ok st" "ms_list st = b # us" "map m_addr us = as" for as st b us
    using that
  proof (induction as arbitrary: st b us rule: rev_induct)
    case (snoc a as)
    then obtain vs x where us: "us = vs @ [x]" "m_addr x = a" "map m_addr vs = as"
      by (cases us rule: rev_cases) auto
    have "ms_list (fst (cexpModuleUnload en a st)) = clr_dep x b # map (clr_dep x) vs"
      using unload_last [OF snoc.prems(1) _ assms(3)] snoc.prems(2) us by auto
    from snoc.IH [OF unload_ok [OF snoc.prems(1)] this] us(3) show ?case by (simp add: comp_def)
  qed simp
  from this [OF assms(1,2) refl] show ?thesis .
qed

section \<open>The modules over time\<close>

text \<open>One call; a new record lies where no record of the list lies.\<close>

inductive mod_step :: "mod_env \<Rightarrow> modstate \<Rightarrow> modstate \<Rightarrow> bool" for en where
  load: "a \<notin> m_addr ` set (ms_list st) \<Longrightarrow>
    cexpModuleLoad en a nok mok filename modulename st = Ok (st', h) \<Longrightarrow> mod_step en st st'"
| unload: "cexpModuleUnload en a st = (st', r) \<Longrightarrow> mod_step en st st'"

inductive_cases mod_stepE [elim!]: "mod_step en st st'"

inductive reachable :: "mod_env \<Rightarrow> modstate \<Rightarrow> bool" for en where
  start: "reachable en mods_init"
| step: "reachable en st \<Longrightarrow> mod_step en st st' \<Longrightarrow> reachable en st'"

lemma mod_step_ok:
  "mod_step en st st' \<Longrightarrow> \<forall>f. object_loader (en_loadFile en f) \<Longrightarrow> mods_ok st \<Longrightarrow> mods_ok st'"
proof (induction rule: mod_step.induct)
  case (load a st nok mok filename modulename st' h)
  then show ?case using load_outcome [of st en a nok mok filename modulename st' h] by blast
next
  case (unload a st st' r)
  then show ?case using unload_ok [of st en a] by simp
qed

lemma reachable_ok: "reachable en st \<Longrightarrow> \<forall>f. object_loader (en_loadFile en f) \<Longrightarrow> mods_ok st"
  by (induction rule: reachable.induct) (simp_all add: mods_ok_init mod_step_ok)

text \<open>C6: However modules are loaded and unloaded, handles, names and numbers of the modules stay distinct, a
  module records that it is needed by exactly those that need it, and whatever a module needs is loaded, and
  stands before it in the list.\<close>

theorem module_dependencies:
  assumes "reachable en st" and "\<forall>f. object_loader (en_loadFile en f)" and "ms_list st = ms"
  shows "distinct (map m_addr ms) \<and> distinct (map m_name ms) \<and> distinct (map m_id ms) \<and>
    (\<forall>m \<in> set ms. \<forall>n \<in> set ms. m_id n \<in> needs_of m \<longleftrightarrow> m_id m \<in> neededby_of n) \<and>
    (\<forall>i < length ms. needs_of (ms ! i) \<subseteq> m_id ` set (take i ms))"
proof -
  have ok: "list_ok ms" using reachable_ok [OF assms(1,2)] assms(3) by (simp add: mods_ok_def)
  have inj: "inj_on m_id (set ms)" using list_okD(3) [OF ok] by (simp add: distinct_map)
  have "m_id n \<in> needs_of m \<longleftrightarrow> m_id m \<in> neededby_of n" if "m \<in> set ms" "n \<in> set ms" for m n
    using list_okD(4) [OF ok that(2)] that(1) inj by (auto dest: inj_onD)
  moreover have "needs_of (ms ! i) \<subseteq> m_id ` set (take i ms)" if "i < length ms" for i
  proof -
    have "needs_earlier {} (take i ms @ ms ! i # drop (Suc i) ms)"
      using ok that by (simp add: list_ok_def id_take_nth_drop [symmetric])
    then show ?thesis by (simp add: needs_earlier_append)
  qed
  ultimately show ?thesis using ok by (auto simp: list_ok_def)
qed

text \<open>C17: Loading ends in one of two ways: with the handle 0, and then no module is added, removed or
  changed; or with the handle of a new module of the given name at the end of the list, and the other modules
  keep everything but the record of who needs them. A name that is taken always gives 0.\<close>

theorem load_all_or_nothing:
  assumes "mods_ok st" and "\<forall>f. object_loader (en_loadFile en f)" and "a \<notin> m_addr ` set (ms_list st)"
    and "cexpModuleLoad en a nok mok filename modulename st = Ok (st', h)"
  shows "(h = 0 \<and> ms_list st' = ms_list st \<or>
      h = a \<and> a \<noteq> 0 \<and> mod_name filename modulename \<notin> m_name ` set (ms_list st) \<and>
      (\<exists>m. m_addr m = a \<and> m_name m = mod_name filename modulename \<and>
         map (\<lambda>m. m\<lparr>m_neededby := []\<rparr>) (ms_list st') =
         map (\<lambda>m. m\<lparr>m_neededby := []\<rparr>) (ms_list st @ [m])))"
proof -
  from load_outcome [OF assms(1) _ assms(3,4)] assms(2) have
    o: "h = 0 \<and> ms_list st' = ms_list st \<or> a \<noteq> 0 \<and> h = a \<and>
       (\<exists>m. m_addr m = a \<and> m_name m = mod_name filename modulename \<and>
          ms_list st' = addDependencies m (ms_list st) @ [m])" and "mods_ok st'" by blast+
  then have "distinct (map m_name (ms_list st'))" by (simp add: mods_ok_def list_ok_def)
  then show ?thesis using o by (auto simp: addDependencies_map add_dep_def comp_def image_image)
qed

section \<open>An example\<close>

text \<open>Every file needs the first module; the second one of these modules has a symbol at 40.\<close>

definition ex_load :: "string \<Rightarrow> CexpModule \<Rightarrow> CexpModule list \<Rightarrow> (int \<times> CexpModule) res" where
  "ex_load f n ms =
     (if f = [] then Ok (-1, n)
      else Ok (0, n\<lparr>m_symtbl := zero_tbl\<lparr>st_syms := Some [zero_sym]\<rparr>,
                   m_needs := (case ms of [] \<Rightarrow> no_bits | m # _ \<Rightarrow> BITMAP_SET no_bits (m_id m))\<rparr>))"

definition ex_env :: mod_env where
  "ex_env = \<lparr>en_sc = True, en_qs = sort_by, en_qi = sort_by, en_loadFile = ex_load, en_systemSymbols = None,
     en_fini = (\<lambda>_ _. 0), en_help_regex = (\<lambda>_. False), en_help_tab = (\<lambda>_. [])\<rparr>"

lemma ex_loader: "\<forall>f. object_loader (en_loadFile ex_env f)"
proof (rule allI, unfold_locales)
  fix f :: string and n m :: CexpModule and ms :: "CexpModule list"
  assume l: "en_loadFile ex_env f n ms = Ok (0, m)" "m_needs n = no_bits" "m_neededby n = no_bits"
  then show "m_addr m = m_addr n \<and> m_name m = m_name n \<and> m_id m = m_id n \<and> m_neededby m = no_bits"
    by (auto simp: ex_env_def ex_load_def split: if_splits)
  assume ms: "list_ok ms"
  show "bm_ok (m_needs m) \<and> needs_of m \<subseteq> m_id ` set ms"
  proof (cases ms)
    case Nil
    then show ?thesis using l by (auto simp: ex_env_def ex_load_def split: if_splits)
  next
    case (Cons b bs)
    then have "m_id b < 256" using list_okD(1) [OF ms, of b] by (simp add: mod_ok_def MAX_NUM_MODULES_def)
    then show ?thesis using l Cons
      by (auto simp: ex_env_def ex_load_def needs_of_def SET_ok TST_SET TST_no_bits MAX_NUM_MODULES_def
          split: if_splits)
  qed
qed

definition ex_mod :: "u64 \<Rightarrow> string \<Rightarrow> nat \<Rightarrow> bitmap \<Rightarrow> bitmap \<Rightarrow> CexpModule" where
  "ex_mod a n k needs neededby = (zero_mod a)\<lparr>m_name := n, m_id := k,
     m_symtbl := zero_tbl\<lparr>st_syms := Some [zero_sym]\<rparr>, m_needs := needs, m_neededby := neededby\<rparr>"

definition ex_state :: modstate where
  "ex_state = \<lparr>ms_list = [ex_mod 100 ''base'' 0 no_bits [2, 0, 0, 0, 0, 0, 0, 0],
      ex_mod 200 ''driver'' 1 [1, 0, 0, 0, 0, 0, 0, 0] no_bits], ms_id = 1, ms_trace = []\<rparr>"

definition ex_first :: modstate where
  "ex_first = \<lparr>ms_list = [ex_mod 100 ''base'' 0 no_bits no_bits], ms_id = 0, ms_trace = []\<rparr>"

declare id_loop.simps [code]

lemma ex_load1:
  "cexpModuleLoad ex_env 100 True (\<lambda>_. True) (Some ''lib/base'') None mods_init = Ok (ex_first, 100)"
  by code_simp

lemma ex_load2:
  "cexpModuleLoad ex_env 200 True (\<lambda>_. True) (Some ''driver'') None ex_first = Ok (ex_state, 200)"
  by code_simp

lemma ex_reachable: "reachable ex_env ex_state"
proof (rule reachable.step [OF reachable.step [OF reachable.start]])
  show "mod_step ex_env mods_init ex_first"
    by (rule mod_step.load [OF _ ex_load1]) (simp add: mods_init_def)
  show "mod_step ex_env ex_first ex_state"
    by (rule mod_step.load [OF _ ex_load2]) (simp add: ex_first_def ex_mod_def zero_mod_def)
qed

lemma ex_ok: "mods_ok ex_state" by (rule reachable_ok [OF ex_reachable ex_loader])

lemma ex_bits: "BITMAP_TST [1, 0, 0, 0, 0, 0, 0, 0] 0" "\<not> BITMAP_TST [1, 0, 0, 0, 0, 0, 0, 0] 1"
  by code_simp+

lemma ex_mods: "ms_list ex_state = [ex_mod 100 ''base'' 0 no_bits [2, 0, 0, 0, 0, 0, 0, 0],
    ex_mod 200 ''driver'' 1 [1, 0, 0, 0, 0, 0, 0, 0] no_bits]"
  by (simp add: ex_state_def)

lemma module_dependencies_witness:
  "1 \<in> neededby_of (ex_mod 100 ''base'' 0 no_bits [2, 0, 0, 0, 0, 0, 0, 0])"
proof -
  have "0 \<in> needs_of (ex_mod 200 ''driver'' 1 [1, 0, 0, 0, 0, 0, 0, 0] no_bits)"
    using ex_bits by (simp add: needs_of_def ex_mod_def MAX_NUM_MODULES_def)
  then show ?thesis
    using module_dependencies [OF ex_reachable ex_loader refl] by (simp add: ex_state_def ex_mod_def)
qed

lemma next_free_number_witness: "\<exists>k. idAlloc ex_state = Ok (Some k) \<and> k \<notin> {0, 1}"
proof -
  have "idAlloc ex_state = Ok (Some 2)" by code_simp
  then show ?thesis using next_free_number [OF ex_ok] by (simp add: ex_state_def ex_mod_def)
qed

lemma unload_outcome_witness:
  "snd (cexpModuleUnload ex_env 100 ex_state) \<noteq> 0 \<and> snd (cexpModuleUnload ex_env 200 ex_state) = 0"
proof -
  note o = unload_outcome [OF ex_ok surjective_pairing, THEN conjunct1]
  have "\<not> (\<exists>x\<in>set (tl (ms_list ex_state)). m_addr x = 100 \<and> P x)" for P
    by (simp add: ex_mods ex_mod_def zero_mod_def)
  moreover have "\<exists>x\<in>set (tl (ms_list ex_state)). m_addr x = 200 \<and>
      (\<forall>m\<in>set (ms_list ex_state). m_id x \<notin> needs_of m) \<and> (m_fini x = 0 \<or> en_fini ex_env (m_fini x) x = 0)"
    using ex_bits by (simp add: ex_mods ex_mod_def zero_mod_def needs_of_def TST_no_bits)
  ultimately show ?thesis unfolding o by blast
qed

lemma all_modules_unload_witness:
  "map m_name (ms_list (unload_all ex_env [200] ex_state)) = [''base'']"
  using all_modules_unload [of ex_state "ex_mod 100 ''base'' 0 no_bits [2, 0, 0, 0, 0, 0, 0, 0]"
      "[ex_mod 200 ''driver'' 1 [1, 0, 0, 0, 0, 0, 0, 0] no_bits]" ex_env, OF ex_ok]
  by (simp add: ex_state_def ex_env_def ex_mod_def zero_mod_def)

lemma load_all_or_nothing_witness:
  "''driver'' \<notin> m_name ` set (ms_list ex_first)"
  using load_all_or_nothing [OF _ ex_loader _ ex_load2, OF reachable_ok [OF _ ex_loader]]
    reachable.step [OF reachable.start mod_step.load [OF _ ex_load1]]
  by (auto simp: mods_init_def ex_first_def ex_mod_def zero_mod_def mod_name_def)

end
