(* ===== verification/LoadSects.thy ===== *)
theory LoadSects imports BfdFile ModuleSteps begin

text \<open>
  The sections of an object file on their way into memory (the functions of \<open>bfdstuff.c\<close> that are mapped
  over the sections): counting and dropping empty ones, remembering the names, leaving out link-once
  sections and groups that are there already, the sizes of the segments, the addresses. The theorem about
  the placement says that the sections come to lie in the memory allocated for them, aligned and apart.
\<close>

section \<open>The data for linking\<close>

text \<open>
  The surroundings of the loader: the byte order and the signedness of \<open>char\<close> of the host, the segment of a
  section, the modules that are loaded already, what the regular expression for constructors and destructors
  matches (where the match ends), sorting, and which symbols made by \<open>bfd_make_empty_symbol\<close> get memory.
\<close>

record ld_env =
  le_lsb :: bool
  le_sc :: bool
  le_match :: "bool \<Rightarrow> nat"
  le_mods :: "CexpModule list"
  le_ctor :: "string \<Rightarrow> nat option"
  le_qs :: "(CexpSym \<Rightarrow> CexpSym \<Rightarrow> int) \<Rightarrow> CexpSym list \<Rightarrow> CexpSym list"
  le_qi :: "(nat \<Rightarrow> nat \<Rightarrow> int) \<Rightarrow> nat list \<Rightarrow> nat list"
  le_qp :: "(symref \<times> int \<Rightarrow> symref \<times> int \<Rightarrow> int) \<Rightarrow> (symref \<times> int) list \<Rightarrow> (symref \<times> int) list"
  le_symok :: "nat \<Rightarrow> bool"

text \<open>
  The record \<open>LinkDataRec\<close> without the descriptor, and the memory the module is loaded into. \<open>ld_st\<close> is the
  table of pointers to symbols; \<open>ld_commons\<close>, \<open>ld_ini\<close> and \<open>ld_fini\<close> point into it. \<open>ld_names\<close> are the names in
  the list of section symbols of the module, for which there is room for \<open>ld_room\<close>; \<open>ld_depend\<close> is the
  bitmap of modules it needs.
\<close>

record link_data =
  ld_segs :: "CexpSegment list"
  ld_st :: "symref list"
  ld_commons :: "nat list"
  ld_cst :: "CexpSymTbl option"
  ld_errors :: nat
  ld_num_alloc :: nat
  ld_num_names :: nat
  ld_names :: "bytes option list"
  ld_room :: nat
  ld_depend :: bitmap
  ld_nCtors :: nat
  ld_nDtors :: nat
  ld_eh :: "secref option"
  ld_text :: "secref option"
  ld_text_vma :: u64
  ld_ini :: "nat option"
  ld_fini :: "nat option"
  ld_mem :: "64 mem"

definition ld_zero :: "CexpSegment list \<Rightarrow> bitmap \<Rightarrow> 64 mem \<Rightarrow> link_data" where
  "ld_zero segs depend mem = \<lparr>ld_segs = segs, ld_st = [], ld_commons = [], ld_cst = None, ld_errors = 0,
     ld_num_alloc = 0, ld_num_names = 0, ld_names = [], ld_room = 0, ld_depend = depend, ld_nCtors = 0,
     ld_nDtors = 0, ld_eh = None, ld_text = None, ld_text_vma = 0, ld_ini = None, ld_fini = None, ld_mem = mem\<rparr>"

text \<open>The string a name points to; a null pointer and memory without an end of a string are undefined.\<close>

definition c_str :: "bytes option \<Rightarrow> string res" where
  "c_str nm =
     (case nm of
        None \<Rightarrow> UB
      | Some m \<Rightarrow> (case cstring m of None \<Rightarrow> UB | Some bs \<Rightarrow> Ok (map (\<lambda>x. char_of (unat x)) bs)))"

text \<open>\<open>strcmp\<close> with a literal.\<close>

definition named_as :: "string \<Rightarrow> bytes option \<Rightarrow> bool res" where
  "named_as lit nm = (case nm of None \<Rightarrow> UB | Some m \<Rightarrow> strcmp_eq (str_bytes lit) m)"

fun named_any :: "string list \<Rightarrow> bytes option \<Rightarrow> bool res" where
  "named_any [] nm = Ok False"
| "named_any (l # ls) nm = bind_res (named_as l nm) (\<lambda>eq. if eq then Ok True else named_any ls nm)"

abbreviation EH_SECTION_NAME :: string where "EH_SECTION_NAME \<equiv> ''.eh_frame''"
abbreviation TEXT_SECTION_NAME :: string where "TEXT_SECTION_NAME \<equiv> ''.text''"
abbreviation FIXUP_SECTION_NAME :: string where "FIXUP_SECTION_NAME \<equiv> ''.fixup''"
abbreviation GOT_SECTION_NAME :: string where "GOT_SECTION_NAME \<equiv> ''.got''"
abbreviation GOT2_SECTION_NAME :: string where "GOT2_SECTION_NAME \<equiv> ''.got2''"

definition is_alloc :: "asection \<Rightarrow> bool" where "is_alloc s \<longleftrightarrow> sc_flags s AND SEC_ALLOC \<noteq> 0"

definition drop_alloc :: "secref \<Rightarrow> bfd \<Rightarrow> bfd" where
  "drop_alloc r b = upd_sec r (\<lambda>s. s\<lparr>sc_flags := sc_flags s AND NOT SEC_ALLOC\<rparr>) b"

definition segOf :: "ld_env \<Rightarrow> asection \<Rightarrow> nat" where
  "segOf env s = le_match env (sc_flags s AND SEC_CODE \<noteq> 0)"

definition upd_seg :: "nat \<Rightarrow> (CexpSegment \<Rightarrow> CexpSegment) \<Rightarrow> link_data \<Rightarrow> link_data" where
  "upd_seg k f ld = ld\<lparr>ld_segs := (ld_segs ld)[k := f (ld_segs ld ! k)]\<rparr>"

text \<open>The address -1 means that there is none.\<close>

definition check_get_section_vma :: "asection \<Rightarrow> bool \<times> u64" where
  "check_get_section_vma s = (sc_vma s = -1, sc_vma s)"

definition align_power :: "u64 \<Rightarrow> nat \<Rightarrow> u64" where
  "align_power addr a = (addr + push_bit a 1 - 1) AND push_bit a (- 1)"

section \<open>The passes over the sections\<close>

text \<open>Empty sections are dropped, the others counted.\<close>

definition s_nsects :: "secref \<Rightarrow> bfd \<times> link_data \<Rightarrow> (bfd \<times> link_data) res" where
  "s_nsects r bl =
     (case bl of (b, ld) \<Rightarrow>
      let s = get_sec b r in
      if \<not> is_alloc s then Ok (b, ld)
      else if sc_size s = 0 then Ok (drop_alloc r b, ld)
      else Ok (b, ld\<lparr>ld_num_names := ld_num_names ld + 1\<rparr>))"

text \<open>The array of names has room for one more than were counted, for the null pointer at its end.\<close>

definition s_basic :: "secref \<Rightarrow> bfd \<times> link_data \<Rightarrow> (bfd \<times> link_data) res" where
  "s_basic r bl =
     (case bl of (b, ld) \<Rightarrow>
      let s = get_sec b r in
      bind_res (named_as TEXT_SECTION_NAME (sc_name s)) (\<lambda>text.
        let ld = (if text then ld\<lparr>ld_text := Some r\<rparr> else ld) in
        if \<not> is_alloc s then Ok (b, ld)
        else if ld_num_names ld \<ge> ld_room ld then UB
        else Ok (b, ld\<lparr>ld_names := ld_names ld @ [sc_name s], ld_num_names := ld_num_names ld + 1\<rparr>)))"

text \<open>
  The members of a group, beginning with \<open>s\<close>, until \<open>frst\<close> comes up again or there is none. The next member
  depends on nothing the loop changes, and there are \<open>b_nsects\<close> and the three static sections: a walk of more
  steps than that never ends.
\<close>

fun drop_group :: "nat \<Rightarrow> secref \<Rightarrow> secref \<Rightarrow> bfd \<Rightarrow> bfd res" where
  "drop_group 0 frst s b = Hang"
| "drop_group (Suc n) frst s b =
     (let b = drop_alloc s b in
      case elf_next_in_group b s of
        None \<Rightarrow> Ok b
      | Some s' \<Rightarrow> if s' = frst then Ok b else drop_group n frst s' b)"

definition s_eliminate_linkonce :: "ld_env \<Rightarrow> secref \<Rightarrow> bfd \<times> link_data \<Rightarrow> (bfd \<times> link_data) res" where
  "s_eliminate_linkonce env r bl =
     (case bl of (b, ld) \<Rightarrow>
      let s = get_sec b r in
      bind_res
        (if sc_flags s AND SEC_LINK_ONCE = 0 then Ok b
         else
           bind_res (c_str (sc_name s)) (\<lambda>secn.
           bind_res (cexpSymLookup (le_sc env) secn (le_mods env)) (\<lambda>(found, _).
             if found = None then Ok b
             else
               let b = drop_alloc r b in
               if sc_flags s AND SEC_GROUP = 0 then Ok b
               else case elf_next_in_group b r of
                      None \<Rightarrow> Ok b
                    | Some frst \<Rightarrow> drop_group (b_nsects b + 3) frst frst b)))
        (\<lambda>b. Ok (b, if is_alloc (get_sec b r) then ld\<lparr>ld_num_alloc := ld_num_alloc ld + 1\<rparr> else ld)))"

text \<open>
  The size a section needs: room for the alignment, and for the zero at the end of an exception frame table.
  The shift is one of an \<open>int\<close>.
\<close>

definition s_count :: "ld_env \<Rightarrow> secref \<Rightarrow> bfd \<times> link_data \<Rightarrow> (bfd \<times> link_data) res" where
  "s_count env r bl =
     (case bl of (b, ld) \<Rightarrow>
      let s = get_sec b r; k = segOf env s in
      if \<not> is_alloc s then Ok (b, ld)
      else if sc_align s \<ge> 31 then UB
      else
        let ld = upd_seg k (\<lambda>g. g\<lparr>sg_size := sg_size g + (push_bit (unat (sc_align s)) 1 - 1) + sc_size s\<rparr>) ld in
        if sc_flags s AND SEC_LINK_ONCE \<noteq> 0 then Ok (b, ld)
        else
          bind_res (named_as EH_SECTION_NAME (sc_name s)) (\<lambda>eh.
            if eh then Ok (b, upd_seg k (\<lambda>g. g\<lparr>sg_size := sg_size g + 8\<rparr>) (ld\<lparr>ld_eh := Some r\<rparr>))
            else if sc_size s > 0 then
              bind_res (named_any [FIXUP_SECTION_NAME, GOT_SECTION_NAME, GOT2_SECTION_NAME] (sc_name s)) (\<lambda>bad.
                Ok (b, if bad then ld\<lparr>ld_errors := ld_errors ld + 1\<rparr> else ld))
            else Ok (b, ld)))"

definition s_setvma :: "ld_env \<Rightarrow> secref \<Rightarrow> bfd \<times> link_data \<Rightarrow> (bfd \<times> link_data) res" where
  "s_setvma env r bl =
     (case bl of (b, ld) \<Rightarrow>
      let s = get_sec b r; k = segOf env s; g = ld_segs ld ! k in
      if \<not> is_alloc s \<or> sc_size s = 0 then Ok (b, ld)
      else if sg_vmacalc g = -1 then Ok (b, ld\<lparr>ld_errors := ld_errors ld + 1\<rparr>)
      else if sc_align s \<ge> 64 then UB
      else
        let vma = align_power (sg_vmacalc g) (unat (sc_align s));
            b = upd_sec r (\<lambda>s. s\<lparr>sc_vma := vma\<rparr>) b;
            ld = upd_seg k (\<lambda>g. g\<lparr>sg_vmacalc := vma + sc_size s + (if ld_eh ld = Some r then 8 else 0)\<rparr>) ld
        in Ok (b, if ld_text ld = Some r
                  then ld\<lparr>ld_text_vma := (case check_get_section_vma (get_sec b r) of (bad, v) \<Rightarrow> if bad then 0 else v)\<rparr>
                  else ld))"

section \<open>Making room\<close>

text \<open>The segments are cleared with the pattern 0xee; those without memory cannot be used.\<close>

fun fill_segs :: "CexpSegment list \<Rightarrow> 64 mem \<Rightarrow> 64 mem" where
  "fill_segs [] m = m"
| "fill_segs (g # gs) m =
     fill_segs gs (if sg_chunk g = 0 then m else (\<lambda>x. if unat (x - sg_chunk g) < unat (sg_size g) then 0xee else m x))"

definition start_segs :: "CexpSegment list \<Rightarrow> CexpSegment list" where
  "start_segs gs = map (\<lambda>g. g\<lparr>sg_vmacalc := if sg_chunk g \<noteq> 0 then sg_chunk g else -1\<rparr>) gs"

text \<open>
  The steps of \<open>cexpLoadFile\<close> from the sizes to the addresses; \<open>addrs\<close> is what the allocator delivers. The
  result tells whether to go on.
\<close>

definition place_sections ::
    "ld_env \<Rightarrow> u64 list \<Rightarrow> bfd \<times> link_data \<Rightarrow> blocks \<Rightarrow> (bool \<times> (bfd \<times> link_data) \<times> blocks) res" where
  "place_sections env addrs bl held =
     (case bl of (b, ld) \<Rightarrow>
      bind_res (bfd_map_over_sections (s_count env) (b, ld\<lparr>ld_errors := 0\<rparr>)) (\<lambda>(b, ld).
        if ld_errors ld \<noteq> 0 then Ok (False, (b, ld), held)
        else
          bind_res (cexpSegsAlloc (ld_segs ld) addrs held) (\<lambda>(rc, segs, held).
            if rc \<noteq> 0 then Ok (False, (b, ld\<lparr>ld_segs := segs\<rparr>), held)
            else
              let n = length segs - 1;
                  ld = ld\<lparr>ld_segs := start_segs (take n segs) @ drop n segs, ld_mem := fill_segs (take n segs) (ld_mem ld),
                          ld_errors := 0\<rparr>
              in bind_res (bfd_map_over_sections (s_setvma env) (b, ld)) (\<lambda>(b, ld).
                   Ok (ld_errors ld = 0, (b, ld), held)))))"

section \<open>What a section needs\<close>

definition eh_room :: "asection \<Rightarrow> nat" where
  "eh_room s = (if sc_flags s AND SEC_LINK_ONCE = 0 \<and> named_as EH_SECTION_NAME (sc_name s) = Ok True then 8 else 0)"

definition room :: "asection \<Rightarrow> nat" where
  "room s = (if sc_flags s = SEC_BOGUS \<or> \<not> is_alloc s then 0
     else 2 ^ unat (sc_align s) - 1 + unat (sc_size s) + eh_room s)"

definition need :: "ld_env \<Rightarrow> bfd \<Rightarrow> nat \<Rightarrow> nat \<Rightarrow> nat" where
  "need env b k n = (\<Sum>i\<leftarrow>[0..<n]. if segOf env (b_sects b ! i) = k then room (b_sects b ! i) else 0)"

lemma need_simps [simp]:
  "need env b k 0 = 0"
  "need env b k (Suc n) = need env b k n + (if segOf env (b_sects b ! n) = k then room (b_sects b ! n) else 0)"
  by (simp_all add: need_def)

lemma need_mono: "m \<le> n \<Longrightarrow> need env b k m \<le> need env b k n"
  by (induction n) (auto simp: le_Suc_eq)

lemma align_word: "push_bit n 1 - 1 = (of_nat (2 ^ n - 1) :: u64)"
  by (simp add: of_nat_diff push_bit_eq_mult)

text \<open>The invariant of the counting: the sizes are those of the sections so far.\<close>

definition counted :: "ld_env \<Rightarrow> bfd \<Rightarrow> link_data \<Rightarrow> nat \<Rightarrow> bfd \<times> link_data \<Rightarrow> bool" where
  "counted env b0 ld0 i bl \<longleftrightarrow>
     (case bl of (b, ld) \<Rightarrow> b = b0 \<and> i \<le> b_nsects b0 \<and>
        ld_segs ld = map (\<lambda>k. (ld_segs ld0 ! k)\<lparr>sg_size := sg_size (ld_segs ld0 ! k) + of_nat (need env b0 k i)\<rparr>)
                       [0..<length (ld_segs ld0)] \<and>
        (\<forall>j<i. sc_flags (b_sects b0 ! j) \<noteq> SEC_BOGUS \<longrightarrow> is_alloc (b_sects b0 ! j) \<longrightarrow> sc_align (b_sects b0 ! j) < 31) \<and>
        (\<forall>r. ld_eh ld = Some r \<longrightarrow> (\<exists>j<i. r = Sect j \<and> eh_room (b_sects b0 ! j) = 8)))"

lemma counted_skip:
  assumes "counted env b0 ld0 i (b, ld)" and "i < b_nsects b" and "room (b_sects b ! i) = 0"
    and "sc_flags (b_sects b0 ! i) = SEC_BOGUS \<or> \<not> is_alloc (b_sects b0 ! i)"
  shows "counted env b0 ld0 (i + 1) (b, ld)"
  using assms by (auto simp: counted_def less_Suc_eq)

lemma s_count_result:
  assumes run: "s_count env r (b, ld) = Ok (b', ld')" and s: "s = get_sec b r" and bogus: "sc_flags s \<noteq> SEC_BOGUS"
    and k: "segOf env s < length (ld_segs ld)"
  shows "b' = b \<and>
    (if is_alloc s
     then sc_align s < 31 \<and> (ld_eh ld' = ld_eh ld \<or> ld_eh ld' = Some r \<and> eh_room s = 8) \<and>
       ld_segs ld' = (ld_segs ld)[segOf env s := (ld_segs ld ! segOf env s)
         \<lparr>sg_size := sg_size (ld_segs ld ! segOf env s) + of_nat (room s)\<rparr>]
     else ld' = ld)"
proof (cases "is_alloc s")
  case True
  have al: "sc_align s < 31" "\<not> 31 \<le> sc_align s" using run s True by (auto simp: s_count_def Let_def not_le split: if_splits)
  have r0: "(of_nat (room s) :: u64) = (push_bit (unat (sc_align s)) 1 - 1) + sc_size s + of_nat (eh_room s)"
  proof -
    have "room s = (2 ^ unat (sc_align s) - 1) + unat (sc_size s) + eh_room s" using True bogus by (simp add: room_def)
    then show ?thesis by (simp only: align_word of_nat_add of_nat_unat ucast_id)
  qed
  define k where "k = segOf env s"
  define ld1 where "ld1 = upd_seg k (\<lambda>g. g\<lparr>sg_size := sg_size g + (push_bit (unat (sc_align s)) 1 - 1) + sc_size s\<rparr>) ld"
  have ld1: "ld_segs ld1 = (ld_segs ld)[k := (ld_segs ld ! k)
      \<lparr>sg_size := sg_size (ld_segs ld ! k) + (push_bit (unat (sc_align s)) 1 - 1) + sc_size s\<rparr>]"
    "ld_eh ld1 = ld_eh ld" by (simp_all add: ld1_def upd_seg_def)
  have kl: "k < length (ld_segs ld)" using k by (simp add: k_def)
  have E: "s_count env r (b, ld) =
      (if sc_flags s AND SEC_LINK_ONCE \<noteq> 0 then Ok (b, ld1)
       else bind_res (named_as EH_SECTION_NAME (sc_name s)) (\<lambda>eh.
         if eh then Ok (b, upd_seg k (\<lambda>g. g\<lparr>sg_size := sg_size g + 8\<rparr>) (ld1\<lparr>ld_eh := Some r\<rparr>))
         else if sc_size s > 0 then
           bind_res (named_any [FIXUP_SECTION_NAME, GOT_SECTION_NAME, GOT2_SECTION_NAME] (sc_name s)) (\<lambda>bad.
             Ok (b, if bad then ld1\<lparr>ld_errors := ld_errors ld1 + 1\<rparr> else ld1))
         else Ok (b, ld1)))"
    unfolding s_count_def Let_def prod.case s [symmetric] k_def [symmetric] ld1_def [symmetric]
    using True al(2) by (simp only: not_True_eq_False if_False)
  consider "eh_room s = 0" "b' = b" "ld_eh ld' = ld_eh ld" "ld_segs ld' = ld_segs ld1"
    | "eh_room s = 8" "b' = b" "ld_eh ld' = Some r"
      "ld_segs ld' = (ld_segs ld1)[k := (ld_segs ld1 ! k)\<lparr>sg_size := sg_size (ld_segs ld1 ! k) + 8\<rparr>]"
  proof (cases "sc_flags s AND SEC_LINK_ONCE \<noteq> 0")
    case once: True
    then have "b' = b \<and> ld' = ld1" using run unfolding E by simp
    then show ?thesis using that(1) once by (simp add: eh_room_def ld1(2))
  next
    case False
    then obtain eh where eh: "named_as EH_SECTION_NAME (sc_name s) = Ok eh"
      using run unfolding E by (simp only: if_False bind_res_Ok_iff) blast
    note run' = run [unfolded E eh bind_res.simps if_not_P [OF False]]
    show ?thesis
    proof (cases eh)
      case True
      then have "b' = b \<and> ld' = upd_seg k (\<lambda>g. g\<lparr>sg_size := sg_size g + 8\<rparr>) (ld1\<lparr>ld_eh := Some r\<rparr>)"
        using run' by simp
      then show ?thesis using that(2) False eh True by (simp add: eh_room_def upd_seg_def)
    next
      case no: False
      then have "b' = b \<and> ld_eh ld' = ld_eh ld1 \<and> ld_segs ld' = ld_segs ld1"
        using run' by (auto simp: bind_res_Ok_iff simp del: named_any.simps split: if_splits)
      then show ?thesis using that(1) False eh no by (simp add: eh_room_def ld1(2))
    qed
  qed
  then show ?thesis
    by cases (use True al(1) r0 kl in \<open>simp_all add: ld1 k_def [symmetric] add_ac\<close>)
qed (use run s in \<open>auto simp: s_count_def Let_def\<close>)

lemma counted_step:
  assumes c: "counted env b0 ld0 i (b, ld)" and i: "i < b_nsects b"
    and run: "s_count env (Sect i) (b, ld) = Ok (b', ld')"
    and bogus: "sc_flags (b_sects b ! i) \<noteq> SEC_BOGUS"
    and k: "segOf env (b_sects b ! i) < length (ld_segs ld0)"
  shows "counted env b0 ld0 (i + 1) (b', ld')"
proof -
  have b: "b = b0" and segs: "ld_segs ld = map (\<lambda>k. (ld_segs ld0 ! k)\<lparr>sg_size := sg_size (ld_segs ld0 ! k) + of_nat (need env b0 k i)\<rparr>)
      [0..<length (ld_segs ld0)]" using c by (auto simp: counted_def)
  let ?s = "b_sects b0 ! i"
  note R = s_count_result [OF run refl, simplified, OF bogus]
  have len: "length (ld_segs ld) = length (ld_segs ld0)" by (simp add: segs)
  show ?thesis
  proof (cases "is_alloc ?s")
    case False
    then have "b' = b0" "ld' = ld" using R k len b by auto
    then show ?thesis using counted_skip [OF c i] False b by (simp add: room_def)
  next
    case True
    have segs': "ld_segs ld' = map (\<lambda>k. (ld_segs ld0 ! k)\<lparr>sg_size := sg_size (ld_segs ld0 ! k) + of_nat (need env b0 k (i + 1))\<rparr>)
      [0..<length (ld_segs ld0)]"
      by (rule nth_equalityI) (use R True k len b in \<open>auto simp: segs nth_list_update add_ac\<close>)
    show ?thesis using c R True segs' i len k b unfolding counted_def
      by (auto simp: less_Suc_eq)
  qed
qed

lemma counted_run:
  assumes run: "bfd_map_over_sections (s_count env) (b0, ld0) = Ok (b, ld)" and eh: "ld_eh ld0 = None"
    and k: "\<And>i. i < b_nsects b0 \<Longrightarrow> segOf env (b_sects b0 ! i) < length (ld_segs ld0)"
  shows "counted env b0 ld0 (b_nsects b0) (b, ld)"
proof -
  have start: "counted env b0 ld0 0 (b0, ld0)"
    by (auto simp: counted_def eh intro!: nth_equalityI)
  have mo: "map_over (length (b_sects b0)) 0 (s_count env) (b0, ld0) = Ok (b, ld)"
    using run by (simp add: bfd_map_over_sections_def)
  have st: "counted env b0 ld0 (i + 1) (b', ld')"
    if "counted env b0 ld0 i (b, ld)" "i < b_nsects b" "sc_flags (b_sects b ! i) \<noteq> SEC_BOGUS"
      "s_count env (Sect i) (b, ld) = Ok (b', ld')" for i b ld b' ld'
    using counted_step [OF that(1,2,4,3)] k that(1,2) by (auto simp: counted_def)
  have sk: "counted env b0 ld0 (i + 1) (b, ld)"
    if "counted env b0 ld0 i (b, ld)" "i < b_nsects b" "sc_flags (b_sects b ! i) = SEC_BOGUS" for i b ld
    using counted_skip [OF that(1,2)] that(3) that(1) by (auto simp: room_def counted_def)
  have "\<exists>j. counted env b0 ld0 j (b, ld) \<and> \<not> j < b_nsects b"
    by (rule map_over_shown [where P = "counted env b0 ld0", OF _ _ start mo]) (erule (3) st, erule (2) sk)
  then obtain j where j: "counted env b0 ld0 j (b, ld)" "\<not> j < b_nsects b" by blast
  then have "j = b_nsects b0" by (auto simp: counted_def)
  with j show ?thesis by simp
qed

section \<open>Where the sections come to lie\<close>

lemma align_power_up:
  assumes "unat c + (2 ^ a - 1) < 2 ^ 64"
  shows "unat c \<le> unat (align_power c a)" and "unat (align_power c a) \<le> unat c + (2 ^ a - 1)"
    and "2 ^ a dvd unat (align_power c a)"
proof -
  define w where "w = c + push_bit a 1 - 1"
  have "w = c + of_nat (2 ^ a - 1)" by (simp add: w_def align_word [symmetric] algebra_simps)
  moreover have a: "(2 :: nat) ^ a - 1 < 2 ^ 64" using assms by simp
  moreover have "unat (of_nat (2 ^ a - 1) :: u64) = 2 ^ a - 1"
    using a by (intro unat_of_nat_small) simp
  ultimately have "unat w = (unat c + (2 ^ a - 1)) mod 2 ^ 64"
    by (simp only: unat_word_ariths(1)) simp
  then have w: "unat w = unat c + (2 ^ a - 1)" using assms by simp
  have "align_power c a = push_bit a (drop_bit a w)"
    unfolding align_power_def w_def [symmetric] by (rule bit_word_eqI) (auto simp: bit_simps)
  then have "align_power c a = w - take_bit a w" by (simp add: bits_ident eq_diff_eq)
  moreover have "unat (take_bit a w) \<le> unat w" by (simp add: unsigned_take_bit_eq)
  ultimately have "unat (align_power c a) = unat w - unat (take_bit a w)"
    by (simp add: unat_sub word_le_nat_alt)
  also have "unat (take_bit a w) = unat w mod 2 ^ a"
    by (metis unsigned_take_bit_eq take_bit_eq_mod)
  finally have v: "unat (align_power c a) = unat w - unat w mod 2 ^ a" .
  have m: "unat w mod 2 ^ a < 2 ^ a" "unat w mod 2 ^ a \<le> unat w" by simp_all
  show "2 ^ a dvd unat (align_power c a)" unfolding v by (rule dvd_minus_mod)
  show "unat (align_power c a) \<le> unat c + (2 ^ a - 1)" unfolding v w [symmetric] by simp
  show "unat c \<le> unat (align_power c a)" unfolding v using m(1) w by linarith
qed

text \<open>A section that is to be loaded, and what comes after it.\<close>

definition placed :: "asection \<Rightarrow> bool" where
  "placed s \<longleftrightarrow> sc_flags s \<noteq> SEC_BOGUS \<and> is_alloc s \<and> sc_size s \<noteq> 0"

definition tail :: "secref option \<Rightarrow> nat \<Rightarrow> nat" where
  "tail eh j = (if eh = Some (Sect j) then 8 else 0)"

definition sec_end :: "secref option \<Rightarrow> bfd \<Rightarrow> nat \<Rightarrow> nat" where
  "sec_end eh b j = unat (sc_vma (b_sects b ! j)) + unat (sc_size (b_sects b ! j)) + tail eh j"

text \<open>Section \<open>j\<close> is aligned and between the start of its segment and the address reached.\<close>

definition sec_in :: "secref option \<Rightarrow> CexpSegment \<Rightarrow> bfd \<Rightarrow> nat \<Rightarrow> bool" where
  "sec_in eh g b j \<longleftrightarrow> sg_chunk g \<noteq> 0 \<and> unat (sg_chunk g) \<le> unat (sc_vma (b_sects b ! j)) \<and>
     2 ^ unat (sc_align (b_sects b ! j)) dvd unat (sc_vma (b_sects b ! j)) \<and>
     sec_end eh b j \<le> unat (sg_vmacalc g)"

text \<open>The invariant of the placement: an address below its segment's and sections in ascending order.\<close>

definition laid :: "ld_env \<Rightarrow> bfd \<Rightarrow> link_data \<Rightarrow> nat \<Rightarrow> bfd \<times> link_data \<Rightarrow> bool" where
  "laid env b0 ld0 i bl \<longleftrightarrow>
     (case bl of (b, ld) \<Rightarrow> b_nsects b = b_nsects b0 \<and> i \<le> b_nsects b0 \<and> length (b_sects b) = length (b_sects b0) \<and>
        ld_eh ld = ld_eh ld0 \<and> length (ld_segs ld) = length (ld_segs ld0) \<and>
        (\<forall>j<length (b_sects b0). b_sects b ! j = (b_sects b0 ! j)\<lparr>sc_vma := sc_vma (b_sects b ! j)\<rparr>) \<and>
        (\<forall>k<length (ld_segs ld0) - 1. sg_chunk (ld_segs ld ! k) = sg_chunk (ld_segs ld0 ! k) \<and>
           sg_size (ld_segs ld ! k) = sg_size (ld_segs ld0 ! k) \<and>
           (if sg_chunk (ld_segs ld0 ! k) = 0 then sg_vmacalc (ld_segs ld ! k) = -1
            else sg_chunk (ld_segs ld0 ! k) \<le> sg_vmacalc (ld_segs ld ! k) \<and>
              unat (sg_vmacalc (ld_segs ld ! k)) \<le> unat (sg_chunk (ld_segs ld0 ! k)) + need env b0 k i)) \<and>
        (ld_errors ld = 0 \<longrightarrow>
          (\<forall>j<i. placed (b_sects b0 ! j) \<longrightarrow>
             sec_in (ld_eh ld0) (ld_segs ld ! segOf env (b_sects b0 ! j)) b j \<and>
             (\<forall>j'<j. placed (b_sects b0 ! j') \<longrightarrow> segOf env (b_sects b0 ! j') = segOf env (b_sects b0 ! j) \<longrightarrow>
                sec_end (ld_eh ld0) b j' \<le> unat (sc_vma (b_sects b ! j))))))"

lemma placed_vma [simp]: "placed (s\<lparr>sc_vma := v\<rparr>) = placed s"
  by (simp add: placed_def is_alloc_def)

lemma segOf_vma [simp]: "segOf env (s\<lparr>sc_vma := v\<rparr>) = segOf env s"
  by (simp add: segOf_def)

text \<open>A section that is not to be loaded.\<close>

lemma laid_skip:
  assumes "laid env b0 ld0 i (b, ld)" and "i < b_nsects b" and "\<not> placed (b_sects b0 ! i)"
  shows "laid env b0 ld0 (i + 1) (b, ld)"
proof -
  have "need env b0 k i \<le> need env b0 k (i + 1)" for k by (rule need_mono) simp
  then show ?thesis using assms le_trans unfolding laid_def
    by (auto simp: less_Suc_eq)
qed

text \<open>A section that is placed.\<close>

lemma s_setvma_result:
  assumes run: "s_setvma env (Sect i) (b, ld) = Ok (b', ld')" and s: "s = b_sects b ! i" and p: "placed s"
    and k: "k = segOf env s" "k < length (ld_segs ld)" and i: "i < length (b_sects b)"
  shows "sg_vmacalc (ld_segs ld ! k) = -1 \<and> b' = b \<and> ld' = ld\<lparr>ld_errors := ld_errors ld + 1\<rparr> \<or>
    sg_vmacalc (ld_segs ld ! k) \<noteq> -1 \<and> (\<exists>v. v = align_power (sg_vmacalc (ld_segs ld ! k)) (unat (sc_align s)) \<and>
       b' = b\<lparr>b_sects := (b_sects b)[i := s\<lparr>sc_vma := v\<rparr>]\<rparr> \<and> ld_eh ld' = ld_eh ld \<and> ld_errors ld' = ld_errors ld \<and>
       ld_segs ld' = (ld_segs ld)[k := (ld_segs ld ! k)
         \<lparr>sg_vmacalc := v + sc_size s + of_nat (tail (ld_eh ld) i)\<rparr>])"
proof -
  have "\<not> (\<not> is_alloc s \<or> sc_size s = 0)" using p by (simp add: placed_def)
  then show ?thesis
    using run k i unfolding s_setvma_def Let_def prod.case get_sec.simps s [symmetric] k(1) [symmetric]
    by (auto simp: upd_seg_def tail_def s split: if_splits prod.splits)
qed

lemma sec_in_mono:
  "sec_in eh g b j \<Longrightarrow> sg_chunk g' = sg_chunk g \<Longrightarrow> sg_vmacalc g \<le> sg_vmacalc g' \<Longrightarrow>
    b_sects b' ! j = b_sects b ! j \<Longrightarrow> sec_in eh g' b' j"
  by (auto simp: sec_in_def sec_end_def word_le_nat_alt)

lemma laid_place:
  assumes I: "laid env b0 ld0 i (b, ld)" and i: "i < b_nsects b" and n: "b_nsects b0 \<le> length (b_sects b0)"
    and p: "placed (b_sects b0 ! i)" and k: "k = segOf env (b_sects b0 ! i)" "k < length (ld_segs ld0) - 1"
    and fits: "\<And>k. k < length (ld_segs ld0) - 1 \<Longrightarrow> sg_chunk (ld_segs ld0 ! k) \<noteq> 0 \<Longrightarrow>
        unat (sg_chunk (ld_segs ld0 ! k)) + need env b0 k (b_nsects b0) < 2 ^ 64"
    and eh: "ld_eh ld0 = Some (Sect i) \<Longrightarrow> eh_room (b_sects b0 ! i) = 8"
    and run: "s_setvma env (Sect i) (b, ld) = Ok (b', ld')"
  shows "laid env b0 ld0 (i + 1) (b', ld')"
proof -
  let ?s = "b_sects b ! i"
  define s0 where "s0 = b_sects b0 ! i"
  have L: "b_nsects b = b_nsects b0" "length (b_sects b) = length (b_sects b0)" "ld_eh ld = ld_eh ld0"
    "length (ld_segs ld) = length (ld_segs ld0)" "?s = s0\<lparr>sc_vma := sc_vma ?s\<rparr>"
    using I i n by (auto simp: laid_def s0_def)
  have kl: "k < length (ld_segs ld0)" using k(2) by simp
  have ilen: "i < length (b_sects b0)" using i n L by simp
  have ps: "placed ?s" "segOf env ?s = k" using p k(1) by (subst L(5), simp add: s0_def)+
  let ?g = "ld_segs ld ! k"
  have more: "need env b0 j i \<le> need env b0 j (i + 1)" for j by (rule need_mono) simp
  from s_setvma_result [OF run refl ps(1) ps(2) [symmetric]] kl L ilen
  consider (bad) "sg_vmacalc ?g = -1" "b' = b" "ld' = ld\<lparr>ld_errors := ld_errors ld + 1\<rparr>"
    | (ok) v where "sg_vmacalc ?g \<noteq> -1" "v = align_power (sg_vmacalc ?g) (unat (sc_align ?s))"
       "b' = b\<lparr>b_sects := (b_sects b)[i := ?s\<lparr>sc_vma := v\<rparr>]\<rparr>" "ld_eh ld' = ld_eh ld" "ld_errors ld' = ld_errors ld"
       "ld_segs ld' = (ld_segs ld)[k := ?g\<lparr>sg_vmacalc := v + sc_size ?s + of_nat (tail (ld_eh ld) i)\<rparr>]" by auto
  then show ?thesis
  proof cases
    case bad
    then show ?thesis using I i more le_trans [OF _ add_left_mono [OF more]] by (auto simp: laid_def L)
  next
    case ok
    let ?start = "ld_segs ld0 ! k" and ?c = "sg_vmacalc ?g" and ?a = "unat (sc_align s0)"
    have sz: "sc_size ?s = sc_size s0" "unat (sc_align ?s) = ?a" by (subst L(5), simp)+
    have G: "sg_chunk ?g = sg_chunk ?start" "sg_chunk ?start \<noteq> 0" "sg_chunk ?start \<le> ?c"
      "unat ?c \<le> unat (sg_chunk ?start) + need env b0 k i"
      using I k(2) ok(1) by (auto simp: laid_def split: if_splits)
    have "need env b0 k (i + 1) \<le> need env b0 k (b_nsects b0)" by (rule need_mono) (use i L in simp)
    moreover have rm: "need env b0 k (i + 1) = need env b0 k i + (2 ^ ?a - 1 + unat (sc_size s0) + eh_room s0)"
      using p k(1) by (simp add: room_def placed_def s0_def)
    moreover have tl: "tail (ld_eh ld0) i \<le> eh_room s0" using eh by (auto simp: tail_def s0_def)
    ultimately have top: "unat ?c + (2 ^ ?a - 1) + unat (sc_size s0) + tail (ld_eh ld0) i < 2 ^ 64"
      using fits [OF k(2) G(2)] G(4) by linarith
    note V = align_power_up [of ?c ?a, folded ok(2) [unfolded sz]]
    have v: "?c \<le> v" "unat v \<le> unat ?c + (2 ^ ?a - 1)" "2 ^ ?a dvd unat v"
      using V top by (simp_all add: word_le_nat_alt)
    define w where "w = v + sc_size s0 + of_nat (tail (ld_eh ld0) i)"
    have w: "unat w = unat v + unat (sc_size s0) + tail (ld_eh ld0) i"
    proof -
      have "unat (of_nat (tail (ld_eh ld0) i) :: u64) = tail (ld_eh ld0) i" by (simp add: tail_def)
      then show ?thesis using top v(2) unfolding w_def
        by (simp only: unat_word_ariths(1) mod_add_left_eq) simp
    qed
    have wle: "unat w \<le> unat (sg_chunk ?start) + need env b0 k (i + 1)" "?c \<le> w"
    proof -
      show "unat w \<le> unat (sg_chunk ?start) + need env b0 k (i + 1)" using w v(2) tl rm G(4) by linarith
      show "?c \<le> w" using w v(1) by (simp add: word_le_nat_alt)
    qed
    have segs': "ld_segs ld' = (ld_segs ld)[k := ?g\<lparr>sg_vmacalc := w\<rparr>]"
      using ok(6) by (simp add: w_def sz L(3))
    have b': "b_sects b' ! i = s0\<lparr>sc_vma := v\<rparr>" "\<And>j. j \<noteq> i \<Longrightarrow> b_sects b' ! j = b_sects b ! j"
      "b_nsects b' = b_nsects b" "length (b_sects b') = length (b_sects b)"
      using ok(3) ilen L(2) by (simp_all, subst L(5), simp)
    have old: "sec_in (ld_eh ld0) (ld_segs ld ! segOf env (b_sects b0 ! j)) b j \<and>
        (\<forall>j'<j. placed (b_sects b0 ! j') \<longrightarrow> segOf env (b_sects b0 ! j') = segOf env (b_sects b0 ! j) \<longrightarrow>
           sec_end (ld_eh ld0) b j' \<le> unat (sc_vma (b_sects b ! j)))"
      if "ld_errors ld = 0" "j < i" "placed (b_sects b0 ! j)" for j
      using I that by (auto simp: laid_def)
    have kept: "sg_chunk (ld_segs ld' ! m) = sg_chunk (ld_segs ld ! m) \<and> sg_vmacalc (ld_segs ld ! m) \<le> sg_vmacalc (ld_segs ld' ! m)"
      for m using segs' wle(2) kl L(4) by (cases "m = k") simp_all
    have new: "sec_in (ld_eh ld0) (ld_segs ld' ! k) b' i"
      using G v w sz b'(1) segs' kl L(4) by (auto simp: sec_in_def sec_end_def word_le_nat_alt)
    have after: "sec_end (ld_eh ld0) b' j \<le> unat (sc_vma (b_sects b' ! i))"
      if "ld_errors ld = 0" "j < i" "placed (b_sects b0 ! j)" "segOf env (b_sects b0 ! j) = k" for j
      using conjunct1 [OF old [OF that(1-3)]] that b' v(1) by (auto simp: sec_in_def sec_end_def word_le_nat_alt)
    have all: "sec_in (ld_eh ld0) (ld_segs ld' ! segOf env (b_sects b0 ! j)) b' j \<and>
        (\<forall>j'<j. placed (b_sects b0 ! j') \<longrightarrow> segOf env (b_sects b0 ! j') = segOf env (b_sects b0 ! j) \<longrightarrow>
           sec_end (ld_eh ld0) b' j' \<le> unat (sc_vma (b_sects b' ! j)))"
      if "ld_errors ld = 0" "j < i + 1" "placed (b_sects b0 ! j)" for j
    proof (cases "j = i")
      case True
      then show ?thesis using new after that(1) k(1) by auto
    next
      case False
      then have ji: "j < i" using that(2) by simp
      have "sec_end (ld_eh ld0) b' j' = sec_end (ld_eh ld0) b j'" if "j' < j" for j'
        using b'(2) [of j'] that ji by (simp add: sec_end_def)
      then show ?thesis
        using old [OF that(1) ji that(3)] kept sec_in_mono [of "ld_eh ld0" "ld_segs ld ! segOf env (b_sects b0 ! j)" b j] b'(2) [OF False]
        by auto
    qed
    have secs: "b_sects b' ! j = (b_sects b0 ! j)\<lparr>sc_vma := sc_vma (b_sects b' ! j)\<rparr>" if "j < length (b_sects b0)" for j
      using I that b'(1,2) by (cases "j = i") (auto simp: laid_def s0_def)
    have ss: "sg_chunk (ld_segs ld' ! m) = sg_chunk (ld_segs ld0 ! m) \<and> sg_size (ld_segs ld' ! m) = sg_size (ld_segs ld0 ! m) \<and>
        (if sg_chunk (ld_segs ld0 ! m) = 0 then sg_vmacalc (ld_segs ld' ! m) = -1
         else sg_chunk (ld_segs ld0 ! m) \<le> sg_vmacalc (ld_segs ld' ! m) \<and>
           unat (sg_vmacalc (ld_segs ld' ! m)) \<le> unat (sg_chunk (ld_segs ld0 ! m)) + need env b0 m (i + 1))"
      if "m < length (ld_segs ld0) - 1" for m
    proof (cases "m = k")
      case True
      have "sg_size (ld_segs ld ! k) = sg_size (ld_segs ld0 ! k)" using I k(2) by (simp add: laid_def)
      then show ?thesis using True segs' G wle kl L(4) by auto
    next
      case False
      then show ?thesis using I that segs' more [of m] unfolding laid_def by auto
    qed
    have "b_nsects b' = b_nsects b0" "i + 1 \<le> b_nsects b0" "length (b_sects b') = length (b_sects b0)"
      "ld_eh ld' = ld_eh ld0" "length (ld_segs ld') = length (ld_segs ld0)"
      using b'(3,4) L ok(4) segs' i by simp_all
    then show ?thesis unfolding laid_def prod.case
      by (intro conjI) (fact | use secs in blast | use ss in blast | use all ok(5) in simp)+
  qed
qed

lemma laid_placed:
  assumes I: "laid env b0 ld0 i (b, ld)" and i: "j < b_nsects b" and n: "b_nsects b0 \<le> length (b_sects b0)"
  shows "placed (b_sects b ! j) = placed (b_sects b0 ! j)"
proof -
  have "j < length (b_sects b0)" using I i n by (simp add: laid_def)
  then have "b_sects b ! j = (b_sects b0 ! j)\<lparr>sc_vma := sc_vma (b_sects b ! j)\<rparr>"
    using I unfolding laid_def by blast
  then show ?thesis by (metis placed_vma)
qed

lemma laid_run:
  assumes run: "bfd_map_over_sections (s_setvma env) (b0, ld0) = Ok (b, ld)"
    and n: "b_nsects b0 \<le> length (b_sects b0)"
    and k: "\<And>i. i < b_nsects b0 \<Longrightarrow> segOf env (b_sects b0 ! i) < length (ld_segs ld0) - 1"
    and fits: "\<And>k. k < length (ld_segs ld0) - 1 \<Longrightarrow> sg_chunk (ld_segs ld0 ! k) \<noteq> 0 \<Longrightarrow>
        unat (sg_chunk (ld_segs ld0 ! k)) + need env b0 k (b_nsects b0) < 2 ^ 64"
    and eh: "\<And>j. ld_eh ld0 = Some (Sect j) \<Longrightarrow> eh_room (b_sects b0 ! j) = 8"
    and fresh: "\<And>k. k < length (ld_segs ld0) - 1 \<Longrightarrow>
        sg_vmacalc (ld_segs ld0 ! k) = (if sg_chunk (ld_segs ld0 ! k) \<noteq> 0 then sg_chunk (ld_segs ld0 ! k) else -1)"
  shows "laid env b0 ld0 (b_nsects b0) (b, ld)"
proof -
  have start: "laid env b0 ld0 0 (b0, ld0)" using fresh by (auto simp: laid_def)
  have mo: "map_over (length (b_sects b0)) 0 (s_setvma env) (b0, ld0) = Ok (b, ld)"
    using run by (simp add: bfd_map_over_sections_def)
  have st: "laid env b0 ld0 (i + 1) (b', ld')"
    if I: "laid env b0 ld0 i (b, ld)" "i < b_nsects b" "sc_flags (b_sects b ! i) \<noteq> SEC_BOGUS"
      "s_setvma env (Sect i) (b, ld) = Ok (b', ld')" for i b ld b' ld'
  proof (cases "placed (b_sects b0 ! i)")
    case True
    have "i < b_nsects b0" using I(1,2) by (simp add: laid_def)
    then show ?thesis using laid_place [OF I(1,2) n True refl k fits eh I(4)] by blast
  next
    case False
    then have "\<not> placed (b_sects b ! i)"
      using laid_placed [OF I(1,2) n] by simp
    then have "(b', ld') = (b, ld)" using I(3,4) by (auto simp: s_setvma_def Let_def placed_def)
    then show ?thesis using laid_skip [OF I(1,2) False] by simp
  qed
  have sk: "laid env b0 ld0 (i + 1) (b, ld)"
    if I: "laid env b0 ld0 i (b, ld)" "i < b_nsects b" "sc_flags (b_sects b ! i) = SEC_BOGUS" for i b ld
  proof -
    have "\<not> placed (b_sects b ! i)" using I(3) by (simp add: placed_def)
    then have "\<not> placed (b_sects b0 ! i)"
      using laid_placed [OF I(1,2) n] by simp
    then show ?thesis using laid_skip [OF I(1,2)] by simp
  qed
  have "\<exists>j. laid env b0 ld0 j (b, ld) \<and> \<not> j < b_nsects b"
    by (rule map_over_shown [where P = "laid env b0 ld0", OF _ _ start mo]) (erule (3) st, erule (2) sk)
  then obtain j where j: "laid env b0 ld0 j (b, ld)" "\<not> j < b_nsects b" by blast
  then have "j = b_nsects b0" by (auto simp: laid_def)
  with j show ?thesis by simp
qed

section \<open>The placement\<close>

text \<open>What the allocation of the segments does to the table.\<close>

lemma call_allocat_result:
  assumes "call_allocat f a s b = (0, s', b')"
  shows "\<exists>c. s' = s\<lparr>sg_chunk := c\<rparr> \<and> (c \<noteq> 0 \<longleftrightarrow> sg_size s \<noteq> 0)"
  using assms
  by (cases f) (auto simp: call_allocat_def malloc_allocat_def region_allocat_def split: if_splits)

lemma segs_alloc_result:
  assumes "cexpSegsAlloc (ss @ [zero_seg]) addrs b = Ok (0, r, b')" and "\<And>s. s \<in> set ss \<Longrightarrow> sg_name s \<noteq> None"
  shows "\<exists>ss'. r = ss' @ [zero_seg] \<and> list_all2 (\<lambda>s s'. \<exists>c. s' = s\<lparr>sg_chunk := c\<rparr> \<and> (c \<noteq> 0 \<longleftrightarrow> sg_size s \<noteq> 0)) ss ss'"
  using assms
proof (induction ss arbitrary: addrs b r)
  case Nil
  then show ?case by (simp add: zero_seg_def)
next
  case (Cons s ss)
  then obtain f s1 b1 r1 where f: "call_allocat f (hd (addrs @ [0])) s b = (0, s1, b1)"
    "cexpSegsAlloc (ss @ [zero_seg]) (tl addrs) b1 = Ok (0, r1, b')" "r = s1 # r1"
    by (auto simp: bind_res_Ok_iff split: option.splits prod.splits if_splits)
  then obtain ss' where "r1 = ss' @ [zero_seg]"
    "list_all2 (\<lambda>s s'. \<exists>c. s' = s\<lparr>sg_chunk := c\<rparr> \<and> (c \<noteq> 0 \<longleftrightarrow> sg_size s \<noteq> 0)) ss ss'"
    using Cons.IH [OF f(2)] Cons.prems(2) by auto
  then show ?case using call_allocat_result [OF f(1)] f(3) by (intro exI [of _ "s1 # ss'"]) simp
qed

text \<open>The bytes of a section in memory, with the zero at the end of an exception frame table.\<close>

definition sec_bytes :: "link_data \<Rightarrow> bfd \<Rightarrow> nat \<Rightarrow> nat set" where
  "sec_bytes ld b j = {unat (sc_vma (b_sects b ! j))..<sec_end (ld_eh ld) b j}"

definition seg_bytes :: "CexpSegment \<Rightarrow> nat set" where
  "seg_bytes g = (if sg_chunk g = 0 then {} else {unat (sg_chunk g)..<unat (sg_chunk g) + unat (sg_size g)})"

lemma map_update_same: "f (xs ! k) = y \<Longrightarrow> (map f xs)[k := y] = map f xs"
  by (cases "k < length xs") (auto intro!: nth_equalityI simp: nth_list_update)

lemma s_setvma_segs:
  assumes "s_setvma env r (b, ld) = Ok (b', ld')"
  shows "map sg_chunk (ld_segs ld') = map sg_chunk (ld_segs ld) \<and> map sg_size (ld_segs ld') = map sg_size (ld_segs ld)"
  using assms unfolding s_setvma_def Let_def prod.case
  by (auto simp: upd_seg_def map_update map_update_same split: if_splits prod.splits)

lemma setvma_keeps:
  assumes "bfd_map_over_sections (s_setvma env) (b0, ld0) = Ok (b, ld)"
  shows "map sg_chunk (ld_segs ld) = map sg_chunk (ld_segs ld0) \<and> map sg_size (ld_segs ld) = map sg_size (ld_segs ld0)"
  using map_over_shown [where P = "\<lambda>i (b, ld). map sg_chunk (ld_segs ld) = map sg_chunk (ld_segs ld0) \<and>
      map sg_size (ld_segs ld) = map sg_size (ld_segs ld0)" and f = "s_setvma env" and i = 0 and x = ld0] assms s_setvma_segs
  unfolding bfd_map_over_sections_def by fastforce

lemma placed_where:
  assumes run: "place_sections env addrs (b0, ld0) held = Ok (True, (b, ld), held')"
    and segs: "ld_segs ld0 = ss @ [zero_seg]" and ss: "\<And>s. s \<in> set ss \<Longrightarrow> sg_name s \<noteq> None \<and> sg_size s = 0"
    and match: "\<And>c. le_match env c < length ss" and eh: "ld_eh ld0 = None"
    and n: "b_nsects b0 \<le> length (b_sects b0)"
    and need: "\<And>k. need env b0 k (b_nsects b0) < 2 ^ 64"
    and blocks: "\<And>g. g \<in> set (ld_segs ld) \<Longrightarrow> unat (sg_chunk g) + unat (sg_size g) < 2 ^ 64"
  shows "\<exists>ld2. laid env b0 ld2 (b_nsects b0) (b, ld) \<and> ld_eh ld2 = ld_eh ld \<and> ld_errors ld = 0 \<and>
    length (ld_segs ld2) = length ss + 1 \<and>
    (\<forall>k<length ss. sg_chunk (ld_segs ld2 ! k) = sg_chunk (ld_segs ld ! k) \<and>
       (sg_chunk (ld_segs ld ! k) \<noteq> 0 \<longrightarrow> unat (sg_size (ld_segs ld ! k)) = need env b0 k (b_nsects b0)))"
proof -
  have segOf: "segOf env s < length ss" for s using match by (simp add: segOf_def)
  obtain b1 ld1 where cnt: "bfd_map_over_sections (s_count env) (b0, ld0\<lparr>ld_errors := 0\<rparr>) = Ok (b1, ld1)"
    and rest: "(if ld_errors ld1 \<noteq> 0 then Ok (False, (b1, ld1), held)
        else bind_res (cexpSegsAlloc (ld_segs ld1) addrs held) (\<lambda>(rc, segs, held).
            if rc \<noteq> 0 then Ok (False, (b1, ld1\<lparr>ld_segs := segs\<rparr>), held)
            else
              let n = length segs - 1;
                  ld = ld1\<lparr>ld_segs := start_segs (take n segs) @ drop n segs, ld_mem := fill_segs (take n segs) (ld_mem ld1),
                          ld_errors := 0\<rparr>
              in bind_res (bfd_map_over_sections (s_setvma env) (b1, ld)) (\<lambda>(b, ld).
                   Ok (ld_errors ld = 0, (b, ld), held)))) = Ok (True, (b, ld), held')"
    using run by (auto simp: place_sections_def bind_res_Ok_iff simp del: bind_res.simps)
  have C: "counted env b0 (ld0\<lparr>ld_errors := 0\<rparr>) (b_nsects b0) (b1, ld1)"
    by (rule counted_run [OF cnt]) (use eh segOf in \<open>simp_all add: segs less_SucI\<close>)
  define N where "N k = need env b0 k (b_nsects b0)" for k
  have N0: "N (length ss) = 0"
    using segOf by (auto simp: N_def need_def intro!: sum_list_0 dest: less_imp_neq)
  have b1: "b1 = b0" using C by (simp add: counted_def)
  define ss1 where "ss1 = map (\<lambda>k. (ss ! k)\<lparr>sg_size := of_nat (N k)\<rparr>) [0..<length ss]"
  have segs1: "ld_segs ld1 = ss1 @ [zero_seg]"
    using C N0 ss by (auto simp: counted_def segs nth_append ss1_def N_def zero_seg_def)
  obtain segs2 held2 where alloc: "cexpSegsAlloc (ss1 @ [zero_seg]) addrs held = Ok (0, segs2, held2)"
    using rest segs1 by (auto simp: bind_res_Ok_iff Let_def split: if_splits)
  have "sg_name s \<noteq> None" if "s \<in> set ss1" for s using that ss by (auto simp: ss1_def)
  from segs_alloc_result [OF alloc this] obtain ss2 where ss2: "segs2 = ss2 @ [zero_seg]"
    "list_all2 (\<lambda>s s'. \<exists>c. s' = s\<lparr>sg_chunk := c\<rparr> \<and> (c \<noteq> 0 \<longleftrightarrow> sg_size s \<noteq> 0)) ss1 ss2" by blast
  have len2: "length ss2 = length ss" using list_all2_lengthD [OF ss2(2)] by (simp add: ss1_def)
  define ld2 where "ld2 = ld1\<lparr>ld_segs := start_segs ss2 @ [zero_seg], ld_mem := fill_segs ss2 (ld_mem ld1), ld_errors := 0\<rparr>"
  have run2: "bfd_map_over_sections (s_setvma env) (b0, ld2) = Ok (b, ld)" "ld_errors ld = 0"
    using rest segs1 alloc by (auto simp: bind_res_Ok_iff Let_def ss2(1) ld2_def b1 split: if_splits)
  have el: "sg_size (ss2 ! k) = of_nat (N k)" if "k < length ss" for k
    using list_all2_nthD [OF ss2(2), of k] that by (auto simp: ss1_def)
  have seg2: "ld_segs ld2 ! k = (ss2 ! k)\<lparr>sg_vmacalc := if sg_chunk (ss2 ! k) \<noteq> 0 then sg_chunk (ss2 ! k) else -1\<rparr>"
    if "k < length ss" for k using that len2 by (simp add: ld2_def start_segs_def nth_append)
  have len: "length (ld_segs ld2) = length ss + 1" using len2 by (simp add: ld2_def start_segs_def)
  have fin: "length (ld_segs ld) = length (ld_segs ld2) \<and> (\<forall>k<length ss.
      sg_chunk (ld_segs ld ! k) = sg_chunk (ld_segs ld2 ! k) \<and> sg_size (ld_segs ld ! k) = sg_size (ld_segs ld2 ! k))"
  proof -
    note K = setvma_keeps [OF run2(1)]
    have l: "length (ld_segs ld) = length (ld_segs ld2)" using K by (metis length_map)
    then have "sg_chunk (ld_segs ld ! k) = sg_chunk (ld_segs ld2 ! k) \<and> sg_size (ld_segs ld ! k) = sg_size (ld_segs ld2 ! k)"
      if "k < length ss" for k
      using K that len by (metis nth_map trans_less_add1)
    with l show ?thesis by blast
  qed
  have sz: "unat (of_nat (N k) :: u64) = N k" for k using need by (intro unat_of_nat_small) (simp add: N_def)
  have "laid env b0 ld2 (b_nsects b0) (b, ld)"
  proof (rule laid_run [OF run2(1) n])
    fix k assume k: "k < length (ld_segs ld2) - 1" "sg_chunk (ld_segs ld2 ! k) \<noteq> 0"
    have "ld_segs ld ! k \<in> set (ld_segs ld)" using k(1) fin len by simp
    from blocks [OF this] show "unat (sg_chunk (ld_segs ld2 ! k)) + need env b0 k (b_nsects b0) < 2 ^ 64"
      using k(1) fin len seg2 el sz by (auto simp: N_def)
  next
    fix j assume "ld_eh ld2 = Some (Sect j)"
    then show "eh_room (b_sects b0 ! j) = 8" using C by (auto simp: counted_def ld2_def)
  qed (use segOf len seg2 in auto)
  then show ?thesis using run2(2) len fin seg2 el sz
    by (intro exI [of _ ld2]) (auto simp: laid_def N_def)
qed

lemma laid_apart:
  assumes L: "laid env b0 ld2 (b_nsects b0) (b, ld)" "ld_eh ld2 = ld_eh ld" "ld_errors ld = 0"
      "length (ld_segs ld2) = length ss + 1"
    and S: "\<And>k. k < length ss \<Longrightarrow> sg_chunk (ld_segs ld2 ! k) = sg_chunk (ld_segs ld ! k) \<and>
       (sg_chunk (ld_segs ld ! k) \<noteq> 0 \<longrightarrow> unat (sg_size (ld_segs ld ! k)) = need env b0 k (b_nsects b0))"
    and match: "\<And>c. le_match env c < length ss" and n: "b_nsects b0 \<le> length (b_sects b0)"
    and apart: "\<And>k m. k < m \<Longrightarrow> m < length ss \<Longrightarrow> seg_bytes (ld_segs ld ! k) \<inter> seg_bytes (ld_segs ld ! m) = {}"
    and i: "i < b_nsects b0" "placed (b_sects b0 ! i)"
  shows "2 ^ unat (sc_align (b_sects b ! i)) dvd unat (sc_vma (b_sects b ! i)) \<and>
    sec_bytes ld b i \<subseteq> seg_bytes (ld_segs ld ! segOf env (b_sects b0 ! i)) \<and>
    (\<forall>j<i. placed (b_sects b0 ! j) \<longrightarrow> sec_bytes ld b j \<inter> sec_bytes ld b i = {})"
proof -
  have segOf: "segOf env s < length ss" for s using match by (simp add: segOf_def)
  have I: "sec_in (ld_eh ld) (ld_segs ld ! segOf env (b_sects b0 ! j)) b j" if "j < b_nsects b0" "placed (b_sects b0 ! j)" for j
    using L that by (auto simp: laid_def)
  have O: "sec_end (ld_eh ld) b j \<le> unat (sc_vma (b_sects b ! i))"
    if "j < i" "placed (b_sects b0 ! j)" "segOf env (b_sects b0 ! j) = segOf env (b_sects b0 ! i)" for j
    using L that i by (auto simp: laid_def)
  have sub: "sec_bytes ld b j \<subseteq> seg_bytes (ld_segs ld ! segOf env (b_sects b0 ! j))"
    if j: "j < b_nsects b0" "placed (b_sects b0 ! j)" for j
  proof -
    let ?k = "segOf env (b_sects b0 ! j)"
    have c: "sg_chunk (ld_segs ld ! ?k) \<noteq> 0" using I [OF j] by (simp add: sec_in_def)
    moreover have "unat (sg_vmacalc (ld_segs ld ! ?k)) \<le> unat (sg_chunk (ld_segs ld ! ?k)) + unat (sg_size (ld_segs ld ! ?k))"
      using L(1,4) S [OF segOf] segOf c by (auto simp: laid_def split: if_splits)
    ultimately show ?thesis using I [OF j] by (auto simp: sec_bytes_def seg_bytes_def sec_in_def)
  qed
  have "sec_bytes ld b j \<inter> sec_bytes ld b i = {}" if "j < i" "placed (b_sects b0 ! j)" for j
  proof (cases "segOf env (b_sects b0 ! j) = segOf env (b_sects b0 ! i)")
    case True
    then show ?thesis using O [OF that] by (auto simp: sec_bytes_def)
  next
    case False
    then have "seg_bytes (ld_segs ld ! segOf env (b_sects b0 ! j)) \<inter> seg_bytes (ld_segs ld ! segOf env (b_sects b0 ! i)) = {}"
      using apart segOf by (metis Int_commute linorder_neqE_nat)
    then show ?thesis using sub [OF _ that(2)] sub [OF i] that(1) i(1) by fastforce
  qed
  then show ?thesis using I [OF i] sub [OF i] by (auto simp: sec_in_def)
qed

text \<open>Both configurations start with segments of size zero.\<close>

lemma init_segs:
  assumes "fst (dflt_cexpSegsInit mok) = Some a \<and> m = dflt_cexpSegsMatch \<or>
    fst (ppc_cexpSegsInit mok rsize region) = Some a \<and> m = ppc_cexpSegsMatch"
  shows "\<exists>ss. a = ss @ [zero_seg] \<and> (\<forall>s \<in> set ss. sg_name s \<noteq> None \<and> sg_size s = 0) \<and> (\<forall>c. m c < length ss)"
  using assms
  by (intro exI [of _ "butlast a"])
    (auto simp: dflt_cexpSegsInit_def dflt_cexpSegsMatch_def ppc_cexpSegsInit_def ppc_cexpSegsMatch_def cexpSegsCreate_def
      zero_seg_def Let_def numeral_eq_Suc NSEGS_def SEG_TEXT_def SEG_DFLT_def split: if_splits)

text \<open>C8: When the sections of an object have been given their addresses, in either configuration, every
  section that is to be loaded is aligned as it asks for and lies, with the zero after an exception frame
  table, in the memory allocated for its segment, and no two of them overlap. This is so when the sizes
  do not add up to more than the address space and no exception frame table has been found before; the blocks
  are those the allocator delivered, within the address space and apart from each other.\<close>

theorem sections_placed:
  assumes "fst (dflt_cexpSegsInit mok) = Some (ld_segs ld0) \<and> le_match env = dflt_cexpSegsMatch \<or>
      fst (ppc_cexpSegsInit mok rsize region) = Some (ld_segs ld0) \<and> le_match env = ppc_cexpSegsMatch"
    and "ld_eh ld0 = None" and "b_nsects b0 \<le> length (b_sects b0)"
    and "place_sections env addrs (b0, ld0) held = Ok (True, (b, ld), held')"
    and "\<forall>k. need env b0 k (b_nsects b0) < 2 ^ 64"
    and "\<forall>g \<in> set (ld_segs ld). unat (sg_chunk g) + unat (sg_size g) < 2 ^ 64"
    and "\<forall>k m. k < m \<longrightarrow> m < length (ld_segs ld) \<longrightarrow> seg_bytes (ld_segs ld ! k) \<inter> seg_bytes (ld_segs ld ! m) = {}"
  shows "\<forall>i < b_nsects b0. placed (b_sects b0 ! i) \<longrightarrow>
    2 ^ unat (sc_align (b_sects b ! i)) dvd unat (sc_vma (b_sects b ! i)) \<and>
    sec_bytes ld b i \<subseteq> seg_bytes (ld_segs ld ! segOf env (b_sects b0 ! i)) \<and>
    (\<forall>j < i. placed (b_sects b0 ! j) \<longrightarrow> sec_bytes ld b j \<inter> sec_bytes ld b i = {})"
proof -
  obtain ss where ss: "ld_segs ld0 = ss @ [zero_seg]" "\<forall>s \<in> set ss. sg_name s \<noteq> None \<and> sg_size s = 0"
    "\<forall>c. le_match env c < length ss" using init_segs [OF assms(1)] by blast
  obtain ld2 where L: "laid env b0 ld2 (b_nsects b0) (b, ld)" "ld_eh ld2 = ld_eh ld" "ld_errors ld = 0"
      "length (ld_segs ld2) = length ss + 1"
      "\<forall>k<length ss. sg_chunk (ld_segs ld2 ! k) = sg_chunk (ld_segs ld ! k) \<and>
       (sg_chunk (ld_segs ld ! k) \<noteq> 0 \<longrightarrow> unat (sg_size (ld_segs ld ! k)) = need env b0 k (b_nsects b0))"
    using placed_where [OF assms(4) ss(1)] ss assms by blast
  moreover have "length (ld_segs ld) = length ss + 1" using L(1,4) by (simp add: laid_def)
  ultimately show ?thesis
    using laid_apart [OF L(1-4)] ss(3) assms(3,7) by (metis less_SucI Suc_eq_plus1)
qed

definition lay_env :: ld_env where
  "lay_env = \<lparr>le_lsb = True, le_sc = True, le_match = ppc_cexpSegsMatch, le_mods = [], le_ctor = (\<lambda>_. None),
     le_qs = sort_by, le_qi = sort_by, le_qp = sort_by, le_symok = (\<lambda>_. True)\<rparr>"

definition lay_sec :: "string \<Rightarrow> u64 \<Rightarrow> u8 \<Rightarrow> u32 \<Rightarrow> asection" where
  "lay_sec nm sz al fl = zero_sec\<lparr>sc_name := Some (str_mem nm), sc_size := sz, sc_align := al, sc_flags := fl\<rparr>"

definition lay_bfd :: bfd where
  "lay_bfd = bfd_start\<lparr>b_nsects := 4, b_sects := [lay_sec ''.text'' 6 2 (SEC_ALLOC OR SEC_CODE), lay_sec ''.data'' 5 0 SEC_ALLOC,
     lay_sec ''.eh_frame'' 4 3 SEC_ALLOC, lay_sec ''.bss'' 12 4 SEC_ALLOC]\<rparr>"

definition lay_start :: link_data where "lay_start = ld_zero two_segments no_bits (\<lambda>_. 0)"

definition lay_run where
  "lay_run = (case place_sections lay_env [0x1000, 0x8001] (lay_bfd, lay_start) \<lparr>bl_malloc = [], bl_region = []\<rparr> of
     Ok r \<Rightarrow> r | _ \<Rightarrow> (False, (lay_bfd, lay_start), \<lparr>bl_malloc = [], bl_region = []\<rparr>))"

lemma lay_runs:
  "\<exists>b ld h. lay_run = (True, (b, ld), h) \<and>
    place_sections lay_env [0x1000, 0x8001] (lay_bfd, lay_start) \<lparr>bl_malloc = [], bl_region = []\<rparr> = Ok (True, (b, ld), h) \<and>
    map sg_chunk (ld_segs ld) = [0x1000, 0x8001, 0] \<and> map sg_size (ld_segs ld) = [9, 51, 0]"
proof -
  have "(case lay_run of (ok, (b, ld), _) \<Rightarrow> ok \<and> map sg_chunk (ld_segs ld) = [0x1000, 0x8001, 0] \<and>
      map sg_size (ld_segs ld) = [9, 51, 0])" by code_simp
  moreover have "(case place_sections lay_env [0x1000, 0x8001] (lay_bfd, lay_start) \<lparr>bl_malloc = [], bl_region = []\<rparr> of
      Ok _ \<Rightarrow> True | _ \<Rightarrow> False)" by code_simp
  ultimately show ?thesis by (auto simp: lay_run_def split: res.splits prod.splits)
qed

lemma need_le: "need env b k n \<le> (\<Sum>i\<leftarrow>[0..<n]. room (b_sects b ! i))"
  unfolding need_def by (rule sum_list_mono) simp

lemma lay_n: "b_nsects lay_bfd = 4" by (simp add: lay_bfd_def)

lemma lay_placed: "placed (b_sects lay_bfd ! 1)" "placed (b_sects lay_bfd ! 2)" by code_simp+

lemma lay_room: "(\<Sum>i\<leftarrow>[0..<4]. room (b_sects lay_bfd ! i)) = 60" by code_simp

lemma lay_al: "(case lay_run of (_, (b, _), _) \<Rightarrow> sc_align (b_sects b ! 2) = 3)" by code_simp

lemma sections_placed_witness:
  "\<exists>b ld h. lay_run = (True, (b, ld), h) \<and> 8 dvd unat (sc_vma (b_sects b ! 2)) \<and>
    sec_bytes ld b 1 \<inter> sec_bytes ld b 2 = {}"
proof -
  obtain b ld h where r: "lay_run = (True, (b, ld), h)"
    "place_sections lay_env [0x1000, 0x8001] (lay_bfd, lay_start) \<lparr>bl_malloc = [], bl_region = []\<rparr> = Ok (True, (b, ld), h)"
    "map sg_chunk (ld_segs ld) = [0x1000, 0x8001, 0]" "map sg_size (ld_segs ld) = [9, 51, 0]"
    using lay_runs by (elim exE conjE) (rule that)
  then obtain x y z where g: "ld_segs ld = [x, y, z]" "sg_chunk x = 0x1000" "sg_chunk y = 0x8001" "sg_chunk z = 0"
    "sg_size x = 9" "sg_size y = 51" "sg_size z = 0" by (auto simp: map_eq_Cons_conv)
  have nd: "\<forall>k. need lay_env lay_bfd k (b_nsects lay_bfd) < 2 ^ 64"
  proof
    fix k
    show "need lay_env lay_bfd k (b_nsects lay_bfd) < 2 ^ 64"
      using need_le [of lay_env lay_bfd k 4] unfolding lay_room lay_n by simp
  qed
  have ini: "fst (ppc_cexpSegsInit True 2000 7) = Some (ld_segs lay_start) \<and> le_match lay_env = ppc_cexpSegsMatch"
    by (simp add: lay_start_def ld_zero_def two_segments_def ppc_cexpSegsInit_def cexpSegsCreate_def Let_def lay_env_def)
  have small: "\<forall>g \<in> set (ld_segs ld). unat (sg_chunk g) + unat (sg_size g) < 2 ^ 64" using g by simp
  have apart: "\<forall>k m. k < m \<longrightarrow> m < length (ld_segs ld) \<longrightarrow> seg_bytes (ld_segs ld ! k) \<inter> seg_bytes (ld_segs ld ! m) = {}"
  proof (intro allI impI)
    fix k m assume "k < m" "m < length (ld_segs ld)"
    then have "k = 0 \<and> m = 1 \<or> k = 0 \<and> m = 2 \<or> k = 1 \<and> m = 2" using g(1) by auto
    then show "seg_bytes (ld_segs ld ! k) \<inter> seg_bytes (ld_segs ld ! m) = {}"
      using g by (elim disjE conjE) (simp_all add: seg_bytes_def)
  qed
  have al: "sc_align (b_sects b ! 2) = 3" using lay_al unfolding r(1) by simp
  have eh: "ld_eh lay_start = None" and len: "b_nsects lay_bfd \<le> length (b_sects lay_bfd)"
    by (simp_all add: lay_start_def ld_zero_def lay_bfd_def)
  note T = sections_placed [OF disjI2 [OF ini] eh len r(2) nd small apart, rule_format, unfolded lay_n, of 2]
  have "8 dvd unat (sc_vma (b_sects b ! 2)) \<and> sec_bytes ld b 1 \<inter> sec_bytes ld b 2 = {}"
    using T lay_placed al by auto
  then show ?thesis using r(1) by blast
qed

end
