(* ===== verification/LoadSyms.thy ===== *)
theory LoadSyms imports LoadSects begin

text \<open>
  The symbols of an object file that is loaded (\<open>bfdstuff.c\<close>): resolution of undefined, common and weak
  symbols against the modules that are loaded, constructors and destructors, the symbols that are kept,
  and the section for new common symbols. A slot of the table of symbols is its index; a reference to a
  symbol of another module is a new absolute symbol in the slot.
\<close>

section \<open>Constructors and destructors\<close>

text \<open>
  What the function returns (1, -1 or 0) and the text behind the match. The character before the last of
  the match tells which it is.
\<close>

definition INIT_PRIO_NONE :: int where "INIT_PRIO_NONE = 1000000"

definition isCtorDtor :: "ld_env \<Rightarrow> asymbol \<Rightarrow> (int \<times> string) res" where
  "isCtorDtor env sy =
     bind_res (c_str (as_name sy)) (\<lambda>nm.
       case le_ctor env nm of
         None \<Rightarrow> Ok (0, [])
       | Some e \<Rightarrow>
           if e < 2 \<or> e > length nm then UB
           else Ok (if nm ! (e - 2) = CHR ''I'' then 1 else if nm ! (e - 2) = CHR ''D'' then -1 else 0, drop e nm))"

text \<open>\<open>atoi\<close> of what begins with a digit; the result is an \<open>int\<close>.\<close>

definition is_dec :: "char \<Rightarrow> bool" where "is_dec c \<longleftrightarrow> CHR ''0'' \<le> c \<and> c \<le> CHR ''9''"

definition atoi :: "string \<Rightarrow> int res" where
  "atoi s = (let n = foldl (\<lambda>v c. 10 * v + (of_char c - 48)) 0 (takeWhile is_dec s) in if n < 2 ^ 31 then Ok n else UB)"

definition ctor_prio :: "string \<Rightarrow> int res" where
  "ctor_prio s = (case s of c # _ \<Rightarrow> if is_dec c then atoi s else Ok INIT_PRIO_NONE | [] \<Rightarrow> Ok INIT_PRIO_NONE)"

section \<open>Alignment of common symbols\<close>

text \<open>The smallest power of two that is not below the alignment.\<close>

function pwr_loop :: "nat \<Rightarrow> nat \<Rightarrow> nat \<Rightarrow> nat" where
  "pwr_loop align tst rval = (if 0 < tst \<and> tst < align then pwr_loop align (2 * tst) (rval + 1) else rval)"
  by auto
termination by (relation "measure (\<lambda>(align, tst, rval). align - tst)") auto

declare pwr_loop.simps [simp del]

definition elf_get_align_pwr :: "bfd \<Rightarrow> asymbol \<Rightarrow> nat" where
  "elf_get_align_pwr b sp = pwr_loop (unat (elf_get_align b sp)) 1 0"

text \<open>The comparison for the sorting of the slots of common symbols, greatest alignment first.\<close>

definition align_size_compare :: "bfd \<Rightarrow> link_data \<Rightarrow> nat \<Rightarrow> nat \<Rightarrow> int" where
  "align_size_compare b ld i j =
     sint (elf_get_align b (get_sym b (ld_st ld ! j)) - elf_get_align b (get_sym b (ld_st ld ! i)))"

section \<open>References to other modules\<close>

text \<open>A symbol of the given name in the modules that are loaded: its index, and its module.\<close>

definition lookup_idx :: "ld_env \<Rightarrow> string \<Rightarrow> (nat \<times> CexpModule) option res" where
  "lookup_idx env nm =
     bind_res (cexpSymLookup (le_sc env) nm (le_mods env)) (\<lambda>(i, a).
       case (i, List.find (\<lambda>m. m_addr m = a) (le_mods env)) of
         (Some i, Some m) \<Rightarrow> Ok (Some (i, m))
       | _ \<Rightarrow> Ok None)"

definition mod_sym :: "CexpModule \<Rightarrow> nat \<Rightarrow> CexpSym" where "mod_sym m i = syms_of (m_symtbl m) ! i"

definition lookup_mods :: "ld_env \<Rightarrow> string \<Rightarrow> (CexpSym \<times> CexpModule) option res" where
  "lookup_mods env nm = bind_res (lookup_idx env nm) (\<lambda>r. Ok (map_option (\<lambda>(i, m). (mod_sym m i, m)) r))"

text \<open>A new symbol; no memory for it is a null pointer that is written to.\<close>

definition new_symbol :: "ld_env \<Rightarrow> asymbol \<Rightarrow> bfd \<Rightarrow> (symref \<times> bfd) res" where
  "new_symbol env s b =
     (case bfd_make_empty_symbol (le_symok env (length (b_made b))) b of
        (None, _) \<Rightarrow> UB
      | (Some r, b) \<Rightarrow> Ok (r, upd_sym r (\<lambda>_. s) b))"

definition asymFromCexpSym ::
    "ld_env \<Rightarrow> CexpSym \<Rightarrow> CexpModule \<Rightarrow> bfd \<times> link_data \<Rightarrow> (symref \<times> bfd \<times> link_data) res" where
  "asymFromCexpSym env csym m bl =
     (case bl of (b, ld) \<Rightarrow>
      bind_res (new_symbol env (bfd_set_section (Some Abs)
          (zero_asym\<lparr>as_name := map_option str_mem (sy_name csym), as_val := ca_ptv (sy_value csym), as_flags := BSF_GLOBAL\<rparr>)) b)
        (\<lambda>(r, b). if m_id m \<ge> MAX_NUM_MODULES then UB
                  else Ok (r, b, ld\<lparr>ld_depend := BITMAP_SET (ld_depend ld) (m_id m)\<rparr>)))"

definition set_slot :: "nat \<Rightarrow> symref \<Rightarrow> link_data \<Rightarrow> link_data" where
  "set_slot i r ld = ld\<lparr>ld_st := (ld_st ld)[i := r]\<rparr>"

definition sym_flag :: "symref \<Rightarrow> u16 \<Rightarrow> bfd \<Rightarrow> bfd" where
  "sym_flag r fl b = upd_sym r (\<lambda>s. s\<lparr>as_flags := as_flags s OR fl\<rparr>) b"

definition add_new_common :: "symref \<Rightarrow> nat \<Rightarrow> bfd \<times> link_data \<Rightarrow> bfd \<times> link_data" where
  "add_new_common sp slot bl =
     (case bl of (b, ld) \<Rightarrow>
      (sym_flag sp (BSF_KEEP OR BSF_OLD_COMMON) b, (set_slot slot sp ld)\<lparr>ld_commons := ld_commons ld @ [slot]\<rparr>))"

section \<open>Resolution\<close>

text \<open>Initialiser and finaliser: the slot, and an error for a second one.\<close>

definition CEXPMOD_INITIALIZER_SYM :: string where "CEXPMOD_INITIALIZER_SYM = ''_cexpModuleInitialize''"
definition CEXPMOD_FINALIZER_SYM :: string where "CEXPMOD_FINALIZER_SYM = ''_cexpModuleFinalize''"

definition note_callbacks :: "nat \<Rightarrow> symref \<Rightarrow> bfd \<times> link_data \<times> nat \<Rightarrow> (bfd \<times> link_data \<times> nat) res" where
  "note_callbacks i r ble =
     (case ble of (b, ld, errs) \<Rightarrow>
      bind_res (named_as CEXPMOD_INITIALIZER_SYM (as_name (get_sym b r))) (\<lambda>ini.
        if ini then
          Ok (if ld_ini ld \<noteq> None then (sym_flag r BSF_LOCAL b, ld, errs + 1)
              else (sym_flag r BSF_LOCAL b, ld\<lparr>ld_ini := Some i\<rparr>, errs))
        else
          bind_res (named_as CEXPMOD_FINALIZER_SYM (as_name (get_sym b r))) (\<lambda>fini.
            if fini then
              Ok (if ld_fini ld \<noteq> None then (sym_flag r BSF_LOCAL b, ld, errs + 1)
                  else (sym_flag r BSF_LOCAL b, ld\<lparr>ld_fini := Some i\<rparr>, errs))
            else Ok (b, ld, errs))))"

text \<open>A common symbol of which there is one already: it must be large enough and aligned.\<close>

definition existing_errors :: "bfd \<Rightarrow> asymbol \<Rightarrow> CexpSym \<Rightarrow> nat" where
  "existing_errors b sp ts =
     (if sint (sy_size ts) < sint (elf_get_size sp) then 1 else 0) +
     (if ca_ptv (sy_value ts) AND ucast (elf_get_align b sp - 1) \<noteq> 0 then 1 else 0)"

text \<open>One symbol that is neither local nor of a thread, when the look-up has found \<open>found\<close>.\<close>

definition resolve_global ::
    "ld_env \<Rightarrow> nat \<Rightarrow> symref \<Rightarrow> (CexpSym \<times> CexpModule) option \<Rightarrow> bfd \<times> link_data \<times> nat \<Rightarrow> (bfd \<times> link_data \<times> nat) res" where
  "resolve_global env i r found ble =
     (case ble of (b, ld, errs) \<Rightarrow>
      let sp = get_sym b r; sect = bfd_get_section b sp;
          replace = (\<lambda>ts m e. bind_res (asymFromCexpSym env ts m (b, ld)) (\<lambda>(r', b, ld). Ok (b, set_slot i r' ld, errs + e)))
      in if sect = Some Und then
           (if found \<noteq> None then Ok (b, ld, errs)
            else if bfd_asymbol_value b sp \<noteq> 0 \<and> as_flags sp AND BSF_FUNCTION \<noteq> 0 then Ok (sym_flag r BSF_KEEP b, ld, errs)
            else if as_flags sp AND BSF_WEAK \<noteq> 0 then
              (case add_new_common r i (b, ld) of (b, ld) \<Rightarrow> Ok (b, ld, errs))
            else Ok (b, ld, errs))
         else if sect = Some Com then
           (case found of
              Some (ts, m) \<Rightarrow> replace ts m (existing_errors b sp ts)
            | None \<Rightarrow> (case add_new_common r i (b, ld) of (b, ld) \<Rightarrow> Ok (b, ld, errs)))
         else
           (case found of
              Some (ts, m) \<Rightarrow> if as_flags sp AND BSF_WEAK \<noteq> 0 then replace ts m 0 else Ok (b, ld, errs + 1)
            | None \<Rightarrow> Ok (sym_flag r BSF_KEEP b, ld, errs)))"

definition resolve_one :: "ld_env \<Rightarrow> nat \<Rightarrow> bfd \<times> link_data \<times> nat \<Rightarrow> (bfd \<times> link_data \<times> nat) res" where
  "resolve_one env i ble =
     (case ble of (b, ld, errs) \<Rightarrow>
      let r = ld_st ld ! i in
      bind_res (isCtorDtor env (get_sym b r)) (\<lambda>(res, _).
      let ld = (if res > 0 then ld\<lparr>ld_nCtors := ld_nCtors ld + 1\<rparr> else if res < 0 then ld\<lparr>ld_nDtors := ld_nDtors ld + 1\<rparr> else ld) in
      bind_res (note_callbacks i r (b, ld, errs)) (\<lambda>(b, ld, errs).
      let sp = get_sym b r in
      if as_flags sp AND BSF_LOCAL \<noteq> 0 then
        (if as_flags sp AND BSF_SECTION_SYM \<noteq> 0 then
           (case bfd_get_section b sp of
              None \<Rightarrow> UB
            | Some sect \<Rightarrow> Ok (if is_alloc (get_sec b sect) then sym_flag r BSF_KEEP b else b, ld, errs))
         else Ok (b, ld, errs))
      else
        bind_res (c_str (as_name sp)) (\<lambda>symname.
          if as_flags sp AND BSF_THREAD_LOCAL \<noteq> 0 then Ok (b, ld, errs)
          else bind_res (lookup_mods env symname) (\<lambda>found. resolve_global env i r found (b, ld, errs))))))"

fun resolve_loop :: "ld_env \<Rightarrow> nat list \<Rightarrow> bfd \<times> link_data \<times> nat \<Rightarrow> (bfd \<times> link_data \<times> nat) res" where
  "resolve_loop env [] ble = Ok ble"
| "resolve_loop env (i # is) ble = bind_res (resolve_one env i ble) (resolve_loop env is)"

text \<open>The number of new common symbols, or of errors as a negative number.\<close>

definition resolve_syms :: "ld_env \<Rightarrow> bfd \<times> link_data \<Rightarrow> (int \<times> bfd \<times> link_data) res" where
  "resolve_syms env bl =
     (case bl of (b, ld) \<Rightarrow>
      bind_res (resolve_loop env [0..<length (ld_st ld)] (b, ld\<lparr>ld_commons := []\<rparr>, 0)) (\<lambda>(b, ld, errs).
        Ok (if errs \<noteq> 0 then - int errs else int (length (ld_commons ld)), b, ld)))"

section \<open>The symbol table of the module\<close>

text \<open>The name under which a symbol is kept, if it is.\<close>

definition filter_sym :: "bfd \<Rightarrow> asymbol \<Rightarrow> string option res" where
  "filter_sym b sp =
     (if as_flags sp AND BSF_KEEP = 0 then Ok None
      else
        bind_res
          (if as_flags sp AND BSF_SECTION_SYM \<noteq> 0
           then (case bfd_get_section b sp of None \<Rightarrow> UB | Some r \<Rightarrow> c_str (sc_name (get_sec b r)))
           else c_str (as_name sp)) (\<lambda>nm. Ok (Some nm)))"

text \<open>
  The record of a symbol: until the module has been relocated its value is the slot of the symbol. A size is
  an \<open>int\<close>.
\<close>

definition sym_size :: "bfd \<Rightarrow> asymbol \<Rightarrow> u32" where
  "sym_size b sp =
     (if as_flags sp AND BSF_FUNCTION \<noteq> 0 then (if elf_get_size sp = 0 then 8 else elf_get_size sp)
      else if as_flags sp AND BSF_SECTION_SYM = 0 \<and> as_flags sp AND BSF_OLD_COMMON \<noteq> 0 then ucast (bfd_asymbol_value b sp)
      else elf_get_size sp)"

definition sym_type :: "bfd \<Rightarrow> link_data \<Rightarrow> asymbol \<Rightarrow> CexpType" where
  "sym_type b ld sp =
     (let t = (if as_flags sp AND BSF_FUNCTION \<noteq> 0 then TFuncP
               else if as_flags sp AND BSF_SECTION_SYM \<noteq> 0 then TVoid
               else cexpTypeGuessFromSize (sint (sym_size b sp)))
      in if t = TVoid \<and> as_flags sp AND (BSF_FUNCTION OR BSF_OBJECT OR BSF_SECTION_SYM) = 0 \<and> sym_size b sp = 0 \<and>
            ld_text ld \<noteq> None \<and> ld_text ld = bfd_get_section b sp
         then TFuncP else t)"

definition assign_sym :: "bfd \<Rightarrow> link_data \<Rightarrow> nat \<Rightarrow> CexpSym \<Rightarrow> CexpSym" where
  "assign_sym b ld slot cesp =
     (let sp = get_sym b (ld_st ld ! slot) in
      cesp\<lparr>sy_size := sym_size b sp, sy_value := \<lparr>ca_ptv = of_nat slot, ca_type = sym_type b ld sp\<rparr>,
        sy_flags := sy_flags cesp
          OR (if as_flags sp AND BSF_GLOBAL \<noteq> 0 then CEXP_SYMFLG_GLBL else 0)
          OR (if as_flags sp AND BSF_WEAK \<noteq> 0 then CEXP_SYMFLG_WEAK else 0)
          OR (if as_flags sp AND BSF_SECTION_SYM \<noteq> 0 then CEXP_SYMFLG_SECT else 0)\<rparr>)"

text \<open>The names of all slots, in order; the first that is undefined makes it all undefined.\<close>

fun slot_names :: "bfd \<Rightarrow> nat \<Rightarrow> symref list \<Rightarrow> (nat \<times> string option) list res" where
  "slot_names b i [] = Ok []"
| "slot_names b i (r # rs) =
     bind_res (filter_sym b (get_sym b r)) (\<lambda>nm. bind_res (slot_names b (i + 1) rs) (\<lambda>l. Ok ((i, nm) # l)))"

definition make_cst :: "ld_env \<Rightarrow> (nat \<Rightarrow> bool) \<Rightarrow> bfd \<times> link_data \<Rightarrow> CexpSymTbl option res" where
  "make_cst env mok bl =
     (case bl of (b, ld) \<Rightarrow>
      bind_res (slot_names b 0 (ld_st ld)) (\<lambda>l.
        case cexpCreateSymTbl (le_sc env) (le_qs env) mok (External l snd (\<lambda>(i, _). assign_sym b ld i)) of
          Ok t \<Rightarrow> Ok (Some t) | Fail _ \<Rightarrow> Ok None | UB \<Rightarrow> UB | Hang \<Rightarrow> Hang))"

text \<open>The values, once the symbols have theirs; an array without an end is undefined.\<close>

definition set_values :: "bfd \<Rightarrow> link_data \<Rightarrow> CexpSym list \<Rightarrow> CexpSym list" where
  "set_values b ld ss =
     map (\<lambda>s. s\<lparr>sy_value := (sy_value s)\<lparr>ca_ptv := bfd_asymbol_value b (get_sym b (ld_st ld ! unat (ca_ptv (sy_value s))))\<rparr>\<rparr>)
       (takeWhile (\<lambda>s. sy_name s \<noteq> None) ss) @ dropWhile (\<lambda>s. sy_name s \<noteq> None) ss"

definition cexpSymTabSetValues :: "ld_env \<Rightarrow> bool \<Rightarrow> bfd \<Rightarrow> link_data \<Rightarrow> CexpSymTbl option \<Rightarrow> (int \<times> CexpSymTbl) res" where
  "cexpSymTabSetValues env mok b ld cst =
     (case cst of
        None \<Rightarrow> UB
      | Some t \<Rightarrow>
          if list_ex (\<lambda>s. sy_name s = None) (syms_of t)
          then cexpIndexSymTbl (le_qi env) mok (t\<lparr>st_syms := Some (set_values b ld (syms_of t))\<rparr>)
          else UB)"

section \<open>New common symbols\<close>

text \<open>
  Each symbol gets the next address that is aligned for it, and the slot a new symbol in the section;
  delivers the size of all.
\<close>

fun place_commons :: "ld_env \<Rightarrow> secref \<Rightarrow> nat list \<Rightarrow> u64 \<Rightarrow> bfd \<times> link_data \<Rightarrow> (u64 \<times> bfd \<times> link_data) res" where
  "place_commons env csect [] val bl = Ok (val, bl)"
| "place_commons env csect (i # is) val bl =
     (case bl of (b, ld) \<Rightarrow>
      let old = get_sym b (ld_st ld ! i);
          val = align_power val (elf_get_align_pwr b old)
      in bind_res (new_symbol env (bfd_set_section (Some csect)
             (zero_asym\<lparr>as_name := as_name old, as_val := val, as_flags := as_flags old\<rparr>)) b) (\<lambda>(r, b).
           place_commons env csect is (val + bfd_asymbol_value b old) (b, set_slot i r ld)))"

definition make_new_commons :: "ld_env \<Rightarrow> bool \<Rightarrow> bfd \<times> link_data \<Rightarrow> (int \<times> bfd \<times> link_data) res" where
  "make_new_commons env mok bl =
     (case bl of (b, ld) \<Rightarrow>
      if ld_commons ld = [] then Ok (0, b, ld)
      else
        (case bfd_get_unique_section_name mok ''.dummy'' None b of (nm, _, b) \<Rightarrow>
         (case bfd_make_section (map_option str_mem nm) b of
            (None, b) \<Rightarrow> Ok (-1, b, ld)
          | (Some csect, b) \<Rightarrow>
              let b = upd_sec csect (\<lambda>s. s\<lparr>sc_flags := sc_flags s OR SEC_ALLOC\<rparr>) b;
                  first = get_sym b (ld_st ld ! hd (ld_commons ld))
              in bind_res (bfd_set_section_alignment (of_nat (elf_get_align_pwr b first)) (get_sec b csect)) (\<lambda>s.
                 bind_res (place_commons env csect (ld_commons ld) 0 (upd_sec csect (\<lambda>_. s) b, ld)) (\<lambda>(val, b, ld).
                   Ok (0, upd_sec csect (\<lambda>s. s\<lparr>sc_size := val\<rparr>) b, ld))))))"

section \<open>Reading the symbols\<close>

text \<open>
  What follows the resolution: the common symbols are sorted, the table is made while the sizes are known,
  and the new common symbols get their places. \<open>mok\<close>: the allocation of the canonical symbols (0), of the
  name of the section for commons (1), and for the table (from 2 on). The result is 0 or -1.
\<close>

definition symtab_made :: "ld_env \<Rightarrow> (nat \<Rightarrow> bool) \<Rightarrow> int \<Rightarrow> bfd \<times> link_data \<Rightarrow> (int \<times> bfd \<times> link_data) res" where
  "symtab_made env mok n bl =
     (case bl of (b, ld) \<Rightarrow>
      if n < 0 then Ok (-1, b, ld)
      else
        let ld = (if n \<noteq> 0 then ld\<lparr>ld_commons := le_qi env (align_size_compare b ld) (ld_commons ld)\<rparr> else ld)
        in bind_res (make_cst env (\<lambda>k. mok (k + 2)) (b, ld)) (\<lambda>cst.
             bind_res (make_new_commons env (mok 1) (b, ld\<lparr>ld_cst := cst\<rparr>)) (\<lambda>(rc, bl).
               Ok (if rc \<noteq> 0 then -1 else 0, bl))))"

definition slurp_symtab :: "ld_env \<Rightarrow> (nat \<Rightarrow> bool) \<Rightarrow> bfd \<times> link_data \<Rightarrow> (int \<times> bfd \<times> link_data) res" where
  "slurp_symtab env mok bl =
     (case bl of (b, ld) \<Rightarrow>
      if bfd_get_file_flags b AND 0x10 = 0 then Ok (-1, b, ld)
      else if bfd_get_symtab_upper_bound b < 0 then Ok (-1, b, ld)
      else
        bind_res (bfd_canonicalize_symtab (le_lsb env) (mok 0) b) (\<lambda>(nsyms, st, b).
          if nsyms \<le> 0 then Ok (-1, b, ld)
          else bind_res (resolve_syms env (b, ld\<lparr>ld_st := st\<rparr>)) (\<lambda>(n, bl). symtab_made env mok n bl)))"

end
