(* ===== verification/Relocs.thy ===== *)
theory Relocs imports RelocMem begin

text \<open>
  The relocation engines (\<open>pmbfd/bfd-reloc-*.c\<close>), one for each CPU: \<open>pmbfd_perform_relocation\<close> for
  i386, m68k, PowerPC, SPARC and x86-64. The program is built for one CPU and contains one of them;
  \<open>unsigned long\<close> and \<open>size_t\<close> have the width of its addresses (32 bits, 64 for x86-64), so that
  the test of the offset against the size of the section wraps at that width. The theorems show
  what the patched field then says to the CPU, and which bytes are left alone.
\<close>

section \<open>Common parts\<close>

definition ELF32_R_TYPE :: "u32 \<Rightarrow> u8" where "ELF32_R_TYPE x = ucast x"
definition ELF64_R_TYPE :: "u64 \<Rightarrow> u32" where "ELF64_R_TYPE x = ucast x"

text \<open>Signed values compared with a limit: \<open>lim && (val < lim || val > -lim - 1)\<close>.\<close>

definition over_limit :: "int \<Rightarrow> int \<Rightarrow> bool" where
  "over_limit lim val \<longleftrightarrow> lim \<noteq> 0 \<and> (val < lim \<or> val > - lim - 1)"

section \<open>i386\<close>

abbreviation R_386_NONE :: u8 where "R_386_NONE \<equiv> 0"
abbreviation R_386_32 :: u8 where "R_386_32 \<equiv> 1"
abbreviation R_386_PC32 :: u8 where "R_386_PC32 \<equiv> 2"

definition i386_reloc ::
    "bool \<Rightarrow> u32 target_sec \<Rightarrow> u32 target_sym \<Rightarrow> Elf32_Rel \<Rightarrow> 32 mem \<Rightarrow> reloc_status \<times> 32 mem" where
  "i386_reloc lsb sec sy r m =
     (let typ = ELF32_R_TYPE (r_info32 r); pc = ts_vma sec + r_offset32 r in
      if typ = R_386_NONE then (bfd_reloc_ok, m)
      else if r_offset32 r + 4 > ts_size sec then (bfd_reloc_outofrange, m)
      else if ty_und sy then (bfd_reloc_undefined, m)
      else if typ \<noteq> R_386_PC32 \<and> typ \<noteq> R_386_32 then (bfd_reloc_notsupported, m)
      else let val = (if typ = R_386_PC32 then - pc else 0);
               add = load_n lsb 4 m pc :: u32
           in (bfd_reloc_ok, store_n lsb 4 (val + (add + ty_value sy)) pc m))"

section \<open>m68k\<close>

text \<open>The parameters of a type: whether it is relative to the location, the limit, the size.\<close>

definition m68k_kind :: "u8 \<Rightarrow> (bool \<times> int \<times> nat) option" where
  "m68k_kind typ =
     (if typ = 6 then Some (True, -0x80, 1)
      else if typ = 3 then Some (False, -0x100, 1)
      else if typ = 5 then Some (True, -0x8000, 2)
      else if typ = 2 then Some (False, -0x10000, 2)
      else if typ = 4 then Some (True, 0, 4)
      else if typ = 1 then Some (False, 0, 4)
      else None)"

text \<open>The value in the field, sign extended to 32 bits.\<close>

definition load_signed :: "bool \<Rightarrow> nat \<Rightarrow> 32 mem \<Rightarrow> u32 \<Rightarrow> u32" where
  "load_signed lsb sz m a =
     (if sz = 1 then scast (load_n lsb 1 m a :: u8)
      else if sz = 2 then scast (load_n lsb 2 m a :: u16)
      else load_n lsb 4 m a)"

definition store_sized :: "bool \<Rightarrow> nat \<Rightarrow> u32 \<Rightarrow> u32 \<Rightarrow> 32 mem \<Rightarrow> 32 mem" where
  "store_sized lsb sz v a m =
     (if sz = 1 then store_n lsb 1 (ucast v :: u8) a m
      else if sz = 2 then store_n lsb 2 (ucast v :: u16) a m
      else store_n lsb 4 v a m)"

definition m68k_reloc ::
    "bool \<Rightarrow> u32 target_sec \<Rightarrow> u32 target_sym \<Rightarrow> Elf32_Rela \<Rightarrow> 32 mem \<Rightarrow> reloc_status \<times> 32 mem" where
  "m68k_reloc lsb sec sy r m =
     (let typ = ELF32_R_TYPE (ra_info32 r); pc = ts_vma sec + ra_offset32 r in
      if typ = 0 then (bfd_reloc_ok, m)
      else if ty_und sy then (bfd_reloc_undefined, m)
      else case m68k_kind typ of
        None \<Rightarrow> (bfd_reloc_notsupported, m)
      | Some (pcrel, lim, sz) \<Rightarrow>
          if ra_offset32 r + of_nat sz > ts_size sec then (bfd_reloc_outofrange, m)
          else let pcadd = (if pcrel then pc else 0);
                   val = load_signed lsb sz m pc + ty_value sy + ra_addend32 r - pcadd
               in if over_limit lim (sint val) then (bfd_reloc_overflow, m)
                  else (bfd_reloc_ok, store_sized lsb sz val pc m))"

section \<open>PowerPC\<close>

abbreviation R_PPC_ADDR32 :: u8 where "R_PPC_ADDR32 \<equiv> 1"
abbreviation R_PPC_ADDR24 :: u8 where "R_PPC_ADDR24 \<equiv> 2"
abbreviation R_PPC_ADDR16_LO :: u8 where "R_PPC_ADDR16_LO \<equiv> 4"
abbreviation R_PPC_ADDR16_HI :: u8 where "R_PPC_ADDR16_HI \<equiv> 5"
abbreviation R_PPC_ADDR16_HA :: u8 where "R_PPC_ADDR16_HA \<equiv> 6"
abbreviation R_PPC_REL24 :: u8 where "R_PPC_REL24 \<equiv> 10"
abbreviation R_PPC_REL32 :: u8 where "R_PPC_REL32 \<equiv> 26"

record ppc_kind =
  pk_sz :: nat
  pk_algn :: u32
  pk_lim :: int
  pk_msk :: u32
  pk_lomsk :: u32

definition ppc_kind_of :: "u8 \<Rightarrow> ppc_kind option" where
  "ppc_kind_of typ =
     (if typ = R_PPC_ADDR16_HA \<or> typ = R_PPC_ADDR16_HI \<or> typ = R_PPC_ADDR16_LO
      then Some \<lparr>pk_sz = 2, pk_algn = 2, pk_lim = 0, pk_msk = -1, pk_lomsk = 0\<rparr>
      else if typ = R_PPC_ADDR24 \<or> typ = R_PPC_REL24
      then Some \<lparr>pk_sz = 4, pk_algn = 4,
                 pk_lim = (if typ = R_PPC_REL24 then - (2 ^ 25) else - (2 ^ 26)),
                 pk_msk = 0x03fffffc, pk_lomsk = 3\<rparr>
      else if typ = R_PPC_REL32
      then Some \<lparr>pk_sz = 4, pk_algn = 4, pk_lim = 0, pk_msk = -1, pk_lomsk = 0\<rparr>
      else if typ = R_PPC_ADDR32
      then Some \<lparr>pk_sz = 4, pk_algn = 1, pk_lim = 0, pk_msk = -1, pk_lomsk = 0\<rparr>
      else None)"

text \<open>The new contents of the field, from the old contents and the value.\<close>

definition ppc_patch :: "u8 \<Rightarrow> u32 \<Rightarrow> u32 \<Rightarrow> u32 \<Rightarrow> u32" where
  "ppc_patch typ msk oval val =
     (let val = (oval AND NOT msk) OR (val AND msk);
          val = (if typ = R_PPC_ADDR16_HA \<and> val AND 0x8000 \<noteq> 0 then val + 0x10000 else val)
      in if typ = R_PPC_ADDR16_HA \<or> typ = R_PPC_ADDR16_HI then signed_drop_bit 16 val else val)"

text \<open>The value: symbol and addend, less the location for the relative types.\<close>

definition ppc_value :: "u8 \<Rightarrow> u32 \<Rightarrow> u32 \<Rightarrow> u32 \<Rightarrow> u32" where
  "ppc_value typ pc s a =
     (if typ = R_PPC_REL24 \<or> typ = R_PPC_REL32 then s + a - pc else s + a)"

definition ppc_reloc ::
    "bool \<Rightarrow> u32 target_sec \<Rightarrow> u32 target_sym \<Rightarrow> Elf32_Rela \<Rightarrow> 32 mem \<Rightarrow> reloc_status \<times> 32 mem" where
  "ppc_reloc lsb sec sy r m =
     (let typ = ELF32_R_TYPE (ra_info32 r); pc = ts_vma sec + ra_offset32 r in
      if typ = 0 then (bfd_reloc_ok, m)
      else if ty_und sy then (bfd_reloc_undefined, m)
      else case ppc_kind_of typ of
        None \<Rightarrow> (bfd_reloc_notsupported, m)
      | Some k \<Rightarrow>
          if ra_offset32 r + of_nat (pk_sz k) > ts_size sec then (bfd_reloc_outofrange, m)
          else if pc AND (pk_algn k - 1) \<noteq> 0 then (bfd_reloc_other, m)
          else
            let val = ppc_value typ pc (ty_value sy) (ra_addend32 r) in
            if over_limit (pk_lim k) (sint val) then (bfd_reloc_overflow, m)
            else if pk_lomsk k AND val \<noteq> 0 then (bfd_reloc_other, m)
            else
              (bfd_reloc_ok,
               store_sized lsb (pk_sz k) (ppc_patch typ (pk_msk k) (load_signed lsb (pk_sz k) m pc) val) pc m))"

section \<open>SPARC\<close>

datatype sparc_check = check_none | check_bits | check_sign | check_unsg

record sparc_rel_desc =
  sd_nbytes :: nat
  sd_width :: nat
  sd_shift :: nat
  sd_check :: sparc_check
  sd_pc_relative :: bool
  sd_unaligned :: bool

text \<open>
  \<open>sparc_rels\<close> has 56 entries of four bytes; entries without an initialiser are zero. The index is
  compared with the size of the array in bytes, so that the types 56 to 223 are looked up behind it.
\<close>

definition sparc_desc :: "nat \<Rightarrow> nat \<Rightarrow> nat \<Rightarrow> sparc_check \<Rightarrow> bool \<Rightarrow> bool \<Rightarrow> sparc_rel_desc" where
  "sparc_desc n w s c r u = \<lparr>sd_nbytes = n, sd_width = w, sd_shift = s, sd_check = c,
     sd_pc_relative = r, sd_unaligned = u\<rparr>"

definition sparc_rels :: "(nat \<times> sparc_rel_desc) list" where
  "sparc_rels =
     [(12, sparc_desc 4 10 0 check_none False False),
      (1, sparc_desc 1 8 0 check_bits False False),
      (2, sparc_desc 2 16 0 check_bits False False),
      (3, sparc_desc 4 32 0 check_bits False False),
      (4, sparc_desc 1 8 0 check_sign True False),
      (5, sparc_desc 2 16 0 check_sign True False),
      (6, sparc_desc 4 32 0 check_sign True False),
      (7, sparc_desc 4 30 2 check_sign True False),
      (8, sparc_desc 4 22 2 check_sign True False),
      (9, sparc_desc 4 22 10 check_none False False),
      (10, sparc_desc 4 22 0 check_bits False False),
      (11, sparc_desc 4 13 0 check_bits False False),
      (16, sparc_desc 4 10 0 check_none True False),
      (17, sparc_desc 4 22 10 check_bits True False),
      (23, sparc_desc 4 32 0 check_bits False True),
      (30, sparc_desc 4 10 0 check_bits False False),
      (31, sparc_desc 4 11 0 check_bits False False),
      (43, sparc_desc 4 7 0 check_bits False False),
      (44, sparc_desc 4 5 0 check_bits False False),
      (45, sparc_desc 4 6 0 check_bits False False),
      (55, sparc_desc 2 16 0 check_bits False True)]"

definition sparc_lookup :: "nat \<Rightarrow> sparc_rel_desc res" where
  "sparc_lookup typ =
     (if typ \<ge> 56 * 4 then Ok (sparc_desc 0 0 0 check_none False False)
      else if typ \<ge> 56 then UB
      else case map_of sparc_rels typ of
             None \<Rightarrow> Ok (sparc_desc 0 0 0 check_none False False)
           | Some d \<Rightarrow> Ok d)"

text \<open>The 64-bit computation does not overflow, so it is carried out on integers.\<close>

definition sparc_limits :: "sparc_check \<Rightarrow> nat \<Rightarrow> int \<times> int" where
  "sparc_limits c w =
     (let msk = 2 ^ w - 1 in
      case c of
        check_none \<Rightarrow> (- (2 ^ 63), 2 ^ 63 - 1)
      | check_unsg \<Rightarrow> (0, msk)
      | check_bits \<Rightarrow> (- msk - 1, msk)
      | check_sign \<Rightarrow> (- (msk div 2) - 1, msk div 2))"

definition sparc_reloc ::
    "bool \<Rightarrow> u32 target_sec \<Rightarrow> u32 target_sym \<Rightarrow> Elf32_Rela \<Rightarrow> 32 mem \<Rightarrow> (reloc_status \<times> 32 mem) res" where
  "sparc_reloc lsb sec sy r m =
     (let typ = ELF32_R_TYPE (ra_info32 r) in
      if typ = 0 then Ok (bfd_reloc_ok, m)
      else bind_res (sparc_lookup (unat typ)) (\<lambda>dsc.
        if sd_nbytes dsc = 0 then Ok (bfd_reloc_notsupported, m)
        else if ty_und sy then Ok (bfd_reloc_undefined, m)
        else let pc = ts_vma sec + ra_offset32 r in
        if \<not> sd_unaligned dsc \<and> pc AND (of_nat (sd_nbytes dsc) - 1) \<noteq> 0 then Ok (bfd_reloc_other, m)
        else
          let val = uint (ty_value sy) + sint (ra_addend32 r);
              val = (if sd_pc_relative dsc then val - uint pc else val);
              val = val div 2 ^ sd_shift dsc;
              (llim, ulim) = sparc_limits (sd_check dsc) (sd_width dsc)
          in if val < llim \<or> val > ulim then Ok (bfd_reloc_overflow, m)
             else
               let oval = load_signed lsb (sd_nbytes dsc) m pc;
                   msk = mask (sd_width dsc);
                   nval = (oval AND NOT msk) OR (word_of_int val AND msk)
               in Ok (bfd_reloc_ok, store_sized lsb (sd_nbytes dsc) nval pc m)))"

section \<open>x86-64\<close>

abbreviation R_X86_64_64 :: u8 where "R_X86_64_64 \<equiv> 1"
abbreviation R_X86_64_PC32 :: u8 where "R_X86_64_PC32 \<equiv> 2"
abbreviation R_X86_64_32 :: u8 where "R_X86_64_32 \<equiv> 10"
abbreviation R_X86_64_32S :: u8 where "R_X86_64_32S \<equiv> 11"
abbreviation R_X86_64_PC64 :: u8 where "R_X86_64_PC64 \<equiv> 24"

text \<open>Size, limit, and whether the location is subtracted.\<close>

definition x86_64_kind :: "u8 \<Rightarrow> (nat \<times> int \<times> bool) option" where
  "x86_64_kind typ =
     (if typ = R_X86_64_PC32 then Some (4, - (2 ^ 32), True)
      else if typ = R_X86_64_PC64 then Some (8, 0, True)
      else if typ = R_X86_64_32 then Some (4, - (2 ^ 32), False)
      else if typ = R_X86_64_32S then Some (4, - (2 ^ 31), False)
      else if typ = R_X86_64_64 then Some (8, 0, False)
      else None)"

definition store_x86 :: "bool \<Rightarrow> nat \<Rightarrow> u64 \<Rightarrow> u64 \<Rightarrow> 64 mem \<Rightarrow> 64 mem" where
  "store_x86 lsb sz v a m =
     (if sz = 4 then store_n lsb 4 (ucast v :: u32) a m else store_n lsb 8 v a m)"

definition x86_64_reloc ::
    "bool \<Rightarrow> u64 target_sec \<Rightarrow> u64 target_sym \<Rightarrow> Elf64_Rela \<Rightarrow> 64 mem \<Rightarrow> reloc_status \<times> 64 mem" where
  "x86_64_reloc lsb sec sy r m =
     (let typ = ucast (ELF64_R_TYPE (ra_info64 r)) :: u8; pc = ts_vma sec + ra_offset64 r in
      if typ = 0 then (bfd_reloc_ok, m)
      else if ty_und sy then (bfd_reloc_undefined, m)
      else case x86_64_kind typ of
        None \<Rightarrow> (bfd_reloc_notsupported, m)
      | Some (sz, lim, pcrel) \<Rightarrow>
          if ra_offset64 r + of_nat sz > ts_size sec then (bfd_reloc_outofrange, m)
          else let val = (if pcrel then - pc else 0) + (ra_addend64 r + ty_value sy) in
            if over_limit lim (sint val) then (bfd_reloc_overflow, m)
            else (bfd_reloc_ok, store_x86 lsb sz val pc m))"

section \<open>The engines keep their contract\<close>

lemma store_sized_outside:
  "sz = 1 \<or> sz = 2 \<or> sz = 4 \<Longrightarrow> x \<notin> area a sz \<Longrightarrow> store_sized lsb sz v a m x = m x"
  by (auto simp: store_sized_def store_n_outside)

lemma store_x86_outside:
  "sz = 4 \<or> sz = 8 \<Longrightarrow> x \<notin> area a sz \<Longrightarrow> store_x86 lsb sz v a m x = m x"
  by (auto simp: store_x86_def store_n_outside)

definition i386_field :: "u32 target_sec \<Rightarrow> Elf32_Rel \<Rightarrow> u32 set" where
  "i386_field sec r = field_in sec (r_offset32 r) 4"

definition m68k_field :: "u32 target_sec \<Rightarrow> Elf32_Rela \<Rightarrow> u32 set" where
  "m68k_field sec r =
     (case m68k_kind (ELF32_R_TYPE (ra_info32 r)) of
        None \<Rightarrow> {} | Some (_, _, sz) \<Rightarrow> field_in sec (ra_offset32 r) sz)"

definition ppc_field :: "u32 target_sec \<Rightarrow> Elf32_Rela \<Rightarrow> u32 set" where
  "ppc_field sec r =
     (case ppc_kind_of (ELF32_R_TYPE (ra_info32 r)) of
        None \<Rightarrow> {} | Some k \<Rightarrow> field_in sec (ra_offset32 r) (pk_sz k))"

definition sparc_field :: "u32 target_sec \<Rightarrow> Elf32_Rela \<Rightarrow> u32 set" where
  "sparc_field sec r =
     (case sparc_lookup (unat (ELF32_R_TYPE (ra_info32 r))) of
        Ok d \<Rightarrow> area (ts_vma sec + ra_offset32 r) (sd_nbytes d) | _ \<Rightarrow> {})"

definition x86_64_field :: "u64 target_sec \<Rightarrow> Elf64_Rela \<Rightarrow> u64 set" where
  "x86_64_field sec r =
     (case x86_64_kind (ucast (ELF64_R_TYPE (ra_info64 r))) of
        None \<Rightarrow> {} | Some (sz, _, _) \<Rightarrow> field_in sec (ra_offset64 r) sz)"

lemma m68k_kind_size: "m68k_kind t = Some (p, l, sz) \<Longrightarrow> sz = 1 \<or> sz = 2 \<or> sz = 4"
  by (auto simp: m68k_kind_def split: if_splits)

lemma ppc_kind_size: "ppc_kind_of t = Some k \<Longrightarrow> pk_sz k = 1 \<or> pk_sz k = 2 \<or> pk_sz k = 4"
  by (auto simp: ppc_kind_of_def split: if_splits)

lemma x86_64_kind_size: "x86_64_kind t = Some (sz, l, p) \<Longrightarrow> sz = 4 \<or> sz = 8"
  by (auto simp: x86_64_kind_def split: if_splits)

lemma sparc_lookup_size:
  "sparc_lookup t = Ok d \<Longrightarrow> sd_nbytes d \<noteq> 0 \<Longrightarrow> sd_nbytes d = 1 \<or> sd_nbytes d = 2 \<or> sd_nbytes d = 4"
  by (auto simp: sparc_lookup_def sparc_rels_def sparc_desc_def split: if_splits option.splits)

interpretation i386: reloc_engine "\<lambda>(sy, r). i386_reloc lsb sec sy r" "\<lambda>(sy, r). i386_field sec r"
  for lsb sec
  by unfold_locales
    (auto simp: i386_reloc_def i386_field_def field_in_def Let_def store_n_outside split: if_splits)

interpretation m68k: reloc_engine "\<lambda>(sy, r). m68k_reloc lsb sec sy r" "\<lambda>(sy, r). m68k_field sec r"
  for lsb sec
  by unfold_locales
    (auto simp: m68k_reloc_def m68k_field_def field_in_def Let_def
      split: if_splits option.splits intro!: store_sized_outside dest: m68k_kind_size)

lemma ppc_reloc_refused: "fst (ppc_reloc lsb sec sy r m) \<noteq> bfd_reloc_ok \<Longrightarrow> snd (ppc_reloc lsb sec sy r m) = m"
  by (simp add: ppc_reloc_def Let_def split: if_split_asm option.split_asm)

lemma ppc_reloc_store:
  "snd (ppc_reloc lsb sec sy r m) = m \<or>
   (\<exists>k v. ppc_kind_of (ELF32_R_TYPE (ra_info32 r)) = Some k \<and>
      \<not> ra_offset32 r + of_nat (pk_sz k) > ts_size sec \<and>
      snd (ppc_reloc lsb sec sy r m) = store_sized lsb (pk_sz k) v (ts_vma sec + ra_offset32 r) m)"
  unfolding ppc_reloc_def Let_def
  by (cases "ppc_kind_of (ELF32_R_TYPE (ra_info32 r))") auto

interpretation ppc: reloc_engine "\<lambda>(sy, r). ppc_reloc lsb sec sy r" "\<lambda>(sy, r). ppc_field sec r"
  for lsb sec
proof unfold_locales
  fix p :: "u32 target_sym \<times> Elf32_Rela" and m
  obtain sy r where p: "p = (sy, r)" by (cases p)
  let ?q = "case p of (sy, r) \<Rightarrow> ppc_reloc lsb sec sy r"
  show "fst (?q m) \<noteq> bfd_reloc_ok \<Longrightarrow> snd (?q m) = m" by (simp add: p ppc_reloc_refused)
  fix x
  assume "x \<notin> (case p of (sy, r) \<Rightarrow> ppc_field sec r)"
  then show "snd (?q m) x = m x"
    using ppc_reloc_store [of lsb sec sy r m]
    by (auto simp: p ppc_field_def field_in_def intro!: store_sized_outside dest: ppc_kind_size)
qed

interpretation x86_64: reloc_engine "\<lambda>(sy, r). x86_64_reloc lsb sec sy r" "\<lambda>(sy, r). x86_64_field sec r"
  for lsb sec
  by unfold_locales
    (auto simp: x86_64_reloc_def x86_64_field_def field_in_def Let_def
      split: if_splits option.splits intro!: store_x86_outside dest: x86_64_kind_size)

definition sparc_perform ::
    "bool \<Rightarrow> u32 target_sec \<Rightarrow> u32 target_sym \<Rightarrow> Elf32_Rela \<Rightarrow> 32 mem \<Rightarrow> reloc_status \<times> 32 mem" where
  "sparc_perform lsb sec sy r m =
     (case sparc_reloc lsb sec sy r m of Ok p \<Rightarrow> p | _ \<Rightarrow> (bfd_reloc_other, m))"

interpretation sparc: reloc_engine "\<lambda>(sy, r). sparc_perform lsb sec sy r" "\<lambda>(sy, r). sparc_field sec r"
  for lsb sec
proof unfold_locales
  fix p :: "u32 target_sym \<times> Elf32_Rela" and m
  obtain sy r where p: "p = (sy, r)" by (cases p)
  let ?q = "case p of (sy, r) \<Rightarrow> sparc_perform lsb sec sy r"
  show "fst (?q m) \<noteq> bfd_reloc_ok \<Longrightarrow> snd (?q m) = m"
    by (cases "sparc_lookup (unat (ELF32_R_TYPE (ra_info32 r)))")
      (auto simp: p sparc_perform_def sparc_reloc_def Let_def split: if_splits prod.splits)
  fix x
  assume "x \<notin> (case p of (sy, r) \<Rightarrow> sparc_field sec r)"
  then show "snd (?q m) x = m x"
    by (cases "sparc_lookup (unat (ELF32_R_TYPE (ra_info32 r)))")
      (auto simp: p sparc_perform_def sparc_reloc_def sparc_field_def Let_def
        split: if_splits prod.splits intro!: store_sized_outside dest: sparc_lookup_size)
qed

section \<open>What the CPU finds in the field: x86-64\<close>

lemma signed_narrow:
  fixes v :: "'a::len word"
  assumes "LENGTH('b::len) \<le> LENGTH('a)"
    and "- (2 ^ (LENGTH('b) - 1)) \<le> sint v" and "sint v < 2 ^ (LENGTH('b) - 1)"
  shows "scast (ucast v :: 'b word) = v"
proof -
  have "(ucast v :: 'b word) = word_of_int (sint v)"
    by (rule bit_word_eqI) (use assms(1) in \<open>auto simp: bit_simps\<close>)
  then have "sint (ucast v :: 'b word) = sint (word_of_int (sint v) :: 'b word)" by simp
  also have "\<dots> = signed_take_bit (LENGTH('b) - 1) (sint v)" by (rule sint_sbintrunc')
  also have "\<dots> = sint v" using assms by (intro signed_take_bit_int_eq_self) simp_all
  finally have "sint (ucast v :: 'b word) = sint v" .
  then show ?thesis by (metis of_int_sint scast_id)
qed

lemma load_store_x86_8:
  "load_n lsb 8 (store_x86 lsb 8 v a m) a = v"
  by (simp add: store_x86_def load_store_n)

lemma load_store_x86_4:
  "load_n lsb 4 (store_x86 lsb 4 v a m) a = (ucast v :: u32)"
  by (simp add: store_x86_def load_store_n)

text \<open>The value a type asks for.\<close>

definition x86_64_value :: "u8 \<Rightarrow> u64 \<Rightarrow> u64 target_sym \<Rightarrow> Elf64_Rela \<Rightarrow> u64" where
  "x86_64_value typ pc sy r =
     (if typ = R_X86_64_PC32 \<or> typ = R_X86_64_PC64
      then ty_value sy + ra_addend64 r - pc else ty_value sy + ra_addend64 r)"

lemma x86_64_reloc_ok:
  assumes "x86_64_reloc lsb sec sy r m = (bfd_reloc_ok, m')"
    and t: "typ = ucast (ELF64_R_TYPE (ra_info64 r))" "typ \<noteq> 0"
    and pc: "pc = ts_vma sec + ra_offset64 r"
  shows "\<exists>sz lim pcrel. x86_64_kind typ = Some (sz, lim, pcrel) \<and>
    \<not> over_limit lim (sint (x86_64_value typ pc sy r)) \<and>
    m' = store_x86 lsb sz (x86_64_value typ pc sy r) pc m"
proof -
  have "(if pcrel then - pc else 0) + (ra_addend64 r + ty_value sy) = x86_64_value typ pc sy r"
    if "x86_64_kind typ = Some (sz, lim, pcrel)" for sz lim pcrel
    using that by (auto simp: x86_64_kind_def x86_64_value_def split: if_splits)
  then show ?thesis
    using assms unfolding x86_64_reloc_def Let_def
    by (cases "x86_64_kind typ") (auto split: if_splits)
qed

text \<open>C26: An x86-64 relocation that is performed stores what the type asks for: the 64-bit types the
  value itself, the sign-extended 32-bit type a field that sign-extends to the value, the others
  a field that does so when the value is representable.\<close>

theorem x86_64_reloc_value:
  assumes "x86_64_reloc lsb sec sy r m = (bfd_reloc_ok, m')"
    and "typ = ucast (ELF64_R_TYPE (ra_info64 r))" and "typ \<noteq> 0"
    and "pc = ts_vma sec + ra_offset64 r" and "v = x86_64_value typ pc sy r"
  shows "(typ = R_X86_64_64 \<or> typ = R_X86_64_PC64 \<longrightarrow> load_n lsb 8 m' pc = v) \<and>
    (typ = R_X86_64_32S \<longrightarrow> scast (load_n lsb 4 m' pc :: u32) = v) \<and>
    (typ = R_X86_64_PC32 \<and> - (2 ^ 31) \<le> sint v \<and> sint v < 2 ^ 31 \<longrightarrow>
       scast (load_n lsb 4 m' pc :: u32) = v) \<and>
    (typ = R_X86_64_32 \<and> 0 \<le> sint v \<longrightarrow> ucast (load_n lsb 4 m' pc :: u32) = v)"
proof -
  obtain sz lim pcrel where k: "x86_64_kind typ = Some (sz, lim, pcrel)"
    and lim: "\<not> over_limit lim (sint v)" and m': "m' = store_x86 lsb sz v pc m"
    using x86_64_reloc_ok [OF assms(1-4)] assms(5) by blast
  have s: "scast (ucast v :: u32) = v" if "- (2 ^ 31) \<le> sint v" "sint v < 2 ^ 31"
    using signed_narrow [where 'b=32, of v] that by simp
  have u: "ucast (ucast v :: u32) = v" if "0 \<le> sint v" "sint v < 2 ^ 32"
  proof -
    have "uint v = sint v" using that(1) sint_nonneg_eq [of v] by simp
    then have "take_bit 32 (uint v) = uint v" using that by (intro take_bit_int_eq_self) simp_all
    then have "uint (ucast (ucast v :: u32) :: u64) = uint v"
      by (simp add: unsigned_ucast_eq unsigned_take_bit_eq)
    then show ?thesis by (simp only: word_uint_eq_iff)
  qed
  show ?thesis
    using k lim m' s u
    by (auto simp: x86_64_kind_def over_limit_def load_store_x86_8 load_store_x86_4 split: if_splits)
qed

definition zero_mem :: "'a::len mem" where "zero_mem = (\<lambda>_. 0)"

lemma x86_64_reloc_value_witness:
  "x86_64_reloc True \<lparr>ts_vma = 0x1000, ts_size = 0x20\<rparr> \<lparr>ty_und = False, ty_value = 0x1800\<rparr>
     \<lparr>ra_offset64 = 8, ra_info64 = 2, ra_addend64 = - 4\<rparr> zero_mem =
     (bfd_reloc_ok, store_x86 True 4 0x7f4 0x1008 zero_mem) \<and>
   scast (load_n True 4 (store_x86 True 4 0x7f4 0x1008 zero_mem :: 64 mem) 0x1008 :: u32) = (0x7f4 :: u64)"
proof -
  have r: "x86_64_reloc True \<lparr>ts_vma = 0x1000, ts_size = 0x20\<rparr> \<lparr>ty_und = False, ty_value = 0x1800\<rparr>
     \<lparr>ra_offset64 = 8, ra_info64 = 2, ra_addend64 = - 4\<rparr> zero_mem =
     (bfd_reloc_ok, store_x86 True 4 0x7f4 0x1008 zero_mem)"
    by (simp add: x86_64_reloc_def Let_def ELF64_R_TYPE_def x86_64_kind_def over_limit_def)
  show ?thesis
    using r x86_64_reloc_value [OF r, of 2 "0x1008" "0x7f4"]
    by (simp add: ELF64_R_TYPE_def x86_64_value_def)
qed

text \<open>The range test of R_X86_64_PC32 admits displacements that a signed 32-bit field cannot hold: a
  relocation against a symbol 2^31 bytes ahead is reported as performed, and the displacement the CPU
  then finds in the field is not the one asked for.\<close>

lemma x86_64_pc32_accepts_too_far:
  "\<exists>sec sy r (m :: 64 mem) m'.
     ucast (ELF64_R_TYPE (ra_info64 r)) = R_X86_64_PC32 \<and>
     x86_64_reloc lsb sec sy r m = (bfd_reloc_ok, m') \<and>
     scast (load_n lsb 4 m' (ts_vma sec + ra_offset64 r) :: u32) \<noteq>
       x86_64_value R_X86_64_PC32 (ts_vma sec + ra_offset64 r) sy r"
proof -
  let ?sec = "\<lparr>ts_vma = 0x1000, ts_size = 0x20\<rparr> :: u64 target_sec"
  let ?sy = "\<lparr>ty_und = False, ty_value = 0x80001000\<rparr> :: u64 target_sym"
  let ?r = "\<lparr>ra_offset64 = 0, ra_info64 = 2, ra_addend64 = 0\<rparr>"
  have "x86_64_reloc lsb ?sec ?sy ?r zero_mem =
      (bfd_reloc_ok, store_x86 lsb 4 0x80000000 0x1000 zero_mem)"
    by (simp add: x86_64_reloc_def Let_def ELF64_R_TYPE_def x86_64_kind_def over_limit_def)
  moreover have "scast (load_n lsb 4 (store_x86 lsb 4 0x80000000 0x1000 zero_mem :: 64 mem) 0x1000 :: u32)
      \<noteq> x86_64_value R_X86_64_PC32 0x1000 ?sy ?r"
    by (simp add: load_store_x86_4 x86_64_value_def)
  ultimately show ?thesis
    by (intro exI [of _ ?sec] exI [of _ ?sy] exI [of _ ?r] exI [of _ zero_mem]
        exI [of _ "store_x86 lsb 4 0x80000000 0x1000 zero_mem"])
      (simp add: ELF64_R_TYPE_def)
qed

section \<open>PowerPC\<close>

lemma store_sized_simps:
  "store_sized lsb 1 v a m = store_n lsb 1 (ucast v :: u8) a m"
  "store_sized lsb 2 v a m = store_n lsb 2 (ucast v :: u16) a m"
  "store_sized lsb 4 v a m = store_n lsb 4 v a m"
  by (simp_all add: store_sized_def)

lemma ppc_reloc_ok:
  assumes "ppc_reloc lsb sec sy r m = (bfd_reloc_ok, m')"
    and t: "typ = ELF32_R_TYPE (ra_info32 r)" "typ \<noteq> 0"
    and pc: "pc = ts_vma sec + ra_offset32 r"
  shows "\<exists>k. ppc_kind_of typ = Some k \<and>
    pc AND (pk_algn k - 1) = 0 \<and>
    \<not> over_limit (pk_lim k) (sint (ppc_value typ pc (ty_value sy) (ra_addend32 r))) \<and>
    pk_lomsk k AND ppc_value typ pc (ty_value sy) (ra_addend32 r) = 0 \<and>
    m' = store_sized lsb (pk_sz k)
      (ppc_patch typ (pk_msk k) (load_signed lsb (pk_sz k) m pc)
        (ppc_value typ pc (ty_value sy) (ra_addend32 r))) pc m"
  using assms unfolding ppc_reloc_def Let_def
  by (cases "ppc_kind_of typ") (auto split: if_splits)

text \<open>The two halves of an address as the instructions put them together.\<close>

lemma ppc_ha_lo:
  "push_bit 16 (ucast (ucast (ppc_patch R_PPC_ADDR16_HA (-1) o1 v) :: u16)) +
     scast (ucast (ppc_patch R_PPC_ADDR16_LO (-1) o2 v) :: u16) = (v :: u32)"
proof -
  have lo: "ppc_patch R_PPC_ADDR16_LO (-1) o2 v = v" by (simp add: ppc_patch_def)
  have bit15: "v AND 0x8000 = 0 \<longleftrightarrow> \<not> bit v 15"
    using and_exp_eq_0_iff_not_bit [of v 15] by simp
  have hi: "push_bit 16 (ucast (ucast (signed_drop_bit 16 w) :: u16)) = w - take_bit 16 w" for w :: u32
  proof -
    have "push_bit 16 (ucast (ucast (signed_drop_bit 16 w) :: u16) :: u32) = push_bit 16 (drop_bit 16 w)"
      by (rule bit_word_eqI) (auto simp: bit_simps)
    also have "\<dots> = w - take_bit 16 w"
      by (metis add_diff_cancel_right' bits_ident)
    finally show ?thesis .
  qed
  have sx: "scast (ucast v :: u16) = (if bit v 15 then take_bit 16 v - 0x10000 else take_bit 16 v :: u32)"
  proof -
    have "scast (ucast v :: u16) = signed_take_bit 15 v"
      by (rule bit_word_eqI) (auto simp: bit_simps)
    then show ?thesis
      by (simp add: signed_take_bit_eq_take_bit_minus)
  qed
  have tb: "take_bit 16 (v + 0x10000) = take_bit 16 v"
  proof -
    have "(uint v + 65536) mod 4294967296 mod 65536 = uint v mod 65536"
      by (simp add: mod_mod_cancel)
    moreover have "uint (take_bit 16 w) = uint w mod 65536" for w :: u32
      by (subst unsigned_take_bit_eq) (simp add: take_bit_eq_mod)
    ultimately have "uint (take_bit 16 (v + 0x10000)) = uint (take_bit 16 v)"
      by (simp add: uint_word_ariths)
    then show ?thesis by (simp only: word_uint_eq_iff)
  qed
  show ?thesis
    using bit15 hi [of v] hi [of "v + 0x10000"] sx tb lo
    by (simp add: ppc_patch_def Let_def)
qed

lemma signed_take_bit_word_self:
  fixes w :: "'a::len word"
  assumes "- (2 ^ n) \<le> sint w" and "sint w < 2 ^ n" and "n < LENGTH('a)"
  shows "signed_take_bit n w = w"
proof (rule bit_word_eqI)
  fix i assume i: "i < LENGTH('a)"
  have s: "signed_take_bit n (sint w) = sint w" using assms by (intro signed_take_bit_int_eq_self)
  have b: "bit (sint w) j = bit w j" if "j < LENGTH('a)" for j
    using that by (simp add: bit_sint_iff)
  have "bit (sint w) i = bit (sint w) (min n i)"
    using bit_signed_take_bit_iff [of n "sint w" i] s by simp
  then show "bit (signed_take_bit n w) i = bit w i"
    using i assms(3) b by (auto simp: bit_signed_take_bit_iff min_def split: if_splits)
qed

definition ppc_li_mask :: u32 where "ppc_li_mask = 0x03fffffc"

text \<open>The displacement in an I-form branch: 24 bits and two zero bits, sign extended.\<close>

definition ppc_li :: "u32 \<Rightarrow> u32" where
  "ppc_li insn = signed_take_bit 25 (insn AND ppc_li_mask)"

lemma bit_ppc_li_mask: "bit ppc_li_mask i \<longleftrightarrow> 2 \<le> i \<and> i \<le> 25"
proof -
  have "ppc_li_mask = push_bit 2 (mask 24)"
    by (simp add: ppc_li_mask_def mask_eq_exp_minus_1)
  then have "bit ppc_li_mask i \<longleftrightarrow> bit (push_bit 2 (mask 24) :: u32) i" by simp
  then show ?thesis by (simp only: bit_push_bit_iff bit_mask_iff) auto
qed

lemma bit_low_two: "(3 :: u32) AND v = 0 \<Longrightarrow> \<not> bit v 0 \<and> \<not> bit v 1"
proof -
  assume "(3 :: u32) AND v = 0"
  then have "take_bit 2 v = 0" by (simp add: take_bit_eq_mask mask_eq_exp_minus_1 and.commute)
  then have "\<not> bit (take_bit 2 v) i" for i by simp
  then show ?thesis by (metis bit_take_bit_iff one_less_numeral_iff semiring_norm(76) zero_less_numeral)
qed

lemma ppc_li_patch:
  assumes "(3 :: u32) AND v = 0" and "- (2 ^ 25) \<le> sint v" and "sint v < 2 ^ 25"
  shows "ppc_li ((old AND NOT ppc_li_mask) OR (v AND ppc_li_mask)) = v"
    and "((old AND NOT ppc_li_mask) OR (v AND ppc_li_mask)) AND NOT ppc_li_mask = old AND NOT ppc_li_mask"
proof -
  have "ppc_li ((old AND NOT ppc_li_mask) OR (v AND ppc_li_mask)) = signed_take_bit 25 v"
  proof (rule bit_word_eqI)
    fix i assume "i < LENGTH(32)"
    then show "bit (ppc_li ((old AND NOT ppc_li_mask) OR (v AND ppc_li_mask))) i = bit (signed_take_bit 25 v) i"
      using bit_low_two [OF assms(1)]
      by (cases "i = 0"; cases "i = 1")
        (auto simp: ppc_li_def bit_simps bit_ppc_li_mask)
  qed
  also have "\<dots> = v" using assms by (intro signed_take_bit_word_self) simp_all
  finally show "ppc_li ((old AND NOT ppc_li_mask) OR (v AND ppc_li_mask)) = v" .
  show "((old AND NOT ppc_li_mask) OR (v AND ppc_li_mask)) AND NOT ppc_li_mask = old AND NOT ppc_li_mask"
    by (rule bit_word_eqI) (auto simp: bit_simps)
qed

text \<open>C25: A PowerPC REL24 relocation that is performed makes the branch at the location go to the symbol
  plus addend, and leaves the opcode and the AA and LK bits of the instruction alone.\<close>

theorem ppc_rel24_branch:
  assumes "ppc_reloc lsb sec sy r m = (bfd_reloc_ok, m')"
    and "ELF32_R_TYPE (ra_info32 r) = R_PPC_REL24"
    and "pc = ts_vma sec + ra_offset32 r"
  shows "pc + ppc_li (load_n lsb 4 m' pc) = ty_value sy + ra_addend32 r \<and>
    load_n lsb 4 m' pc AND NOT ppc_li_mask = load_n lsb 4 m pc AND NOT ppc_li_mask"
proof -
  let ?v = "ty_value sy + ra_addend32 r - pc"
  have k: "ppc_kind_of R_PPC_REL24 = Some \<lparr>pk_sz = 4, pk_algn = 4, pk_lim = - (2 ^ 25), pk_msk = ppc_li_mask, pk_lomsk = 3\<rparr>"
    by (simp add: ppc_kind_of_def ppc_li_mask_def)
  have v: "ppc_value R_PPC_REL24 pc (ty_value sy) (ra_addend32 r) = ?v" by (simp add: ppc_value_def)
  from ppc_reloc_ok [OF assms(1) assms(2) [symmetric] _ assms(3)]
  have c: "\<not> over_limit (- (2 ^ 25)) (sint ?v)" "3 AND ?v = 0"
    and m': "m' = store_sized lsb 4 (ppc_patch R_PPC_REL24 ppc_li_mask (load_signed lsb 4 m pc) ?v) pc m"
    unfolding k v by simp_all
  have p: "ppc_patch R_PPC_REL24 ppc_li_mask old ?v = (old AND NOT ppc_li_mask) OR (?v AND ppc_li_mask)" for old
    by (simp add: ppc_patch_def)
  have "load_n lsb 4 m' pc = (load_n lsb 4 m pc AND NOT ppc_li_mask) OR (?v AND ppc_li_mask)"
    unfolding m' p store_sized_simps by (simp add: load_store_n load_signed_def)
  moreover have "- (2 ^ 25) \<le> sint ?v" "sint ?v < 2 ^ 25" using c(1) by (auto simp: over_limit_def)
  ultimately show ?thesis
    using ppc_li_patch [OF c(2)] by simp
qed

lemma ppc_rel24_branch_witness:
  "\<exists>m'. ppc_reloc False \<lparr>ts_vma = 0x1000, ts_size = 0x20\<rparr> \<lparr>ty_und = False, ty_value = 0x800\<rparr>
      \<lparr>ra_offset32 = 8, ra_info32 = 10, ra_addend32 = 4\<rparr> zero_mem = (bfd_reloc_ok, m') \<and>
    0x1008 + ppc_li (load_n False 4 m' 0x1008) = 0x804"
proof -
  let ?sec = "\<lparr>ts_vma = 0x1000, ts_size = 0x20\<rparr> :: u32 target_sec"
  let ?sy = "\<lparr>ty_und = False, ty_value = 0x800\<rparr> :: u32 target_sym"
  let ?r = "\<lparr>ra_offset32 = 8, ra_info32 = 10, ra_addend32 = 4\<rparr>"
  obtain m' where r: "ppc_reloc False ?sec ?sy ?r zero_mem = (bfd_reloc_ok, m')"
    by (simp add: ppc_reloc_def Let_def ELF32_R_TYPE_def ppc_kind_of_def ppc_value_def over_limit_def)
  then show ?thesis
    using ppc_rel24_branch [OF r, of "0x1008"] by (simp add: ELF32_R_TYPE_def)
qed

text \<open>C31: Two PowerPC relocations for the same address, one for the adjusted high half and one for the
  low half, give an instruction pair that computes exactly the address: the high half shifted left
  plus the sign-extended low half is the symbol plus addend.\<close>

theorem ppc_ha_lo_address:
  assumes "ppc_reloc lsb sec sy r1 m = (bfd_reloc_ok, m1)"
    and "ppc_reloc lsb sec sy r2 m2 = (bfd_reloc_ok, m3)"
    and "ELF32_R_TYPE (ra_info32 r1) = R_PPC_ADDR16_HA" and "ELF32_R_TYPE (ra_info32 r2) = R_PPC_ADDR16_LO"
    and "ra_addend32 r1 = ra_addend32 r2"
  shows "push_bit 16 (ucast (load_n lsb 2 m1 (ts_vma sec + ra_offset32 r1) :: u16)) +
     scast (load_n lsb 2 m3 (ts_vma sec + ra_offset32 r2) :: u16) = ty_value sy + ra_addend32 r1"
proof -
  have k: "ppc_kind_of t = Some \<lparr>pk_sz = 2, pk_algn = 2, pk_lim = 0, pk_msk = -1, pk_lomsk = 0\<rparr>"
    if "t = R_PPC_ADDR16_HA \<or> t = R_PPC_ADDR16_LO" for t
    using that by (auto simp: ppc_kind_of_def)
  let ?v = "ty_value sy + ra_addend32 r1"
  obtain o1 where m1: "m1 = store_sized lsb 2 (ppc_patch R_PPC_ADDR16_HA (-1) o1 ?v) (ts_vma sec + ra_offset32 r1) m"
    using ppc_reloc_ok [OF assms(1) assms(3) [symmetric] _ refl] by (auto simp: k ppc_value_def)
  obtain o2 where m3: "m3 = store_sized lsb 2 (ppc_patch R_PPC_ADDR16_LO (-1) o2 ?v) (ts_vma sec + ra_offset32 r2) m2"
    using ppc_reloc_ok [OF assms(2) assms(4) [symmetric] _ refl] assms(5) by (auto simp: k ppc_value_def)
  show ?thesis
    unfolding m1 m3 store_sized_simps using ppc_ha_lo [of o1 ?v o2] by (simp add: load_store_n)
qed

lemma ppc_ha_lo_address_witness:
  "\<exists>m1 m3. ppc_reloc False \<lparr>ts_vma = 0x1000, ts_size = 0x20\<rparr> \<lparr>ty_und = False, ty_value = 0x1234fffc\<rparr>
      \<lparr>ra_offset32 = 2, ra_info32 = 6, ra_addend32 = 0\<rparr> zero_mem = (bfd_reloc_ok, m1) \<and>
    ppc_reloc False \<lparr>ts_vma = 0x1000, ts_size = 0x20\<rparr> \<lparr>ty_und = False, ty_value = 0x1234fffc\<rparr>
      \<lparr>ra_offset32 = 6, ra_info32 = 4, ra_addend32 = 0\<rparr> m1 = (bfd_reloc_ok, m3) \<and>
    push_bit 16 (ucast (load_n False 2 m1 0x1002 :: u16)) +
      scast (load_n False 2 m3 0x1006 :: u16) = (0x1234fffc :: u32)"
proof -
  let ?sec = "\<lparr>ts_vma = 0x1000, ts_size = 0x20\<rparr> :: u32 target_sec"
  let ?sy = "\<lparr>ty_und = False, ty_value = 0x1234fffc\<rparr> :: u32 target_sym"
  let ?r1 = "\<lparr>ra_offset32 = 2, ra_info32 = 6, ra_addend32 = 0\<rparr>"
  let ?r2 = "\<lparr>ra_offset32 = 6, ra_info32 = 4, ra_addend32 = 0\<rparr>"
  obtain m1 where r1: "ppc_reloc False ?sec ?sy ?r1 zero_mem = (bfd_reloc_ok, m1)"
    by (simp add: ppc_reloc_def Let_def ELF32_R_TYPE_def ppc_kind_of_def over_limit_def)
  obtain m3 where r2: "ppc_reloc False ?sec ?sy ?r2 m1 = (bfd_reloc_ok, m3)"
    by (simp add: ppc_reloc_def Let_def ELF32_R_TYPE_def ppc_kind_of_def over_limit_def)
  show ?thesis
    using ppc_ha_lo_address [OF r1 r2] r1 r2 by (simp add: ELF32_R_TYPE_def)
qed

section \<open>SPARC\<close>

lemma sparc_reloc_ok:
  assumes "sparc_reloc lsb sec sy r m = Ok (bfd_reloc_ok, m')"
    and "typ = ELF32_R_TYPE (ra_info32 r)" "typ \<noteq> 0" and "sparc_lookup (unat typ) = Ok d"
    and "pc = ts_vma sec + ra_offset32 r"
    and "val = (uint (ty_value sy) + sint (ra_addend32 r) - (if sd_pc_relative d then uint pc else 0))
                 div 2 ^ sd_shift d"
  shows "fst (sparc_limits (sd_check d) (sd_width d)) \<le> val \<and>
    val \<le> snd (sparc_limits (sd_check d) (sd_width d)) \<and>
    m' = store_sized lsb (sd_nbytes d)
      ((load_signed lsb (sd_nbytes d) m pc AND NOT (mask (sd_width d))) OR
       (word_of_int val AND mask (sd_width d))) pc m"
  using assms unfolding sparc_reloc_def Let_def
  by (auto split: if_splits prod.splits)

lemma field_kept: "((old AND NOT (mask n)) OR (v AND mask n)) AND NOT (mask n) = old AND NOT (mask n)"
  and field_new: "((old AND NOT (mask n)) OR (v AND mask n)) AND mask n = v AND mask n"
  for old v :: "'a::len word"
  by (rule bit_word_eqI; auto simp: bit_simps)+

text \<open>C32: A SPARC sethi/or pair patched by an HI22 and an LO10 relocation for the same address computes
  the low 32 bits of symbol plus addend, and the other bits of both instructions are kept.\<close>

theorem sparc_hi22_lo10_address:
  assumes "sparc_reloc lsb sec sy r1 m = Ok (bfd_reloc_ok, m1)"
    and "sparc_reloc lsb sec sy r2 m2 = Ok (bfd_reloc_ok, m3)"
    and "ELF32_R_TYPE (ra_info32 r1) = 9" and "ELF32_R_TYPE (ra_info32 r2) = 12"
    and "ra_addend32 r1 = ra_addend32 r2"
    and "p1 = ts_vma sec + ra_offset32 r1" and "p2 = ts_vma sec + ra_offset32 r2"
  shows "push_bit 10 (load_n lsb 4 m1 p1 AND mask 22) OR (load_n lsb 4 m3 p2 AND mask 10) =
      ty_value sy + ra_addend32 r1 \<and>
    load_n lsb 4 m1 p1 AND NOT (mask 22) = load_n lsb 4 m p1 AND NOT (mask 22 :: u32) \<and>
    load_n lsb 4 m3 p2 AND NOT (mask 10) = load_n lsb 4 m2 p2 AND NOT (mask 10 :: u32)"
proof -
  let ?k = "uint (ty_value sy) + sint (ra_addend32 r1)"
  have l9: "sparc_lookup (unat (9 :: u8)) = Ok (sparc_desc 4 22 10 check_none False False)"
    and l12: "sparc_lookup (unat (12 :: u8)) = Ok (sparc_desc 4 10 0 check_none False False)"
    by (simp_all add: sparc_lookup_def sparc_rels_def)
  have m1: "m1 = store_sized lsb 4 ((load_n lsb 4 m p1 AND NOT (mask 22)) OR
      (word_of_int (?k div 2 ^ 10) AND mask 22)) p1 m"
    using sparc_reloc_ok [OF assms(1) assms(3) [symmetric] _ l9 assms(6) refl]
    by (simp add: sparc_desc_def load_signed_def)
  have m3: "m3 = store_sized lsb 4 ((load_n lsb 4 m2 p2 AND NOT (mask 10)) OR
      (word_of_int ?k AND mask 10)) p2 m2"
    using sparc_reloc_ok [OF assms(2) assms(4) [symmetric] _ l12 assms(7) refl] assms(5)
    by (simp add: sparc_desc_def load_signed_def)
  have k: "word_of_int ?k = ty_value sy + ra_addend32 r1"
    by simp
  have "push_bit 10 (word_of_int (drop_bit 10 ?k) AND mask 22) OR (word_of_int ?k AND mask 10) =
      (word_of_int ?k :: u32)"
    by (rule bit_word_eqI) (auto simp: bit_simps simp del: of_int_add of_int_sint word_of_int_uint)
  then have "push_bit 10 (word_of_int (?k div 2 ^ 10) AND mask 22) OR (word_of_int ?k AND mask 10) =
      ty_value sy + ra_addend32 r1"
    unfolding k [symmetric] by (simp only: drop_bit_eq_div)
  then show ?thesis
    unfolding m1 m3 store_sized_simps
    by (simp add: load_store_n field_kept field_new del: of_int_add of_int_sint word_of_int_uint)
qed

lemma sparc_hi22_lo10_address_witness:
  "\<exists>m1 m3. sparc_reloc False \<lparr>ts_vma = 0x1000, ts_size = 0x20\<rparr> \<lparr>ty_und = False, ty_value = 0xdeadbeef\<rparr>
      \<lparr>ra_offset32 = 0, ra_info32 = 9, ra_addend32 = 0\<rparr> zero_mem = Ok (bfd_reloc_ok, m1) \<and>
    sparc_reloc False \<lparr>ts_vma = 0x1000, ts_size = 0x20\<rparr> \<lparr>ty_und = False, ty_value = 0xdeadbeef\<rparr>
      \<lparr>ra_offset32 = 4, ra_info32 = 12, ra_addend32 = 0\<rparr> m1 = Ok (bfd_reloc_ok, m3) \<and>
    push_bit 10 (load_n False 4 m1 0x1000 AND mask 22) OR (load_n False 4 m3 0x1004 AND mask 10) =
      (0xdeadbeef :: u32)"
proof -
  let ?sec = "\<lparr>ts_vma = 0x1000, ts_size = 0x20\<rparr> :: u32 target_sec"
  let ?sy = "\<lparr>ty_und = False, ty_value = 0xdeadbeef\<rparr> :: u32 target_sym"
  let ?r1 = "\<lparr>ra_offset32 = 0, ra_info32 = 9, ra_addend32 = 0\<rparr>"
  let ?r2 = "\<lparr>ra_offset32 = 4, ra_info32 = 12, ra_addend32 = 0\<rparr>"
  obtain m1 where r1: "sparc_reloc False ?sec ?sy ?r1 zero_mem = Ok (bfd_reloc_ok, m1)"
    by (simp add: sparc_reloc_def Let_def ELF32_R_TYPE_def sparc_lookup_def sparc_rels_def
        sparc_desc_def sparc_limits_def)
  obtain m3 where r2: "sparc_reloc False ?sec ?sy ?r2 m1 = Ok (bfd_reloc_ok, m3)"
    by (simp add: sparc_reloc_def Let_def ELF32_R_TYPE_def sparc_lookup_def sparc_rels_def
        sparc_desc_def sparc_limits_def)
  show ?thesis
    using sparc_hi22_lo10_address [OF r1 r2, of "0x1000" "0x1004"] r1 r2 by (simp add: ELF32_R_TYPE_def)
qed

section \<open>i386 and m68k\<close>

text \<open>C33: An i386 relocation that is performed adds the symbol to the addend in the field, less the
  address of the field for the relative type.\<close>

theorem i386_reloc_value:
  assumes "i386_reloc lsb sec sy r m = (bfd_reloc_ok, m')"
    and "typ = ELF32_R_TYPE (r_info32 r)" and "typ \<noteq> R_386_NONE"
    and "pc = ts_vma sec + r_offset32 r"
  shows "load_n lsb 4 m' pc =
    ty_value sy + load_n lsb 4 m pc - (if typ = R_386_PC32 then pc else 0)"
proof -
  have "m' = store_n lsb 4 ((if typ = R_386_PC32 then - pc else 0) + (load_n lsb 4 m pc + ty_value sy)) pc m"
    using assms by (auto simp: i386_reloc_def Let_def split: if_splits)
  then show ?thesis by (simp add: load_store_n)
qed

lemma i386_reloc_value_witness:
  "\<exists>m'. i386_reloc True \<lparr>ts_vma = 0x1000, ts_size = 0x20\<rparr> \<lparr>ty_und = False, ty_value = 0x2000\<rparr>
      \<lparr>r_offset32 = 1, r_info32 = 2\<rparr> zero_mem = (bfd_reloc_ok, m') \<and>
    load_n True 4 m' 0x1001 = 0x2000 + load_n True 4 zero_mem (0x1001 :: u32) - (0x1001 :: u32)"
proof -
  let ?sec = "\<lparr>ts_vma = 0x1000, ts_size = 0x20\<rparr> :: u32 target_sec"
  let ?sy = "\<lparr>ty_und = False, ty_value = 0x2000\<rparr> :: u32 target_sym"
  let ?r = "\<lparr>r_offset32 = 1, r_info32 = 2\<rparr>"
  obtain m' where r: "i386_reloc True ?sec ?sy ?r zero_mem = (bfd_reloc_ok, m')"
    by (simp add: i386_reloc_def Let_def ELF32_R_TYPE_def)
  then show ?thesis
    using i386_reloc_value [OF r, of 2 "0x1001"] by (simp add: ELF32_R_TYPE_def)
qed

lemma m68k_reloc_ok:
  assumes "m68k_reloc lsb sec sy r m = (bfd_reloc_ok, m')"
    and "typ = ELF32_R_TYPE (ra_info32 r)" "typ \<noteq> 0" and "pc = ts_vma sec + ra_offset32 r"
    and "m68k_kind typ = Some (pcrel, lim, sz)"
    and "v = load_signed lsb sz m pc + ty_value sy + ra_addend32 r - (if pcrel then pc else 0)"
  shows "\<not> over_limit lim (sint v) \<and> m' = store_sized lsb sz v pc m"
  using assms by (auto simp: m68k_reloc_def Let_def split: if_splits)

text \<open>An m68k relocation that is performed adds symbol plus addend to the signed contents of its
  field, less the address of the field for the relative types; for these the stored field sign
  extends to the sum, nothing being lost by truncation.\<close>

lemma m68k_reloc_value:
  assumes "m68k_reloc lsb sec sy r m = (bfd_reloc_ok, m')"
    and "typ = ELF32_R_TYPE (ra_info32 r)" and "typ \<noteq> 0" and "pc = ts_vma sec + ra_offset32 r"
    and "m68k_kind typ = Some (pcrel, lim, sz)"
    and "v = load_signed lsb sz m pc + ty_value sy + ra_addend32 r - (if pcrel then pc else 0)"
  shows "(sz = 4 \<or> pcrel \<longrightarrow> load_signed lsb sz m' pc = v) \<and>
    (sz = 2 \<longrightarrow> load_n lsb 2 m' pc = (ucast v :: u16)) \<and>
    (sz = 1 \<longrightarrow> load_n lsb 1 m' pc = (ucast v :: u8))"
proof -
  have l: "\<not> over_limit lim (sint v)" and m': "m' = store_sized lsb sz v pc m"
    using m68k_reloc_ok [OF assms] by simp_all
  have n1: "scast (ucast v :: u8) = v" if "- 0x80 \<le> sint v" "sint v < 0x80"
    using signed_narrow [where 'b=8, of v] that by simp
  have n2: "scast (ucast v :: u16) = v" if "- 0x8000 \<le> sint v" "sint v < 0x8000"
    using signed_narrow [where 'b=16, of v] that by simp
  show ?thesis
    using assms(5) l n1 n2 unfolding m'
    by (auto simp: m68k_kind_def over_limit_def load_signed_def store_sized_def load_store_n
        split: if_splits)
qed

lemma m68k_reloc_value_witness:
  "\<exists>m'. m68k_reloc False \<lparr>ts_vma = 0x1000, ts_size = 0x20\<rparr> \<lparr>ty_und = False, ty_value = 0x1010\<rparr>
      \<lparr>ra_offset32 = 2, ra_info32 = 5, ra_addend32 = 0\<rparr> zero_mem = (bfd_reloc_ok, m') \<and>
    load_signed False 2 m' 0x1002 = 0xe"
proof -
  let ?sec = "\<lparr>ts_vma = 0x1000, ts_size = 0x20\<rparr> :: u32 target_sec"
  let ?sy = "\<lparr>ty_und = False, ty_value = 0x1010\<rparr> :: u32 target_sym"
  let ?r = "\<lparr>ra_offset32 = 2, ra_info32 = 5, ra_addend32 = 0\<rparr>"
  have z: "load_signed False 2 zero_mem 0x1002 = 0"
    by (simp add: load_signed_def load_n_def zero_mem_def host_word_def upt_conv_Cons)
  obtain m' where r: "m68k_reloc False ?sec ?sy ?r zero_mem = (bfd_reloc_ok, m')"
    by (simp add: m68k_reloc_def Let_def ELF32_R_TYPE_def m68k_kind_def z over_limit_def)
  then show ?thesis
    using m68k_reloc_value [OF r, of 5 "0x1002" True "-0x8000" 2 "0xe"]
    by (simp add: ELF32_R_TYPE_def m68k_kind_def z)
qed

section \<open>Relocating a section\<close>

lemma x_not_in_field:
  fixes off :: "'a::len word"
  assumes "x \<notin> area (ts_vma sec) (unat (ts_size sec))" and "unat off + n < 2 ^ LENGTH('a)"
  shows "x \<notin> field_in sec off n"
  using assms field_in_section [of off n sec] by blast

text \<open>C34: Relocating a section with the PowerPC or the x86-64 engine never changes a byte outside the
  section, whatever the relocations are and however many of them fail, provided no offset lies
  within eight bytes of the end of the address space.\<close>

theorem relocs_stay_in_section:
  assumes "\<And>sy r. (sy, r) \<in> set rs \<Longrightarrow> unat (ra_offset32 r) + 4 < 2 ^ 32"
    and "x \<notin> area (ts_vma sec) (unat (ts_size sec))"
    and "\<And>sy r. (sy, r) \<in> set rs' \<Longrightarrow> unat (ra_offset64 r) + 8 < 2 ^ 64"
    and "x' \<notin> area (ts_vma sec') (unat (ts_size sec'))"
  shows "snd (perform_all (\<lambda>(sy, r). ppc_reloc lsb sec sy r) rs m) x = m x \<and>
    snd (perform_all (\<lambda>(sy, r). x86_64_reloc lsb sec' sy r) rs' m') x' = m' x'"
proof
  show "snd (perform_all (\<lambda>(sy, r). ppc_reloc lsb sec sy r) rs m) x = m x"
  proof (rule ppc.all_frame)
    fix p assume p: "p \<in> set rs"
    obtain sy r where "p = (sy, r)" by (cases p)
    then show "x \<notin> (case p of (sy, r) \<Rightarrow> ppc_field sec r)"
      using p assms(1) [of sy r] x_not_in_field [OF assms(2), of "ra_offset32 r"]
      by (auto simp: ppc_field_def split: option.splits dest!: ppc_kind_size)
  qed
  show "snd (perform_all (\<lambda>(sy, r). x86_64_reloc lsb sec' sy r) rs' m') x' = m' x'"
  proof (rule x86_64.all_frame)
    fix p assume p: "p \<in> set rs'"
    obtain sy r where "p = (sy, r)" by (cases p)
    then show "x' \<notin> (case p of (sy, r) \<Rightarrow> x86_64_field sec' r)"
      using p assms(3) [of sy r] x_not_in_field [OF assms(4), of "ra_offset64 r"]
      by (auto simp: x86_64_field_def split: option.splits dest!: x86_64_kind_size)
  qed
qed

lemma relocs_stay_in_section_witness:
  "snd (perform_all (\<lambda>(sy, r). ppc_reloc False \<lparr>ts_vma = 0x1000, ts_size = 0x20\<rparr> sy r)
       [(\<lparr>ty_und = False, ty_value = 0x800\<rparr>, \<lparr>ra_offset32 = 8, ra_info32 = 10, ra_addend32 = 4\<rparr>)] zero_mem) 0x1020
     = zero_mem (0x1020 :: u32) \<and>
   snd (perform_all (\<lambda>(sy, r). x86_64_reloc False \<lparr>ts_vma = 0x1000, ts_size = 0x20\<rparr> sy r) [] zero_mem) 0x1020
     = zero_mem (0x1020 :: u64)"
  by (rule relocs_stay_in_section) (auto simp: area_def)

text \<open>The SPARC engine does not compare the offset of a relocation with the size of the section: a
  relocation behind the end of the section is performed and changes a byte outside it.\<close>

lemma sparc_leaves_section:
  "\<exists>sec sy r m m' x. sparc_reloc lsb sec sy r m = Ok (bfd_reloc_ok, m') \<and>
     x \<notin> area (ts_vma sec) (unat (ts_size sec)) \<and> m' x \<noteq> m x"
proof -
  let ?sec = "\<lparr>ts_vma = 0x1000, ts_size = 0x20\<rparr> :: u32 target_sec"
  let ?sy = "\<lparr>ty_und = False, ty_value = 0x55\<rparr> :: u32 target_sym"
  let ?r = "\<lparr>ra_offset32 = 0x20, ra_info32 = 1, ra_addend32 = 0\<rparr>"
  have z: "load_signed lsb 1 zero_mem 0x1020 = 0"
    by (simp add: load_signed_def load_n_def zero_mem_def host_word_def)
  have "sparc_reloc lsb ?sec ?sy ?r zero_mem =
      Ok (bfd_reloc_ok, store_sized lsb 1 (0x55 AND mask 8) 0x1020 zero_mem)"
    using z by (simp add: sparc_reloc_def Let_def ELF32_R_TYPE_def sparc_lookup_def sparc_rels_def
        sparc_desc_def sparc_limits_def)
  moreover have "store_sized lsb 1 (0x55 AND mask 8) 0x1020 zero_mem 0x1020 \<noteq> (zero_mem :: 32 mem) 0x1020"
    by (simp add: store_sized_def store_n_def host_bytes_def zero_mem_def mask_eq_exp_minus_1)
  moreover have "(0x1020 :: u32) \<notin> area (ts_vma ?sec) (unat (ts_size ?sec))"
    by (simp add: area_def)
  ultimately show ?thesis by blast
qed

end
