(* ===== verification/Loader.thy ===== *)
theory Loader imports LoadSyms Relocs begin

text \<open>
  Loading an object file (\<open>bfdstuff.c\<close>): the contents of the sections and their relocations, the lists of
  constructors and destructors, and \<open>cexpLoadFile\<close>, which makes a module of a file. The interface of the
  modules to a loader is discharged for it.
\<close>

section \<open>Functions of the system\<close>

text \<open>
  The functions for exception frames and for destructors that the system module has, 0 when it does not; the
  index of the symbol \<open>__dso_handle\<close> there. They are looked up once, in the table of the system module, which
  is never unloaded.
\<close>

record sys_ptrs =
  sp_register :: u64
  sp_deregister :: u64
  sp_cxa :: u64
  sp_dso :: "nat option"

definition find_sym :: "bool \<Rightarrow> string \<Rightarrow> CexpSymTbl \<Rightarrow> nat option res" where
  "find_sym sc nm t =
     (case cexpSymTblLookup sc nm t of Ok i \<Rightarrow> Ok (Some i) | Fail _ \<Rightarrow> Ok None | UB \<Rightarrow> UB | Hang \<Rightarrow> Hang)"

definition find_value :: "bool \<Rightarrow> string \<Rightarrow> CexpSymTbl \<Rightarrow> u64 res" where
  "find_value sc nm t =
     bind_res (find_sym sc nm t) (\<lambda>i. Ok (case i of None \<Rightarrow> 0 | Some i \<Rightarrow> ca_ptv (sy_value (syms_of t ! i))))"

definition DSO_HANDLE_NAME :: string where "DSO_HANDLE_NAME = ''__dso_handle''"

definition bfdstuff_complete_init :: "bool \<Rightarrow> CexpSymTbl \<Rightarrow> sys_ptrs res" where
  "bfdstuff_complete_init sc t =
     bind_res (find_value sc ''__register_frame'' t) (\<lambda>reg.
     bind_res (find_value sc ''__deregister_frame'' t) (\<lambda>dereg.
     bind_res (find_value sc ''__cxa_finalize'' t) (\<lambda>cxa.
     bind_res (find_sym sc DSO_HANDLE_NAME t) (\<lambda>dso.
       if cxa \<noteq> 0 \<and> dso = None then UB
       else Ok \<lparr>sp_register = reg, sp_deregister = dereg, sp_cxa = cxa, sp_dso = dso\<rparr>))))"

text \<open>The functions a module calls when it is unloaded, with their arguments.\<close>

definition bfdCleanupCallback :: "sys_ptrs \<Rightarrow> CexpModule \<Rightarrow> (u64 \<times> u64) list res" where
  "bfdCleanupCallback sys m =
     (let fin = (if sp_cxa sys \<noteq> 0 then [(sp_cxa sys, m_addr m)] else []) in
      if m_modPvt m = 0 then Ok fin
      else if sp_deregister sys = 0 then UB
      else Ok (fin @ [(sp_deregister sys, m_modPvt m)]))"

section \<open>Relocation\<close>

text \<open>
  The symbol in a slot, with an undefined one replaced by what the modules have; \<open>False\<close> when there is nothing.
  A module that asks for \<open>__dso_handle\<close> gets its own handle.
\<close>

definition reloc_symbol :: "ld_env \<Rightarrow> sys_ptrs \<Rightarrow> u64 \<Rightarrow> nat \<Rightarrow> bfd \<times> link_data \<Rightarrow> (bool \<times> bfd \<times> link_data) res" where
  "reloc_symbol env sys a slot bl =
     (case bl of (b, ld) \<Rightarrow>
      let sp = get_sym b (ld_st ld ! slot) in
      if bfd_get_section b sp \<noteq> Some Und then Ok (True, b, ld)
      else
        bind_res (c_str (as_name sp)) (\<lambda>nm.
        bind_res (lookup_idx env nm) (\<lambda>found.
          case found of
            None \<Rightarrow> Ok (False, b, ld)
          | Some (i, m) \<Rightarrow>
              if m_addr m = m_addr (hd (le_mods env)) \<and> sp_dso sys = Some i then
                (if sp_cxa sys = 0 then Ok (False, b, ld)
                 else
                   bind_res (new_symbol env (bfd_set_section (Some Abs)
                       (zero_asym\<lparr>as_name := map_option str_mem (sy_name (mod_sym m i)), as_val := a, as_flags := BSF_LOCAL\<rparr>)) b)
                     (\<lambda>(r, b). Ok (True, b, set_slot slot r ld)))
              else
                bind_res (asymFromCexpSym env (mod_sym m i) m (b, ld)) (\<lambda>(r, b, ld). Ok (True, b, set_slot slot r ld)))))"

text \<open>Is the symbol in a section that has been left out?\<close>

definition sym_dropped :: "bfd \<Rightarrow> secref option \<Rightarrow> bool res" where
  "sym_dropped b sect =
     (case sect of
        None \<Rightarrow> UB
      | Some r \<Rightarrow> Ok (\<not> is_alloc (get_sec b r) \<and> r \<noteq> Abs \<and> r \<noteq> Com))"

definition count_error :: "bfd \<times> link_data \<Rightarrow> bfd \<times> link_data" where
  "count_error bl = (case bl of (b, ld) \<Rightarrow> (b, ld\<lparr>ld_errors := ld_errors ld + 1\<rparr>))"

text \<open>The engine of the host reads an entry with an addend, 24 bytes.\<close>

definition do_reloc :: "ld_env \<Rightarrow> asection \<Rightarrow> nat \<Rightarrow> bytes \<Rightarrow> bfd \<times> link_data \<Rightarrow> (bfd \<times> link_data) res" where
  "do_reloc env s slot r bl =
     (case bl of (b, ld) \<Rightarrow>
      let sp = get_sym b (ld_st ld ! slot) in
      if length r < 24 then UB
      else
        (case x86_64_reloc (le_lsb env) \<lparr>ts_vma = sc_vma s, ts_size = sc_size s\<rparr>
                \<lparr>ty_und = bfd_get_section b sp = Some Und, ty_value = bfd_asymbol_value b sp\<rparr>
                (image_rela64 (le_lsb env) r) (ld_mem ld) of
           (st, m) \<Rightarrow> Ok (if st = bfd_reloc_ok then (b, ld\<lparr>ld_mem := m\<rparr>) else count_error (b, ld\<lparr>ld_mem := m\<rparr>))))"

text \<open>
  One relocation of section \<open>s\<close>. An error is counted and the next relocation is next; so is a symbol in a
  section that has been left out, without an error.
\<close>

definition reloc_entry ::
    "ld_env \<Rightarrow> sys_ptrs \<Rightarrow> u64 \<Rightarrow> asection \<Rightarrow> bytes \<Rightarrow> bfd \<times> link_data \<Rightarrow> (bfd \<times> link_data) res" where
  "reloc_entry env sys a s r bl =
     (let idx = pmbfd_reloc_get_sym_idx (le_lsb env) (fst bl) r; slot = nat idx in
      if idx < 0 then Ok (count_error bl)
      else if slot \<ge> length (ld_st (snd bl)) then UB
      else
        bind_res (reloc_symbol env sys a slot bl) (\<lambda>(ok, b, ld).
          if \<not> ok then Ok (count_error (b, ld))
          else
            let sect = bfd_get_section (fst bl) (get_sym (fst bl) (ld_st (snd bl) ! slot)) in
            bind_res (if sect = Some Und then Ok False else sym_dropped b sect) (\<lambda>skip.
              if skip then Ok (b, ld) else do_reloc env s slot r (b, ld))))"

fun reloc_loop ::
    "ld_env \<Rightarrow> sys_ptrs \<Rightarrow> u64 \<Rightarrow> asection \<Rightarrow> pmbfd_areltab \<Rightarrow> nat list \<Rightarrow> bfd \<times> link_data \<Rightarrow> (bfd \<times> link_data) res" where
  "reloc_loop env sys a s tab [] bl = Ok bl"
| "reloc_loop env sys a s tab (k # ks) bl =
     bind_res (reloc_entry env sys a s (pmbfd_reloc_next tab k) bl) (reloc_loop env sys a s tab ks)"

definition write_mem :: "u64 \<Rightarrow> bytes \<Rightarrow> 64 mem \<Rightarrow> 64 mem" where
  "write_mem a bs m = (\<lambda>x. if unat (x - a) < length bs then bs ! unat (x - a) else m x)"

text \<open>The relocations of a section whose contents are in memory.\<close>

definition reloc_section :: "ld_env \<Rightarrow> sys_ptrs \<Rightarrow> u64 \<Rightarrow> secref \<Rightarrow> bfd \<times> link_data \<Rightarrow> (bfd \<times> link_data) res" where
  "reloc_section env sys a r bl =
     (case bl of (b, ld) \<Rightarrow>
      bind_res (bfd_get_reloc_upper_bound b r) (\<lambda>sz.
        if sz \<le> 0 then Ok (count_error (b, ld))
        else
          bind_res (pmbfd_canonicalize_reloc b r) (\<lambda>(n, tab, b).
            if n \<le> 0 then Ok (count_error (b, ld))
            else reloc_loop env sys a (get_sec b r) tab [0..<nat n] (b, ld))))"

text \<open>When the contents cannot be read what has been written of them is left in the memory of the section,
  which is released; it does not count.\<close>

definition s_reloc :: "ld_env \<Rightarrow> sys_ptrs \<Rightarrow> u64 \<Rightarrow> secref \<Rightarrow> bfd \<times> link_data \<Rightarrow> (bfd \<times> link_data) res" where
  "s_reloc env sys a r bl =
     (case bl of (b, ld) \<Rightarrow>
      let s = get_sec b r in
      if \<not> is_alloc s then Ok (b, ld)
      else
        case check_get_section_vma s of
          (bad, vma) \<Rightarrow>
            if bad then Ok (count_error (b, ld))
            else
              bind_res (bfd_get_section_contents b r 0 (sc_size s)) (\<lambda>(bs, b).
                case bs of
                  None \<Rightarrow> Ok (count_error (b, ld))
                | Some bs \<Rightarrow>
                    let bl = (b, ld\<lparr>ld_mem := write_mem vma bs (ld_mem ld)\<rparr>) in
                    if sc_flags s AND SEC_RELOC \<noteq> 0 then reloc_section env sys a r bl else Ok bl))"

section \<open>Constructors and destructors of the module\<close>

text \<open>
  The symbols of one kind in the order of the table, with their priorities. There must be as many as were
  counted when the symbols were resolved.
\<close>

fun collect :: "ld_env \<Rightarrow> bfd \<Rightarrow> symref list \<Rightarrow> ((symref \<times> int) list \<times> (symref \<times> int) list) res" where
  "collect env b [] = Ok ([], [])"
| "collect env b (r # rs) =
     bind_res (isCtorDtor env (get_sym b r)) (\<lambda>(kind, rest).
     bind_res (if kind = 0 then Ok 0 else ctor_prio rest) (\<lambda>pri.
     bind_res (collect env b rs) (\<lambda>(cs, ds).
       Ok (if kind = 1 then ((r, pri) # cs, ds) else if kind = -1 then (cs, (r, pri) # ds) else (cs, ds)))))"

text \<open>
  The comparison. Of equal priorities the C function compares the places in the array, while these are
  being moved; what is left of it is that the order of equal ones is not determined.
\<close>

definition ctor_cmp :: "symref \<times> int \<Rightarrow> symref \<times> int \<Rightarrow> int" where "ctor_cmp x y = snd x - snd y"

definition buildCtorsDtors :: "ld_env \<Rightarrow> bfd \<Rightarrow> link_data \<Rightarrow> CexpModule \<Rightarrow> CexpModule res" where
  "buildCtorsDtors env b ld m =
     bind_res (collect env b (ld_st ld)) (\<lambda>(cs, ds).
       if length cs \<noteq> ld_nCtors ld \<or> length ds \<noteq> ld_nDtors ld then UB
       else
         let addr = (\<lambda>(r, pri). bfd_asymbol_value b (get_sym b r)) in
         Ok (m\<lparr>m_ctors := map addr (if cs = [] then [] else le_qp env ctor_cmp cs),
               m_dtors := map addr (rev (if ds = [] then [] else le_qp env ctor_cmp ds))\<rparr>))"

section \<open>Section names\<close>

text \<open>
  The symbol for every name that was remembered: one of the new module, else one of another module, which has
  loaded a link-once section of the name; a name without a symbol is dropped.
\<close>

fun section_syms :: "ld_env \<Rightarrow> u64 \<Rightarrow> CexpSymTbl \<Rightarrow> bytes option list \<Rightarrow> (u64 \<times> nat) list res" where
  "section_syms env a t [] = Ok []"
| "section_syms env a t (nm # nms) =
     bind_res (c_str nm) (\<lambda>s.
     bind_res (find_sym (le_sc env) s t) (\<lambda>i.
     bind_res (case i of
                 Some i \<Rightarrow> Ok [(a, i)]
               | None \<Rightarrow> bind_res (lookup_idx env s) (\<lambda>found. Ok (case found of None \<Rightarrow> [] | Some (i, m) \<Rightarrow> [(m_addr m, i)])))
       (\<lambda>one. bind_res (section_syms env a t nms) (\<lambda>more. Ok (one @ more)))))"

section \<open>Loading a file\<close>

text \<open>
  What a load finds: the result of \<open>cexpSegsInit\<close>, the file with its full name, the results of allocations
  (of the records in \<open>bfd_openstreamr\<close>, of the symbols, of the index, of the list of section symbols), the
  addresses for the segments, the addresses of \<open>cexpLoadFile\<close>, \<open>_etext\<close> and \<open>_edata\<close> in the running program
  and that of the cleanup function.
\<close>

record load_env =
  lo_env :: ld_env
  lo_segs :: "CexpSegment list option \<times> int"
  lo_file :: "string \<Rightarrow> (file_obj \<times> string) option"
  lo_ok_open :: "nat \<Rightarrow> bool"
  lo_ok_syms :: "nat \<Rightarrow> bool"
  lo_ok_index :: bool
  lo_ok_names :: bool
  lo_addrs :: "u64 list"
  lo_self :: "u64 \<times> u64 \<times> u64"
  lo_cleanup :: u64

text \<open>The state a load works on, and the calls it makes for the exception frames.\<close>

record load_state =
  ls_b :: bfd
  ls_ld :: link_data
  ls_held :: blocks
  ls_calls :: "(u64 \<times> u64) list"

text \<open>The next step, unless the one before has failed.\<close>

definition and_then :: "(bool \<times> 's) res \<Rightarrow> ('s \<Rightarrow> (bool \<times> 's) res) \<Rightarrow> (bool \<times> 's) res" where
  "and_then r f = bind_res r (\<lambda>(ok, s). if ok then f s else Ok (False, s))"

definition put :: "load_state \<Rightarrow> bfd \<times> link_data \<Rightarrow> load_state" where
  "put s bl = s\<lparr>ls_b := fst bl, ls_ld := snd bl\<rparr>"

text \<open>May the file be loaded into this program?\<close>

definition loadable :: "bfd \<Rightarrow> bool" where
  "loadable b \<longleftrightarrow> bfd_check_format b bfd_object \<and> bfd_scan_arch (bfd_printable_name (Some b)) \<noteq> None"

text \<open>The names of sections, and link-once sections.\<close>

definition step_sections :: "load_env \<Rightarrow> load_state \<Rightarrow> (bool \<times> load_state) res" where
  "step_sections w s =
     bind_res (bfd_map_over_sections s_nsects (ls_b s, ls_ld s)) (\<lambda>(b, ld).
       if \<not> lo_ok_names w then Ok (False, put s (b, ld))
       else
         bind_res (bfd_map_over_sections s_basic
             (b, ld\<lparr>ld_room := ld_num_names ld + 1, ld_num_names := 0\<rparr>)) (\<lambda>(b, ld).
         if ld_num_names ld \<ge> ld_room ld then UB
         else bind_res (bfd_map_over_sections (s_eliminate_linkonce (lo_env w)) (b, ld)) (\<lambda>bl. Ok (True, put s bl))))"

definition step_syms :: "load_env \<Rightarrow> load_state \<Rightarrow> (bool \<times> load_state) res" where
  "step_syms w s =
     bind_res (slurp_symtab (lo_env w) (lo_ok_syms w) (ls_b s, ls_ld s)) (\<lambda>(rc, bl). Ok (rc = 0, put s bl))"

text \<open>
  Placement and relocation; for the symbol table of the program itself there is none. It may have no common
  symbols other than weak ones.
\<close>

definition step_place :: "load_env \<Rightarrow> sys_ptrs \<Rightarrow> u64 \<Rightarrow> load_state \<Rightarrow> (bool \<times> load_state) res" where
  "step_place w sys a s =
     (let env = lo_env w; b = ls_b s; ld = ls_ld s in
      if le_mods env \<noteq> [] then
        bind_res (place_sections env (lo_addrs w) (b, ld) (ls_held s)) (\<lambda>(ok, bl, held).
          let s = (put s bl)\<lparr>ls_held := held\<rparr> in
          if \<not> ok then Ok (False, s)
          else
            bind_res (bfd_map_over_sections (s_reloc env sys a) (fst bl, (snd bl)\<lparr>ld_errors := 0\<rparr>)) (\<lambda>bl.
              Ok (ld_errors (snd bl) = 0, put s bl)))
      else if list_ex (\<lambda>i. as_flags (get_sym b (ld_st ld ! i)) AND BSF_WEAK = 0) (ld_commons ld) then UB
      else Ok (True, s\<lparr>ls_ld := (case ld_text ld of None \<Rightarrow> ld | Some r \<Rightarrow> ld\<lparr>ld_text_vma := sc_vma (get_sec b r)\<rparr>)\<rparr>))"

definition step_values :: "load_env \<Rightarrow> load_state \<Rightarrow> (bool \<times> load_state) res" where
  "step_values w s =
     bind_res (cexpSymTabSetValues (lo_env w) (lo_ok_index w) (ls_b s) (ls_ld s) (ld_cst (ls_ld s))) (\<lambda>(rc, t).
       Ok (rc = 0, s\<lparr>ls_ld := (ls_ld s)\<lparr>ld_cst := Some t\<rparr>\<rparr>))"

text \<open>A file with a symbol \<open>cexpLoadFile\<close> must be that of the running program.\<close>

definition sane :: "load_env \<Rightarrow> CexpSymTbl \<Rightarrow> bool res" where
  "sane w t =
     (let sc = le_sc (lo_env w);
          is = (\<lambda>nm v. bind_res (find_sym sc nm t) (\<lambda>i. Ok (case i of None \<Rightarrow> False | Some i \<Rightarrow> ca_ptv (sy_value (syms_of t ! i)) = v)))
      in case lo_self w of (self, etext, edata) \<Rightarrow>
         bind_res (find_sym sc ''cexpLoadFile'' t) (\<lambda>i.
           case i of
             None \<Rightarrow> Ok True
           | Some i \<Rightarrow>
               if ca_ptv (sy_value (syms_of t ! i)) \<noteq> self then Ok False
               else bind_res (is ''_etext'' etext) (\<lambda>ok. if ok then is ''_edata'' edata else Ok False)))"

text \<open>
  The exception frame table: a zero is written behind it and it is registered. \<open>False\<close> when it has no address.
\<close>

definition register_eh :: "load_env \<Rightarrow> sys_ptrs \<Rightarrow> load_state \<Rightarrow> (bool \<times> u64 \<times> load_state) res" where
  "register_eh w sys s =
     (let ld = ls_ld s in
      case (if le_mods (lo_env w) = [] then None else ld_eh ld) of
        None \<Rightarrow> Ok (True, 0, s)
      | Some r \<Rightarrow>
          let sec = get_sec (ls_b s) r in
          case check_get_section_vma sec of
            (bad, vma) \<Rightarrow>
              if bad then Ok (False, 0, s)
              else if sp_register sys = 0 then UB
              else Ok (True, vma, s\<lparr>ls_ld := ld\<lparr>ld_mem := store_n (le_lsb (lo_env w)) 8 (0 :: u64) (vma + sc_size sec) (ld_mem ld)\<rparr>,
                                    ls_calls := ls_calls s @ [(sp_register sys, vma)]\<rparr>))"

definition callback :: "load_state \<Rightarrow> nat option \<Rightarrow> u64" where
  "callback s slot =
     (case slot of None \<Rightarrow> 0 | Some i \<Rightarrow> bfd_asymbol_value (ls_b s) (get_sym (ls_b s) (ld_st (ls_ld s) ! i)))"

text \<open>The fields of the module; its segments are those before the record at the end.\<close>

definition fill_module :: "load_env \<Rightarrow> string \<Rightarrow> u64 \<Rightarrow> CexpSymTbl \<Rightarrow> (u64 \<times> nat) list \<Rightarrow> load_state \<Rightarrow> CexpModule \<Rightarrow> CexpModule" where
  "fill_module w thename eh t names s m =
     (let ld = ls_ld s; segs = take (nat (snd (lo_segs w))) (ld_segs ld) in
      m\<lparr>m_segs := segs, m_memSize := sum_list (map sg_size segs), m_symtbl := t, m_section_syms := Some names,
        m_ini := callback s (ld_ini ld), m_fini := callback s (ld_fini ld), m_cleanup := lo_cleanup w,
        m_text_vma := ld_text_vma ld, m_fileName := Some thename, m_modPvt := eh, m_needs := ld_depend ld\<rparr>)"

text \<open>After the values of the symbols are known: checks, then the steps that cannot fail any more.\<close>

definition step_finish :: "load_env \<Rightarrow> sys_ptrs \<Rightarrow> string \<Rightarrow> CexpModule \<Rightarrow> load_state \<Rightarrow> (bool \<times> CexpModule \<times> load_state) res" where
  "step_finish w sys thename m s =
     (case ld_cst (ls_ld s) of
        None \<Rightarrow> UB
      | Some t \<Rightarrow>
          bind_res (section_syms (lo_env w) (m_addr m) t (ld_names (ls_ld s))) (\<lambda>names.
          bind_res (sane w t) (\<lambda>ok.
            if \<not> ok then Ok (False, m, s)
            else
              bind_res (register_eh w sys s) (\<lambda>(ok, eh, s).
                if \<not> ok then Ok (False, m, s)
                else
                  let ld = ls_ld s in
                  bind_res
                    (if le_mods (lo_env w) = [] then bind_res (bfdstuff_complete_init (le_sc (lo_env w)) t) (\<lambda>_. Ok m)
                     else if ld_nCtors ld \<noteq> 0 \<or> ld_nDtors ld \<noteq> 0 then buildCtorsDtors (lo_env w) (ls_b s) ld m
                     else Ok m)
                    (\<lambda>m. Ok (True, fill_module w thename eh t names s m, s))))))"

text \<open>The steps for a file that is open.\<close>

definition load_opened :: "load_env \<Rightarrow> sys_ptrs \<Rightarrow> string \<Rightarrow> CexpModule \<Rightarrow> load_state \<Rightarrow> (bool \<times> CexpModule \<times> load_state) res" where
  "load_opened w sys thename m s =
     (if \<not> loadable (ls_b s) then Ok (False, m, s)
      else
        bind_res (and_then (and_then (and_then (step_sections w s) (step_syms w)) (step_place w sys (m_addr m))) (step_values w))
          (\<lambda>(ok, s). if \<not> ok then Ok (False, m, s) else step_finish w sys thename m s))"

text \<open>
  The result is 0 for success and 1 otherwise, with the module. When the load fails the segments are released.
  \<open>sys\<close> are the pointers looked up in the system module, which is the first. The descriptor is closed if it
  has been opened.
\<close>

definition sys_of :: "bool \<Rightarrow> CexpModule list \<Rightarrow> sys_ptrs res" where
  "sys_of sc ms =
     (case ms of
        [] \<Rightarrow> Ok \<lparr>sp_register = 0, sp_deregister = 0, sp_cxa = 0, sp_dso = None\<rparr>
      | m # _ \<Rightarrow> bfdstuff_complete_init sc (m_symtbl m))"

definition load_failed :: "CexpModule \<Rightarrow> load_state \<Rightarrow> (int \<times> CexpModule \<times> load_state) res" where
  "load_failed m s =
     bind_res (cexpSegsDelete (Some (ld_segs (ls_ld s))) (ls_held s)) (\<lambda>held.
       Ok (1, m\<lparr>m_needs := ld_depend (ls_ld s)\<rparr>, s\<lparr>ls_held := held\<rparr>))"

definition cexpLoadFile ::
    "load_env \<Rightarrow> bfd \<Rightarrow> 64 mem \<Rightarrow> blocks \<Rightarrow> string option \<Rightarrow> CexpModule \<Rightarrow> CexpModule list \<Rightarrow>
       (int \<times> CexpModule \<times> load_state) res" where
  "cexpLoadFile w0 b0 mem held filename m ms =
     (let w = w0\<lparr>lo_env := (lo_env w0)\<lparr>le_mods := ms\<rparr>\<rparr>;
          start = (\<lambda>segs. \<lparr>ls_b = b0, ls_ld = ld_zero segs (m_needs m) mem, ls_held = held, ls_calls = []\<rparr>)
      in case fst (lo_segs w) of
           None \<Rightarrow> Ok (1, m, start [])
         | Some segs \<Rightarrow>
             let s = start segs in
             if snd (lo_segs w) < 1 then load_failed m s
             else case filename of
               None \<Rightarrow> load_failed m s
             | Some f \<Rightarrow>
                 let s = s\<lparr>ls_b := bfd_init b0\<rparr> in
                 bind_res (sys_of (le_sc (lo_env w)) ms) (\<lambda>sys.
                   case lo_file w f of
                     None \<Rightarrow> load_failed m s
                   | Some (fo, thename) \<Rightarrow>
                       bind_res (bfd_openstreamr (le_lsb (lo_env w)) (lo_ok_open w) False False fo (ls_b s)) (\<lambda>(ok, b).
                         let s = s\<lparr>ls_b := b\<rparr> in
                         if \<not> ok then load_failed m s
                         else
                           bind_res (load_opened w sys thename m s) (\<lambda>(ok, m, s).
                             let s = s\<lparr>ls_b := snd (bfd_close_all_done (ls_b s))\<rparr> in
                             if ok then Ok (0, m, s) else load_failed m s))))"

end
