(* ===== verification/LoadFacts.thy ===== *)
theory LoadFacts imports Loader begin

text \<open>
  What the loader guarantees (theories \<open>LoadSects\<close>, \<open>LoadSyms\<close>, \<open>Loader\<close>): it keeps to the interface the
  modules rely on.
\<close>

section \<open>Dependencies\<close>

text \<open>The bits that are set are those of modules that are loaded.\<close>

definition dep_ok :: "CexpModule list \<Rightarrow> bitmap \<Rightarrow> bool" where
  "dep_ok ms d \<longleftrightarrow> bm_ok d \<and> (\<forall>k < MAX_NUM_MODULES. BITMAP_TST d k \<longrightarrow> k \<in> m_id ` set ms)"

lemma dep_ok_set:
  "dep_ok ms d \<Longrightarrow> m \<in> set ms \<Longrightarrow> m_id m < MAX_NUM_MODULES \<Longrightarrow> dep_ok ms (BITMAP_SET d (m_id m))"
  by (auto simp: dep_ok_def MAX_NUM_MODULES_def SET_ok TST_SET)

lemma find_mem: "List.find P xs = Some x \<Longrightarrow> x \<in> set xs"
  by (induction xs) (auto split: if_splits)

lemma lookup_idx_mem: "lookup_idx env nm = Ok (Some (i, m)) \<Longrightarrow> m \<in> set (le_mods env)"
  by (auto simp: lookup_idx_def bind_res_Ok_iff dest: find_mem split: option.split_asm)

lemma lookup_mods_mem: "lookup_mods env nm = Ok (Some (ts, m)) \<Longrightarrow> m \<in> set (le_mods env)"
  by (auto simp: lookup_mods_def bind_res_Ok_iff dest: lookup_idx_mem)

lemma asymFromCexpSym_dep:
  assumes "asymFromCexpSym env ts m (b, ld) = Ok (r, b', ld')" and "dep_ok ms (ld_depend ld)" and "m \<in> set ms"
  shows "dep_ok ms (ld_depend ld')"
  using assms by (auto simp: asymFromCexpSym_def bind_res_Ok_iff not_le dep_ok_set split: if_splits)

lemma resolve_global_dep:
  assumes "resolve_global env i r found (b, ld, e) = Ok (b', ld', e')" and "dep_ok ms (ld_depend ld)"
    and "\<And>ts m. found = Some (ts, m) \<Longrightarrow> m \<in> set ms"
  shows "dep_ok ms (ld_depend ld')"
  using assms
  by (auto simp: resolve_global_def Let_def bind_res_Ok_iff add_new_common_def set_slot_def
      split: if_splits option.splits prod.splits dest: asymFromCexpSym_dep)

lemma note_callbacks_dep: "note_callbacks i r (b, ld, e) = Ok (b', ld', e') \<Longrightarrow> ld_depend ld' = ld_depend ld"
  by (auto simp: note_callbacks_def bind_res_Ok_iff split: if_splits)

lemma resolve_one_dep:
  assumes run: "resolve_one env i (b, ld, e) = Ok (b', ld', e')" and d: "dep_ok (le_mods env) (ld_depend ld)"
  shows "dep_ok (le_mods env) (ld_depend ld')"
proof -
  let ?r = "ld_st ld ! i"
  obtain k tail where k: "isCtorDtor env (get_sym b ?r) = Ok (k, tail)"
    using run by (auto simp: resolve_one_def Let_def bind_res_Ok_iff)
  define ld1 where "ld1 = (if k > 0 then ld\<lparr>ld_nCtors := ld_nCtors ld + 1\<rparr>
    else if k < 0 then ld\<lparr>ld_nDtors := ld_nDtors ld + 1\<rparr> else ld)"
  obtain b2 ld2 e2 where n: "note_callbacks i ?r (b, ld1, e) = Ok (b2, ld2, e2)"
    using run k by (auto simp: resolve_one_def Let_def bind_res_Ok_iff ld1_def)
  have d2: "dep_ok (le_mods env) (ld_depend ld2)"
    using d note_callbacks_dep [OF n] by (simp add: ld1_def)
  have "ld_depend ld' = ld_depend ld2 \<or>
      (\<exists>nm found. lookup_mods env nm = Ok found \<and> resolve_global env i ?r found (b2, ld2, e2) = Ok (b', ld', e'))"
    using run k n by (auto simp: resolve_one_def Let_def bind_res_Ok_iff ld1_def split: if_splits option.splits)
  then show ?thesis using d2 resolve_global_dep [OF _ d2] lookup_mods_mem by metis
qed

lemma resolve_loop_dep:
  "resolve_loop env is (b, ld, e) = Ok (b', ld', e') \<Longrightarrow> dep_ok (le_mods env) (ld_depend ld) \<Longrightarrow>
    dep_ok (le_mods env) (ld_depend ld')"
proof (induction "is" arbitrary: b ld e)
  case (Cons i "is")
  then obtain b1 ld1 e1 where "resolve_one env i (b, ld, e) = Ok (b1, ld1, e1)"
    "resolve_loop env is (b1, ld1, e1) = Ok (b', ld', e')" by (auto simp: bind_res_Ok_iff)
  then show ?case using Cons resolve_one_dep by blast
qed simp

lemma place_commons_dep: "place_commons env c is v (b, ld) = Ok (v', b', ld') \<Longrightarrow> ld_depend ld' = ld_depend ld"
proof (induction "is" arbitrary: v b ld)
  case (Cons i "is")
  then show ?case by (auto simp: Let_def bind_res_Ok_iff set_slot_def)
qed simp

lemma make_new_commons_dep: "make_new_commons env mok (b, ld) = Ok (rc, b', ld') \<Longrightarrow> ld_depend ld' = ld_depend ld"
  by (auto simp: make_new_commons_def Let_def bind_res_Ok_iff split: if_splits option.splits prod.splits
      dest: place_commons_dep)

lemma resolve_syms_dep:
  assumes "resolve_syms env (b, ld) = Ok (n, b', ld')" and "dep_ok (le_mods env) (ld_depend ld)"
  shows "dep_ok (le_mods env) (ld_depend ld')"
  using assms by (auto simp: resolve_syms_def bind_res_Ok_iff dest: resolve_loop_dep)

lemma symtab_made_dep: "symtab_made env mok n (b, ld) = Ok (rc, b', ld') \<Longrightarrow> ld_depend ld' = ld_depend ld"
  by (auto simp: symtab_made_def Let_def bind_res_Ok_iff split: if_splits dest!: make_new_commons_dep)

lemma slurp_symtab_dep:
  assumes "slurp_symtab env mok (b, ld) = Ok (rc, b', ld')" and d: "dep_ok (le_mods env) (ld_depend ld)"
  shows "dep_ok (le_mods env) (ld_depend ld')"
proof -
  have "ld' = ld \<or> (\<exists>st b1 n b2 ld2. resolve_syms env (b1, ld\<lparr>ld_st := st\<rparr>) = Ok (n, b2, ld2) \<and>
      symtab_made env mok n (b2, ld2) = Ok (rc, b', ld'))"
    using assms(1) unfolding slurp_symtab_def prod.case by (auto simp: bind_res_Ok_iff split: if_splits)
  then show ?thesis using d resolve_syms_dep symtab_made_dep by fastforce
qed

section \<open>The passes over the sections\<close>

lemma map_over_keep:
  assumes "bfd_map_over_sections f (b, x) = Ok (b', x')" and "Q x"
    and "\<And>r b x b' x'. f r (b, x) = Ok (b', x') \<Longrightarrow> Q x \<Longrightarrow> Q x'"
  shows "Q x'"
  using map_over_shown [where P = "\<lambda>i (b, x). Q x" and f = f and i = 0 and x = x] assms
  unfolding bfd_map_over_sections_def by fastforce

lemma s_nsects_dep: "s_nsects r (b, ld) = Ok (b', ld') \<Longrightarrow> ld_depend ld' = ld_depend ld"
  by (auto simp: s_nsects_def Let_def split: if_splits)

lemma s_basic_dep: "s_basic r (b, ld) = Ok (b', ld') \<Longrightarrow> ld_depend ld' = ld_depend ld"
  by (auto simp: s_basic_def Let_def bind_res_Ok_iff split: if_splits)

lemma s_eliminate_dep: "s_eliminate_linkonce env r (b, ld) = Ok (b', ld') \<Longrightarrow> ld_depend ld' = ld_depend ld"
  by (simp only: s_eliminate_linkonce_def Let_def prod.case bind_res_Ok_iff) (auto split: if_splits)

lemma s_count_dep: "s_count env r (b, ld) = Ok (b', ld') \<Longrightarrow> ld_depend ld' = ld_depend ld"
  by (auto simp: s_count_def Let_def bind_res_Ok_iff upd_seg_def simp del: named_any.simps split: if_splits)

lemma s_setvma_dep: "s_setvma env r (b, ld) = Ok (b', ld') \<Longrightarrow> ld_depend ld' = ld_depend ld"
  by (auto simp: s_setvma_def Let_def upd_seg_def split: if_splits)

lemma place_sections_dep:
  assumes "place_sections env addrs (b, ld) held = Ok (ok, (b', ld'), held')"
  shows "ld_depend ld' = ld_depend ld"
proof -
  let ?Q = "\<lambda>l. ld_depend l = ld_depend ld"
  obtain b1 ld1 where 1: "bfd_map_over_sections (s_count env) (b, ld\<lparr>ld_errors := 0\<rparr>) = Ok (b1, ld1)"
    using assms by (auto simp: place_sections_def bind_res_Ok_iff)
  have "?Q ld1" by (rule map_over_keep [OF 1]) (use s_count_dep in \<open>simp, metis\<close>)
  moreover have "ld' = ld1 \<or> (\<exists>segs. ld' = ld1\<lparr>ld_segs := segs\<rparr>) \<or>
      (\<exists>segs mem. bfd_map_over_sections (s_setvma env) (b1, ld1\<lparr>ld_segs := segs, ld_mem := mem, ld_errors := 0\<rparr>) = Ok (b', ld'))"
    using assms 1 by (auto simp: place_sections_def bind_res_Ok_iff Let_def split: if_splits)
  moreover have "?Q ld'" if 2: "bfd_map_over_sections (s_setvma env) (b1, ld1\<lparr>ld_segs := segs, ld_mem := mem, ld_errors := 0\<rparr>) = Ok (b', ld')"
    and "?Q ld1" for segs mem
    by (rule map_over_keep [OF 2]) (use that(2) s_setvma_dep in \<open>simp, metis\<close>)
  ultimately show ?thesis by auto
qed

section \<open>Relocation\<close>

lemma reloc_symbol_dep:
  assumes run: "reloc_symbol env sys a slot (b, ld) = Ok (ok, b', ld')" and d: "dep_ok (le_mods env) (ld_depend ld)"
  shows "dep_ok (le_mods env) (ld_depend ld')"
proof (cases "bfd_get_section b (get_sym b (ld_st ld ! slot)) = Some Und")
  case True
  then obtain nm found where f: "c_str (as_name (get_sym b (ld_st ld ! slot))) = Ok nm" "lookup_idx env nm = Ok found"
    using run by (auto simp: reloc_symbol_def Let_def bind_res_Ok_iff)
  show ?thesis
  proof (cases found)
    case None
    then show ?thesis using run d True f by (simp add: reloc_symbol_def Let_def)
  next
    case (Some p)
    obtain i m where p: "p = (i, m)" by (cases p)
    show ?thesis
    proof (cases "m_addr m = m_addr (hd (le_mods env)) \<and> sp_dso sys = Some i")
      case True
      then show ?thesis using run d f Some p \<open>bfd_get_section b (get_sym b (ld_st ld ! slot)) = Some Und\<close>
        by (auto simp: reloc_symbol_def Let_def bind_res_Ok_iff set_slot_def split: if_split_asm)
    next
      case False
      then obtain r ld1 where "asymFromCexpSym env (mod_sym m i) m (b, ld) = Ok (r, b', ld1)" "ld_depend ld' = ld_depend ld1"
        using run f Some p \<open>bfd_get_section b (get_sym b (ld_st ld ! slot)) = Some Und\<close>
        unfolding reloc_symbol_def Let_def by (auto simp: bind_res_Ok_iff set_slot_def)
      then show ?thesis using asymFromCexpSym_dep d lookup_idx_mem f(2) Some p by metis
    qed
  qed
qed (use run d in \<open>simp add: reloc_symbol_def\<close>)

lemma do_reloc_dep: "do_reloc env s slot r (b, ld) = Ok (b', ld') \<Longrightarrow> ld_depend ld' = ld_depend ld"
  by (auto simp: do_reloc_def Let_def count_error_def split: if_splits prod.splits)

lemma count_error_dep [simp]: "ld_depend (snd (count_error bl)) = ld_depend (snd bl)"
  by (cases bl) (simp add: count_error_def)

lemma reloc_entry_dep:
  assumes "reloc_entry env sys a s r bl = Ok bl'" and "dep_ok (le_mods env) (ld_depend (snd bl))"
  shows "dep_ok (le_mods env) (ld_depend (snd bl'))"
proof -
  obtain b ld b' ld' where bl: "bl = (b, ld)" "bl' = (b', ld')" by (metis prod.collapse)
  let ?slot = "nat (pmbfd_reloc_get_sym_idx (le_lsb env) b r)"
  have "ld_depend ld' = ld_depend ld \<or>
      (\<exists>ok b1 ld1. reloc_symbol env sys a ?slot (b, ld) = Ok (ok, b1, ld1) \<and> (ld_depend ld' = ld_depend ld1 \<or>
         do_reloc env s ?slot r (b1, ld1) = Ok (b', ld')))"
    using assms(1) unfolding bl
    by (auto simp: reloc_entry_def Let_def bind_res_Ok_iff count_error_def split: if_split_asm)
  then show ?thesis using assms(2) reloc_symbol_dep do_reloc_dep unfolding bl snd_conv by metis
qed

lemma reloc_loop_dep:
  "reloc_loop env sys a s tab ks bl = Ok bl' \<Longrightarrow> dep_ok (le_mods env) (ld_depend (snd bl)) \<Longrightarrow>
    dep_ok (le_mods env) (ld_depend (snd bl'))"
  by (induction ks arbitrary: bl) (auto simp: bind_res_Ok_iff dest: reloc_entry_dep)

lemma reloc_section_dep:
  assumes "reloc_section env sys a r (b, ld) = Ok bl'" and "dep_ok (le_mods env) (ld_depend ld)"
  shows "dep_ok (le_mods env) (ld_depend (snd bl'))"
proof -
  obtain sz where sz: "bfd_get_reloc_upper_bound b r = Ok sz"
    using assms(1) by (auto simp: reloc_section_def bind_res_Ok_iff)
  show ?thesis
  proof (cases "sz \<le> 0")
    case False
    then obtain n tab b1 where c: "pmbfd_canonicalize_reloc b r = Ok (n, tab, b1)"
      "(if n \<le> 0 then Ok (count_error (b1, ld))
        else reloc_loop env sys a (get_sec b1 r) tab [0..<nat n] (b1, ld)) = Ok bl'"
      using assms(1) sz by (auto simp: reloc_section_def bind_res_Ok_iff)
    then show ?thesis using assms(2) reloc_loop_dep [of env sys a "get_sec b1 r" tab "[0..<nat n]" "(b1, ld)" bl']
      by (auto simp: count_error_def split: if_split_asm)
  qed (use assms sz in \<open>auto simp: reloc_section_def count_error_def\<close>)
qed

lemma s_reloc_dep:
  assumes run: "s_reloc env sys a r (b, ld) = Ok (b', ld')" and d: "dep_ok (le_mods env) (ld_depend ld)"
  shows "dep_ok (le_mods env) (ld_depend ld')"
proof (cases "is_alloc (get_sec b r) \<and> sc_vma (get_sec b r) \<noteq> -1")
  case True
  then obtain bs b1 where c: "bfd_get_section_contents b r 0 (sc_size (get_sec b r)) = Ok (bs, b1)"
    using run by (auto simp: s_reloc_def Let_def bind_res_Ok_iff check_get_section_vma_def)
  show ?thesis
  proof (cases bs)
    case None
    then show ?thesis using run d True c
      by (auto simp: s_reloc_def Let_def check_get_section_vma_def count_error_def)
  next
    case (Some x)
    define ld1 where "ld1 = ld\<lparr>ld_mem := write_mem (sc_vma (get_sec b r)) x (ld_mem ld)\<rparr>"
    have "(if sc_flags (get_sec b r) AND SEC_RELOC \<noteq> 0 then reloc_section env sys a r (b1, ld1) else Ok (b1, ld1)) = Ok (b', ld')"
      using run True c Some by (auto simp: s_reloc_def Let_def check_get_section_vma_def ld1_def split: if_splits)
    moreover have "dep_ok (le_mods env) (ld_depend ld1)" using d by (simp add: ld1_def)
    ultimately show ?thesis using reloc_section_dep [of env sys a r b1 ld1 "(b', ld')"] by (auto split: if_split_asm)
  qed
next
  case False
  then show ?thesis using run d
    by (auto simp: s_reloc_def Let_def check_get_section_vma_def count_error_def split: if_split_asm)
qed

section \<open>The whole load\<close>

definition st_dep :: "load_env \<Rightarrow> load_state \<Rightarrow> bool" where
  "st_dep w s \<longleftrightarrow> dep_ok (le_mods (lo_env w)) (ld_depend (ls_ld s))"

lemma and_then_inv:
  assumes "and_then r f = Ok (ok, s)" and "\<And>ok s. r = Ok (ok, s) \<Longrightarrow> P s" and "\<And>s ok s'. P s \<Longrightarrow> f s = Ok (ok, s') \<Longrightarrow> P s'"
  shows "P s"
proof -
  obtain ok1 s1 where r: "r = Ok (ok1, s1)" "(if ok1 then f s1 else Ok (False, s1)) = Ok (ok, s)"
    using assms(1) by (auto simp: and_then_def bind_res_Ok_iff)
  then show ?thesis using assms(2) [OF r(1)] assms(3) [of s1 ok s] by (cases ok1) auto
qed

lemma step_sections_dep:
  assumes "step_sections w s = Ok (ok, s')" and "st_dep w s"
  shows "st_dep w s'"
proof -
  let ?Q = "\<lambda>ld. ld_depend ld = ld_depend (ls_ld s)"
  obtain b1 ld1 where 1: "bfd_map_over_sections s_nsects (ls_b s, ls_ld s) = Ok (b1, ld1)"
    using assms(1) by (auto simp: step_sections_def bind_res_Ok_iff)
  have q1: "?Q ld1" by (rule map_over_keep [OF 1]) (use s_nsects_dep in \<open>simp, metis\<close>)
  have "s' = put s (b1, ld1) \<or> (\<exists>b2 ld2 b3 ld3. bfd_map_over_sections s_basic
             (b1, ld1\<lparr>ld_room := ld_num_names ld1 + 1, ld_num_names := 0\<rparr>) = Ok (b2, ld2) \<and>
       bfd_map_over_sections (s_eliminate_linkonce (lo_env w)) (b2, ld2) = Ok (b3, ld3) \<and> s' = put s (b3, ld3))"
    using assms(1) 1 by (auto simp: step_sections_def bind_res_Ok_iff split: if_split_asm)
  moreover have "?Q ld3" if 2: "bfd_map_over_sections s_basic
             (b1, ld1\<lparr>ld_room := ld_num_names ld1 + 1, ld_num_names := 0\<rparr>) = Ok (b2, ld2)"
    and 3: "bfd_map_over_sections (s_eliminate_linkonce (lo_env w)) (b2, ld2) = Ok (b3, ld3)" for b2 ld2 b3 ld3
  proof -
    have "?Q ld2" by (rule map_over_keep [OF 2]) (use q1 s_basic_dep in \<open>simp, metis\<close>)
    then show ?thesis by (rule map_over_keep [OF 3]) (use s_eliminate_dep in metis)
  qed
  ultimately show ?thesis using assms(2) q1 by (auto simp: st_dep_def put_def)
qed

lemma step_syms_dep: "step_syms w s = Ok (ok, s') \<Longrightarrow> st_dep w s \<Longrightarrow> st_dep w s'"
  by (auto simp: step_syms_def bind_res_Ok_iff st_dep_def put_def dest: slurp_symtab_dep)

lemma step_place_dep:
  assumes "step_place w sys a s = Ok (ok, s')" and "st_dep w s"
  shows "st_dep w s'"
proof -
  let ?env = "lo_env w" and ?ld = "ls_ld s"
  have "ld_depend (ls_ld s') = ld_depend ?ld \<or>
      (\<exists>ok b1 ld1 held. place_sections ?env (lo_addrs w) (ls_b s, ?ld) (ls_held s) = Ok (ok, (b1, ld1), held) \<and>
        (ls_ld s' = ld1 \<or> (\<exists>b2. bfd_map_over_sections (s_reloc ?env sys a) (b1, ld1\<lparr>ld_errors := 0\<rparr>) = Ok (b2, ls_ld s'))))"
    using assms(1) by (auto simp: step_place_def Let_def bind_res_Ok_iff put_def split: if_split_asm option.split_asm)
  moreover have "dep_ok (le_mods ?env) (ld_depend ld2)"
    if "bfd_map_over_sections (s_reloc ?env sys a) (b1, ld1\<lparr>ld_errors := 0\<rparr>) = Ok (b2, ld2)"
      "ld_depend ld1 = ld_depend ?ld" for b1 ld1 b2 ld2
    by (rule map_over_keep [OF that(1)]) (use that(2) assms(2) s_reloc_dep in \<open>auto simp: st_dep_def\<close>)
  ultimately show ?thesis using assms(2) place_sections_dep unfolding st_dep_def by metis
qed

lemma step_values_dep: "step_values w s = Ok (ok, s') \<Longrightarrow> st_dep w s \<Longrightarrow> st_dep w s'"
  by (auto simp: step_values_def bind_res_Ok_iff st_dep_def)

lemma buildCtorsDtors_keeps:
  assumes "buildCtorsDtors env b ld m = Ok m'"
  shows "m_addr m' = m_addr m \<and> m_name m' = m_name m \<and> m_id m' = m_id m \<and> m_neededby m' = m_neededby m"
proof -
  obtain cs ds where "collect env b (ld_st ld) = Ok (cs, ds)"
    using assms unfolding buildCtorsDtors_def bind_res_Ok_iff by auto
  then have "\<exists>x y. m' = m\<lparr>m_ctors := x, m_dtors := y\<rparr>"
    using assms unfolding buildCtorsDtors_def Let_def
    by (simp only: bind_res.simps prod.case res.inject res.distinct split: if_split_asm) (metis)+
  then show ?thesis by auto
qed

lemma register_eh_dep: "register_eh w sys s = Ok (ok, eh, s') \<Longrightarrow> ld_depend (ls_ld s') = ld_depend (ls_ld s)"
  by (auto simp: register_eh_def Let_def check_get_section_vma_def split: option.split_asm if_split_asm)

text \<open>A load that ends well keeps what identifies the module, and it needs only modules that are loaded.\<close>

definition good_module :: "CexpModule list \<Rightarrow> CexpModule \<Rightarrow> CexpModule \<Rightarrow> bool" where
  "good_module ms m m' \<longleftrightarrow> m_addr m' = m_addr m \<and> m_name m' = m_name m \<and> m_id m' = m_id m \<and>
     m_neededby m' = m_neededby m \<and> dep_ok ms (m_needs m')"

lemma step_finish_good:
  assumes run: "step_finish w sys nm m s = Ok (True, m', s')" and d: "st_dep w s"
  shows "good_module (le_mods (lo_env w)) m m'"
proof -
  obtain t where t: "ld_cst (ls_ld s) = Some t" using run by (auto simp: step_finish_def split: option.split_asm)
  obtain names ok where n: "section_syms (lo_env w) (m_addr m) t (ld_names (ls_ld s)) = Ok names" "sane w t = Ok ok"
    using run t by (auto simp: step_finish_def bind_res_Ok_iff)
  have ok using run t n by (auto simp: step_finish_def split: if_split_asm)
  then obtain ok2 eh s2 where r: "register_eh w sys s = Ok (ok2, eh, s2)"
    using run t n by (auto simp: step_finish_def bind_res_Ok_iff)
  have ok2 using run t n r \<open>ok\<close> by (auto simp: step_finish_def split: if_split_asm)
  then obtain m1 where m1: "(if le_mods (lo_env w) = [] then bind_res (bfdstuff_complete_init (le_sc (lo_env w)) t) (\<lambda>_. Ok m)
      else if ld_nCtors (ls_ld s2) \<noteq> 0 \<or> ld_nDtors (ls_ld s2) \<noteq> 0
      then buildCtorsDtors (lo_env w) (ls_b s2) (ls_ld s2) m else Ok m) = Ok m1"
    "m' = fill_module w nm eh t names s2 m1"
    using run t n r \<open>ok\<close> by (auto simp: step_finish_def Let_def bind_res_Ok_iff)
  have "m_addr m1 = m_addr m \<and> m_name m1 = m_name m \<and> m_id m1 = m_id m \<and> m_neededby m1 = m_neededby m"
    using m1(1) buildCtorsDtors_keeps by (auto simp: bind_res_Ok_iff split: if_split_asm)
  then show ?thesis using d register_eh_dep [OF r]
    by (simp add: m1(2) good_module_def fill_module_def Let_def st_dep_def)
qed

lemma load_opened_good:
  assumes run: "load_opened w sys nm m s = Ok (True, m', s')" and d: "st_dep w s"
  shows "good_module (le_mods (lo_env w)) m m'"
proof -
  obtain s1 where 1: "and_then (and_then (and_then (step_sections w s) (step_syms w)) (step_place w sys (m_addr m)))
      (step_values w) = Ok (True, s1)" and 2: "step_finish w sys nm m s1 = Ok (True, m', s')"
    using run by (auto simp: load_opened_def bind_res_Ok_iff split: if_split_asm)
  have a: "st_dep w s'" if "step_sections w s = Ok (ok, s')" for ok s'
    using step_sections_dep [OF that d] .
  have b: "st_dep w s'" if "and_then (step_sections w s) (step_syms w) = Ok (ok, s')" for ok s'
    by (rule and_then_inv [where P = "st_dep w", OF that a step_syms_dep])
  have c: "st_dep w s'" if "and_then (and_then (step_sections w s) (step_syms w)) (step_place w sys (m_addr m)) = Ok (ok, s')" for ok s'
    by (rule and_then_inv [where P = "st_dep w", OF that b step_place_dep])
  have "st_dep w s1" by (rule and_then_inv [where P = "st_dep w", OF 1 c step_values_dep])
  then show ?thesis using step_finish_good [OF 2] by blast
qed

lemma cexpLoadFile_good:
  assumes run: "cexpLoadFile w b mem held f m ms = Ok (0, m', s')" and d: "dep_ok ms (m_needs m)"
  shows "good_module ms m m'"
proof -
  define w1 where "w1 = w\<lparr>lo_env := (lo_env w)\<lparr>le_mods := ms\<rparr>\<rparr>"
  have fail: "load_failed m s \<noteq> Ok (0, m', s')" for m s m' s' by (auto simp: load_failed_def bind_res_Ok_iff)
  obtain segs where segs: "fst (lo_segs w1) = Some segs"
    using run by (auto simp: cexpLoadFile_def Let_def w1_def [symmetric] split: option.split_asm)
  obtain fn where fn: "f = Some fn" "\<not> snd (lo_segs w1) < 1"
    using run segs fail by (auto simp: cexpLoadFile_def Let_def w1_def [symmetric] split: option.split_asm if_split_asm)
  define s0 where "s0 = \<lparr>ls_b = bfd_init b, ls_ld = ld_zero segs (m_needs m) mem, ls_held = held, ls_calls = []\<rparr>"
  obtain sys where sys: "sys_of (le_sc (lo_env w1)) ms = Ok sys"
    using run segs fn by (auto simp: cexpLoadFile_def Let_def w1_def [symmetric] bind_res_Ok_iff)
  obtain fo nm where fo: "lo_file w1 fn = Some (fo, nm)"
    using run segs fn sys fail
    by (auto simp: cexpLoadFile_def Let_def w1_def [symmetric] split: option.split_asm)
  obtain ok b1 where o: "bfd_openstreamr (le_lsb (lo_env w1)) (lo_ok_open w1) False False fo (bfd_init b) = Ok (ok, b1)"
    using run segs fn sys fo
    by (auto simp: cexpLoadFile_def Let_def w1_def [symmetric] bind_res_Ok_iff)
  obtain s2 where "load_opened w1 sys nm m (s0\<lparr>ls_b := b1\<rparr>) = Ok (True, m', s2)"
    using run segs fn sys fo o fail
    by (auto simp: cexpLoadFile_def Let_def w1_def [symmetric] s0_def bind_res_Ok_iff split: if_split_asm)
  moreover have "st_dep w1 (s0\<lparr>ls_b := b1\<rparr>)" using d by (simp add: st_dep_def s0_def ld_zero_def w1_def)
  ultimately show ?thesis using load_opened_good [of w1 sys nm m "s0\<lparr>ls_b := b1\<rparr>" m' s2] by (simp add: w1_def)
qed

text \<open>The loader as the modules see it: whatever the file, the memory and the state of the library are.\<close>

definition loadFile :: "load_env \<Rightarrow> bfd \<Rightarrow> 64 mem \<Rightarrow> blocks \<Rightarrow> string option \<Rightarrow> CexpModule \<Rightarrow> CexpModule list \<Rightarrow> (int \<times> CexpModule) res" where
  "loadFile w b mem held f m ms = bind_res (cexpLoadFile w b mem held f m ms) (\<lambda>(rc, m, s). Ok (rc, m))"

interpretation bfd_loader: object_loader "loadFile w b mem held f" for w b mem held f
proof
  fix n ms m
  assume r: "loadFile w b mem held f n ms = Ok (0, m)" "m_needs n = no_bits" "m_neededby n = no_bits"
  have "dep_ok ms (m_needs n)" using r(2) by (simp add: dep_ok_def TST_no_bits MAX_NUM_MODULES_def)
  then have g: "good_module ms n m" using r(1) cexpLoadFile_good by (auto simp: loadFile_def bind_res_Ok_iff)
  show "m_addr m = m_addr n \<and> m_name m = m_name n \<and> m_id m = m_id n \<and> m_neededby m = no_bits"
    using g r(3) by (simp add: good_module_def)
  show "bm_ok (m_needs m) \<and> needs_of m \<subseteq> m_id ` set ms"
    using g by (auto simp: good_module_def dep_ok_def needs_of_def)
qed

end
