(* ===== verification/LoadMem.thy ===== *)
theory LoadMem imports LoadFacts begin

text \<open>
  The memory a load changes: the bytes of the sections, and with the placement of the sections only the
  blocks that have been allocated for the module.
\<close>

section \<open>The state of the library during relocation\<close>

text \<open>Only the symbols made one by one and the position in the file change.\<close>

definition same_file :: "bytes \<Rightarrow> bfd \<Rightarrow> bfd \<Rightarrow> bool" where
  "same_file d b b' \<longleftrightarrow> b_sects b' = b_sects b \<and> b_nsects b' = b_nsects b \<and> b_shtab b' = b_shtab b \<and>
     b_und b' = b_und b \<and> b_abs b' = b_abs b \<and> b_com b' = b_com b \<and>
     (\<forall>s. b_s b = Some s \<longrightarrow> strm_ok s \<longrightarrow> strm_data s = d \<longrightarrow>
        (\<exists>s'. b_s b' = Some s' \<and> strm_ok s' \<and> strm_data s' = d))"

lemma same_file_refl [simp]: "same_file d b b"
  by (simp add: same_file_def)

lemma same_file_trans: "same_file d a b \<Longrightarrow> same_file d b c \<Longrightarrow> same_file d a c"
  unfolding same_file_def by (elim conjE, intro conjI) (simp, simp, simp, simp, simp, simp, blast)

lemma same_file_made [simp]: "same_file d b (b\<lparr>b_made := x\<rparr>)"
  by (simp add: same_file_def)

lemma same_file_strm: "b_s b = Some s \<Longrightarrow> only_read s s' \<Longrightarrow> same_file d b (b\<lparr>b_s := Some s'\<rparr>)"
  by (simp add: same_file_def only_read_def)

lemma same_file_get_sec: "same_file d b b' \<Longrightarrow> get_sec b' r = get_sec b r"
  by (cases r) (simp_all add: same_file_def)

lemma contents_same:
  assumes "bfd_get_section_contents b r off n = Ok (bs, b')"
  shows "same_file d b b'"
  using assms getscn_only_read
  by (auto simp: bfd_get_section_contents_def Let_def split: if_split_asm option.split_asm res.split_asm prod.split_asm)
    (metis same_file_strm snd_conv)+

lemma canonicalize_same:
  assumes "pmbfd_canonicalize_reloc b r = Ok (n, tab, b')"
  shows "same_file d b b'"
  using assms getscn_only_read
  by (auto simp: pmbfd_canonicalize_reloc_def Let_def split: if_split_asm option.split_asm res.split_asm prod.split_asm)
    (metis same_file_strm snd_conv)+

lemma new_symbol_made: "new_symbol env s b = Ok (r, b') \<Longrightarrow> \<exists>x. b' = b\<lparr>b_made := x\<rparr>"
  by (auto simp: new_symbol_def bfd_make_empty_symbol_def split: if_split_asm)

lemma asymFromCexpSym_made:
  "asymFromCexpSym env ts m (b, ld) = Ok (r, b', ld') \<Longrightarrow> (\<exists>x. b' = b\<lparr>b_made := x\<rparr>) \<and> (ld_mem ld' = ld_mem ld \<and> ld_segs ld' = ld_segs ld)"
  by (auto simp: asymFromCexpSym_def bind_res_Ok_iff split: if_split_asm dest: new_symbol_made)

lemma reloc_symbol_made:
  assumes run: "reloc_symbol env sys a slot (b, ld) = Ok (ok, b', ld')"
  shows "(\<exists>x. b' = b\<lparr>b_made := x\<rparr>) \<and> (ld_mem ld' = ld_mem ld \<and> ld_segs ld' = ld_segs ld)"
proof (cases "bfd_get_section b (get_sym b (ld_st ld ! slot)) = Some Und")
  case True
  then obtain nm found where f: "c_str (as_name (get_sym b (ld_st ld ! slot))) = Ok nm" "lookup_idx env nm = Ok found"
    using run by (auto simp: reloc_symbol_def Let_def bind_res_Ok_iff)
  have same: "\<exists>x. b = b\<lparr>b_made := x\<rparr>" by (rule exI [of _ "b_made b"]) simp
  show ?thesis
  proof (cases found)
    case None
    then show ?thesis using run True f same by (auto simp: reloc_symbol_def Let_def)
  next
    case (Some p)
    obtain i m where p: "p = (i, m)" by (cases p)
    then have "(if m_addr m = m_addr (hd (le_mods env)) \<and> sp_dso sys = Some i then
                (if sp_cxa sys = 0 then Ok (False, b, ld)
                 else
                   bind_res (new_symbol env (bfd_set_section (Some Abs)
                       (zero_asym\<lparr>as_name := map_option str_mem (sy_name (mod_sym m i)), as_val := a, as_flags := BSF_LOCAL\<rparr>)) b)
                     (\<lambda>(r, b). Ok (True, b, set_slot slot r ld)))
              else
                bind_res (asymFromCexpSym env (mod_sym m i) m (b, ld)) (\<lambda>(r, b, ld). Ok (True, b, set_slot slot r ld)))
         = Ok (ok, b', ld')"
      using run True f Some unfolding reloc_symbol_def Let_def by simp
    then show ?thesis using same
      by (auto simp: bind_res_Ok_iff set_slot_def split: if_split_asm dest: new_symbol_made asymFromCexpSym_made)
  qed
next
  case False
  have "\<exists>x. b = b\<lparr>b_made := x\<rparr>" by (rule exI [of _ "b_made b"]) simp
  then show ?thesis using run False by (auto simp: reloc_symbol_def)
qed

lemma do_reloc_mem:
  assumes "do_reloc env s slot r (b, ld) = Ok (b', ld')"
  shows "b' = b \<and> (\<exists>sy. ld_mem ld' = snd (x86_64_reloc (le_lsb env) \<lparr>ts_vma = sc_vma s, ts_size = sc_size s\<rparr> sy
    (image_rela64 (le_lsb env) r) (ld_mem ld))) \<and> ld_segs ld' = ld_segs ld"
  using assms by (auto simp: do_reloc_def Let_def count_error_def split: if_split_asm prod.split_asm) (metis snd_conv)+

lemma engine_frame:
  assumes "x \<notin> area (ts_vma sec) (unat (ts_size sec))" and "unat (ra_offset64 r) + 8 < 2 ^ 64"
  shows "snd (x86_64_reloc lsb sec sy r m) x = m x"
proof -
  have "x \<notin> x86_64_field sec r"
    using x_not_in_field [OF assms(1), of "ra_offset64 r"] assms(2)
    by (auto simp: x86_64_field_def split: option.split dest!: x86_64_kind_size)
  then show ?thesis using x86_64.frame [of x sec "(sy, r)" lsb m] by simp
qed

lemma made_self: "\<exists>y. b = b\<lparr>b_made := y\<rparr>" for b :: bfd
  by (rule exI [of _ "b_made b"]) simp

lemma reloc_entry_steps:
  assumes run: "reloc_entry env sys a s r (b, ld) = Ok (b', ld')" and slot: "slot = nat (pmbfd_reloc_get_sym_idx (le_lsb env) b r)"
  shows "b' = b \<and> (ld_mem ld' = ld_mem ld \<and> ld_segs ld' = ld_segs ld) \<or>
      (\<exists>ok b1 ld1. reloc_symbol env sys a slot (b, ld) = Ok (ok, b1, ld1) \<and>
         (b' = b1 \<and> (ld_mem ld' = ld_mem ld1 \<and> ld_segs ld' = ld_segs ld1) \<or> do_reloc env s slot r (b1, ld1) = Ok (b', ld')))"
proof -
  consider "count_error (b, ld) = (b', ld')"
    | ok b1 ld1 skip where "reloc_symbol env sys a slot (b, ld) = Ok (ok, b1, ld1)"
        "(if \<not> ok then Ok (count_error (b1, ld1)) else if skip then Ok (b1, ld1) else do_reloc env s slot r (b1, ld1)) = Ok (b', ld')"
  proof -
    have "count_error (b, ld) = (b', ld') \<or> bind_res (reloc_symbol env sys a slot (b, ld)) (\<lambda>(ok, b1, ld1).
          if \<not> ok then Ok (count_error (b1, ld1))
          else
            let sect = bfd_get_section b (get_sym b (ld_st ld ! slot)) in
            bind_res (if sect = Some Und then Ok False else sym_dropped b1 sect) (\<lambda>skip.
              if skip then Ok (b1, ld1) else do_reloc env s slot r (b1, ld1))) = Ok (b', ld')"
      using run unfolding reloc_entry_def Let_def fst_conv snd_conv slot [symmetric]
      by (simp only: res.inject res.distinct split: if_split_asm) simp_all
    then show ?thesis
    proof
      assume "bind_res (reloc_symbol env sys a slot (b, ld)) (\<lambda>(ok, b1, ld1).
          if \<not> ok then Ok (count_error (b1, ld1))
          else
            let sect = bfd_get_section b (get_sym b (ld_st ld ! slot)) in
            bind_res (if sect = Some Und then Ok False else sym_dropped b1 sect) (\<lambda>skip.
              if skip then Ok (b1, ld1) else do_reloc env s slot r (b1, ld1))) = Ok (b', ld')"
      then obtain ok b1 ld1 where 1: "reloc_symbol env sys a slot (b, ld) = Ok (ok, b1, ld1)"
        "(if \<not> ok then Ok (count_error (b1, ld1))
          else
            let sect = bfd_get_section b (get_sym b (ld_st ld ! slot)) in
            bind_res (if sect = Some Und then Ok False else sym_dropped b1 sect) (\<lambda>skip.
              if skip then Ok (b1, ld1) else do_reloc env s slot r (b1, ld1))) = Ok (b', ld')"
        unfolding bind_res_Ok_iff by auto
      show ?thesis
      proof (cases ok)
        case True
        then obtain skip where "(if skip then Ok (b1, ld1) else do_reloc env s slot r (b1, ld1)) = Ok (b', ld')"
          using 1(2) unfolding Let_def by (simp only: not_True_eq_False if_False bind_res_Ok_iff) blast
        then show ?thesis using that(2) [OF 1(1), of skip] True by simp
      next
        case False
        then show ?thesis using that(2) [OF 1(1), of True] 1(2) by simp
      qed
    qed (rule that(1))
  qed
  then show ?thesis
    by cases (auto simp: count_error_def split: if_split_asm)
qed

lemma reloc_entry_mem:
  assumes run: "reloc_entry env sys a s r (b, ld) = Ok (b', ld')"
    and x: "x \<notin> area (sc_vma s) (unat (sc_size s))" and off: "unat (ra_offset64 (image_rela64 (le_lsb env) r)) + 8 < 2 ^ 64"
  shows "(\<exists>y. b' = b\<lparr>b_made := y\<rparr>) \<and> (ld_mem ld' x = ld_mem ld x \<and> ld_segs ld' = ld_segs ld)"
  using reloc_entry_steps [OF run refl]
proof (elim disjE exE conjE)
  fix ok b1 ld1
  let ?slot = "nat (pmbfd_reloc_get_sym_idx (le_lsb env) b r)"
  assume s: "reloc_symbol env sys a ?slot (b, ld) = Ok (ok, b1, ld1)" and d: "do_reloc env s ?slot r (b1, ld1) = Ok (b', ld')"
  obtain sy where sy: "b' = b1" "ld_mem ld' = snd (x86_64_reloc (le_lsb env) \<lparr>ts_vma = sc_vma s, ts_size = sc_size s\<rparr> sy
      (image_rela64 (le_lsb env) r) (ld_mem ld1))" "ld_segs ld' = ld_segs ld1" using do_reloc_mem [OF d] by blast
  show ?thesis using reloc_symbol_made [OF s] engine_frame [of x "\<lparr>ts_vma = sc_vma s, ts_size = sc_size s\<rparr>"] x off sy by simp
next
  fix ok b1 ld1
  assume "reloc_symbol env sys a (nat (pmbfd_reloc_get_sym_idx (le_lsb env) b r)) (b, ld) = Ok (ok, b1, ld1)"
    "b' = b1" "ld_mem ld' = ld_mem ld1" "ld_segs ld' = ld_segs ld1"
  then show ?thesis using reloc_symbol_made by metis
qed (metis made_self)

lemma reloc_loop_mem:
  assumes "reloc_loop env sys a s tab ks (b, ld) = Ok (b', ld')" and "x \<notin> area (sc_vma s) (unat (sc_size s))"
    and "\<And>k. k \<in> set ks \<Longrightarrow> unat (ra_offset64 (image_rela64 (le_lsb env) (pmbfd_reloc_next tab k))) + 8 < 2 ^ 64"
  shows "(\<exists>y. b' = b\<lparr>b_made := y\<rparr>) \<and> (ld_mem ld' x = ld_mem ld x \<and> ld_segs ld' = ld_segs ld)"
  using assms
proof (induction ks arbitrary: b ld)
  case Nil
  then have "b' = b" "ld' = ld" by simp_all
  then show ?case using made_self [of b] by blast
next
  case (Cons k ks)
  obtain b1 ld1 where 1: "reloc_entry env sys a s (pmbfd_reloc_next tab k) (b, ld) = Ok (b1, ld1)"
    "reloc_loop env sys a s tab ks (b1, ld1) = Ok (b', ld')" using Cons.prems(1) by (auto simp: bind_res_Ok_iff)
  have "(\<exists>y. b1 = b\<lparr>b_made := y\<rparr>) \<and> (ld_mem ld1 x = ld_mem ld x \<and> ld_segs ld1 = ld_segs ld)"
    by (rule reloc_entry_mem [OF 1(1) Cons.prems(2)]) (use Cons.prems(3) [of k] in simp)
  moreover have "(\<exists>y. b' = b1\<lparr>b_made := y\<rparr>) \<and> (ld_mem ld' x = ld_mem ld1 x \<and> ld_segs ld' = ld_segs ld1)"
    using Cons.IH [OF 1(2) Cons.prems(2)] Cons.prems(3) by simp
  ultimately show ?case by auto
qed

section \<open>The entries of the file\<close>

text \<open>No relocation entry of the file has an offset within eight bytes of the end of the address space.\<close>

definition rel_entry :: "bytes \<Rightarrow> Elf_Shdr \<Rightarrow> nat \<Rightarrow> bytes" where
  "rel_entry d h k = drop (k * unat (shdr_entsize h)) (slice_at (unat (shdr_offset h)) (unat (shdr_bytes h)) d)"

definition offsets_small :: "bool \<Rightarrow> bytes \<Rightarrow> Pmelf_Shtab \<Rightarrow> bool" where
  "offsets_small lsb d t \<longleftrightarrow> list_all (\<lambda>h. shdr_type h = SHT_REL \<or> shdr_type h = SHT_RELA \<longrightarrow>
     unat (shdr_bytes h) < 2 ^ 63 \<and>
     list_all (\<lambda>k. unat (ra_offset64 (image_rela64 lsb (rel_entry d h k))) + 8 < 2 ^ 64)
       [0..<unat (shdr_bytes h) div unat (shdr_entsize h)]) (sht_shdrs t)"

lemma SREAD_length: "fst (SREAD 1 n s) = Ok (k, bs) \<Longrightarrow> length bs \<le> unat n"
  by (auto simp: SREAD_def file_read_def mrd_def slice_at_def Let_def split: stream_obj.splits if_splits)

lemma extent_bytes: "shdr_extent c h = Ok (sz, off) \<Longrightarrow> sz = shdr_bytes h \<and> off = shdr_offset h"
  by (auto simp: shdr_extent_def shdr_bytes_def shdr_offset_def split: Elf_Shdr.splits if_split_asm)

lemma getscn_extent:
  assumes "fst (pmelf_getscn mok own s h off n) = Ok bs"
  shows "shdr_extent (st_clss s) h = Ok (shdr_bytes h, shdr_offset h)"
proof -
  obtain p where "shdr_extent (st_clss s) h = Ok p"
    using assms by (auto simp: pmelf_getscn_def fst_then_do split: res.split_asm)
  then show ?thesis using extent_bytes by (cases p) blast
qed

lemma getscn_length:
  assumes "fst (pmelf_getscn mok own s h off n) = Ok bs" and "n \<noteq> 0"
  shows "length bs \<le> unat n"
proof -
  have "\<exists>s' k. fst (SREAD 1 n s') = Ok (k, bs)"
    using assms getscn_extent [OF assms(1)]
    by (auto simp: pmelf_getscn_def then_do_Ok Let_def fst_then_do then_if0_def split: if_splits res.splits prod.splits)
  then show ?thesis using SREAD_length by blast
qed

section \<open>One section\<close>

lemma contents_length:
  assumes "bfd_get_section_contents b r 0 (sc_size (get_sec b r)) = Ok (Some bs, b')"
  shows "length bs \<le> unat (sc_size (get_sec b r))"
proof (cases "sc_size (get_sec b r) = 0 \<or> sc_flags (get_sec b r) AND SEC_HAS_CONTENTS = 0")
  case False
  then obtain i st t where c: "sc_shdr (get_sec b r) = Some i" "b_s b = Some st" "b_shtab b = Some t"
    and "\<exists>s'. pmelf_getscn True True st (sht_shdrs t ! i) 0 (sc_size (get_sec b r)) = (Ok bs, s')"
    using assms by (auto simp: bfd_get_section_contents_def Let_def
        split: if_split_asm option.split_asm res.split_asm prod.split_asm)
  then have "fst (pmelf_getscn True True st (sht_shdrs t ! i) 0 (sc_size (get_sec b r))) = Ok bs" by auto
  from getscn_length [OF this] False show ?thesis by simp
qed (use assms in \<open>auto simp: bfd_get_section_contents_def Let_def split: if_split_asm\<close>)

lemma get_reloc_secD:
  assumes "get_reloc_sec b r = Ok h" and "b_shtab b = Some t"
  shows "h \<in> set (sht_shdrs t) \<and> (shdr_type h = SHT_REL \<or> shdr_type h = SHT_RELA) \<and>
    unat (shdr_entsize h) < 2 ^ 32 \<and> shdr_entsize h \<noteq> 0"
  using assms
  by (auto simp: get_reloc_sec_def Let_def rel_entsize_def split: if_split_asm option.split_asm)

lemma canonicalize_entries:
  assumes run: "pmbfd_canonicalize_reloc b r = Ok (n, tab, b')" and n: "0 < n" and t: "b_shtab b = Some t"
    and s: "b_s b = Some s" "strm_ok s" "strm_data s = d" and small: "offsets_small lsb d t" and k: "k < nat n"
  shows "unat (ra_offset64 (image_rela64 lsb (pmbfd_reloc_next tab k))) + 8 < 2 ^ 64"
proof -
  obtain h where h: "get_reloc_sec b r = Ok h"
    using run n by (auto simp: pmbfd_canonicalize_reloc_def Let_def split: res.split_asm)
  note H = get_reloc_secD [OF h t]
  obtain bs s' where g: "pmelf_getscn True True s h 0 0 = (Ok bs, s')" and n': "n = sint (shdr_bytes h div shdr_entsize h)"
    and tab: "tab = \<lparr>ar_entsz = ucast (shdr_entsize h), ar_data = bs\<rparr>"
    using run n h s(1) by (auto simp: pmbfd_canonicalize_reloc_def Let_def split: if_split_asm res.split_asm prod.split_asm)
  have sm: "unat (shdr_bytes h) < 2 ^ 63"
    "\<And>k. k < unat (shdr_bytes h) div unat (shdr_entsize h) \<Longrightarrow> unat (ra_offset64 (image_rela64 lsb (rel_entry d h k))) + 8 < 2 ^ 64"
    using small H by (auto simp: offsets_small_def list_all_iff)
  have g': "fst (pmelf_getscn True True s h 0 0) = Ok bs" using g by simp
  have bs: "bs = slice_at (unat (shdr_offset h)) (unat (shdr_bytes h)) d"
    using getscn_contents(1) [OF s(2) getscn_extent [OF g'] g'] sm(1) s(3) by (simp add: scn_len_def)
  have ent: "unat (ucast (shdr_entsize h) :: u32) = unat (shdr_entsize h)"
    using H by (simp add: unsigned_ucast_eq take_bit_nat_eq_self)
  have "unat (shdr_bytes h div shdr_entsize h) < 2 ^ 63"
    unfolding unat_div by (rule le_less_trans [OF div_le_dividend sm(1)])
  then have "n = int (unat (shdr_bytes h div shdr_entsize h))"
    using unat_small_sint [of "shdr_bytes h div shdr_entsize h"] by (simp add: n')
  then have "n = int (unat (shdr_bytes h) div unat (shdr_entsize h))" by (simp add: unat_div)
  then have "k < unat (shdr_bytes h) div unat (shdr_entsize h)" using k by simp
  from sm(2) [OF this] show ?thesis by (simp add: pmbfd_reloc_next_def tab ent bs rel_entry_def)
qed

lemma s_reloc_mem:
  assumes run: "s_reloc env sys a r (b, ld) = Ok (b', ld')"
    and x: "is_alloc (get_sec b r) \<Longrightarrow> x \<notin> area (sc_vma (get_sec b r)) (unat (sc_size (get_sec b r)))"
    and t: "b_shtab b = Some t" and s: "b_s b = Some s" "strm_ok s" "strm_data s = d"
    and small: "offsets_small (le_lsb env) d t"
  shows "same_file d b b' \<and> (ld_mem ld' x = ld_mem ld x \<and> ld_segs ld' = ld_segs ld)"
proof (cases "is_alloc (get_sec b r) \<and> sc_vma (get_sec b r) \<noteq> -1")
  case True
  let ?s = "get_sec b r"
  obtain bs b1 where c: "bfd_get_section_contents b r 0 (sc_size ?s) = Ok (bs, b1)"
    using run True by (auto simp: s_reloc_def Let_def bind_res_Ok_iff check_get_section_vma_def)
  note f1 = contents_same [OF c, of d]
  show ?thesis
  proof (cases bs)
    case None
    then show ?thesis using run True c f1
      by (auto simp: s_reloc_def Let_def check_get_section_vma_def count_error_def)
  next
    case (Some y)
    define ld1 where "ld1 = ld\<lparr>ld_mem := write_mem (sc_vma ?s) y (ld_mem ld)\<rparr>"
    have w: "(ld_mem ld1 x = ld_mem ld x \<and> ld_segs ld1 = ld_segs ld)"
      using x True contents_length [OF c [unfolded Some]] by (auto simp: ld1_def write_mem_def area_def)
    have r: "(if sc_flags ?s AND SEC_RELOC \<noteq> 0 then reloc_section env sys a r (b1, ld1) else Ok (b1, ld1)) = Ok (b', ld')"
      using run True c Some by (auto simp: s_reloc_def Let_def check_get_section_vma_def ld1_def split: if_splits)
    show ?thesis
    proof (cases "sc_flags ?s AND SEC_RELOC \<noteq> 0")
      case False
      then show ?thesis using r w f1 by simp
    next
      case rel: True
      obtain sz where sz: "bfd_get_reloc_upper_bound b1 r = Ok sz"
        using r rel by (auto simp: reloc_section_def bind_res_Ok_iff)
      show ?thesis
      proof (cases "sz \<le> 0")
        case True
        then show ?thesis using r rel sz w f1 by (auto simp: reloc_section_def count_error_def)
      next
        case False
        then obtain n tab b2 where cn: "pmbfd_canonicalize_reloc b1 r = Ok (n, tab, b2)"
          "(if n \<le> 0 then Ok (count_error (b2, ld1))
            else reloc_loop env sys a (get_sec b2 r) tab [0..<nat n] (b2, ld1)) = Ok (b', ld')"
          using r rel sz by (auto simp: reloc_section_def bind_res_Ok_iff)
        have f2: "same_file d b b2" using same_file_trans [OF f1 canonicalize_same [OF cn(1)]] .
        show ?thesis
        proof (cases "n \<le> 0")
          case True
          then show ?thesis using cn(2) w f2 by (auto simp: count_error_def)
        next
          case False
          obtain s1 where s1: "b_s b1 = Some s1" "strm_ok s1" "strm_data s1 = d" "b_shtab b1 = Some t"
            using f1 s t by (auto simp: same_file_def)
          have "(\<exists>y. b' = b2\<lparr>b_made := y\<rparr>) \<and> (ld_mem ld' x = ld_mem ld1 x \<and> ld_segs ld' = ld_segs ld1)"
          proof (rule reloc_loop_mem)
            show "reloc_loop env sys a (get_sec b2 r) tab [0..<nat n] (b2, ld1) = Ok (b', ld')" using cn(2) False by simp
            show "x \<notin> area (sc_vma (get_sec b2 r)) (unat (sc_size (get_sec b2 r)))"
              using x True same_file_get_sec [OF f2] \<open>is_alloc ?s \<and> sc_vma ?s \<noteq> -1\<close> by simp
          qed (use canonicalize_entries [OF cn(1) _ s1(4,1-3) small] False in auto)
          then show ?thesis using w same_file_trans [OF f2] by auto
        qed
      qed
    qed
  qed
next
  case False
  then show ?thesis using run
    by (auto simp: s_reloc_def Let_def check_get_section_vma_def count_error_def split: if_split_asm)
qed

section \<open>All sections\<close>

lemma same_file_section:
  "same_file d b b' \<Longrightarrow> b_sects b' ! i = b_sects b ! i"
  by (simp add: same_file_def)

lemma relocs_mem:
  assumes run: "bfd_map_over_sections (s_reloc env sys a) (b0, ld0) = Ok (b, ld)"
    and x: "\<And>i. i < b_nsects b0 \<Longrightarrow> sc_flags (b_sects b0 ! i) \<noteq> SEC_BOGUS \<Longrightarrow> is_alloc (b_sects b0 ! i) \<Longrightarrow>
        x \<notin> area (sc_vma (b_sects b0 ! i)) (unat (sc_size (b_sects b0 ! i)))"
    and t: "b_shtab b0 = Some t" and s: "b_s b0 = Some s" "strm_ok s" "strm_data s = d"
    and small: "offsets_small (le_lsb env) d t"
  shows "same_file d b0 b \<and> (ld_mem ld x = ld_mem ld0 x \<and> ld_segs ld = ld_segs ld0)"
proof -
  let ?P = "\<lambda>i (b, ld). same_file d b0 b \<and> (ld_mem ld x = ld_mem ld0 x \<and> ld_segs ld = ld_segs ld0)"
  have mo: "map_over (length (b_sects b0)) 0 (s_reloc env sys a) (b0, ld0) = Ok (b, ld)"
    using run by (simp add: bfd_map_over_sections_def)
  have st: "?P (i + 1) (b', ld')"
    if P: "?P i (b, ld)" and i: "i < b_nsects b" "sc_flags (b_sects b ! i) \<noteq> SEC_BOGUS"
      and r: "s_reloc env sys a (Sect i) (b, ld) = Ok (b', ld')" for i b ld b' ld'
  proof -
    have F: "same_file d b0 b" using P by simp
    then obtain s1 where s1: "b_s b = Some s1" "strm_ok s1" "strm_data s1 = d" using s by (auto simp: same_file_def)
    have "same_file d b b' \<and> (ld_mem ld' x = ld_mem ld x \<and> ld_segs ld' = ld_segs ld)"
      by (rule s_reloc_mem [OF r _ _ s1 small]) (use F t x [of i] i in \<open>auto simp: same_file_def\<close>)
    then show ?thesis using P same_file_trans by auto
  qed
  have "\<exists>j. ?P j (b, ld) \<and> \<not> j < b_nsects b"
  proof (rule map_over_shown [where P = ?P and f = "s_reloc env sys a" and i = 0 and b = b0 and x = ld0])
    show "?P 0 (b0, ld0)" by (simp add: same_file_def)
    show "map_over (length (b_sects b0)) 0 (s_reloc env sys a) (b0, ld0) = Ok (b, ld)" by (rule mo)
  next
    fix i c z c' z'
    assume "?P i (c, z)" "i < b_nsects c" "sc_flags (b_sects c ! i) \<noteq> SEC_BOGUS"
      "s_reloc env sys a (Sect i) (c, z) = Ok (c', z')"
    then show "?P (i + 1) (c', z')" by (rule st)
  next
    fix i c z
    assume "?P i (c, z)"
    then show "?P (i + 1) (c, z)" by simp
  qed
  then show ?thesis by simp
qed


text \<open>The segments stay as they have been placed.\<close>

lemma reloc_entry_segs:
  assumes "reloc_entry env sys a s r (b, ld) = Ok (b', ld')"
  shows "ld_segs ld' = ld_segs ld"
  using reloc_entry_steps [OF assms refl] by (auto dest!: reloc_symbol_made do_reloc_mem)

lemma reloc_loop_segs: "reloc_loop env sys a s tab ks (b, ld) = Ok (b', ld') \<Longrightarrow> ld_segs ld' = ld_segs ld"
  by (induction ks arbitrary: b ld) (auto simp: bind_res_Ok_iff dest: reloc_entry_segs)

lemma reloc_section_segs:
  assumes "reloc_section env sys a r (b, ld) = Ok (b', ld')"
  shows "ld_segs ld' = ld_segs ld"
proof -
  obtain sz where sz: "bfd_get_reloc_upper_bound b r = Ok sz"
    using assms by (auto simp: reloc_section_def bind_res_Ok_iff)
  show ?thesis
  proof (cases "sz \<le> 0")
    case False
    then obtain n tab b1 where c: "(if n \<le> 0 then Ok (count_error (b1, ld))
        else reloc_loop env sys a (get_sec b1 r) tab [0..<nat n] (b1, ld)) = Ok (b', ld')"
      using assms sz by (auto simp: reloc_section_def bind_res_Ok_iff)
    then show ?thesis by (auto simp: count_error_def split: if_split_asm dest: reloc_loop_segs)
  qed (use assms sz in \<open>auto simp: reloc_section_def count_error_def\<close>)
qed

lemma s_reloc_segs:
  assumes run: "s_reloc env sys a r (b, ld) = Ok (b', ld')"
  shows "ld_segs ld' = ld_segs ld"
proof (cases "is_alloc (get_sec b r) \<and> sc_vma (get_sec b r) \<noteq> -1")
  case True
  then obtain bs b1 where c: "bfd_get_section_contents b r 0 (sc_size (get_sec b r)) = Ok (bs, b1)"
    using run by (auto simp: s_reloc_def Let_def bind_res_Ok_iff check_get_section_vma_def)
  show ?thesis
  proof (cases bs)
    case None
    then show ?thesis using run True c
      by (auto simp: s_reloc_def Let_def check_get_section_vma_def count_error_def)
  next
    case (Some x)
    define ld1 where "ld1 = ld\<lparr>ld_mem := write_mem (sc_vma (get_sec b r)) x (ld_mem ld)\<rparr>"
    have "(if sc_flags (get_sec b r) AND SEC_RELOC \<noteq> 0 then reloc_section env sys a r (b1, ld1) else Ok (b1, ld1)) = Ok (b', ld')"
      using run True c Some by (auto simp: s_reloc_def Let_def check_get_section_vma_def ld1_def split: if_splits)
    then show ?thesis using reloc_section_segs [of env sys a r b1 ld1 b' ld']
      by (auto simp: ld1_def split: if_split_asm)
  qed
next
  case False
  then show ?thesis using run
    by (auto simp: s_reloc_def Let_def check_get_section_vma_def count_error_def split: if_split_asm)
qed

lemma relocs_segs:
  assumes "bfd_map_over_sections (s_reloc env sys a) (b0, ld0) = Ok (b, ld)"
  shows "ld_segs ld = ld_segs ld0"
  by (rule map_over_keep [OF assms, where Q = "\<lambda>ld. ld_segs ld = ld_segs ld0"]) (auto dest: s_reloc_segs)

section \<open>Placement\<close>

lemma fill_segs_outside:
  "(\<And>g. g \<in> set gs \<Longrightarrow> sg_chunk g \<noteq> 0 \<Longrightarrow> x \<notin> area (sg_chunk g) (unat (sg_size g))) \<Longrightarrow> fill_segs gs m x = m x"
  by (induction gs arbitrary: m) (auto simp: area_def)

lemma area_nat:
  fixes a :: u64
  assumes "x \<in> area a n" and "unat a + n < 2 ^ 64"
  shows "unat x \<in> {unat a..<unat a + n}"
proof -
  have "unat (a + (x - a)) = unat a + unat (x - a)"
    using assms unfolding unat_word_ariths(1) by (simp add: area_def)
  then show ?thesis using assms by (simp add: area_def)
qed

lemma area_seg_bytes:
  "x \<in> area (sg_chunk g) (unat (sg_size g)) \<Longrightarrow> sg_chunk g \<noteq> 0 \<Longrightarrow>
    unat (sg_chunk g) + unat (sg_size g) < 2 ^ 64 \<Longrightarrow> unat x \<in> seg_bytes g"
  using area_nat by (simp add: seg_bytes_def)

text \<open>A section that has been placed lies in its segment.\<close>

lemma laid_inside:
  assumes L: "laid env b0 ld2 (b_nsects b0) (b, ld)" "ld_errors ld = 0" "length (ld_segs ld2) = length ss + 1"
    and S: "\<forall>k<length ss. sg_chunk (ld_segs ld2 ! k) = sg_chunk (ld_segs ld ! k) \<and>
       (sg_chunk (ld_segs ld ! k) \<noteq> 0 \<longrightarrow> unat (sg_size (ld_segs ld ! k)) = need env b0 k (b_nsects b0))"
    and match: "\<forall>c. le_match env c < length ss" and i: "i < b_nsects b0" "placed (b_sects b0 ! i)"
    and x: "x \<in> area (sc_vma (b_sects b ! i)) (unat (sc_size (b_sects b ! i)))"
  shows "unat x \<in> seg_bytes (ld_segs ld ! segOf env (b_sects b0 ! i))"
proof -
  define g where "g = ld_segs ld ! segOf env (b_sects b0 ! i)"
  have k: "segOf env (b_sects b0 ! i) < length ss" using match by (simp add: segOf_def)
  have I: "sec_in (ld_eh ld2) g b i" using L i by (auto simp: laid_def g_def)
  have V: "unat (sg_vmacalc g) \<le> unat (sg_chunk g) + unat (sg_size g)"
    using L k S I by (auto simp: laid_def g_def sec_in_def split: if_split_asm)
  have E: "unat (sc_vma (b_sects b ! i)) + unat (sc_size (b_sects b ! i)) \<le> unat (sg_vmacalc g)"
    using I by (simp add: sec_in_def sec_end_def)
  moreover have "unat (sg_vmacalc g) < 2 ^ LENGTH(64)" by (rule unsigned_less)
  ultimately have "unat (sc_vma (b_sects b ! i)) + unat (sc_size (b_sects b ! i)) < 2 ^ 64" by simp
  from area_nat [OF x this] show ?thesis using I V E by (auto simp: seg_bytes_def sec_in_def simp flip: g_def)
qed

lemma start_segs_keeps [simp]:
  "map sg_chunk (start_segs gs) = map sg_chunk gs" "map sg_size (start_segs gs) = map sg_size gs"
  by (simp_all add: start_segs_def)

lemma s_count_mem:
  assumes "s_count env r (b, ld) = Ok (b', ld')"
  shows "b' = b \<and> ld_mem ld' = ld_mem ld"
proof (cases "is_alloc (get_sec b r) \<and> sc_align (get_sec b r) < 31 \<and> sc_flags (get_sec b r) AND SEC_LINK_ONCE = 0")
  case True
  then obtain eh where "named_as EH_SECTION_NAME (sc_name (get_sec b r)) = Ok eh"
    using assms unfolding s_count_def Let_def prod.case by (auto simp: bind_res_Ok_iff split: if_split_asm)
  then show ?thesis using assms True
    by (simp add: s_count_def Let_def not_le [symmetric] upd_seg_def split: if_split_asm)
      (auto simp: bind_res_Ok_iff)
qed (use assms in \<open>auto simp: s_count_def Let_def upd_seg_def split: if_split_asm\<close>)

lemma s_setvma_mem:
  "s_setvma env r (b, ld) = Ok (b', ld') \<Longrightarrow>
    b_s b' = b_s b \<and> b_shtab b' = b_shtab b \<and> b_nsects b' = b_nsects b \<and> ld_mem ld' = ld_mem ld"
  by (cases r) (auto simp: s_setvma_def Let_def upd_seg_def split: if_split_asm prod.split_asm)

lemma count_mem:
  assumes "bfd_map_over_sections (s_count env) (b0, ld0) = Ok (b, ld)"
  shows "b = b0 \<and> ld_mem ld = ld_mem ld0"
proof -
  let ?P = "\<lambda>i :: nat. \<lambda>(b, ld). b = b0 \<and> ld_mem ld = ld_mem ld0"
  have "\<exists>j. ?P j (b, ld) \<and> \<not> j < b_nsects b"
  proof (rule map_over_shown [where P = ?P and f = "s_count env" and i = 0 and b = b0 and x = ld0])
    show "map_over (length (b_sects b0)) 0 (s_count env) (b0, ld0) = Ok (b, ld)"
      using assms by (simp add: bfd_map_over_sections_def)
  qed (simp_all, metis s_count_mem)
  then show ?thesis by simp
qed

lemma setvma_mem:
  assumes "bfd_map_over_sections (s_setvma env) (b0, ld0) = Ok (b, ld)"
  shows "b_s b = b_s b0 \<and> b_shtab b = b_shtab b0 \<and> ld_mem ld = ld_mem ld0"
proof -
  let ?P = "\<lambda>i :: nat. \<lambda>(b, ld). b_s b = b_s b0 \<and> b_shtab b = b_shtab b0 \<and> ld_mem ld = ld_mem ld0"
  have "\<exists>j. ?P j (b, ld) \<and> \<not> j < b_nsects b"
  proof (rule map_over_shown [where P = ?P and f = "s_setvma env" and i = 0 and b = b0 and x = ld0])
    show "map_over (length (b_sects b0)) 0 (s_setvma env) (b0, ld0) = Ok (b, ld)"
      using assms by (simp add: bfd_map_over_sections_def)
  qed (simp_all, metis s_setvma_mem)
  then show ?thesis by simp
qed

text \<open>Clearing the segments changes memory in their blocks only.\<close>

lemma place_mem:
  assumes run: "place_sections env addrs (b0, ld0) held = Ok (ok, (b, ld), held')"
    and blocks: "\<And>g. g \<in> set (ld_segs ld) \<Longrightarrow> unat (sg_chunk g) + unat (sg_size g) < 2 ^ 64"
    and x: "\<And>g. g \<in> set (ld_segs ld) \<Longrightarrow> unat x \<notin> seg_bytes g"
  shows "b_s b = b_s b0 \<and> b_shtab b = b_shtab b0 \<and> ld_mem ld x = ld_mem ld0 x"
proof -
  obtain b1 ld1 where cnt: "bfd_map_over_sections (s_count env) (b0, ld0\<lparr>ld_errors := 0\<rparr>) = Ok (b1, ld1)"
    and rest: "(if ld_errors ld1 \<noteq> 0 then Ok (False, (b1, ld1), held)
        else bind_res (cexpSegsAlloc (ld_segs ld1) addrs held) (\<lambda>(rc, segs, held).
            if rc \<noteq> 0 then Ok (False, (b1, ld1\<lparr>ld_segs := segs\<rparr>), held)
            else
              let n = length segs - 1;
                  ld = ld1\<lparr>ld_segs := start_segs (take n segs) @ drop n segs, ld_mem := fill_segs (take n segs) (ld_mem ld1),
                          ld_errors := 0\<rparr>
              in bind_res (bfd_map_over_sections (s_setvma env) (b1, ld)) (\<lambda>(b, ld).
                   Ok (ld_errors ld = 0, (b, ld), held)))) = Ok (ok, (b, ld), held')"
    using run by (auto simp: place_sections_def bind_res_Ok_iff simp del: bind_res.simps)
  note b1 = count_mem [OF cnt]
  consider "b = b1" "ld_mem ld = ld_mem ld1"
    | segs ld2 where "ld2 = (let n = length segs - 1 in ld1\<lparr>ld_segs := start_segs (take n segs) @ drop n segs,
          ld_mem := fill_segs (take n segs) (ld_mem ld1), ld_errors := 0\<rparr>)"
        "bfd_map_over_sections (s_setvma env) (b0, ld2) = Ok (b, ld)"
    using rest b1 by (auto simp: Let_def bind_res_Ok_iff simp del: bind_res.simps split: if_split_asm)
  then show ?thesis
  proof cases
    case (2 segs ld2)
    note ld2 = 2(1) and run2 = 2(2)
  have same: "map sg_chunk (ld_segs ld) = map sg_chunk segs \<and> map sg_size (ld_segs ld) = map sg_size segs"
  proof -
    have "map sg_chunk (ld_segs ld2) = map sg_chunk segs" "map sg_size (ld_segs ld2) = map sg_size segs"
      by (simp_all add: ld2 Let_def) (simp_all flip: map_append)
    then show ?thesis using setvma_keeps [OF run2] by simp
  qed
  have out: "x \<notin> area (sg_chunk g) (unat (sg_size g))" if g: "g \<in> set segs" "sg_chunk g \<noteq> 0" for g
  proof -
    obtain i where i: "i < length segs" "g = segs ! i" using g(1) by (auto simp: in_set_conv_nth)
    have l: "length (ld_segs ld) = length segs" using same by (metis length_map)
    have "sg_chunk (ld_segs ld ! i) = sg_chunk g" "sg_size (ld_segs ld ! i) = sg_size g"
      using same i l by (metis nth_map)+
    moreover have "ld_segs ld ! i \<in> set (ld_segs ld)" using i l by simp
    ultimately show ?thesis using area_seg_bytes blocks x g(2) by metis
  qed
  have "fill_segs (take n segs) m x = m x" for n m
    by (rule fill_segs_outside) (use out in \<open>blast dest: in_set_takeD\<close>)
  then have "ld_mem ld2 x = ld_mem ld1 x" by (simp add: ld2 Let_def)
  then show ?thesis using setvma_mem [OF run2] count_mem [OF cnt] by (simp add: ld2 Let_def)
  qed (use b1 in simp)
qed


text \<open>C9: Placing and relocating the sections of an object changes memory only in the blocks that have been
  allocated for its segments: clearing the segments, reading the sections and every relocation, with the
  64-bit engine, of every entry of the file, including those that fail. The blocks are those the allocator
  delivered for new segments, the sizes of the sections fit into the address space, no entry's offset is within
  eight bytes of its end, no exception frame table has been found yet, and the system module is loaded.\<close>

theorem load_stays_in_blocks:
  assumes "fst (dflt_cexpSegsInit mok) = Some (ld_segs (ls_ld s)) \<and> le_match (lo_env w) = dflt_cexpSegsMatch \<or>
      fst (ppc_cexpSegsInit mok rsize region) = Some (ld_segs (ls_ld s)) \<and> le_match (lo_env w) = ppc_cexpSegsMatch"
    and "ld_eh (ls_ld s) = None" and "b_nsects (ls_b s) \<le> length (b_sects (ls_b s))" and "le_mods (lo_env w) \<noteq> []"
    and "step_place w sys a s = Ok (ok, s')"
    and "\<forall>k. need (lo_env w) (ls_b s) k (b_nsects (ls_b s)) < 2 ^ 64"
    and "\<forall>g \<in> set (ld_segs (ls_ld s')). unat (sg_chunk g) + unat (sg_size g) < 2 ^ 64"
    and "b_shtab (ls_b s) = Some t" and "b_s (ls_b s) = Some st" and "strm_ok st"
    and "offsets_small (le_lsb (lo_env w)) (strm_data st) t"
    and "\<forall>g \<in> set (ld_segs (ls_ld s')). unat x \<notin> seg_bytes g"
  shows "ld_mem (ls_ld s') x = ld_mem (ls_ld s) x"
proof -
  obtain ss where ss: "ld_segs (ls_ld s) = ss @ [zero_seg]" "\<forall>s \<in> set ss. sg_name s \<noteq> None \<and> sg_size s = 0"
    "\<forall>c. le_match (lo_env w) c < length ss" using init_segs [OF assms(1)] by blast
  obtain ok1 b1 ld1 held1 where P: "place_sections (lo_env w) (lo_addrs w) (ls_b s, ls_ld s) (ls_held s) = Ok (ok1, (b1, ld1), held1)"
    and R: "bind_res (if \<not> ok1 then Ok (False, (put s (b1, ld1))\<lparr>ls_held := held1\<rparr>)
         else bind_res (bfd_map_over_sections (s_reloc (lo_env w) sys a) (b1, ld1\<lparr>ld_errors := 0\<rparr>)) (\<lambda>bl.
              Ok (ld_errors (snd bl) = 0, put ((put s (b1, ld1))\<lparr>ls_held := held1\<rparr>) bl))) Ok = Ok (ok, s')"
    using assms(4-5) unfolding step_place_def Let_def bind_res_Ok_iff
    by (auto simp: bind_res_Ok_iff simp del: bind_res.simps split: if_split_asm)
  note blocks = assms(7) [rule_format] and out = assms(12) [rule_format]
  show ?thesis
  proof (cases ok1)
    case False
    then have "ls_ld s' = ld1" using R by (auto simp: put_def)
    then show ?thesis using place_mem [OF P] blocks out by simp
  next
    case True
    then obtain b2 where rel: "bfd_map_over_sections (s_reloc (lo_env w) sys a) (b1, ld1\<lparr>ld_errors := 0\<rparr>) = Ok (b2, ls_ld s')"
      using R by (auto simp: put_def bind_res_Ok_iff)
    have P': "place_sections (lo_env w) (lo_addrs w) (ls_b s, ls_ld s) (ls_held s) = Ok (True, (b1, ld1), held1)"
      using P True by simp
    have segs: "ld_segs (ls_ld s') = ld_segs ld1" using relocs_segs [OF rel] by simp
    note M = place_mem [OF P, unfolded segs [symmetric], OF blocks out]
    obtain ld2 where L: "laid (lo_env w) (ls_b s) ld2 (b_nsects (ls_b s)) (b1, ld1)" "ld_eh ld2 = ld_eh ld1" "ld_errors ld1 = 0"
        "length (ld_segs ld2) = length ss + 1"
        "\<forall>k<length ss. sg_chunk (ld_segs ld2 ! k) = sg_chunk (ld_segs ld1 ! k) \<and>
         (sg_chunk (ld_segs ld1 ! k) \<noteq> 0 \<longrightarrow> unat (sg_size (ld_segs ld1 ! k)) = need (lo_env w) (ls_b s) k (b_nsects (ls_b s)))"
      using placed_where [OF P' ss(1)] ss assms(2,3,6) blocks segs by auto
    have "x \<notin> area (sc_vma (b_sects b1 ! i)) (unat (sc_size (b_sects b1 ! i)))"
      if i: "i < b_nsects b1" "sc_flags (b_sects b1 ! i) \<noteq> SEC_BOGUS" "is_alloc (b_sects b1 ! i)" for i
    proof
      assume a: "x \<in> area (sc_vma (b_sects b1 ! i)) (unat (sc_size (b_sects b1 ! i)))"
      then have "placed (b_sects b1 ! i)" using i by (auto simp: placed_def area_def)
      moreover have n: "i < b_nsects (ls_b s)" using L(1) i by (simp add: laid_def)
      moreover have "b_sects b1 ! i = (b_sects (ls_b s) ! i)\<lparr>sc_vma := sc_vma (b_sects b1 ! i)\<rparr>"
        using L(1) n assms(3) by (simp add: laid_def)
      ultimately have p: "i < b_nsects (ls_b s)" "placed (b_sects (ls_b s) ! i)" by (metis placed_vma)+
      have "segOf (lo_env w) (b_sects (ls_b s) ! i) < length (ld_segs ld1)"
        using ss(3) L(1,4) by (simp add: segOf_def laid_def less_SucI)
      then show False
        using laid_inside [OF L(1,3-5) ss(3) p a] out segs by simp
    qed
    then show ?thesis
      using relocs_mem [OF rel] M assms(8-11) by simp
  qed
qed


text \<open>A text of eight bytes with one relocation, by an absolute symbol.\<close>

definition lm_data :: bytes where
  "lm_data = replicate 8 0x11 @ [0, 0, 0, 0, 0, 0, 0, 0, 1, 0, 0, 0, 0, 0, 0, 0, 5, 0, 0, 0, 0, 0, 0, 0]"

definition lm_strm :: strm where
  "lm_strm = \<lparr>st_obj = MemObj \<lparr>mo_buf = lm_data, mo_len = 32, mo_pos = 0\<rparr>, st_machine = 62, st_needswap = False,
     st_clss = ELFCLASS64\<rparr>"

definition lm_tab :: Pmelf_Shtab where
  "lm_tab = \<lparr>sht_shdrs = [S64 (obj_shdr 0 0 0 0 0 0 0 0), S64 (obj_shdr 0 1 6 0 8 0 0 0), S64 (obj_shdr 0 4 0 8 24 0 1 24)], sht_nshdrs = 3, sht_strtab = [],
     sht_strtablen = 0, sht_idx = 0, sht_clss = ELFCLASS64\<rparr>"

definition lm_bfd :: bfd where
  "lm_bfd = bfd_start\<lparr>b_nsects := 3, b_sects := [zero_sec, (lay_sec ''.text'' 8 3 (SEC_ALLOC OR SEC_CODE OR SEC_HAS_CONTENTS OR SEC_RELOC))
         \<lparr>sc_shdr := Some 1, sc_rels := 2\<rparr>, zero_sec\<lparr>sc_shdr := Some 2\<rparr>],
       b_s := Some lm_strm, b_shtab := Some lm_tab, b_nsyms := 1,
       b_syms := Some [zero_asym\<lparr>as_val := 0x1234, as_secndx := ucast SHN_ABS\<rparr>],
       b_ehdr := E64 sample_ehdr64\<rparr>"

definition lm_env :: load_env where
  "lm_env = \<lparr>lo_env = lay_env\<lparr>le_mods := [zero_mod 100]\<rparr>, lo_segs = (None, 0), lo_file = (\<lambda>_. None), lo_ok_open = (\<lambda>_. True),
     lo_ok_syms = (\<lambda>_. True), lo_ok_index = True, lo_ok_names = True, lo_addrs = [0x1000], lo_self = (0, 0, 0), lo_cleanup = 0\<rparr>"

definition lm_state :: load_state where
  "lm_state = \<lparr>ls_b = lm_bfd, ls_ld = lay_start\<lparr>ld_st := [Sym 0]\<rparr>, ls_held = \<lparr>bl_malloc = [], bl_region = []\<rparr>, ls_calls = []\<rparr>"

definition lm_run where
  "lm_run = step_place lm_env \<lparr>sp_register = 0, sp_deregister = 0, sp_cxa = 0, sp_dso = None\<rparr> 0 lm_state"

lemma lm_runs:
  "case lm_run of Ok (ok, s) \<Rightarrow> ok \<and> map sg_chunk (ld_segs (ls_ld s)) = [0x1000, 0, 0] \<and>
      map sg_size (ld_segs (ls_ld s)) = [15, 0, 0] \<and>
      map (ld_mem (ls_ld s)) [0x1000, 0x1001, 0x1002] = [0x39, 0x12, 0] | _ \<Rightarrow> False"
  by code_simp

lemma lm_small: "offsets_small True (strm_data lm_strm) lm_tab"
proof -
  have "ra_offset64 (image_rela64 True (rel_entry (strm_data lm_strm) (S64 (obj_shdr 0 4 0 8 24 0 1 24)) 0)) = 0" by code_simp
  then show ?thesis
    by (simp add: offsets_small_def lm_tab_def shdr_type_def shdr_bytes_def shdr_entsize_def obj_shdr_def)
qed

lemma lm_room: "(\<Sum>i\<leftarrow>[0..<3]. room (b_sects lm_bfd ! i)) = 15" by code_simp


lemma load_stays_in_blocks_witness:
  "\<exists>s. lm_run = Ok (True, s) \<and> ld_mem (ls_ld s) 0x1001 \<noteq> ld_mem (ls_ld lm_state) 0x1001 \<and>
    ld_mem (ls_ld s) 0x100f = ld_mem (ls_ld lm_state) 0x100f"
proof -
  obtain s where s: "lm_run = Ok (True, s)" "map sg_chunk (ld_segs (ls_ld s)) = [0x1000, 0, 0]"
    "map sg_size (ld_segs (ls_ld s)) = [15, 0, 0]" "ld_mem (ls_ld s) 0x1001 = 0x12"
    using lm_runs by (auto split: res.splits)
  then obtain x y z where g: "ld_segs (ls_ld s) = [x, y, z]" "sg_chunk x = 0x1000" "sg_chunk y = 0" "sg_chunk z = 0"
    "sg_size x = 15" "sg_size y = 0" "sg_size z = 0" by (auto simp: map_eq_Cons_conv)
  have n: "b_nsects lm_bfd = 3" by (simp add: lm_bfd_def)
  have nd: "\<forall>k. need (lo_env lm_env) (ls_b lm_state) k (b_nsects (ls_b lm_state)) < 2 ^ 64"
  proof
    fix k
    show "need (lo_env lm_env) (ls_b lm_state) k (b_nsects (ls_b lm_state)) < 2 ^ 64"
      using need_le [of "lo_env lm_env" lm_bfd k 3] unfolding lm_room by (simp add: lm_state_def n)
  qed
  have ini: "fst (ppc_cexpSegsInit True 2000 7) = Some (ld_segs (ls_ld lm_state)) \<and> le_match (lo_env lm_env) = ppc_cexpSegsMatch"
    by (simp add: lm_state_def lm_env_def lay_start_def ld_zero_def two_segments_def ppc_cexpSegsInit_def cexpSegsCreate_def
        Let_def lay_env_def)
  have ld: "ld_eh (ls_ld lm_state) = None" "b_nsects (ls_b lm_state) \<le> length (b_sects (ls_b lm_state))"
    "le_mods (lo_env lm_env) \<noteq> []" "b_shtab (ls_b lm_state) = Some lm_tab" "b_s (ls_b lm_state) = Some lm_strm"
    "ld_mem (ls_ld lm_state) = (\<lambda>_. 0)"
    by (simp_all add: lm_state_def lm_bfd_def lm_env_def lay_start_def ld_zero_def)
  have ok: "strm_ok lm_strm" by (simp add: lm_strm_def lm_data_def strm_ok.simps mem_ok_def)
  have blocks: "\<forall>g \<in> set (ld_segs (ls_ld s)). unat (sg_chunk g) + unat (sg_size g) < 2 ^ 64"
    and out: "\<forall>g \<in> set (ld_segs (ls_ld s)). unat (0x100f :: u64) \<notin> seg_bytes g" using g by (simp_all add: seg_bytes_def)
  have small: "offsets_small (le_lsb (lo_env lm_env)) (strm_data lm_strm) lm_tab"
    using lm_small by (simp add: lm_env_def lay_env_def)
  have "ld_mem (ls_ld s) 0x100f = ld_mem (ls_ld lm_state) 0x100f"
    by (rule load_stays_in_blocks [OF disjI2 [OF ini] ld(1-3) s(1) [unfolded lm_run_def] nd blocks ld(4,5) ok small out])
  then show ?thesis using s ld by auto
qed

end
