(* ===== verification/LoadCommons.thy ===== *)
theory LoadCommons imports LoadSyms begin

text \<open>
  The new common symbols of an object that is loaded: where they lie in the section that is made for them,
  and their alignments.
\<close>

section \<open>Alignments\<close>

text \<open>The exponent is the least one that will do.\<close>

lemma pwr_loop_least:
  "pwr_loop n (2 ^ k) k = (LEAST p. k \<le> p \<and> n \<le> 2 ^ p)"
proof (induction "n - 2 ^ k" arbitrary: k rule: less_induct)
  case less
  show ?case
  proof (cases "2 ^ k < n")
    case True
    have "(LEAST p. k \<le> p \<and> n \<le> 2 ^ p) = (LEAST p. k + 1 \<le> p \<and> n \<le> 2 ^ p)"
      using True by (metis (mono_tags, lifting) Suc_eq_plus1 le_eq_less_or_eq not_le not_less_eq_eq)
    moreover have "pwr_loop n (2 ^ (k + 1)) (k + 1) = (LEAST p. k + 1 \<le> p \<and> n \<le> 2 ^ p)"
      by (rule less) (use True in \<open>simp add: diff_less_mono2\<close>)
    ultimately show ?thesis using True by (subst pwr_loop.simps) simp
  next
    case False
    then show ?thesis by (subst pwr_loop.simps) (auto intro!: Least_equality [symmetric])
  qed
qed

lemma elf_get_align_pwr_least:
  "elf_get_align_pwr b sp = (LEAST p. unat (elf_get_align b sp) \<le> 2 ^ p)"
  using pwr_loop_least [of _ 0] by (simp add: elf_get_align_pwr_def)

lemma align_le_pwr: "unat (elf_get_align b sp) \<le> 2 ^ elf_get_align_pwr b sp"
  unfolding elf_get_align_pwr_least by (rule LeastI_ex) (meson less_exp less_imp_le)

lemma pwr_le: "unat (elf_get_align b sp) \<le> 2 ^ p \<Longrightarrow> elf_get_align_pwr b sp \<le> p"
  unfolding elf_get_align_pwr_least by (rule Least_le)

lemma pwr_le_32: "elf_get_align_pwr b sp \<le> 32"
proof (rule pwr_le)
  have "unat (elf_get_align b sp) < 2 ^ LENGTH(32)" by (rule unsigned_less)
  then show "unat (elf_get_align b sp) \<le> 2 ^ 32" by simp
qed

section \<open>Packed areas\<close>

text \<open>Areas with their sizes and alignments, one after the other from \<open>lo\<close> to \<open>hi\<close>.\<close>

fun packed :: "nat \<Rightarrow> (nat \<times> nat \<times> nat) list \<Rightarrow> nat \<Rightarrow> bool" where
  "packed lo [] hi \<longleftrightarrow> lo \<le> hi"
| "packed lo ((a, n, p) # xs) hi \<longleftrightarrow> lo \<le> a \<and> 2 ^ p dvd a \<and> packed (a + n) xs hi"

lemma packed_le: "packed lo xs hi \<Longrightarrow> lo \<le> hi"
  by (induction lo xs hi rule: packed.induct) auto

lemma packed_in:
  "packed lo xs hi \<Longrightarrow> k < length xs \<Longrightarrow> xs ! k = (a, n, p) \<Longrightarrow> 2 ^ p dvd a \<and> lo \<le> a \<and> a + n \<le> hi"
  by (induction lo xs hi arbitrary: k rule: packed.induct) (fastforce simp: less_Suc_eq_0_disj dest: packed_le)+

lemma packed_apart:
  "packed lo xs hi \<Longrightarrow> j < k \<Longrightarrow> k < length xs \<Longrightarrow> xs ! j = (a, n, p) \<Longrightarrow> xs ! k = (a', n', p') \<Longrightarrow> a + n \<le> a'"
proof (induction lo xs hi arbitrary: j k rule: packed.induct)
  case (2 lo a0 n0 p0 xs hi)
  then show ?case
    by (cases j; cases k) (auto dest: packed_in)
qed simp

section \<open>Placing the symbols\<close>

lemma made_frame [simp]:
  "bfd_get_section (b\<lparr>b_made := x\<rparr>) = bfd_get_section b" "bfd_asymbol_value (b\<lparr>b_made := x\<rparr>) = bfd_asymbol_value b"
  "elf_get_align_pwr (b\<lparr>b_made := x\<rparr>) = elf_get_align_pwr b" "get_sym (b\<lparr>b_made := x\<rparr>) (Sym k) = get_sym b (Sym k)"
  "syms_of_bfd (b\<lparr>b_made := x\<rparr>) = syms_of_bfd b"
  by (auto simp: fun_eq_iff bfd_get_section_def shdr2sec_def bfd_asymbol_value_def Let_def elf_get_align_pwr_def elf_get_align_def
      syms_of_bfd_def get_sec.simps split: option.splits)

lemma new_symbol_app:
  "new_symbol env s b = Ok (r, b') \<Longrightarrow> r = Made (length (b_made b)) \<and> b' = b\<lparr>b_made := b_made b @ [s]\<rparr>"
  by (auto simp: new_symbol_def bfd_make_empty_symbol_def split: if_splits)

definition old_sym :: "bfd \<Rightarrow> link_data \<Rightarrow> nat \<Rightarrow> asymbol" where "old_sym b ld i = get_sym b (ld_st ld ! i)"

definition area_of :: "bfd \<Rightarrow> link_data \<Rightarrow> nat \<times> u64 \<Rightarrow> nat \<times> nat \<times> nat" where
  "area_of b ld = (\<lambda>(i, v). (unat v, unat (bfd_asymbol_value b (old_sym b ld i)), elf_get_align_pwr b (old_sym b ld i)))"

definition com_room :: "bfd \<Rightarrow> link_data \<Rightarrow> nat \<Rightarrow> nat" where
  "com_room b ld i = 2 ^ elf_get_align_pwr b (old_sym b ld i) - 1 + unat (bfd_asymbol_value b (old_sym b ld i))"

lemma place_commons_result:
  assumes "place_commons env cs is val (b, ld) = Ok (v, b', ld')" and "distinct is"
    and "\<forall>i \<in> set is. i < length (ld_st ld) \<and> (\<exists>k. ld_st ld ! i = Sym k)"
    and "unat val + (\<Sum>i\<leftarrow>is. com_room b ld i) < 2 ^ 64"
  shows "\<exists>vs. length vs = length is \<and> packed (unat val) (map (area_of b ld) (zip is vs)) (unat v) \<and>
    b' = b\<lparr>b_made := b_made b @ map (\<lambda>(i, w). bfd_set_section (Some cs)
        (zero_asym\<lparr>as_name := as_name (old_sym b ld i), as_val := w, as_flags := as_flags (old_sym b ld i)\<rparr>)) (zip is vs)\<rparr> \<and>
    ld' = ld\<lparr>ld_st := ld_st ld'\<rparr> \<and> length (ld_st ld') = length (ld_st ld) \<and>
    (\<forall>k < length is. ld_st ld' ! (is ! k) = Made (length (b_made b) + k)) \<and>
    (\<forall>i. i \<notin> set is \<longrightarrow> ld_st ld' ! i = ld_st ld ! i)"
  using assms
proof (induction "is" arbitrary: val b ld)
  case Nil
  then show ?case by auto
next
  case (Cons i "is")
  let ?old = "old_sym b ld i"
  define w where "w = align_power val (elf_get_align_pwr b ?old)"
  define s where "s = bfd_set_section (Some cs) (zero_asym\<lparr>as_name := as_name ?old, as_val := w, as_flags := as_flags ?old\<rparr>)"
  obtain r b1 where n: "new_symbol env s b = Ok (r, b1)"
    and rest: "place_commons env cs is (w + bfd_asymbol_value b1 ?old) (b1, set_slot i r ld) = Ok (v, b', ld')"
    using Cons.prems(1) by (auto simp: Let_def bind_res_Ok_iff old_sym_def s_def w_def)
  have r: "r = Made (length (b_made b))" and b1: "b1 = b\<lparr>b_made := b_made b @ [s]\<rparr>" using new_symbol_app [OF n] by simp_all
  have old: "old_sym b1 (set_slot i r ld) j = old_sym b ld j" if j: "j \<in> set is" for j
  proof -
    obtain k where "ld_st ld ! j = Sym k" "i \<noteq> j" using j Cons.prems(2,3) by auto
    then show ?thesis by (simp add: old_sym_def set_slot_def b1)
  qed
  have A: "unat val \<le> unat w" "unat w \<le> unat val + (2 ^ elf_get_align_pwr b ?old - 1)" "2 ^ elf_get_align_pwr b ?old dvd unat w"
    using align_power_up [of val "elf_get_align_pwr b ?old"] Cons.prems(4) by (simp_all add: w_def com_room_def)
  have e: "unat (w + bfd_asymbol_value b ?old) = unat w + unat (bfd_asymbol_value b ?old)"
  proof (rule unat_add_small)
    have "unat val + (com_room b ld i + (\<Sum>i\<leftarrow>is. com_room b ld i)) < 2 ^ 64" using Cons.prems(4) by simp
    then show "unat w + unat (bfd_asymbol_value b ?old) < 2 ^ 64" using A(2) unfolding com_room_def by linarith
  qed
  have room: "com_room b1 (set_slot i r ld) j = com_room b ld j" if "j \<in> set is" for j
    using old [OF that] by (simp add: com_room_def b1)
  have "\<exists>vs. length vs = length is \<and>
    packed (unat (w + bfd_asymbol_value b1 ?old)) (map (area_of b1 (set_slot i r ld)) (zip is vs)) (unat v) \<and>
    b' = b1\<lparr>b_made := b_made b1 @ map (\<lambda>(j, w). bfd_set_section (Some cs)
        (zero_asym\<lparr>as_name := as_name (old_sym b1 (set_slot i r ld) j), as_val := w,
           as_flags := as_flags (old_sym b1 (set_slot i r ld) j)\<rparr>)) (zip is vs)\<rparr> \<and>
    ld' = (set_slot i r ld)\<lparr>ld_st := ld_st ld'\<rparr> \<and> length (ld_st ld') = length (ld_st (set_slot i r ld)) \<and>
    (\<forall>k < length is. ld_st ld' ! (is ! k) = Made (length (b_made b1) + k)) \<and>
    (\<forall>j. j \<notin> set is \<longrightarrow> ld_st ld' ! j = ld_st (set_slot i r ld) ! j)"
  proof (rule Cons.IH [OF rest])
    show "unat (w + bfd_asymbol_value b1 ?old) + (\<Sum>j\<leftarrow>is. com_room b1 (set_slot i r ld) j) < 2 ^ 64"
    proof -
      have s: "(\<Sum>j\<leftarrow>is. com_room b1 (set_slot i r ld) j) = (\<Sum>j\<leftarrow>is. com_room b ld j)"
        using room by (simp cong: map_cong)
      have v: "bfd_asymbol_value b1 ?old = bfd_asymbol_value b ?old" by (simp add: b1)
      have "unat val + (com_room b ld i + (\<Sum>i\<leftarrow>is. com_room b ld i)) < 2 ^ 64" using Cons.prems(4) by simp
      then show ?thesis unfolding s v e using A(2) com_room_def [of b ld i] by linarith
    qed
    show "\<forall>j \<in> set is. j < length (ld_st (set_slot i r ld)) \<and> (\<exists>k. ld_st (set_slot i r ld) ! j = Sym k)"
    proof
      fix j assume "j \<in> set is"
      then show "j < length (ld_st (set_slot i r ld)) \<and> (\<exists>k. ld_st (set_slot i r ld) ! j = Sym k)"
        using Cons.prems(2,3) by (cases "i = j") (simp_all add: set_slot_def)
    qed
  qed (use Cons.prems(2) in simp)
  then obtain vs where vs: "length vs = length is"
    "packed (unat (w + bfd_asymbol_value b1 ?old)) (map (area_of b1 (set_slot i r ld)) (zip is vs)) (unat v)"
    "b' = b1\<lparr>b_made := b_made b1 @ map (\<lambda>(j, w). bfd_set_section (Some cs)
        (zero_asym\<lparr>as_name := as_name (old_sym b1 (set_slot i r ld) j), as_val := w,
           as_flags := as_flags (old_sym b1 (set_slot i r ld) j)\<rparr>)) (zip is vs)\<rparr>"
    "ld' = (set_slot i r ld)\<lparr>ld_st := ld_st ld'\<rparr>" "length (ld_st ld') = length (ld_st (set_slot i r ld))"
    "\<forall>k < length is. ld_st ld' ! (is ! k) = Made (length (b_made b1) + k)"
    "\<forall>j. j \<notin> set is \<longrightarrow> ld_st ld' ! j = ld_st (set_slot i r ld) ! j" by blast
  have ar: "map (area_of b1 (set_slot i r ld)) (zip is vs) = map (area_of b ld) (zip is vs)"
  proof (rule map_cong [OF refl])
    fix x assume "x \<in> set (zip is vs)"
    then have "fst x \<in> set is" by (metis prod.collapse set_zip_leftD)
    from old [OF this] show "area_of b1 (set_slot i r ld) x = area_of b ld x"
      by (simp add: area_of_def split_beta) (simp add: b1)
  qed
  have sy: "map (\<lambda>(j, w). bfd_set_section (Some cs)
        (zero_asym\<lparr>as_name := as_name (old_sym b1 (set_slot i r ld) j), as_val := w,
           as_flags := as_flags (old_sym b1 (set_slot i r ld) j)\<rparr>)) (zip is vs) =
      map (\<lambda>(j, w). bfd_set_section (Some cs)
        (zero_asym\<lparr>as_name := as_name (old_sym b ld j), as_val := w, as_flags := as_flags (old_sym b ld j)\<rparr>)) (zip is vs)"
    by (rule map_cong) (auto simp: old dest: set_zip_leftD)
  have "packed (unat val) (map (area_of b ld) (zip (i # is) (w # vs))) (unat v)"
  proof -
    have v: "bfd_asymbol_value b1 ?old = bfd_asymbol_value b ?old" by (simp add: b1)
    have "area_of b ld (i, w) = (unat w, unat (bfd_asymbol_value b ?old), elf_get_align_pwr b ?old)"
      by (simp add: area_of_def)
    then show ?thesis using vs(2) [unfolded ar v e] A(1,3) by simp
  qed
  moreover have "b' = b\<lparr>b_made := b_made b @ map (\<lambda>(i, w). bfd_set_section (Some cs)
        (zero_asym\<lparr>as_name := as_name (old_sym b ld i), as_val := w, as_flags := as_flags (old_sym b ld i)\<rparr>)) (zip (i # is) (w # vs))\<rparr>"
    unfolding vs(3) sy by (simp add: b1 s_def)
  moreover have "ld' = ld\<lparr>ld_st := ld_st ld'\<rparr>" by (subst vs(4)) (simp add: set_slot_def)
  moreover have "ld_st ld' ! ((i # is) ! k) = Made (length (b_made b) + k)" if "k < length (i # is)" for k
    using that vs(6,7) Cons.prems(2,3) by (cases k) (auto simp: set_slot_def r b1)
  moreover have "ld_st ld' ! j = ld_st ld ! j" if "j \<notin> set (i # is)" for j
    using that vs(7) by (simp add: set_slot_def)
  ultimately show ?case using vs(1,5) by (intro exI [of _ "w # vs"]) (simp add: set_slot_def)
qed


text \<open>Symbols that are common or undefined do not depend on the sections of the object.\<close>

lemma com_frame:
  assumes "bfd_get_section b sy \<in> {Some Com, Some Und}" and "b_und b' = b_und b"
  shows "bfd_asymbol_value b' sy = bfd_asymbol_value b sy" and "elf_get_align_pwr b' sy = elf_get_align_pwr b sy"
proof -
  have "ucast (as_secndx sy) = SHN_COMMON \<or> ucast (as_secndx sy) = SHN_UNDEF"
    using assms(1) by (auto simp: bfd_get_section_def shdr2sec_def split: if_split_asm)
  then have "bfd_get_section b' sy = bfd_get_section b sy" by (auto simp: bfd_get_section_def shdr2sec_def)
  then show "bfd_asymbol_value b' sy = bfd_asymbol_value b sy" "elf_get_align_pwr b' sy = elf_get_align_pwr b sy"
    using assms by (auto simp: bfd_asymbol_value_def Let_def elf_get_align_pwr_def elf_get_align_def)
qed

text \<open>
  When an object brings new common symbols they get a section of their own, which is to be loaded: each symbol
  is replaced in its slot by one of its name in this section, at an offset with the alignment asked for; no two
  of them overlap, they lie within the size of the section, and the section has the alignment of the first. The
  sizes with their gaps add up to less than the address space.
\<close>

lemma commons_placed:
  assumes "make_new_commons env mok (b, ld) = Ok (0, b', ld')" and "ld_commons ld = is" "is \<noteq> []" "distinct is"
    and "\<forall>i \<in> set is. i < length (ld_st ld) \<and> (\<exists>k. ld_st ld ! i = Sym k) \<and>
      bfd_get_section b (old_sym b ld i) \<in> {Some Com, Some Und}"
    and "(\<Sum>i\<leftarrow>is. com_room b ld i) < 2 ^ 64"
    and "b_nsects b = n" "0 < n" "n < 0xff00" "sc_flags (b_sects b ! n) = 0"
    and "adr = (\<lambda>i. unat (as_val (get_sym b' (ld_st ld' ! i))))" and "sz = (\<lambda>i. unat (bfd_asymbol_value b (old_sym b ld i)))"
  shows "b_nsects b' = n + 1 \<and> is_alloc (b_sects b' ! n) \<and>
    sc_align (b_sects b' ! n) = of_nat (elf_get_align_pwr b (old_sym b ld (hd is))) \<and>
    (\<forall>i \<in> set is. bfd_get_section b' (get_sym b' (ld_st ld' ! i)) = Some (Sect n) \<and>
       as_name (get_sym b' (ld_st ld' ! i)) = as_name (old_sym b ld i) \<and>
       2 ^ elf_get_align_pwr b (old_sym b ld i) dvd adr i \<and> adr i + sz i \<le> unat (sc_size (b_sects b' ! n))) \<and>
    (\<forall>k < length is. \<forall>j < k. adr (is ! j) + sz (is ! j) \<le> adr (is ! k))"
proof -
  obtain nm c b1 where u: "bfd_get_unique_section_name mok ''.dummy'' None b = (nm, c, b1)" by (metis prod_cases3)
  have b1: "b_sects b1 = b_sects b" "b_nsects b1 = n" "b_und b1 = b_und b" "b_made b1 = b_made b" "b_syms b1 = b_syms b"
    using u assms(7) by (auto simp: bfd_get_unique_section_name_def Let_def split: if_split_asm)
  obtain s b2 v b3 where m: "n < length (b_sects b)"
      "b2 = upd_sec (Sect n) (\<lambda>s. s\<lparr>sc_flags := sc_flags s OR SEC_ALLOC\<rparr>)
          (upd_sec (Sect n) (\<lambda>s. s\<lparr>sc_name := map_option str_mem nm\<rparr>) (b1\<lparr>b_nsects := n + 1\<rparr>))"
      "bfd_set_section_alignment (of_nat (elf_get_align_pwr b2 (get_sym b2 (ld_st ld ! hd is)))) (get_sec b2 (Sect n)) = Ok s"
      "place_commons env (Sect n) is 0 (upd_sec (Sect n) (\<lambda>_. s) b2, ld) = Ok (v, b3, ld')"
      "b' = upd_sec (Sect n) (\<lambda>s. s\<lparr>sc_size := v\<rparr>) b3"
    using assms(1-3) u b1
    by (auto simp: make_new_commons_def bfd_make_section_def secget_def Let_def bind_res_Ok_iff
        simp del: upd_sec.simps get_sec.simps split: if_split_asm prod.split_asm option.split_asm)
  define b4 where "b4 = upd_sec (Sect n) (\<lambda>_. s) b2"
  have b4: "b_und b4 = b_und b" "b_made b4 = b_made b" "b_syms b4 = b_syms b" "b_nsects b4 = n + 1" "n < length (b_sects b4)"
    "b_sects b4 ! n = s" using b1 m(1) by (simp_all add: b4_def m(2))
  have old: "old_sym b4 ld i = old_sym b ld i" if i: "i \<in> set is" for i
  proof -
    obtain k where "ld_st ld ! i = Sym k" using i assms(5) by blast
    then show ?thesis by (simp add: old_sym_def syms_of_bfd_def b4)
  qed
  have fr: "bfd_asymbol_value b4 (old_sym b ld i) = bfd_asymbol_value b (old_sym b ld i)"
    "elf_get_align_pwr b4 (old_sym b ld i) = elf_get_align_pwr b (old_sym b ld i)" if i: "i \<in> set is" for i
    using com_frame [of b "old_sym b ld i" b4] assms(5) i b4 by blast+
  have room: "(\<Sum>i\<leftarrow>is. com_room b4 ld i) = (\<Sum>i\<leftarrow>is. com_room b ld i)"
    by (simp add: com_room_def old fr cong: map_cong)
  have "unat (0 :: u64) + (\<Sum>i\<leftarrow>is. com_room b4 ld i) < 2 ^ 64" using assms(6) room by simp
  from place_commons_result [OF m(4) [folded b4_def] assms(4) _ this] assms(5)
  obtain vs where vs: "length vs = length is" "packed 0 (map (area_of b4 ld) (zip is vs)) (unat v)"
    "b3 = b4\<lparr>b_made := b_made b4 @ map (\<lambda>(i, w). bfd_set_section (Some (Sect n))
        (zero_asym\<lparr>as_name := as_name (old_sym b4 ld i), as_val := w, as_flags := as_flags (old_sym b4 ld i)\<rparr>)) (zip is vs)\<rparr>"
    "\<forall>k < length is. ld_st ld' ! (is ! k) = Made (length (b_made b4) + k)" by auto
  have new: "get_sym b' (ld_st ld' ! (is ! k)) = bfd_set_section (Some (Sect n)) (zero_asym\<lparr>as_name := as_name (old_sym b ld (is ! k)),
      as_val := vs ! k, as_flags := as_flags (old_sym b ld (is ! k))\<rparr>)" if "k < length is" for k
    using that vs(1,4) old [OF nth_mem, of k] by (simp add: m(5) vs(3) nth_append)
  have ar: "map (area_of b4 ld) (zip is vs) ! k = (adr (is ! k), sz (is ! k), elf_get_align_pwr b (old_sym b ld (is ! k)))"
    if "k < length is" for k
    using that vs(1) old [OF nth_mem, of k] fr [OF nth_mem, of k] new [OF that]
    by (simp add: area_of_def assms(11,12) bfd_set_section_def)
  have al: "sc_align s = of_nat (elf_get_align_pwr b (old_sym b ld (hd is)))" and fl: "sc_flags s = SEC_ALLOC"
  proof -
    let ?h = "get_sym b2 (ld_st ld ! hd is)"
    have h: "hd is \<in> set is" using assms(3) by simp
    obtain k where "ld_st ld ! hd is = Sym k" using h assms(5) by blast
    then have "?h = old_sym b ld (hd is)" using b1(5) by (simp add: m(2) old_sym_def syms_of_bfd_def)
    moreover have "elf_get_align_pwr b2 (old_sym b ld (hd is)) = elf_get_align_pwr b (old_sym b ld (hd is))"
      by (rule com_frame) (use assms(5) h b1 in \<open>simp_all add: m(2)\<close>)
    moreover have "(ucast (of_nat p :: u32) :: u8) = of_nat p" if "p \<le> 32" for p
      using that by (simp add: word_eq_iff_unsigned unsigned_ucast_eq unsigned_of_nat take_bit_nat_eq_self)
    ultimately show "sc_align s = of_nat (elf_get_align_pwr b (old_sym b ld (hd is)))" "sc_flags s = SEC_ALLOC"
      using m(1,3) pwr_le_32 b1(1) assms(10) by (auto simp: bfd_set_section_alignment_def m(2) split: if_split_asm)
  qed
  have sec: "b_sects b' ! n = s\<lparr>sc_size := v\<rparr>" "b_nsects b' = n + 1"
    using b4(4-6) by (simp_all add: m(5) vs(3))
  have len: "length (map (area_of b4 ld) (zip is vs)) = length is" using vs(1) by simp
  have here: "bfd_get_section b' (get_sym b' (ld_st ld' ! (is ! k))) = Some (Sect n) \<and>
      as_name (get_sym b' (ld_st ld' ! (is ! k))) = as_name (old_sym b ld (is ! k)) \<and>
      2 ^ elf_get_align_pwr b (old_sym b ld (is ! k)) dvd adr (is ! k) \<and>
      adr (is ! k) + sz (is ! k) \<le> unat (sc_size (b_sects b' ! n))" if k: "k < length is" for k
  proof -
    define x where "x = (ucast (of_nat n :: u16) :: u32)"
    have u: "unat x = n"
      using assms(9) by (simp add: x_def unsigned_ucast_eq unsigned_of_nat take_bit_nat_eq_self)
    then have "x \<noteq> SHN_ABS" "x \<noteq> SHN_COMMON" "x \<noteq> SHN_UNDEF" using assms(8,9) by auto
    then have "bfd_get_section b' (get_sym b' (ld_st ld' ! (is ! k))) = Some (Sect n)"
      unfolding new [OF k] using sec fl u
      by (simp add: bfd_get_section_def bfd_set_section_def shdr2sec_def flip: x_def)
    then show ?thesis using packed_in [OF vs(2) _ ar [OF k]] k len new [OF k] sec
      by (simp add: bfd_set_section_def)
  qed
  moreover have "adr (is ! j) + sz (is ! j) \<le> adr (is ! k)" if "k < length is" "j < k" for j k
    using packed_apart [OF vs(2) that(2) _ ar ar] that len by simp
  ultimately show ?thesis using sec al fl by (auto simp: is_alloc_def in_set_conv_nth)
qed

end
