(* ===== verification/LoadLinks.thy ===== *)
theory LoadLinks imports LoadMem LoadCommons begin

text \<open>
  What the undefined symbols of an object that is loaded refer to: the value of a symbol of this name in
  another module, which is then needed by the new one.
\<close>

section \<open>The module that has a symbol\<close>

definition exports :: "CexpModule \<Rightarrow> string \<Rightarrow> bool" where
  "exports m nm \<longleftrightarrow> nm \<in> name_of ` set (entries (m_symtbl m))"

definition mods_sane :: "CexpModule list \<Rightarrow> bool" where
  "mods_sane ms \<longleftrightarrow> (\<forall>m \<in> set ms. tbl_ok (m_symtbl m) \<and> m_id m < MAX_NUM_MODULES) \<and> distinct (map m_addr ms)"

lemma mods_sane_Cons:
  "mods_sane (m # ms) \<longleftrightarrow> tbl_ok (m_symtbl m) \<and> m_id m < MAX_NUM_MODULES \<and> m_addr m \<notin> m_addr ` set ms \<and> mods_sane ms"
  by (auto simp: mods_sane_def)

text \<open>The search over the modules finds the first one that has the symbol.\<close>

lemma cexpSymLookup_first:
  assumes "mods_sane ms" and "plain nm"
  shows "case List.find (\<lambda>m. exports m nm) ms of
      None \<Rightarrow> cexpSymLookup sc nm ms = Ok (None, 0)
    | Some m \<Rightarrow> \<exists>i. cexpSymLookup sc nm ms = Ok (Some i, m_addr m) \<and> i < st_nentries (m_symtbl m) \<and>
        sy_name (mod_sym m i) = Some nm"
  using assms(1)
proof (induction ms)
  case (Cons m ms)
  then have ok: "tbl_ok (m_symtbl m)" "mods_sane ms" by (simp_all add: mods_sane_Cons)
  have name: "exports m nm" if "i < st_nentries (m_symtbl m)" "sy_name (syms_of (m_symtbl m) ! i) = Some nm" for i
  proof -
    have "syms_of (m_symtbl m) ! i \<in> set (entries (m_symtbl m))"
      using that(1) ok(1) by (auto simp: tbl_ok_def entries_def in_set_conv_nth)
    then show ?thesis using that(2) by (force simp: exports_def name_of_def)
  qed
  show ?case
    using lookup_tbl_ok [OF ok(1) assms(2), of sc] Cons.IH [OF ok(2)] name
    by (auto simp: exports_def mod_sym_def split: option.splits)
qed simp

lemma find_addr:
  assumes "distinct (map m_addr ms)" and "m \<in> set ms"
  shows "List.find (\<lambda>n. m_addr n = m_addr m) ms = Some m"
  using assms by (induction ms) (auto dest: image_eqI)

lemma lookup_idx_first:
  assumes "mods_sane (le_mods env)" and "plain nm"
  shows "case List.find (\<lambda>m. exports m nm) (le_mods env) of
      None \<Rightarrow> lookup_idx env nm = Ok None
    | Some m \<Rightarrow> \<exists>i. lookup_idx env nm = Ok (Some (i, m)) \<and> i < st_nentries (m_symtbl m) \<and> sy_name (mod_sym m i) = Some nm"
proof (cases "List.find (\<lambda>m. exports m nm) (le_mods env)")
  case None
  then show ?thesis using cexpSymLookup_first [OF assms, of "le_sc env"] by (simp add: lookup_idx_def)
next
  case (Some m)
  then have "List.find (\<lambda>n. m_addr n = m_addr m) (le_mods env) = Some m"
    using assms(1) by (intro find_addr) (auto simp: mods_sane_def dest: find_mem)
  then show ?thesis using cexpSymLookup_first [OF assms, of "le_sc env"] Some by (auto simp: lookup_idx_def)
qed

text \<open>The symbol that stands for one of another module.\<close>

lemma asymFromCexpSym_value:
  assumes "\<forall>k. le_symok env k" and "m_id m < MAX_NUM_MODULES" and "bm_ok (ld_depend ld)" and "sc_vma (b_abs b) = 0"
  shows "\<exists>r b' ld'. asymFromCexpSym env ts m (b, ld) = Ok (r, b', ld') \<and>
    bfd_get_section b' (get_sym b' r) = Some Abs \<and> bfd_asymbol_value b' (get_sym b' r) = ca_ptv (sy_value ts) \<and>
    BITMAP_TST (ld_depend ld') (m_id m) \<and> ld' = ld\<lparr>ld_depend := ld_depend ld'\<rparr>"
proof -
  have "(ucast (ucast SHN_ABS :: u16) :: u32) = SHN_ABS" by simp
  then show ?thesis using assms
    by (auto simp: asymFromCexpSym_def new_symbol_def bfd_make_empty_symbol_def bfd_get_section_def bfd_asymbol_value_def
        bfd_set_section_def shdr2sec_def Let_def MAX_NUM_MODULES_def TST_SET zero_asym_def)
qed


lemma reloc_symbol_exported:
  assumes "mods_sane (le_mods env)" and "plain nm" and "\<forall>k. le_symok env k" and "sp_dso sys = None"
    and "sc_vma (b_abs b) = 0" and "bm_ok (ld_depend ld)" and "slot < length (ld_st ld)"
    and "bfd_get_section b (get_sym b (ld_st ld ! slot)) = Some Und" and "c_str (as_name (get_sym b (ld_st ld ! slot))) = Ok nm"
  shows "case List.find (\<lambda>m. exports m nm) (le_mods env) of
      None \<Rightarrow> reloc_symbol env sys a slot (b, ld) = Ok (False, b, ld)
    | Some m \<Rightarrow> \<exists>i b' ld'. reloc_symbol env sys a slot (b, ld) = Ok (True, b', ld') \<and> i < st_nentries (m_symtbl m) \<and>
        sy_name (mod_sym m i) = Some nm \<and>
        bfd_get_section b' (get_sym b' (ld_st ld' ! slot)) = Some Abs \<and>
        bfd_asymbol_value b' (get_sym b' (ld_st ld' ! slot)) = ca_ptv (sy_value (mod_sym m i)) \<and>
        BITMAP_TST (ld_depend ld') (m_id m) \<and> ld_mem ld' = ld_mem ld \<and> ld_errors ld' = ld_errors ld"
proof (cases "List.find (\<lambda>m. exports m nm) (le_mods env)")
  case None
  then show ?thesis using lookup_idx_first [OF assms(1,2)] assms(8,9) by (simp add: reloc_symbol_def Let_def)
next
  case (Some m)
  then obtain i where i: "lookup_idx env nm = Ok (Some (i, m))" "i < st_nentries (m_symtbl m)" "sy_name (mod_sym m i) = Some nm"
    using lookup_idx_first [OF assms(1,2)] by auto
  have "m_id m < MAX_NUM_MODULES" using assms(1) find_mem [OF Some] by (auto simp: mods_sane_def)
  from asymFromCexpSym_value [OF assms(3) this assms(6,5), of "mod_sym m i"]
  obtain r b' ld' where r: "asymFromCexpSym env (mod_sym m i) m (b, ld) = Ok (r, b', ld')"
    "bfd_get_section b' (get_sym b' r) = Some Abs" "bfd_asymbol_value b' (get_sym b' r) = ca_ptv (sy_value (mod_sym m i))"
    "BITMAP_TST (ld_depend ld') (m_id m)" "ld' = ld\<lparr>ld_depend := ld_depend ld'\<rparr>" by blast
  have st: "ld_st ld' = ld_st ld" "ld_mem ld' = ld_mem ld" "ld_errors ld' = ld_errors ld" by (subst r(5), simp)+
  have "reloc_symbol env sys a slot (b, ld) = Ok (True, b', set_slot slot r ld')"
    using i assms(4,8,9) r(1) by (simp add: reloc_symbol_def Let_def)
  then show ?thesis using Some i r(2-4) st assms(7) by (auto simp: set_slot_def)
qed

text \<open>C10: A relocation that refers to an undefined symbol is done by the 64-bit engine with the value that a
  symbol of this name has in the first module of the list that has one, and this module is recorded as needed;
  when the engine refuses, the errors are counted up. When no module has such a symbol, the errors are counted
  up and nothing else is changed. The entry has its 24 bytes and selects a symbol of the table; the name has
  7-bit characters and carries no version; the symbol tables of the modules are sorted and terminated, their
  numbers are below 256 and their records at different addresses, and the first one has no symbol
  \<open>__dso_handle\<close>, which would be treated in another way. The absolute section lies at 0, the set of needed
  modules is a proper bitmap, and there is memory for the new symbol.\<close>

theorem reference_resolved:
  assumes "mods_sane (le_mods env)" and "plain nm" and "\<forall>k. le_symok env k" and "sp_dso sys = None"
    and "sc_vma (b_abs b) = 0" and "bm_ok (ld_depend ld)"
    and "pmbfd_reloc_get_sym_idx (le_lsb env) b r = int slot" and "slot < length (ld_st ld)" and "24 \<le> length r"
    and "bfd_get_section b (get_sym b (ld_st ld ! slot)) = Some Und" and "c_str (as_name (get_sym b (ld_st ld ! slot))) = Ok nm"
  shows "case List.find (\<lambda>m. exports m nm) (le_mods env) of
      None \<Rightarrow> reloc_entry env sys a s r (b, ld) = Ok (b, ld\<lparr>ld_errors := ld_errors ld + 1\<rparr>)
    | Some m \<Rightarrow> \<exists>i b' ld' st. reloc_entry env sys a s r (b, ld) = Ok (b', ld') \<and> i < st_nentries (m_symtbl m) \<and>
        sy_name (mod_sym m i) = Some nm \<and> BITMAP_TST (ld_depend ld') (m_id m) \<and>
        x86_64_reloc (le_lsb env) \<lparr>ts_vma = sc_vma s, ts_size = sc_size s\<rparr>
          \<lparr>ty_und = False, ty_value = ca_ptv (sy_value (mod_sym m i))\<rparr> (image_rela64 (le_lsb env) r) (ld_mem ld)
        = (st, ld_mem ld') \<and> ld_errors ld' = ld_errors ld + (if st = bfd_reloc_ok then 0 else 1)"
proof (cases "List.find (\<lambda>m. exports m nm) (le_mods env)")
  case None
  then show ?thesis
    using reloc_symbol_exported [OF assms(1-6,8,10,11)] assms(7,8) by (simp add: reloc_entry_def Let_def count_error_def not_le)
next
  case (Some m)
  from reloc_symbol_exported [OF assms(1-6,8,10,11), of a, unfolded Some option.case]
  obtain i b' ld' where s: "reloc_symbol env sys a slot (b, ld) = Ok (True, b', ld')" "i < st_nentries (m_symtbl m)"
    "sy_name (mod_sym m i) = Some nm" "bfd_get_section b' (get_sym b' (ld_st ld' ! slot)) = Some Abs"
    "bfd_asymbol_value b' (get_sym b' (ld_st ld' ! slot)) = ca_ptv (sy_value (mod_sym m i))"
    "BITMAP_TST (ld_depend ld') (m_id m)" "ld_mem ld' = ld_mem ld" "ld_errors ld' = ld_errors ld" by blast
  obtain st mem where x: "x86_64_reloc (le_lsb env) \<lparr>ts_vma = sc_vma s, ts_size = sc_size s\<rparr>
      \<lparr>ty_und = False, ty_value = ca_ptv (sy_value (mod_sym m i))\<rparr> (image_rela64 (le_lsb env) r) (ld_mem ld) = (st, mem)"
    by fastforce
  have "reloc_entry env sys a s r (b, ld) = do_reloc env s slot r (b', ld')"
    using assms(7,8,10) s(1) by (simp add: reloc_entry_def Let_def not_le)
  also have "\<dots> = Ok (if st = bfd_reloc_ok then (b', ld'\<lparr>ld_mem := mem\<rparr>) else count_error (b', ld'\<lparr>ld_mem := mem\<rparr>))"
    using assms(9) s(4,5,7) x by (simp add: do_reloc_def Let_def)
  finally have e: "reloc_entry env sys a s r (b, ld) = \<dots>" .
  define ld2 where "ld2 = (if st = bfd_reloc_ok then ld'\<lparr>ld_mem := mem\<rparr> else ld'\<lparr>ld_mem := mem, ld_errors := ld_errors ld' + 1\<rparr>)"
  have "reloc_entry env sys a s r (b, ld) = Ok (b', ld2)" unfolding e by (simp add: ld2_def count_error_def)
  moreover have "BITMAP_TST (ld_depend ld2) (m_id m)" "ld_mem ld2 = mem"
    "ld_errors ld2 = ld_errors ld + (if st = bfd_reloc_ok then 0 else 1)" using s(6,8) by (simp_all add: ld2_def)
  ultimately show ?thesis using Some s(2,3) x by auto
qed

text \<open>The text calls \<open>f\<close>, which the second of two modules has.\<close>

definition li_mod :: "u64 \<Rightarrow> nat \<Rightarrow> string \<Rightarrow> CexpModule" where
  "li_mod a k nm = (zero_mod a)\<lparr>m_id := k, m_symtbl := zero_tbl\<lparr>st_nentries := 1,
     st_syms := Some [zero_sym\<lparr>sy_name := Some nm, sy_value := \<lparr>ca_ptv = 0x5000, ca_type = TFuncP\<rparr>\<rparr>, zero_sym]\<rparr>\<rparr>"

definition li_env :: ld_env where "li_env = lay_env\<lparr>le_mods := [li_mod 100 0 ''e'', li_mod 200 1 ''f'']\<rparr>"

definition li_bfd :: bfd where
  "li_bfd = lm_bfd\<lparr>b_syms := Some [zero_asym\<lparr>as_name := Some (str_mem ''f'')\<rparr>]\<rparr>"

definition li_ld :: link_data where "li_ld = (ld_zero [] no_bits (\<lambda>_. 0))\<lparr>ld_st := [Sym 0]\<rparr>"

definition li_run where
  "li_run = reloc_entry li_env \<lparr>sp_register = 0, sp_deregister = 0, sp_cxa = 0, sp_dso = None\<rparr> 0
     (zero_sec\<lparr>sc_vma := 0x1000, sc_size := 8\<rparr>) (drop 8 lm_data) (li_bfd, li_ld)"

lemma li_sane: "mods_sane (le_mods li_env)"
  by (simp add: mods_sane_def li_env_def lay_env_def li_mod_def tbl_ok_def entries_def syms_of_def zero_tbl_def zero_mod_def
      name_ok_def MAX_NUM_MODULES_def marker_def LINKER_VERSION_SEPARATOR_def)

lemma reference_resolved_witness:
  "\<exists>b ld. li_run = Ok (b, ld) \<and> BITMAP_TST (ld_depend ld) 1 \<and> ld_mem ld 0x1001 = 0x50"
proof -
  have f: "List.find (\<lambda>m. exports m ''f'') (le_mods li_env) = Some (li_mod 200 1 ''f'')"
    by (simp add: exports_def li_env_def lay_env_def li_mod_def entries_def syms_of_def zero_tbl_def zero_mod_def name_of_def)
  have idx: "pmbfd_reloc_get_sym_idx (le_lsb li_env) li_bfd (drop 8 lm_data) = int 0" by code_simp
  have und: "bfd_get_section li_bfd (get_sym li_bfd (ld_st li_ld ! 0)) = Some Und" by code_simp
  have nm: "c_str (as_name (get_sym li_bfd (ld_st li_ld ! 0))) = Ok ''f''" by code_simp
  obtain b ld where run: "li_run = Ok (b, ld)" "BITMAP_TST (ld_depend ld) 1"
    using reference_resolved [OF li_sane _ _ _ _ _ idx _ _ und nm, unfolded f,
        of "\<lparr>sp_register = 0, sp_deregister = 0, sp_cxa = 0, sp_dso = None\<rparr>" 0 "zero_sec\<lparr>sc_vma := 0x1000, sc_size := 8\<rparr>"]
    by (auto simp: li_run_def li_env_def lay_env_def li_bfd_def lm_bfd_def bfd_start_def li_ld_def ld_zero_def lm_data_def
        zero_sec_def li_mod_def zero_mod_def LINKER_VERSION_SEPARATOR_def)
  have "case li_run of Ok (b, ld) \<Rightarrow> ld_mem ld 0x1001 = 0x50 | _ \<Rightarrow> False" by code_simp
  then have "ld_mem ld 0x1001 = 0x50" unfolding run(1) by simp
  with run show ?thesis by blast
qed

end
