(* ===== verification/Attributes.thy ===== *)
theory Attributes imports ElfTables begin

text \<open>
  Object attributes (\<open>pmbfd/attrP.h\<close>, \<open>guleb128.c\<close>, \<open>getwrd.c\<close>, \<open>attpbfasread.c\<close>,
  \<open>attpbfasmatch.c\<close>, \<open>attset.c\<close>, \<open>att-gnu-powerpc.c\<close>, \<open>attvendfind.c\<close>): the parser of a
  \<open>.gnu_attributes\<close> section, the tables it fills, and the comparison of the attributes of two
  objects, which decides whether a module may be loaded into the running system.
\<close>

section \<open>Decoding numbers\<close>

text \<open>
  \<open>pmelf_guleb128\<close>: \<open>sz\<close> is the size the caller passes, the list the bytes that are really there.
  A shift of a 32-bit operand by 32 or more is undefined.
\<close>

fun guleb_loop :: "bytes \<Rightarrow> int \<Rightarrow> nat \<Rightarrow> u32 \<Rightarrow> nat \<Rightarrow> (u32 \<times> nat) res" where
  "guleb_loop [] sz n rval shft = (if sz \<le> int n then Fail (-1) else UB)"
| "guleb_loop (v # s) sz n rval shft =
     (if sz \<le> int n then Fail (-1)
      else if shft \<ge> 32 then UB
      else let rval = rval OR push_bit shft (ucast (v AND 0x7f)) in
           if v AND 0x80 \<noteq> 0 then guleb_loop s sz (n + 1) rval (shft + 7) else Ok (rval, n + 1))"

definition pmelf_guleb128 :: "bytes \<Rightarrow> int \<Rightarrow> (u32 \<times> nat) res" where
  "pmelf_guleb128 s sz = guleb_loop s sz 0 0 0"

text \<open>\<open>pmelf_getword\<close>: the size is compared as a \<open>size_t\<close>, so that a negative one passes.\<close>

definition pmelf_getword :: "bool \<Rightarrow> bool \<Rightarrow> bytes \<Rightarrow> int \<Rightarrow> u32 res" where
  "pmelf_getword lsb needswap b sz =
     (if 0 \<le> sz \<and> sz < 4 then Fail (-1)
      else if length b < 4 then UB
      else let w = host_word lsb (take 4 b) in Ok (if needswap then elf_swap32 w else w))"

text \<open>The conversion of a wider value to \<open>int\<close>.\<close>

definition c_int :: "int \<Rightarrow> int" where
  "c_int x = sint (word_of_int x :: u32)"

text \<open>The encoding that is decoded: groups of seven bits, the least significant first.\<close>

fun uleb_enc :: "nat \<Rightarrow> bytes" where
  "uleb_enc m = (if m < 128 then [of_nat m] else of_nat (m mod 128 + 128) # uleb_enc (m div 128))"

declare uleb_enc.simps [simp del]

lemma and_0x80_iff: "(v :: u8) AND 0x80 = 0 \<longleftrightarrow> \<not> bit v 7"
  using and_exp_eq_0_iff_not_bit [of v 7] by simp

lemma and_0x7f_eq: "(v :: u8) AND 0x7f = take_bit 7 v"
  by (simp add: take_bit_eq_mask mask_eq_exp_minus_1)

lemma bit_below_128: "m < 128 \<Longrightarrow> bit (m :: nat) i \<Longrightarrow> i < 7"
proof -
  assume "m < 128" and "bit m i"
  then have "take_bit 7 m = m" by (simp add: take_bit_nat_eq_self)
  with \<open>bit m i\<close> show "i < 7" by (metis bit_take_bit_iff)
qed

lemma uleb_last: 
  assumes "m < 128"
  shows "(of_nat m :: u8) AND 0x80 = 0" and "ucast ((of_nat m :: u8) AND 0x7f) = (of_nat m :: u32)"
proof -
  show "(of_nat m :: u8) AND 0x80 = 0"
    using assms by (auto simp: and_0x80_iff bit_simps dest: bit_below_128)
  show "ucast ((of_nat m :: u8) AND 0x7f) = (of_nat m :: u32)"
    unfolding and_0x7f_eq
    using assms by (intro bit_word_eqI) (auto simp: bit_simps dest: bit_below_128)
qed

lemma bit_128_iff: "bit (128 :: nat) n \<longleftrightarrow> n = 7"
proof -
  have "bit ((2 :: nat) ^ 7) n \<longleftrightarrow> n = 7" by (simp only: bit_exp_iff) auto
  then show ?thesis by simp
qed

lemma uleb_more:
  shows "(of_nat (m mod 128 + 128) :: u8) AND 0x80 \<noteq> 0"
    and "ucast ((of_nat (m mod 128 + 128) :: u8) AND 0x7f) = (take_bit 7 (of_nat m) :: u32)"
proof -
  have e: "m mod 128 + 128 = (take_bit 7 m OR push_bit 7 1 :: nat)"
  proof -
    have "take_bit 7 m + push_bit 7 (1 :: nat) = (take_bit 7 m OR push_bit 7 1)"
      by (rule disjunctive_add) (auto simp only: bit_take_bit_iff bit_push_bit_iff)
    then show ?thesis by (simp add: take_bit_eq_mod)
  qed
  show "(of_nat (m mod 128 + 128) :: u8) AND 0x80 \<noteq> 0"
    unfolding e and_0x80_iff by (simp add: bit_simps bit_128_iff)
  show "ucast ((of_nat (m mod 128 + 128) :: u8) AND 0x7f) = (take_bit 7 (of_nat m) :: u32)"
    unfolding e and_0x7f_eq by (intro bit_word_eqI) (auto simp: bit_simps bit_128_iff)
qed

lemma word_7_split: "take_bit 7 (of_nat m) OR push_bit 7 (of_nat (m div 128)) = (of_nat m :: u32)"
proof -
  have "m div 128 = drop_bit 7 m" by (simp add: drop_bit_eq_div)
  then show ?thesis by (intro bit_word_eqI) (auto simp: bit_simps)
qed

lemma guleb_loop_enc:
  assumes "int (n + length (uleb_enc m)) \<le> sz" and "m * 2 ^ shft < 2 ^ 32" and "shft < 32"
  shows "guleb_loop (uleb_enc m @ r) sz n rval shft =
    Ok (rval OR push_bit shft (of_nat m), n + length (uleb_enc m))"
  using assms
proof (induction m arbitrary: n rval shft rule: uleb_enc.induct)
  case (1 m)
  show ?case
  proof (cases "m < 128")
    case True
    then show ?thesis
      using 1(2-) uleb_last [OF True] by (simp add: uleb_enc.simps [of m] Let_def)
  next
    case False
    have "shft < 25"
    proof (rule ccontr)
      assume "\<not> shft < 25"
      then have "(2 :: nat) ^ 25 \<le> 2 ^ shft" by (intro power_increasing) auto
      then have "128 * 2 ^ 25 \<le> m * 2 ^ shft" using False by (intro mult_le_mono) auto
      with 1(3) show False by simp
    qed
    moreover have "m div 128 * 2 ^ (shft + 7) < 2 ^ 32"
    proof -
      have "m div 128 * 2 ^ (shft + 7) = (m div 128 * 128) * 2 ^ shft" by (simp add: power_add)
      also have "\<dots> \<le> m * 2 ^ shft" by (intro mult_le_mono) auto
      finally show ?thesis using 1(3) by simp
    qed
    moreover have "int (n + 1 + length (uleb_enc (m div 128))) \<le> sz"
      using 1(2) False by (simp add: uleb_enc.simps [of m])
    ultimately have "guleb_loop (uleb_enc (m div 128) @ r) sz (n + 1)
        (rval OR push_bit shft (take_bit 7 (of_nat m))) (shft + 7) =
      Ok ((rval OR push_bit shft (take_bit 7 (of_nat m))) OR push_bit (shft + 7) (of_nat (m div 128)),
          n + 1 + length (uleb_enc (m div 128)))"
      using False by (intro 1(1)) auto
    moreover have "push_bit shft (take_bit 7 (of_nat m)) OR push_bit (shft + 7) (of_nat (m div 128)) =
        push_bit shft (of_nat m :: u32)"
      using arg_cong [OF word_7_split [of m], of "push_bit shft"] by (simp add: push_bit_or push_bit_push_bit add.commute)
    ultimately show ?thesis
      using False uleb_more [of m] 1(2) \<open>shft < 25\<close>
      by (simp add: uleb_enc.simps [of m] Let_def or.assoc)
  qed
qed

lemma guleb128_enc:
  assumes "m < 2 ^ 32" and "int (length (uleb_enc m)) \<le> sz"
  shows "pmelf_guleb128 (uleb_enc m @ r) sz = Ok (of_nat m, length (uleb_enc m))"
  using guleb_loop_enc [of 0 m sz 0 r 0] assms by (simp add: pmelf_guleb128_def)

section \<open>Attribute tables\<close>

abbreviation Tag_File :: u32 where "Tag_File \<equiv> 1"
abbreviation Tag_Section :: u32 where "Tag_Section \<equiv> 2"
abbreviation Tag_Symbol :: u32 where "Tag_Symbol \<equiv> 3"
abbreviation Tag_Compat :: u32 where "Tag_Compat \<equiv> 32"

datatype attr_type = T_unknown | T_none | T_num | T_str | T_both

text \<open>
  A value in the public representation; the string is a pointer into the section, here the string
  itself. \<open>vals\<close> is the array of values, \<open>None\<close> where it has been allocated and not yet written;
  \<open>map\<close> has \<open>max_tag + 1\<close> entries. The vendor a table belongs to is known by its name.
\<close>

record pub_attr =
  pa_i :: u32
  pa_s :: "bytes option"

record attr_tbl =
  at_pv :: bytes
  at_vals :: "pub_attr option list"
  at_avail :: u8
  at_idx :: u8
  at_lst :: "(u32 \<times> pub_attr) list"
  at_map :: "u8 list"

text \<open>
  The loop that looks for elements of the same tag and links the new element in. The pointer the
  inner loop tests never moves, so the loop does not end once two elements with the tag stand next
  to each other.
\<close>

fun attr_insert :: "u32 \<Rightarrow> pub_attr \<Rightarrow> (u32 \<times> pub_attr) list \<Rightarrow> (u32 \<times> pub_attr) list res" where
  "attr_insert tag v [] = Ok [(tag, v)]"
| "attr_insert tag v (x # xs) =
     (if fst x = tag
      then if xs \<noteq> [] \<and> fst (hd xs) = tag then Hang else Ok ((tag, v) # x # xs)
      else bind_res (attr_insert tag v xs) (\<lambda>ys. Ok (x # ys)))"

text \<open>\<open>for ( l=0; buf[l++]; ) if ( l >= size ) goto cleanup\<close>\<close>

fun scan_str :: "bytes \<Rightarrow> nat \<Rightarrow> nat \<Rightarrow> nat res" where
  "scan_str [] l sz = UB"
| "scan_str (b # bs) l sz =
     (if b = 0 then Ok (l + 1) else if l + 1 \<ge> sz then Fail (-1) else scan_str bs (l + 1) sz)"

abbreviation CHUNKSZ :: u32 where "CHUNKSZ \<equiv> 30"

text \<open>Growing the array of values: \<open>realloc\<close> keeps what fits.\<close>

definition attr_grow :: "bool \<Rightarrow> u32 \<Rightarrow> attr_tbl \<Rightarrow> unit res \<times> attr_tbl" where
  "attr_grow mok max_tag t =
     (let csz = (if CHUNKSZ < max_tag then CHUNKSZ else max_tag);
          len = unat (at_idx t) + unat csz
      in if \<not> mok then (Fail (-1), t\<lparr>at_vals := []\<rparr>)
         else (Ok (), t\<lparr>at_vals := take len (at_vals t) @ replicate (len - length (at_vals t)) None,
                        at_avail := at_avail t + ucast csz\<rparr>))"

definition attr_store :: "u32 \<Rightarrow> pub_attr \<Rightarrow> attr_tbl \<Rightarrow> unit res \<times> attr_tbl" where
  "attr_store tag v t =
     (if unat (at_idx t) < length (at_vals t) \<and> unat tag < length (at_map t)
      then (Ok (), t\<lparr>at_map := (at_map t)[unat tag := at_idx t],
                     at_vals := (at_vals t)[unat (at_idx t) := Some v],
                     at_idx := at_idx t + 1\<rparr>)
      else (UB, t))"

text \<open>The value of an attribute of type \<open>tagt\<close>: the value, the bytes left and their number.\<close>

definition attr_value :: "attr_type \<Rightarrow> bytes \<Rightarrow> u32 \<Rightarrow> (pub_attr \<times> bytes \<times> u32) res" where
  "attr_value tagt buf sz =
     bind_res
       (if tagt = T_num \<or> tagt = T_both
        then bind_res (pmelf_guleb128 buf (c_int (uint sz))) (\<lambda>(ival, n).
               Ok (ival, drop n buf, sz - of_nat n))
        else Ok (0, buf, sz))
     (\<lambda>(ival, buf, sz).
        if tagt = T_num then Ok (\<lparr>pa_i = ival, pa_s = None\<rparr>, buf, sz)
        else bind_res (scan_str buf 0 (unat sz)) (\<lambda>l.
          Ok (\<lparr>pa_i = ival, pa_s = Some (take (l - 1) buf)\<rparr>, drop l buf, sz - of_nat l)))"

text \<open>
  One turn of the loop of \<open>pmelf_pub_file_attributes_read\<close>. \<open>tag_type\<close> and \<open>max_tag\<close> are those of
  the vendor of the table; \<open>mok\<close> tells whether an allocation succeeds, by the number of bytes left
  when it is made.
\<close>

definition in_array :: "u32 \<Rightarrow> u32 \<Rightarrow> bool" where
  "in_array max_tag tag \<longleftrightarrow> tag \<le> max_tag \<and> tag \<noteq> Tag_Compat"

definition attr_reserve :: "bool \<Rightarrow> u32 \<Rightarrow> u32 \<Rightarrow> attr_tbl \<Rightarrow> unit res \<times> attr_tbl" where
  "attr_reserve mok max_tag tag t =
     (if at_avail t = 0 \<and> in_array max_tag tag then attr_grow mok max_tag t else (Ok (), t))"

definition attr_tag_type :: "(u32 \<Rightarrow> attr_type) option \<Rightarrow> u32 \<Rightarrow> attr_type" where
  "attr_tag_type tag_type tag =
     (if tag = Tag_Compat then T_both
      else case tag_type of None \<Rightarrow> T_unknown | Some f \<Rightarrow> f tag)"

definition pub_read_one ::
    "(u32 \<Rightarrow> attr_type) option \<Rightarrow> u32 \<Rightarrow> (nat \<Rightarrow> bool) \<Rightarrow> attr_tbl \<Rightarrow> bytes \<Rightarrow> u32 \<Rightarrow> (bytes \<times> u32) res \<times> attr_tbl"
  where
  "pub_read_one tag_type max_tag mok t buf sz =
     then_do (pmelf_guleb128 buf (c_int (uint sz)), t) (\<lambda>(tag, n) t.
     let buf = drop n buf; sz = sz - of_nat n; arr = in_array max_tag tag in
     then_do (attr_reserve (mok (unat sz)) max_tag tag t) (\<lambda>_ t.
     if arr \<and> unat tag \<ge> length (at_map t) then (UB, t)
     else if arr \<and> at_map t ! unat tag \<noteq> 0 then (Fail (-1), t)
     else
       let tagt = attr_tag_type tag_type tag
       in if tagt = T_unknown then (Fail (-1), t)
          else if tagt = T_none then (Ok (buf, sz), t)
          else then_do (attr_value tagt buf sz, t) (\<lambda>(v, buf', sz') t.
            if arr then then_do (attr_store tag v t) (\<lambda>_ t. (Ok (buf', sz'), t))
            else if \<not> mok (unat sz') then (Fail (-1), t)
            else then_do (attr_insert tag v (at_lst t), t) (\<lambda>l t.
                   (Ok (buf', sz'), t\<lparr>at_lst := l\<rparr>)))))"

lemma guleb_loop_consumes:
  "guleb_loop s sz n rval shft = Ok (w, m) \<Longrightarrow> n < m \<and> m \<le> n + length s"
  by (induction s sz n rval shft rule: guleb_loop.induct) (auto simp: Let_def split: if_splits)

lemma guleb128_consumes: "pmelf_guleb128 s sz = Ok (w, m) \<Longrightarrow> 0 < m \<and> m \<le> length s"
  using guleb_loop_consumes by (force simp: pmelf_guleb128_def)

lemma attr_value_consumes: "attr_value tagt buf sz = Ok (v, buf', sz') \<Longrightarrow> length buf' \<le> length buf"
  by (auto simp: attr_value_def bind_res_Ok_iff split: if_splits)

lemma fst_then_do_Ok:
  "fst (then_do p f) = Ok w \<longleftrightarrow> (\<exists>v. fst p = Ok v \<and> fst (f v (snd p)) = Ok w)"
  by (auto simp: fst_then_do split: res.splits)

lemma pub_read_one_consumes:
  assumes "fst (pub_read_one tag_type max_tag mok t buf sz) = Ok (buf', sz')"
  shows "length buf' < length buf"
proof -
  obtain tag n where g: "pmelf_guleb128 buf (c_int (uint sz)) = Ok (tag, n)"
    using assms by (auto simp: pub_read_one_def fst_then_do_Ok)
  then have n: "0 < n" "n \<le> length buf" using guleb128_consumes by blast+
  have "buf' = drop n buf \<or>
      (\<exists>tagt v. attr_value tagt (drop n buf) (sz - of_nat n) = Ok (v, buf', sz'))"
    using assms
    by (auto simp: pub_read_one_def fst_then_do_Ok g Let_def split: if_splits)
  then show ?thesis using n attr_value_consumes by force
qed

lemma pub_read_one_shorter:
  "(Ok (buf', sz'), t') = pub_read_one tag_type max_tag mok t buf sz \<Longrightarrow> length buf' < length buf"
  using pub_read_one_consumes [of tag_type max_tag mok t buf sz buf' sz'] by (metis fst_conv)

function pub_read_loop ::
    "(u32 \<Rightarrow> attr_type) option \<Rightarrow> u32 \<Rightarrow> (nat \<Rightarrow> bool) \<Rightarrow> attr_tbl \<Rightarrow> bytes \<Rightarrow> u32 \<Rightarrow> unit res \<times> attr_tbl"
  where
  "pub_read_loop tag_type max_tag mok t buf sz =
     (if sz = 0 then (Ok (), t)
      else case pub_read_one tag_type max_tag mok t buf sz of
             (Ok (buf', sz'), t') \<Rightarrow> pub_read_loop tag_type max_tag mok t' buf' sz'
           | (Fail e, t') \<Rightarrow> (Fail (-1), t')
           | (UB, t') \<Rightarrow> (UB, t')
           | (Hang, t') \<Rightarrow> (Hang, t'))"
  by pat_completeness auto

termination
  by (relation "measure (\<lambda>(_, _, _, _, buf, _). length buf)") 
     (auto dest: pub_read_one_shorter)

declare pub_read_loop.simps [simp del]

text \<open>\<open>pmelf_pub_file_attributes_read\<close>: an empty subsection, or the loop.\<close>

definition pub_file_attributes_read ::
    "(u32 \<Rightarrow> attr_type) option \<Rightarrow> u32 \<Rightarrow> (nat \<Rightarrow> bool) \<Rightarrow> attr_tbl option \<Rightarrow> bytes \<Rightarrow> u32 \<Rightarrow>
       unit res \<times> attr_tbl option"
  where
  "pub_file_attributes_read tag_type max_tag mok t buf sz =
     (if sz = 0 then (Ok (), t)
      else case t of
             None \<Rightarrow> (Fail (-1), None)
           | Some tb \<Rightarrow> (case pub_read_loop tag_type max_tag mok tb buf sz of (r, tb') \<Rightarrow> (r, Some tb')))"

definition pub_file_attributes_destroy :: "attr_tbl \<Rightarrow> attr_tbl" where
  "pub_file_attributes_destroy t = t\<lparr>at_vals := [], at_lst := []\<rparr>"

text \<open>\<open>pmelf_attribute_get_tag_val\<close>: first the array, then the list.\<close>

definition attribute_get_tag_val :: "u32 \<Rightarrow> attr_tbl \<Rightarrow> u32 \<Rightarrow> pub_attr res" where
  "attribute_get_tag_val max_tag t tag =
     (if in_array max_tag tag \<and> unat tag \<ge> length (at_map t) then UB
      else if in_array max_tag tag \<and> at_map t ! unat tag \<noteq> 0
      then (let i = unat (at_map t ! unat tag)
            in if i < length (at_vals t)
               then (case at_vals t ! i of None \<Rightarrow> UB | Some v \<Rightarrow> Ok v) else UB)
      else (case map_of (at_lst t) tag of None \<Rightarrow> Fail (-1) | Some v \<Rightarrow> Ok v))"

section \<open>Compatibility\<close>

text \<open>The comparison of \<open>Tag_Compat\<close> attributes: the run of them at the first one in the list.\<close>

fun find_compat :: "(u32 \<times> pub_attr) list \<Rightarrow> (u32 \<times> pub_attr) list" where
  "find_compat [] = []"
| "find_compat (x # xs) = (if fst x = Tag_Compat then x # xs else find_compat xs)"

fun filter_nongnu_loop :: "(u32 \<times> pub_attr) list \<Rightarrow> int \<Rightarrow> int" where
  "filter_nongnu_loop [] flgs = flgs"
| "filter_nongnu_loop (x # xs) flgs =
     (if fst x = Tag_Compat then
        if pa_i (snd x) > 0 then
          (case pa_s (snd x) of
             None \<Rightarrow> -1
           | Some s \<Rightarrow> if s \<noteq> str_bytes ''gnu'' then -1
                       else filter_nongnu_loop xs (if pa_i (snd x) > 1 then flgs + 1 else flgs))
        else filter_nongnu_loop xs flgs
      else flgs)"

definition filter_nongnu :: "(u32 \<times> pub_attr) list \<Rightarrow> int" where
  "filter_nongnu el = filter_nongnu_loop el 0"

fun find_flag :: "u32 \<Rightarrow> (u32 \<times> pub_attr) list \<Rightarrow> bool" where
  "find_flag flg [] = False"
| "find_flag flg (x # xs) =
     (if fst x \<noteq> Tag_Compat then False else if flg \<noteq> pa_i (snd x) then find_flag flg xs else True)"

fun filter_gt1 :: "(u32 \<times> pub_attr) list \<Rightarrow> (u32 \<times> pub_attr) list \<Rightarrow> int" where
  "filter_gt1 [] elb = 0"
| "filter_gt1 (x # xs) elb =
     (if fst x = Tag_Compat then
        if pa_i (snd x) > 1 \<and> \<not> find_flag (pa_i (snd x)) elb then -1 else filter_gt1 xs elb
      else 0)"

definition match_compat :: "attr_tbl \<Rightarrow> attr_tbl \<Rightarrow> int" where
  "match_compat ta tb =
     (let ela = find_compat (at_lst ta); elb = find_compat (at_lst tb) in
      if ela \<noteq> [] \<and> filter_nongnu ela < 0 then -1
      else if elb \<noteq> [] \<and> filter_nongnu elb < 0 then -1
      else if filter_gt1 ela elb \<noteq> 0 \<or> filter_gt1 elb ela \<noteq> 0 then -1
      else 0)"

section \<open>The GNU vendor for PowerPC\<close>

abbreviation Tag_GNU_Power_ABI_FP :: u32 where "Tag_GNU_Power_ABI_FP \<equiv> 4"
abbreviation Tag_GNU_Power_ABI_Vector :: u32 where "Tag_GNU_Power_ABI_Vector \<equiv> 8"
abbreviation Tag_GNU_Power_ABI_Struct_Return :: u32 where "Tag_GNU_Power_ABI_Struct_Return \<equiv> 12"

definition ppc_attribute_tag_t :: "u32 \<Rightarrow> attr_type" where
  "ppc_attribute_tag_t tag =
     (if tag = Tag_Compat then T_both
      else if tag = Tag_GNU_Power_ABI_FP then T_num
      else if tag = Tag_GNU_Power_ABI_Vector then T_num
      else if tag = Tag_GNU_Power_ABI_Struct_Return then T_num
      else T_unknown)"

definition ppc_max_tag :: u32 where "ppc_max_tag = 10"

definition gnu_ppc_unknown :: "u32 \<Rightarrow> int" where
  "gnu_ppc_unknown tag =
     (if tag = Tag_Compat \<or> tag = Tag_GNU_Power_ABI_FP \<or> tag = Tag_GNU_Power_ABI_Vector \<or>
         tag = Tag_GNU_Power_ABI_Struct_Return then -1 else sint tag)"

text \<open>The first unknown tag of a table, \<open>-1\<close> when there is none.\<close>

fun first_unknown :: "u32 list \<Rightarrow> int" where
  "first_unknown [] = -1"
| "first_unknown (t # ts) = (if gnu_ppc_unknown t \<ge> 0 then gnu_ppc_unknown t else first_unknown ts)"

definition filter_gnu_ppc_unknown :: "u32 \<Rightarrow> attr_tbl \<Rightarrow> int" where
  "filter_gnu_ppc_unknown max_tag t =
     first_unknown (filter (\<lambda>i. at_map t ! unat i \<noteq> 0) (map of_nat [0..<unat max_tag + 1]) @
                    map fst (at_lst t))"

definition gnu_ppc_atts :: "u32 list" where
  "gnu_ppc_atts =
     [Tag_GNU_Power_ABI_FP, Tag_GNU_Power_ABI_Vector, Tag_GNU_Power_ABI_Struct_Return]"

text \<open>Two values agree when they are equal or one of them is zero (no preference).\<close>

fun ppc_match_tags :: "u32 \<Rightarrow> u32 list \<Rightarrow> attr_tbl \<Rightarrow> attr_tbl \<Rightarrow> int res" where
  "ppc_match_tags max_tag [] ta tb = Ok (match_compat ta tb)"
| "ppc_match_tags max_tag (tag # tags) ta tb =
     (case (attribute_get_tag_val max_tag ta tag, attribute_get_tag_val max_tag tb tag) of
        (Ok a, Ok b) \<Rightarrow>
          if pa_i a \<noteq> pa_i b \<and> pa_i a \<noteq> 0 \<and> pa_i b \<noteq> 0 then Ok (-1)
          else ppc_match_tags max_tag tags ta tb
      | (Fail _, Fail _) \<Rightarrow> ppc_match_tags max_tag tags ta tb
      | (Fail _, Ok _) \<Rightarrow> Ok (-1)
      | (Ok _, Fail _) \<Rightarrow> Ok (-1)
      | _ \<Rightarrow> UB)"

definition ppc_file_attributes_match :: "attr_tbl option \<Rightarrow> attr_tbl option \<Rightarrow> int res" where
  "ppc_file_attributes_match pa pb =
     (case (pa, pb) of
        (None, None) \<Rightarrow> Ok 0
      | (Some ta, Some tb) \<Rightarrow>
          if filter_gnu_ppc_unknown ppc_max_tag ta \<ge> 0 then Ok (-1)
          else if filter_gnu_ppc_unknown ppc_max_tag tb \<ge> 0 then Ok (-1)
          else ppc_match_tags ppc_max_tag gnu_ppc_atts ta tb
      | _ \<Rightarrow> Ok (-1))"

section \<open>Attribute sets\<close>

text \<open>
  A vendor with its methods; the names of the vendors on the list of known vendors are distinct, so
  that a name stands for the pointer. \<open>ATTR_MAX_VENDORS\<close> slots hold the tables of a set.
\<close>

record vendor =
  v_name :: bytes
  v_read :: "attr_tbl \<Rightarrow> bytes \<Rightarrow> u32 \<Rightarrow> unit res \<times> attr_tbl"
  v_match :: "(attr_tbl option \<Rightarrow> attr_tbl option \<Rightarrow> int res) option"
  v_max_tag :: u32

abbreviation ATTR_MAX_VENDORS :: nat where "ATTR_MAX_VENDORS \<equiv> 5"

record attr_set =
  as_tables :: "attr_tbl option list"
  as_scn_data :: bytes

definition gnu_ppc_vendor :: "(nat \<Rightarrow> bool) \<Rightarrow> vendor" where
  "gnu_ppc_vendor mok =
     \<lparr>v_name = str_bytes ''gnu'',
      v_read = pub_read_loop (Some ppc_attribute_tag_t) ppc_max_tag mok,
      v_match = Some ppc_file_attributes_match,
      v_max_tag = ppc_max_tag\<rparr>"

definition attributes_vendor_find_gnu :: "(nat \<Rightarrow> bool) \<Rightarrow> u32 \<Rightarrow> u32 \<Rightarrow> vendor option" where
  "attributes_vendor_find_gnu mok machine osabi =
     (if machine = 20 \<and> osabi = 0 then Some (gnu_ppc_vendor mok) else None)"

definition attributes_vendor_register :: "vendor list \<Rightarrow> vendor \<Rightarrow> int \<times> vendor list" where
  "attributes_vendor_register known pv =
     (if \<exists>x\<in>set known. v_name x = v_name pv then (-1, known) else (0, pv # known))"

text \<open>The vendor name of a subsection: the end of the string, bounded by the section.\<close>

fun scan_name :: "bytes \<Rightarrow> nat \<Rightarrow> nat \<Rightarrow> nat res" where
  "scan_name [] l bsize = UB"
| "scan_name (b # bs) l bsize =
     (if b = 0 then Ok l else if l + 1 \<ge> bsize then Fail 0 else scan_name bs (l + 1) bsize)"

text \<open>The slot for a vendor: the first that is empty or holds a table of this vendor.\<close>

fun find_slot :: "attr_tbl option list \<Rightarrow> bytes \<Rightarrow> nat \<Rightarrow> nat" where
  "find_slot [] nm l = l"
| "find_slot (x # xs) nm l =
     (case x of None \<Rightarrow> l
      | Some t \<Rightarrow> if at_pv t = nm then l else find_slot xs nm (Suc l))"

definition new_table :: "vendor \<Rightarrow> attr_tbl" where
  "new_table pv =
     \<lparr>at_pv = v_name pv, at_vals = [], at_avail = 0, at_idx = 1, at_lst = [],
      at_map = replicate (unat (v_max_tag pv) + 1) 0\<rparr>"

text \<open>The case \<open>Tag_File\<close>: the vendor's handler reads into its table.\<close>

definition read_file_attributes ::
    "bool \<Rightarrow> vendor list \<Rightarrow> bytes \<Rightarrow> bytes \<Rightarrow> u32 \<Rightarrow> attr_set \<Rightarrow> unit res \<times> attr_set" where
  "read_file_attributes mok known vname buf sublen st =
     (case find (\<lambda>v. v_name v = vname) known of
        None \<Rightarrow> (Fail 0, st)
      | Some pv \<Rightarrow>
          let l = find_slot (as_tables st) (v_name pv) 0 in
          if l \<ge> ATTR_MAX_VENDORS then (Fail 0, st)
          else if as_tables st ! l = None \<and> \<not> mok then (Fail 0, st)
          else
            let patbl = (case as_tables st ! l of None \<Rightarrow> new_table pv | Some t \<Rightarrow> t)
            in (case v_read pv patbl buf sublen of
                  (r, t') \<Rightarrow> (case r of Fail _ \<Rightarrow> Fail 0 | _ \<Rightarrow> r, st\<lparr>as_tables := (as_tables st)[l := Some t']\<rparr>)))"

text \<open>
  One subsection at offset \<open>nbeg\<close>; delivers the offset of the next one. Offsets are natural numbers:
  no computation of the code wraps on them, except for the sizes passed on to \<open>int\<close> parameters,
  which are converted as the code converts them.
\<close>

definition read_subsection ::
    "bool \<Rightarrow> bool \<Rightarrow> (nat \<Rightarrow> bool) \<Rightarrow> vendor list \<Rightarrow> bytes \<Rightarrow> nat \<Rightarrow> nat \<Rightarrow> attr_set \<Rightarrow> nat res \<times> attr_set"
  where
  "read_subsection lsb needswap mok known b bsize nbeg st =
     (let n = nbeg + 1 in
      if nbeg \<ge> length b then (UB, st)
      else if b ! nbeg \<noteq> of_char CHR ''A'' then (Fail 0, st)
      else null_on_fail (
        then_do (pmelf_getword lsb needswap (drop n b) (c_int (int bsize - int n)), st) (\<lambda>len st.
        let n = n + 4 in
        if nbeg + unat len + 1 > bsize then (Fail 0, st)
        else then_do (scan_name (drop n b) n bsize, st) (\<lambda>l st.
        let vname = take (l - n) (drop n b); n = l + 1 in
        then_do (pmelf_guleb128 (drop n b) (c_int (int bsize - int n)), st) (\<lambda>(tag, l) st.
        let n = n + l in
        then_do (pmelf_getword lsb needswap (drop n b) (c_int (int bsize - int n)), st) (\<lambda>sublen st.
        let n = n + 4; sublen = sublen - (4 + of_nat l) in
        if tag = Tag_File
        then then_do (read_file_attributes (mok nbeg) known vname (drop n b) sublen st)
               (\<lambda>_ st. (Ok (nbeg + unat len + 1), st))
        else (Fail 0, st)))))))"

function read_set_loop ::
    "bool \<Rightarrow> bool \<Rightarrow> (nat \<Rightarrow> bool) \<Rightarrow> vendor list \<Rightarrow> bytes \<Rightarrow> nat \<Rightarrow> nat \<Rightarrow> attr_set \<Rightarrow> attr_set res" where
  "read_set_loop lsb needswap mok known b bsize n st =
     (if n \<ge> bsize then Ok st
      else case read_subsection lsb needswap mok known b bsize n st of
             (Ok n', st') \<Rightarrow>
               if n < n' then read_set_loop lsb needswap mok known b bsize n' st' else Hang
           | (Fail e, st') \<Rightarrow> Fail 0
           | (UB, st') \<Rightarrow> UB
           | (Hang, st') \<Rightarrow> Hang)"
  by pat_completeness auto

termination
  by (relation "measure (\<lambda>(_, _, _, _, _, bsize, n, _). bsize - n)") auto

declare read_set_loop.simps [simp del]

text \<open>\<open>pmelf_read_attribute_set\<close>; \<open>mok 0\<close> and \<open>mok 1\<close> are the allocations of the set and its name.\<close>

definition read_attribute_set ::
    "bool \<Rightarrow> bool \<Rightarrow> bool \<Rightarrow> (nat \<Rightarrow> bool) \<Rightarrow> vendor list \<Rightarrow> bytes \<Rightarrow> u32 \<Rightarrow> attr_set res" where
  "read_attribute_set lsb needswap mem mok known b bsize =
     (if known = [] then Fail 0
      else if \<not> mem then Fail 0
      else read_set_loop lsb needswap mok known b (unat bsize) 0
             \<lparr>as_tables = replicate ATTR_MAX_VENDORS None, as_scn_data = []\<rparr>)"

abbreviation SHT_GNU_ATTRIBUTES :: u32 where "SHT_GNU_ATTRIBUTES \<equiv> 0x6ffffff5"

text \<open>The size of the section is passed as an \<open>unsigned\<close>.\<close>

definition create_attribute_set ::
    "bool \<Rightarrow> bool \<Rightarrow> (nat \<Rightarrow> bool) \<Rightarrow> vendor list \<Rightarrow> strm \<Rightarrow> Elf_Shdr \<Rightarrow> attr_set res \<times> strm" where
  "create_attribute_set lsb mem mok known s psect =
     (if shdr_type psect \<noteq> SHT_GNU_ATTRIBUTES then (Fail 0, s)
      else then_do (pmelf_getscn mem False s psect 0 0) (\<lambda>b s1.
        then_do (read_attribute_set lsb (st_needswap s1) mem mok known b
                   (ucast (shdr_size (st_clss s1) psect)), s1) (\<lambda>st s2.
          (Ok (st\<lparr>as_scn_data := b\<rparr>), s2))))"

definition destroy_attribute_set :: "attr_set \<Rightarrow> attr_set" where
  "destroy_attribute_set st =
     st\<lparr>as_tables := replicate (length (as_tables st)) None, as_scn_data := []\<rparr>"

text \<open>Comparing two sets.\<close>

fun vidx :: "vendor list \<Rightarrow> bytes \<Rightarrow> int \<Rightarrow> int" where
  "vidx [] nm i = -1"
| "vidx (v # vs) nm i = (if v_name v = nm then i else vidx vs nm (i + 1))"

fun vset_loop :: "vendor list \<Rightarrow> attr_tbl option list \<Rightarrow> u32 \<Rightarrow> int res" where
  "vset_loop known [] rval = Ok (sint rval)"
| "vset_loop known (x # xs) rval =
     (case x of
        None \<Rightarrow> vset_loop known xs rval
      | Some t \<Rightarrow>
          let j = vidx known (at_pv t) 0 in
          if j < 0 then Ok (-1)
          else if j \<ge> 32 then UB
          else vset_loop known xs (rval OR push_bit (nat j) 1))"

definition vset :: "vendor list \<Rightarrow> attr_set \<Rightarrow> int res" where
  "vset known st = vset_loop known (as_tables st) 0"

fun match_inner :: "vendor \<Rightarrow> attr_tbl \<Rightarrow> attr_tbl option list \<Rightarrow> int \<Rightarrow> int res" where
  "match_inner pv ta [] rval = Ok rval"
| "match_inner pv ta (y # ys) rval =
     (case y of
        None \<Rightarrow> match_inner pv ta ys rval
      | Some tb \<Rightarrow>
          if at_pv tb = v_name pv then
            (case v_match pv of
               None \<Rightarrow> Fail (-1)
             | Some f \<Rightarrow> bind_res (f (Some ta) (Some tb)) (\<lambda>r. match_inner pv ta ys (rval OR r)))
          else match_inner pv ta ys rval)"

fun match_outer ::
    "vendor list \<Rightarrow> attr_tbl option list \<Rightarrow> attr_tbl option list \<Rightarrow> int \<Rightarrow> int res" where
  "match_outer known [] ys rval = Ok rval"
| "match_outer known (x # xs) ys rval =
     (case x of
        None \<Rightarrow> match_outer known xs ys rval
      | Some ta \<Rightarrow>
          (case find (\<lambda>v. v_name v = at_pv ta) known of
             None \<Rightarrow> UB
           | Some pv \<Rightarrow> bind_res (match_inner pv ta ys rval) (\<lambda>r. match_outer known xs ys r)))"

text \<open>\<open>Ok 0\<close> means compatible, any other value incompatible; a missing method returns \<open>-1\<close> at once.\<close>

definition match_attribute_set :: "vendor list \<Rightarrow> attr_set option \<Rightarrow> attr_set option \<Rightarrow> int res" where
  "match_attribute_set known pa pb =
     (case (pa, pb) of
        (None, None) \<Rightarrow> Ok 0
      | (Some sa, Some sb) \<Rightarrow>
          bind_res (vset known sa) (\<lambda>va.
          if va < 0 then Ok (-1)
          else bind_res (vset known sb) (\<lambda>vb.
          if vb < 0 then Ok (-1)
          else if va \<noteq> vb then Ok (-2)
          else case match_outer known (as_tables sa) (as_tables sb) 0 of
                 Fail e \<Rightarrow> Ok (-1) | r \<Rightarrow> r))
      | _ \<Rightarrow> Ok (-1))"

section \<open>What compatibility means\<close>

text \<open>
  The \<open>Tag_Compat\<close> entries that are compared: the first run of them. A run is acceptable when no
  entry asks for a tool chain other than \<open>gnu\<close>; its flags are the values above one.
\<close>

definition compat_run :: "attr_tbl \<Rightarrow> (u32 \<times> pub_attr) list" where
  "compat_run t = takeWhile (\<lambda>x. fst x = Tag_Compat) (find_compat (at_lst t))"

definition run_ok :: "(u32 \<times> pub_attr) list \<Rightarrow> bool" where
  "run_ok r \<longleftrightarrow> (\<forall>x\<in>set r. pa_i (snd x) > 0 \<longrightarrow> pa_s (snd x) = Some (str_bytes ''gnu''))"

definition run_flags :: "(u32 \<times> pub_attr) list \<Rightarrow> u32 set" where
  "run_flags r = {i. i > 1 \<and> (\<exists>x\<in>set r. pa_i (snd x) = i)}"

lemma run_ok_simps [simp]:
  "run_ok []"
  "run_ok (x # xs) \<longleftrightarrow>
     (pa_i (snd x) > 0 \<longrightarrow> pa_s (snd x) = Some (str_bytes ''gnu'')) \<and> run_ok xs"
  by (simp_all add: run_ok_def)

lemma run_flags_simps [simp]:
  "run_flags [] = {}"
  "run_flags (x # xs) =
     (if pa_i (snd x) > 1 then insert (pa_i (snd x)) (run_flags xs) else run_flags xs)"
  by (auto simp: run_flags_def)

abbreviation compats :: "(u32 \<times> pub_attr) list \<Rightarrow> (u32 \<times> pub_attr) list" where
  "compats \<equiv> takeWhile (\<lambda>x. fst x = Tag_Compat)"

lemma filter_nongnu_loop_neg:
  "0 \<le> n \<Longrightarrow> filter_nongnu_loop el n < 0 \<longleftrightarrow> \<not> run_ok (compats el)"
proof (induction el arbitrary: n)
  case (Cons x xs)
  have "0 \<le> n + 1" using Cons.prems by simp
  then show ?case
    using Cons.IH [of n] Cons.IH [of "n + 1"] Cons.prems by (simp split: option.splits)
qed simp

lemma find_flag_iff: "1 < i \<Longrightarrow> find_flag i el \<longleftrightarrow> i \<in> run_flags (compats el)"
  by (induction i el rule: find_flag.induct) auto

lemma filter_gt1_zero: "filter_gt1 ela elb = 0 \<longleftrightarrow> run_flags (compats ela) \<subseteq> run_flags (compats elb)"
  by (induction ela elb rule: filter_gt1.induct) (simp_all add: find_flag_iff)

lemma match_compat_iff:
  "match_compat ta tb = 0 \<longleftrightarrow>
     run_ok (compat_run ta) \<and> run_ok (compat_run tb) \<and>
     run_flags (compat_run ta) = run_flags (compat_run tb)"
proof -
  have "filter_nongnu el < 0 \<longleftrightarrow> \<not> run_ok (compats el)" for el
    by (simp add: filter_nongnu_def filter_nongnu_loop_neg)
  then show ?thesis
    unfolding match_compat_def Let_def compat_run_def filter_gt1_zero by auto
qed

lemma match_compat_values: "match_compat ta tb = 0 \<or> match_compat ta tb = -1"
  by (simp add: match_compat_def Let_def)

lemma match_compat_sym: "match_compat ta tb = match_compat tb ta"
  using match_compat_iff match_compat_values by metis

text \<open>The comparison of two PowerPC objects does not depend on their order.\<close>

lemma ppc_match_tags_sym: "ppc_match_tags m tags ta tb = ppc_match_tags m tags tb ta"
  by (induction tags) (auto simp: match_compat_sym split: res.splits)

lemma ppc_match_sym: "ppc_file_attributes_match pa pb = ppc_file_attributes_match pb pa"
  by (auto simp: ppc_file_attributes_match_def ppc_match_tags_sym split: option.splits)

text \<open>Two objects are compatible when they have the same tags with agreeing values.\<close>

definition tag_agree :: "attr_tbl \<Rightarrow> attr_tbl \<Rightarrow> u32 \<Rightarrow> bool" where
  "tag_agree ta tb tag \<longleftrightarrow>
     (case (attribute_get_tag_val ppc_max_tag ta tag, attribute_get_tag_val ppc_max_tag tb tag) of
        (Ok a, Ok b) \<Rightarrow> pa_i a = pa_i b \<or> pa_i a = 0 \<or> pa_i b = 0
      | (Fail _, Fail _) \<Rightarrow> True
      | _ \<Rightarrow> False)"

lemma ppc_match_tags_zero:
  "ppc_match_tags ppc_max_tag tags ta tb = Ok 0 \<longleftrightarrow>
     (\<forall>tag\<in>set tags. tag_agree ta tb tag) \<and> match_compat ta tb = 0"
  by (induction tags) (auto simp: tag_agree_def split: res.splits)

lemma ppc_match_iff:
  "ppc_file_attributes_match (Some ta) (Some tb) = Ok 0 \<longleftrightarrow>
     filter_gnu_ppc_unknown ppc_max_tag ta < 0 \<and> filter_gnu_ppc_unknown ppc_max_tag tb < 0 \<and>
     (\<forall>tag\<in>set gnu_ppc_atts. tag_agree ta tb tag) \<and>
     run_ok (compat_run ta) \<and> run_ok (compat_run tb) \<and>
     run_flags (compat_run ta) = run_flags (compat_run tb)"
  by (auto simp: ppc_file_attributes_match_def ppc_match_tags_zero match_compat_iff)

text \<open>
  The test for unknown tags looks at every tag that is present, but an unknown one with its highest bit set is
  taken for the answer that there are none.
\<close>

lemma first_unknown_none:
  "first_unknown ts < 0 \<longleftrightarrow>
     (\<forall>tag \<in> set ts. tag = Tag_Compat \<or> tag \<in> set gnu_ppc_atts \<or> bit tag 31)"
  by (induction ts) (auto simp: gnu_ppc_unknown_def gnu_ppc_atts_def bit_last_iff [where 'a = 32, simplified])

lemma unknown_tags:
  "filter_gnu_ppc_unknown mx t < 0 \<longleftrightarrow>
     (\<forall>tag. tag \<in> of_nat ` {k. k \<le> unat mx \<and> at_map t ! unat (of_nat k :: u32) \<noteq> 0} \<union> fst ` set (at_lst t) \<longrightarrow>
        tag = Tag_Compat \<or> tag \<in> set gnu_ppc_atts \<or> bit tag 31)"
  unfolding filter_gnu_ppc_unknown_def first_unknown_none by (auto simp: less_Suc_eq_le simp del: upt_Suc) blast

section \<open>Tags that occur three times\<close>

lemma attr_insert_hang:
  "\<forall>x\<in>set pre. fst x \<noteq> tag \<Longrightarrow> fst x = tag \<Longrightarrow> fst y = tag \<Longrightarrow>
     attr_insert tag v (pre @ x # y # post) = Hang"
  by (induction pre) auto

lemma attr_insert_absent: "tag \<notin> fst ` set l \<Longrightarrow> attr_insert tag v l = Ok (l @ [(tag, v)])"
  by (induction l) auto

section \<open>Reading back what was encoded\<close>

text \<open>The encoding of an attribute whose value has the type \<open>ty\<close>.\<close>

definition enc_value :: "attr_type \<Rightarrow> pub_attr \<Rightarrow> bytes" where
  "enc_value ty v =
     (if ty = T_num \<or> ty = T_both then uleb_enc (unat (pa_i v)) else []) @
     (case pa_s v of None \<Rightarrow> [] | Some s \<Rightarrow> s @ [0])"

definition enc_attr :: "(u32 \<Rightarrow> attr_type) \<Rightarrow> u32 \<times> pub_attr \<Rightarrow> bytes" where
  "enc_attr f x = uleb_enc (unat (fst x)) @ enc_value (f (fst x)) (snd x)"

definition value_ok :: "attr_type \<Rightarrow> pub_attr \<Rightarrow> bool" where
  "value_ok ty v \<longleftrightarrow>
     (case ty of
        T_num \<Rightarrow> pa_s v = None
      | T_str \<Rightarrow> pa_i v = 0 \<and> (\<exists>s. pa_s v = Some s \<and> 0 \<notin> set s)
      | T_both \<Rightarrow> (\<exists>s. pa_s v = Some s \<and> 0 \<notin> set s)
      | _ \<Rightarrow> False)"

lemma uleb_enc_nonempty [simp]: "uleb_enc m \<noteq> []"
  by (subst uleb_enc.simps) auto

lemma c_int_small: "unat sz < 2 ^ 31 \<Longrightarrow> c_int (uint (sz :: u32)) = int (unat sz)"
proof -
  assume "unat sz < 2 ^ 31"
  then have "int (unat sz) < int (2 ^ 31)" by (simp only: of_nat_less_iff)
  then have "uint sz < 2 ^ 31" by simp
  moreover have "- (2 ^ 31) \<le> uint sz" by (rule order_trans [of _ 0]) simp_all
  ultimately have "signed_take_bit 31 (uint sz) = uint sz"
    by (intro signed_take_bit_int_eq_self)
  moreover have "sint sz = signed_take_bit (LENGTH(32) - Suc 0) (uint sz)" by (rule sint_uint)
  ultimately have "sint sz = uint sz" by (simp only: len_num0 len_bit0 len_bit1 len_num1) simp
  then show ?thesis by (simp add: c_int_def)
qed

lemma guleb128_word:
  assumes "length (uleb_enc (unat (w :: u32))) \<le> unat (sz :: u32)" and "unat sz < 2 ^ 31"
  shows "pmelf_guleb128 (uleb_enc (unat w) @ r) (c_int (uint sz)) = Ok (w, length (uleb_enc (unat w)))"
proof -
  have "(of_nat (unat w) :: u32) = w" by simp
  then show ?thesis
    using guleb128_enc [of "unat w" "int (unat sz)" r] assms c_int_small [OF assms(2)]
      unsigned_less [of w, where 'a=nat] by (simp del: of_nat_unat)
qed

lemma unat_sub_len: "n \<le> unat (sz :: u32) \<Longrightarrow> unat (sz - of_nat n) = unat sz - n"
proof -
  assume n: "n \<le> unat sz"
  then have "unat (of_nat n :: u32) = n" by (rule le_unat_uoi)
  then show ?thesis using n by (simp add: unat_sub word_le_nat_alt)
qed

lemma scan_str_enc:
  "0 \<notin> set s \<Longrightarrow> l + length s < sz \<Longrightarrow> scan_str (s @ 0 # r) l sz = Ok (l + length s + 1)"
  by (induction s arbitrary: l) auto

lemma attr_value_enc:
  assumes "value_ok ty v" and "length (enc_value ty v) \<le> unat sz" and "unat sz < 2 ^ 31"
  shows "\<exists>sz'. attr_value ty (enc_value ty v @ r) sz = Ok (v, r, sz') \<and>
    unat sz' = unat sz - length (enc_value ty v)"
proof (cases ty)
  case T_num
  then show ?thesis
    using assms guleb128_word [of "pa_i v" sz r] unat_sub_len [of "length (uleb_enc (unat (pa_i v)))" sz]
    by (simp add: attr_value_def enc_value_def value_ok_def)
next
  case T_str
  then obtain s where s: "pa_s v = Some s" "0 \<notin> set s" and i: "pa_i v = 0"
    using assms(1) by (auto simp: value_ok_def)
  then show ?thesis
    using T_str assms scan_str_enc [OF s(2), of 0 "unat sz" r] unat_sub_len [of "length s + 1" sz]
    by (simp add: attr_value_def enc_value_def flip: i)
next
  case T_both
  then obtain s where s: "pa_s v = Some s" "0 \<notin> set s"
    using assms(1) by (auto simp: value_ok_def)
  let ?e = "uleb_enc (unat (pa_i v))"
  let ?sz = "sz - of_nat (length ?e)"
  have le: "length ?e + (length s + 1) \<le> unat sz" using assms(2) T_both s by (simp add: enc_value_def)
  then have sz: "unat ?sz = unat sz - length ?e" by (intro unat_sub_len) simp
  have g: "pmelf_guleb128 (?e @ s @ 0 # r) (c_int (uint sz)) = Ok (pa_i v, length ?e)"
    using guleb128_word [of "pa_i v" sz "s @ 0 # r"] assms(3) le by simp
  have sc: "scan_str (s @ 0 # r) 0 (unat ?sz) = Ok (length s + 1)"
    using scan_str_enc [OF s(2), of 0 "unat ?sz" r] le sz by simp
  have v: "\<lparr>pa_i = pa_i v, pa_s = Some s\<rparr> = v" using s by simp
  show ?thesis
    using T_both s le sc v unat_sub_len [of "length s + 1" ?sz] sz
    by (simp add: attr_value_def enc_value_def g)
qed (use assms in \<open>simp_all add: value_ok_def\<close>)

text \<open>One turn of the loop over an encoded attribute.\<close>

definition grow_for :: "u32 \<Rightarrow> u32 \<Rightarrow> attr_tbl \<Rightarrow> attr_tbl" where
  "grow_for mx tag t = snd (attr_reserve True mx tag t)"

definition attr_put :: "u32 \<Rightarrow> u32 \<Rightarrow> pub_attr \<Rightarrow> attr_tbl \<Rightarrow> unit res \<times> attr_tbl" where
  "attr_put mx tag v t =
     (if in_array mx tag then attr_store tag v t
      else then_do (attr_insert tag v (at_lst t), t) (\<lambda>l t. (Ok (), t\<lparr>at_lst := l\<rparr>)))"

lemma fst_attr_reserve_True [simp]: "fst (attr_reserve True mx tag t) = Ok ()"
  by (simp add: attr_reserve_def attr_grow_def Let_def)

lemma grow_for_map [simp]: "at_map (grow_for mx tag t) = at_map t"
  by (simp add: grow_for_def attr_reserve_def attr_grow_def Let_def)

lemma then_do_reserve:
  "mok \<Longrightarrow> then_do (attr_reserve mok mx tag t) h = h () (grow_for mx tag t)"
  by (simp add: then_do_Ok grow_for_def)

lemma read_one_enc:
  assumes f: "f Tag_Compat = T_both"
    and ok: "value_ok (f tag) v"
    and len: "length (enc_attr f (tag, v)) \<le> unat sz" "unat sz < 2 ^ 31"
    and mok: "\<And>n. mok n"
    and fresh: "in_array mx tag \<Longrightarrow> unat tag < length (at_map t) \<and> at_map t ! unat tag = 0"
  shows "\<exists>sz'. unat sz' = unat sz - length (enc_attr f (tag, v)) \<and>
    pub_read_one (Some f) mx mok t (enc_attr f (tag, v) @ r) sz =
      then_do (attr_put mx tag v (grow_for mx tag t)) (\<lambda>_ t. (Ok (r, sz'), t))"
proof -
  let ?e = "uleb_enc (unat tag)" and ?v = "enc_value (f tag) v"
  let ?sz = "sz - of_nat (length ?e)"
  have le: "length ?e + length ?v \<le> unat sz" using len(1) by (simp add: enc_attr_def)
  have sz: "unat ?sz = unat sz - length ?e" using le by (intro unat_sub_len) simp
  have g: "pmelf_guleb128 (?e @ ?v @ r) (c_int (uint sz)) = Ok (tag, length ?e)"
    using guleb128_word [of tag sz "?v @ r"] le len(2) by simp
  have "length ?v \<le> unat ?sz" "unat ?sz < 2 ^ 31" using le len(2) sz by linarith+
  from attr_value_enc [OF ok this, of r]
  obtain sz' where av: "attr_value (f tag) (?v @ r) ?sz = Ok (v, r, sz')"
    and sz': "unat sz' = unat ?sz - length ?v"
    by blast
  have ty: "attr_tag_type (Some f) tag = f tag" using f by (simp add: attr_tag_type_def)
  have nt: "f tag \<noteq> T_unknown" "f tag \<noteq> T_none" using ok by (auto simp: value_ok_def)
  have "pub_read_one (Some f) mx mok t (enc_attr f (tag, v) @ r) sz =
      then_do (attr_put mx tag v (grow_for mx tag t)) (\<lambda>_ t. (Ok (r, sz'), t))"
  proof (cases "in_array mx tag")
    case True
    then show ?thesis
      using fresh nt mok
      by (simp add: pub_read_one_def enc_attr_def g then_do_reserve ty av attr_put_def Let_def)
  next
    case False
    then show ?thesis
      using nt mok
      by (simp add: pub_read_one_def enc_attr_def g then_do_reserve ty av attr_put_def Let_def)
        (simp add: then_do_def split: res.splits)
  qed
  moreover have "unat sz' = unat sz - length (enc_attr f (tag, v))"
    using sz sz' by (simp add: enc_attr_def)
  ultimately show ?thesis by blast
qed

text \<open>
  A table holds the attributes \<open>S\<close>, in the order they were read: those of the array one after
  the other from index 1, the others in the list.
\<close>

definition arr_part :: "u32 \<Rightarrow> (u32 \<times> pub_attr) list \<Rightarrow> (u32 \<times> pub_attr) list" where
  "arr_part mx S = filter (\<lambda>x. in_array mx (fst x)) S"

definition lst_part :: "u32 \<Rightarrow> (u32 \<times> pub_attr) list \<Rightarrow> (u32 \<times> pub_attr) list" where
  "lst_part mx S = filter (\<lambda>x. \<not> in_array mx (fst x)) S"

definition holds :: "u32 \<Rightarrow> attr_tbl \<Rightarrow> (u32 \<times> pub_attr) list \<Rightarrow> bool" where
  "holds mx t S \<longleftrightarrow>
     length (at_map t) = unat mx + 1 \<and>
     unat (at_idx t) = 1 + length (arr_part mx S) \<and>
     at_lst t = lst_part mx S \<and> length (arr_part mx S) \<le> unat mx \<and>
     (\<forall>k<length (arr_part mx S).
        unat (at_map t ! unat (fst (arr_part mx S ! k))) = k + 1 \<and>
        at_vals t ! (k + 1) = Some (snd (arr_part mx S ! k))) \<and>
     (\<forall>tag. in_array mx tag \<longrightarrow> tag \<notin> fst ` set (arr_part mx S) \<longrightarrow> at_map t ! unat tag = 0) \<and>
     (if at_avail t = 0 then arr_part mx S = [] else length (at_vals t) = unat mx + 1)"

lemma in_array_range: "in_array mx tag \<Longrightarrow> unat tag < unat mx + 1"
  by (auto simp: in_array_def word_le_nat_alt)

lemma holds_grow:
  assumes h: "holds mx t S" and mx: "0 < mx" "mx \<le> 30" and a: "in_array mx tag"
  shows "holds mx (grow_for mx tag t) S" and "length (at_vals (grow_for mx tag t)) = unat mx + 1"
    and "at_avail (grow_for mx tag t) \<noteq> 0"
proof -
  have m: "unat mx \<le> 30" "0 < unat mx" using mx by (simp_all add: word_le_nat_alt unat_gt_0 word_gt_0)
  have csz: "(if CHUNKSZ < mx then CHUNKSZ else mx) = mx" using mx(2) by (simp add: not_less [symmetric])
  have uc: "(ucast mx :: u8) \<noteq> 0"
  proof
    assume "(ucast mx :: u8) = 0"
    then have "unat (ucast mx :: u8) = 0" by simp
    then show False using m by (simp add: unsigned_ucast_eq take_bit_nat_eq_self)
  qed
  have len: "at_avail t = 0 \<Longrightarrow> unat (at_idx t) = 1" using h by (simp add: holds_def)
  show "length (at_vals (grow_for mx tag t)) = unat mx + 1" "at_avail (grow_for mx tag t) \<noteq> 0"
    using h a len uc
    by (auto simp: grow_for_def attr_reserve_def attr_grow_def holds_def Let_def csz split: if_splits)
  then show "holds mx (grow_for mx tag t) S"
    using h a len uc
    by (auto simp: grow_for_def attr_reserve_def attr_grow_def holds_def Let_def csz split: if_splits)
qed

lemma arr_part_append [simp]:
  "arr_part mx (S @ [x]) = (if in_array mx (fst x) then arr_part mx S @ [x] else arr_part mx S)"
  by (simp add: arr_part_def)

lemma lst_part_append [simp]:
  "lst_part mx (S @ [x]) = (if in_array mx (fst x) then lst_part mx S else lst_part mx S @ [x])"
  by (simp add: lst_part_def)

lemma holds_put_array:
  assumes h: "holds mx t S" and mx: "0 < mx" "mx \<le> 30" and a: "in_array mx tag"
    and new: "tag \<notin> fst ` set S" and room: "length (arr_part mx S) < unat mx"
  shows "\<exists>t'. attr_put mx tag v (grow_for mx tag t) = (Ok (), t') \<and> holds mx t' (S @ [(tag, v)])"
proof -
  let ?g = "grow_for mx tag t" and ?A = "arr_part mx S"
  note g = holds_grow [OF h mx a]
  have m: "unat mx \<le> 30" using mx by (simp add: word_le_nat_alt)
  have idx: "unat (at_idx ?g) = 1 + length ?A" using g(1) by (simp add: holds_def)
  have idx1: "unat (at_idx ?g + 1) = 2 + length ?A"
    using idx room m by (simp add: unat_word_ariths)
  have newA: "tag \<notin> fst ` set ?A" using new by (auto simp: arr_part_def)
  have other: "unat (fst (?A ! k)) \<noteq> unat tag" if "k < length ?A" for k
    using that newA nth_mem [OF that] by (metis image_eqI word_unat_eq_iff)
  let ?t' = "?g\<lparr>at_map := (at_map ?g)[unat tag := at_idx ?g],
                at_vals := (at_vals ?g)[unat (at_idx ?g) := Some v], at_idx := at_idx ?g + 1\<rparr>"
  have put: "attr_put mx tag v ?g = (Ok (), ?t')"
    using a g idx room in_array_range [OF a]
    by (simp add: attr_put_def attr_store_def holds_def)
  have A: "arr_part mx (S @ [(tag, v)]) = ?A @ [(tag, v)]" "lst_part mx (S @ [(tag, v)]) = lst_part mx S"
    using a by simp_all
  have map_len: "length (at_map t) = unat mx + 1" and vals_len: "length (at_vals ?g) = unat mx + 1"
    and old: "\<And>k. k < length ?A \<Longrightarrow> unat (at_map t ! unat (fst (?A ! k))) = k + 1 \<and>
        at_vals ?g ! (k + 1) = Some (snd (?A ! k))"
    and zero: "\<And>u. in_array mx u \<Longrightarrow> u \<notin> fst ` set ?A \<Longrightarrow> at_map t ! unat u = 0"
    and lst: "at_lst ?g = lst_part mx S"
    using g by (auto simp: holds_def)
  have "unat (at_map ?t' ! unat (fst ((?A @ [(tag, v)]) ! k))) = k + 1 \<and>
      at_vals ?t' ! (k + 1) = Some (snd ((?A @ [(tag, v)]) ! k))" if "k < length (?A @ [(tag, v)])" for k
  proof (cases "k < length ?A")
    case True
    then show ?thesis using old [OF True] other [OF True] idx by (simp add: nth_append)
  next
    case False
    then have "k = length ?A" using that by simp
    then show ?thesis
      using idx in_array_range [OF a] map_len vals_len room by (simp add: nth_append)
  qed
  moreover have "at_map ?t' ! unat u = 0" if "in_array mx u" "u \<notin> fst ` set (?A @ [(tag, v)])" for u
  proof -
    have "unat u \<noteq> unat tag" using that(2) by (auto simp: word_unat_eq_iff)
    then show ?thesis using zero [OF that(1)] that(2) by simp
  qed
  ultimately have "holds mx ?t' (S @ [(tag, v)])"
    using idx1 map_len vals_len lst room g(3) unfolding holds_def A by simp
  with put show ?thesis by blast
qed

lemma holds_put_list:
  assumes h: "holds mx t S" and a: "\<not> in_array mx tag" and new: "tag \<notin> fst ` set S"
  shows "\<exists>t'. attr_put mx tag v (grow_for mx tag t) = (Ok (), t') \<and> holds mx t' (S @ [(tag, v)])"
proof -
  have "tag \<notin> fst ` set (lst_part mx S)" using new by (auto simp: lst_part_def)
  then have "attr_insert tag v (at_lst t) = Ok (lst_part mx S @ [(tag, v)])"
    using h attr_insert_absent [of tag "lst_part mx S" v] by (simp add: holds_def)
  then show ?thesis
    using h a by (auto simp: attr_put_def grow_for_def attr_reserve_def holds_def)
qed

lemma holds_fresh:
  assumes "holds mx t S" and "tag \<notin> fst ` set S" and "in_array mx tag"
  shows "unat tag < length (at_map t) \<and> at_map t ! unat tag = 0"
  using assms in_array_range [OF assms(3)] by (auto simp: holds_def arr_part_def)

text \<open>Reading a list of encoded attributes.\<close>

lemma pub_read_loop_enc:
  assumes "f Tag_Compat = T_both" and "\<And>n. mok n" and "0 < mx" "mx \<le> 30"
    and "holds mx t S" and "distinct (map fst (S @ X))"
    and "\<forall>x\<in>set X. value_ok (f (fst x)) (snd x)"
    and "length (arr_part mx (S @ X)) \<le> unat mx"
    and "unat sz = length (concat (map (enc_attr f) X))" and "unat sz < 2 ^ 31"
  shows "\<exists>t'. pub_read_loop (Some f) mx mok t (concat (map (enc_attr f) X)) sz = (Ok (), t') \<and>
    holds mx t' (S @ X)"
  using assms(5-10)
proof (induction X arbitrary: t S sz)
  case Nil
  then have "sz = 0" by (simp add: unat_eq_zero)
  with Nil show ?case by (simp add: pub_read_loop.simps)
next
  case (Cons x X)
  obtain tag v where x: "x = (tag, v)" by (cases x)
  let ?r = "concat (map (enc_attr f) X)"
  have new: "tag \<notin> fst ` set S" using Cons.prems(2) by (auto simp: x)
  have ok: "value_ok (f tag) v" using Cons.prems(3) x by simp
  have le: "length (enc_attr f (tag, v)) \<le> unat sz" using Cons.prems(5) x by simp
  have fresh: "in_array mx tag \<Longrightarrow> unat tag < length (at_map t) \<and> at_map t ! unat tag = 0"
    using holds_fresh [OF Cons.prems(1) new] .
  obtain sz' where sz': "unat sz' = unat sz - length (enc_attr f (tag, v))"
    and one: "pub_read_one (Some f) mx mok t (enc_attr f (tag, v) @ ?r) sz =
      then_do (attr_put mx tag v (grow_for mx tag t)) (\<lambda>_ t. (Ok (?r, sz'), t))"
    using read_one_enc [where f = f and mok = mok and mx = mx and t = t and r = ?r,
        OF assms(1) ok le Cons.prems(6)] assms(2) fresh by blast
  have room: "in_array mx tag \<Longrightarrow> length (arr_part mx S) < unat mx"
    using Cons.prems(4) by (simp add: arr_part_def x)
  obtain t' where t': "attr_put mx tag v (grow_for mx tag t) = (Ok (), t')"
    and h': "holds mx t' (S @ [(tag, v)])"
    using holds_put_array [OF Cons.prems(1) assms(3,4) _ new] room
      holds_put_list [OF Cons.prems(1) _ new] by blast
  have "sz \<noteq> 0"
    using le by (auto simp: enc_attr_def)
  have "\<exists>t''. pub_read_loop (Some f) mx mok t' ?r sz' = (Ok (), t'') \<and> holds mx t'' ((S @ [(tag, v)]) @ X)"
    using Cons.prems sz' by (intro Cons.IH [OF h']) (auto simp: x arr_part_def)
  then show ?case
    using \<open>sz \<noteq> 0\<close> one t' by (subst pub_read_loop.simps) (simp add: x)
qed

text \<open>What a table holds can be looked up, and nothing else.\<close>

lemma holds_get:
  assumes h: "holds mx t S" and d: "distinct (map fst S)" and mx: "0 < mx" "mx \<le> 30"
  shows "attribute_get_tag_val mx t tag = (case map_of S tag of None \<Rightarrow> Fail (-1) | Some v \<Rightarrow> Ok v)"
proof (cases "in_array mx tag \<and> tag \<in> fst ` set S")
  case True
  then obtain v where v: "(tag, v) \<in> set (arr_part mx S)" by (auto simp: arr_part_def)
  then obtain k where k: "k < length (arr_part mx S)" "arr_part mx S ! k = (tag, v)"
    by (metis in_set_conv_nth)
  have m: "map_of S tag = Some v" using v d by (auto simp: arr_part_def)
  have av: "at_avail t \<noteq> 0" using h k(1) by (auto simp: holds_def split: if_splits)
  have hk: "unat (at_map t ! unat tag) = k + 1" "at_vals t ! (k + 1) = Some v"
    "length (at_vals t) = unat mx + 1"
    using h k av by (auto simp: holds_def)
  have "k + 1 < length (at_vals t)" "unat tag < length (at_map t)"
    using k(1) hk(3) h in_array_range [of mx tag] True by (auto simp: holds_def)
  moreover have "at_map t ! unat tag \<noteq> 0" using hk(1) by auto
  ultimately show ?thesis
    using True m hk by (simp add: attribute_get_tag_val_def)
next
  case False
  have e: "map_of (lst_part mx S) tag = map_of S tag" if "\<not> in_array mx tag"
    using that by (induction S) (auto simp: lst_part_def)
  have n: "map_of (lst_part mx S) tag = None" "map_of S tag = None" if "in_array mx tag"
    using that False by (auto simp: lst_part_def map_of_eq_None_iff)
  show ?thesis
  proof (cases "in_array mx tag")
    case True
    then have "tag \<notin> fst ` set (arr_part mx S)" using False by (auto simp: arr_part_def)
    then show ?thesis
      using True h in_array_range [OF True] n [OF True] by (simp add: attribute_get_tag_val_def holds_def)
  next
    case False
    then show ?thesis using h e by (simp add: attribute_get_tag_val_def holds_def)
  qed
qed

lemma holds_new_table: "v_max_tag pv = mx \<Longrightarrow> holds mx (new_table pv) []"
proof -
  assume "v_max_tag pv = mx"
  then have "at_map (new_table pv) ! unat u = 0" if "in_array mx u" for u
    using in_array_range [OF that] by (simp add: new_table_def del: replicate_Suc)
  then show ?thesis
    using \<open>v_max_tag pv = mx\<close>
    by (simp add: holds_def new_table_def arr_part_def lst_part_def del: replicate_Suc)
qed

section \<open>Properties\<close>

text \<open>C24: An attribute subsection of less than 2^31 bytes is read back: for every list of attributes with
  distinct tags whose values have the types the vendor announces, parsing its encoding into a fresh table
  succeeds, and looking up any tag afterwards yields exactly the encoded value, or fails when the tag was not
  there. This is so when no allocation fails, when the greatest tag the vendor keeps in the array is between 1
  and 30, and when the list has at most as many attributes for the array as this tag says; one more, that is
  all tags from 0 on, makes the reader write behind the array.\<close>

theorem attributes_read_back:
  assumes "f Tag_Compat = T_both" and "\<And>n. mok n" and "v_max_tag pv = mx" and "0 < mx" "mx \<le> 30"
    and "distinct (map fst X)" and "\<forall>x\<in>set X. value_ok (f (fst x)) (snd x)"
    and "length (arr_part mx X) \<le> unat mx"
    and "unat sz = length (concat (map (enc_attr f) X))" and "unat sz < 2 ^ 31"
  shows "\<exists>t'. pub_file_attributes_read (Some f) mx mok (Some (new_table pv))
        (concat (map (enc_attr f) X)) sz = (Ok (), Some t') \<and>
    (\<forall>tag. attribute_get_tag_val mx t' tag =
       (case map_of X tag of None \<Rightarrow> Fail (-1) | Some v \<Rightarrow> Ok v))"
proof -
  obtain t' where t': "pub_read_loop (Some f) mx mok (new_table pv) (concat (map (enc_attr f) X)) sz = (Ok (), t')"
    and h: "holds mx t' X"
    using pub_read_loop_enc [where f = f and mok = mok and mx = mx and X = X and sz = sz,
        OF assms(1) _ assms(4,5) holds_new_table [OF assms(3)]] assms(2,6-) by auto
  have "\<exists>t''. pub_file_attributes_read (Some f) mx mok (Some (new_table pv))
      (concat (map (enc_attr f) X)) sz = (Ok (), Some t'') \<and> holds mx t'' X"
  proof (cases "sz = 0")
    case True
    then have "holds mx (new_table pv) X"
      using t' h by (simp add: pub_read_loop.simps)
    with True show ?thesis by (simp add: pub_file_attributes_read_def)
  next
    case False
    with t' h show ?thesis by (simp add: pub_file_attributes_read_def)
  qed
  then show ?thesis using holds_get [OF _ assms(6) assms(4,5)] by metis
qed

definition sample_attrs :: "(u32 \<times> pub_attr) list" where
  "sample_attrs = [(4, \<lparr>pa_i = 1, pa_s = None\<rparr>), (32, \<lparr>pa_i = 300, pa_s = Some [103, 110, 117]\<rparr>)]"

lemma attributes_read_back_witness:
  "\<exists>t'. pub_file_attributes_read (Some ppc_attribute_tag_t) 10 (\<lambda>_. True)
        (Some (new_table (gnu_ppc_vendor (\<lambda>_. True))))
        (concat (map (enc_attr ppc_attribute_tag_t) sample_attrs)) 9 = (Ok (), Some t') \<and>
    (\<forall>tag. attribute_get_tag_val 10 t' tag =
       (case map_of sample_attrs tag of None \<Rightarrow> Fail (-1) | Some v \<Rightarrow> Ok v))"
proof (rule attributes_read_back)
  show "unat (9 :: u32) = length (concat (map (enc_attr ppc_attribute_tag_t) sample_attrs))"
    by (simp add: sample_attrs_def enc_attr_def enc_value_def uleb_enc.simps ppc_attribute_tag_t_def)
qed (auto simp: sample_attrs_def value_ok_def ppc_attribute_tag_t_def arr_part_def in_array_def
    gnu_ppc_vendor_def ppc_max_tag_def)

text \<open>The count of free places is set when the array is made and never goes down: an attribute with tag 0
  takes the place of the last one, and the next one is written behind the array.\<close>

lemma array_overrun:
  "fst (pub_file_attributes_read (Some (\<lambda>tag. if tag = Tag_Compat then T_both else T_num)) 1 (\<lambda>_. True)
     (Some (new_table ((gnu_ppc_vendor (\<lambda>_. True))\<lparr>v_max_tag := 1\<rparr>))) [0, 5, 1, 6] 4) = UB"
  by code_simp

text \<open>Reading an attribute whose tag already stands twice in a row in the list never returns: the
  loop that looks for the last element with the tag tests a pointer it does not move. So a third
  compatibility tag in a section hangs the loader.\<close>

lemma third_attribute_hangs:
  assumes "f Tag_Compat = T_both" and "\<not> in_array mx tag" and "value_ok (f tag) v" and "\<And>n. mok n"
    and "at_lst t = pre @ (tag, a) # (tag, b) # post" and "tag \<notin> fst ` set pre"
    and "length (enc_attr f (tag, v)) \<le> unat sz" "unat sz < 2 ^ 31"
  shows "fst (pub_read_loop (Some f) mx mok t (enc_attr f (tag, v) @ r) sz) = Hang"
proof -
  obtain sz' where one: "pub_read_one (Some f) mx mok t (enc_attr f (tag, v) @ r) sz =
      then_do (attr_put mx tag v (grow_for mx tag t)) (\<lambda>_ t. (Ok (r, sz'), t))"
    using read_one_enc [where f = f and mok = mok and mx = mx and t = t and r = r,
        OF assms(1,3,7,8)] assms(2,4) by blast
  have "attr_insert tag v (at_lst t) = Hang"
    unfolding assms(5) using assms(6) by (intro attr_insert_hang) auto
  moreover have "grow_for mx tag t = t" using assms(2) by (simp add: grow_for_def attr_reserve_def)
  ultimately have "pub_read_one (Some f) mx mok t (enc_attr f (tag, v) @ r) sz = (Hang, t)"
    using assms(2) by (simp add: one attr_put_def)
  moreover have "sz \<noteq> 0" using assms(7) by (auto simp: enc_attr_def)
  ultimately show ?thesis by (subst pub_read_loop.simps) simp
qed

lemma third_attribute_hangs_witness:
  "fst (pub_read_loop (Some ppc_attribute_tag_t) 10 (\<lambda>_. True)
     ((new_table (gnu_ppc_vendor (\<lambda>_. True)))
        \<lparr>at_lst := [(32, \<lparr>pa_i = 2, pa_s = Some []\<rparr>), (32, \<lparr>pa_i = 1, pa_s = Some []\<rparr>)]\<rparr>)
     (enc_attr ppc_attribute_tag_t (32, \<lparr>pa_i = 3, pa_s = Some []\<rparr>) @ []) 3) = Hang"
  by (rule third_attribute_hangs [where pre = "[]" and post = "[]"])
    (auto simp: in_array_def value_ok_def ppc_attribute_tag_t_def enc_attr_def enc_value_def uleb_enc.simps)

text \<open>C40: A number of at most 32 bits in uleb128 encoding is decoded to itself, and the decoder reports
  how many bytes it used.\<close>

theorem guleb128_roundtrip:
  assumes "m < 2 ^ 32" and "int (length (uleb_enc m)) \<le> sz"
  shows "pmelf_guleb128 (uleb_enc m @ r) sz = Ok (of_nat m, length (uleb_enc m))"
  using assms by (rule guleb128_enc)

lemma guleb128_roundtrip_witness:
  "pmelf_guleb128 (uleb_enc 624485 @ [7]) 4 = Ok (624485, 3)"
  using guleb128_roundtrip [of 624485 4 "[7]"] by (simp add: uleb_enc.simps)

end
