(* ===== verification/Vars.thy ===== *)
theory Vars imports Syms begin

text \<open>
  User variables and strings (\<open>vars.h\<close>, \<open>vars.c\<close>): two linked lists in ascending order of the names,
  one of variables and one of the strings that hold their names. The memory is explicit: \<open>vs_p\<close> gives the
  link of every cell there is. The addresses of new cells come from the allocator, 0 when it fails. The
  list is shown to implement a finite map, whatever sequence of operations is applied.
\<close>

section \<open>State\<close>

text \<open>
  A cell of either list starts with its link. \<open>vs_gbl\<close> and \<open>vs_strtab\<close> are the addresses of the two list
  heads. The storage of the value of a variable lies 48 bytes behind the start of its cell.
\<close>

record vars_state =
  vs_gbl :: u64
  vs_strtab :: u64
  vs_p :: "u64 \<Rightarrow> u64 option"
  vs_sym :: "u64 \<Rightarrow> CexpSym"
  vs_str :: "u64 \<Rightarrow> string"
  vs_mem :: "64 mem"
  vs_walking :: int

definition strcmp :: "string \<Rightarrow> string \<Rightarrow> int" where
  "strcmp a b = (if a < b then -1 else if a = b then 0 else 1)"

definition strcomp :: "vars_state \<Rightarrow> string \<Rightarrow> u64 \<Rightarrow> int" where
  "strcomp st what el = strcmp (vs_str st el) what"

definition varcomp :: "vars_state \<Rightarrow> string \<Rightarrow> u64 \<Rightarrow> int" where
  "varcomp st what el = strcmp (name_of (vs_sym st el)) what"

section \<open>Linked lists\<close>

text \<open>A failed assertion ends the program; it is the result \<open>Fail (-1)\<close> of these functions.\<close>

definition lhrAdd :: "u64 \<Rightarrow> u64 \<Rightarrow> vars_state \<Rightarrow> vars_state res" where
  "lhrAdd el where st =
     (case (vs_p st el, vs_p st where) of
        (Some elp, Some next) \<Rightarrow>
          if elp \<noteq> 0 \<or> vs_walking st \<noteq> 0 then Fail (-1)
          else Ok (st\<lparr>vs_p := (vs_p st)(el \<mapsto> next, where \<mapsto> el)\<rparr>)
      | _ \<Rightarrow> UB)"

text \<open>
  The search: the first element that does not compare less, the one before it and the last result of the
  comparison. \<open>None\<close> is a search that does not end.
\<close>

partial_function (option) find_loop ::
    "(u64 \<Rightarrow> u64 option) \<Rightarrow> (u64 \<Rightarrow> int) \<Rightarrow> u64 \<Rightarrow> u64 \<Rightarrow> int \<Rightarrow> (u64 \<times> u64 \<times> int) res option" where
  "find_loop p cmp v pred missed =
     (if v = 0 then Some (Ok (v, pred, missed))
      else case p v of
             None \<Rightarrow> Some UB
           | Some next \<Rightarrow>
               if cmp v < 0 then find_loop p cmp next v (cmp v) else Some (Ok (v, pred, cmp v)))"

definition lhrFindN :: "u64 \<Rightarrow> (u64 \<Rightarrow> int) \<Rightarrow> vars_state \<Rightarrow> (u64 \<times> u64) res" where
  "lhrFindN where cmp st =
     (case vs_p st where of
        None \<Rightarrow> UB
      | Some first \<Rightarrow>
          (case find_loop (vs_p st) cmp first where 1 of
             None \<Rightarrow> Hang
           | Some r \<Rightarrow> bind_res r (\<lambda>(v, pred, missed). Ok (if missed \<noteq> 0 then 0 else v, pred))))"

text \<open>The cells from \<open>listel\<close> on are given back.\<close>

partial_function (option) flush_loop :: "(u64 \<Rightarrow> u64 option) \<Rightarrow> u64 \<Rightarrow> (u64 \<Rightarrow> u64 option) res option" where
  "flush_loop p v =
     (if v = 0 then Some (Ok p)
      else case p v of None \<Rightarrow> Some UB | Some next \<Rightarrow> flush_loop (p(v := None)) next)"

section \<open>Operations\<close>

definition strFindN :: "string \<Rightarrow> vars_state \<Rightarrow> (u64 \<times> u64) res" where
  "strFindN chpt st = lhrFindN (vs_strtab st) (strcomp st chpt) st"

definition findN :: "string \<Rightarrow> vars_state \<Rightarrow> (u64 \<times> u64) res" where
  "findN name st = lhrFindN (vs_gbl st) (varcomp st name) st"

definition cexpVarsFlush :: "vars_state \<Rightarrow> vars_state res" where
  "cexpVarsFlush st =
     (case vs_p st (vs_gbl st) of
        None \<Rightarrow> UB
      | Some first \<Rightarrow>
          (case flush_loop (vs_p st) first of
             None \<Rightarrow> Hang
           | Some r \<Rightarrow> bind_res r (\<lambda>p. Ok (st\<lparr>vs_p := p(vs_gbl st \<mapsto> 0)\<rparr>))))"

definition CEXP_LAST_RESULT_VAR_NAME :: string where "CEXP_LAST_RESULT_VAR_NAME = ''ans''"

text \<open>A symbol: the result of the last expression, or the one in a cell of the list.\<close>

datatype var_sym = LastResult | VarSym u64 | NoSym

definition alloc_cell :: "u64 \<Rightarrow> vars_state \<Rightarrow> vars_state" where
  "alloc_cell a st = (if a = 0 then st else st\<lparr>vs_p := (vs_p st)(a \<mapsto> 0)\<rparr>)"

definition free_cell :: "u64 \<Rightarrow> vars_state \<Rightarrow> vars_state" where
  "free_cell a st = (if a = 0 then st else st\<lparr>vs_p := (vs_p st)(a := None)\<rparr>)"

text \<open>The address of the member \<open>val\<close> of a variable.\<close>

definition val_addr :: "u64 \<Rightarrow> u64" where "val_addr v = v + 48"

definition var_sym_of :: "u64 \<Rightarrow> string \<Rightarrow> CexpSym" where
  "var_sym_of n name = zero_sym\<lparr>sy_name := Some name,
     sy_value := \<lparr>ca_ptv = val_addr n, ca_type = TVoid\<rparr>, sy_size := 8, sy_flags := 0\<rparr>"

definition calloc_cells :: "u64 \<Rightarrow> u64 \<Rightarrow> vars_state \<Rightarrow> vars_state" where
  "calloc_cells n s st =
     (let st1 = alloc_cell s (alloc_cell n st) in
      if n = 0 then st1 else st1\<lparr>vs_mem := store_n True 8 (0 :: u64) (val_addr n) (vs_mem st1)\<rparr>)"

text \<open>
  \<open>n\<close> and \<open>s\<close> are what the two calls of \<open>calloc\<close> deliver when \<open>creat\<close> is set. The name of the new symbol is
  the string in the string table.
\<close>

definition cexpVarLookup :: "string \<Rightarrow> bool \<Rightarrow> u64 \<Rightarrow> u64 \<Rightarrow> vars_state \<Rightarrow> (vars_state \<times> var_sym) res" where
  "cexpVarLookup name creat new_n new_s st =
     (if strcmp name CEXP_LAST_RESULT_VAR_NAME = 0 then Ok (st, LastResult)
      else
        let n = (if creat then new_n else 0); s = (if creat then new_s else 0);
            st = calloc_cells n s st
        in bind_res (findN name st) (\<lambda>(v, where).
          bind_res
            (if v = 0 \<and> creat \<and> n \<noteq> 0 \<and> s \<noteq> 0 then
               bind_res (strFindN name st) (\<lambda>(t, q).
               bind_res (if t = 0
                         then bind_res (lhrAdd s q st) (\<lambda>st.
                           Ok (st\<lparr>vs_str := (vs_str st)(s := name)\<rparr>, s, 0))
                         else Ok (st, t, s)) (\<lambda>(st, t, s).
               bind_res (lhrAdd n where st) (\<lambda>st.
                 Ok (st\<lparr>vs_sym := (vs_sym st)(n := var_sym_of n (vs_str st t))\<rparr>, n, 0, s))))
             else Ok (st, v, n, s))
            (\<lambda>(st, v, n, s).
               Ok (free_cell s (free_cell n st), if v \<noteq> 0 then VarSym v else NoSym))))"

text \<open>A failing \<open>malloc\<close> is not noticed before the first write through the pointer.\<close>

definition cexpStrLookup :: "string \<Rightarrow> bool \<Rightarrow> u64 \<Rightarrow> vars_state \<Rightarrow> (vars_state \<times> u64) res" where
  "cexpStrLookup name creat new_s st =
     (if creat \<and> new_s = 0 then UB
      else
        let s = (if creat then new_s else 0); st = alloc_cell s st
        in bind_res (strFindN name st) (\<lambda>(t, q).
          bind_res
            (if t = 0 \<and> creat \<and> s \<noteq> 0 then
               bind_res (lhrAdd s q st) (\<lambda>st. Ok (st\<lparr>vs_str := (vs_str st)(s := name)\<rparr>, s, 0))
             else Ok (st, t, s))
            (\<lambda>(st, t, s). Ok (free_cell s st, t))))"

definition cexpVarDelete :: "string \<Rightarrow> vars_state \<Rightarrow> (vars_state \<times> u64) res" where
  "cexpVarDelete name st =
     bind_res (findN name st) (\<lambda>(v, p).
       if v \<noteq> 0 then Ok (st\<lparr>vs_p := (vs_p st)(p := vs_p st v, v := None)\<rparr>, 0xdeadbeef)
       else Ok (st, 0))"

text \<open>The walker is called for every variable until it returns something else than null.\<close>

partial_function (option) walk_loop ::
    "(u64 \<Rightarrow> u64 option) \<Rightarrow> (u64 \<Rightarrow> CexpSym) \<Rightarrow> (string \<Rightarrow> u64 \<Rightarrow> u64) \<Rightarrow> u64 \<Rightarrow> u64 res option" where
  "walk_loop p symf walker v =
     (if v = 0 then Some (Ok 0)
      else case p v of
             None \<Rightarrow> Some UB
           | Some next \<Rightarrow>
               let rval = walker (name_of (symf v)) v in
               if rval \<noteq> 0 then Some (Ok rval) else walk_loop p symf walker next)"

definition cexpVarWalk :: "(string \<Rightarrow> u64 \<Rightarrow> u64) \<Rightarrow> vars_state \<Rightarrow> u64 res" where
  "cexpVarWalk walker st =
     (case vs_p st (vs_gbl st) of
        None \<Rightarrow> UB
      | Some first \<Rightarrow>
          (case walk_loop (vs_p st) (vs_sym st) walker first of None \<Rightarrow> Hang | Some r \<Rightarrow> r))"

section \<open>Chains of cells\<close>

text \<open>The cells \<open>xs\<close> follow one another from the cell \<open>w\<close> on.\<close>

fun linked :: "(u64 \<Rightarrow> u64 option) \<Rightarrow> u64 \<Rightarrow> u64 list \<Rightarrow> bool" where
  "linked p w [] \<longleftrightarrow> p w = Some 0"
| "linked p w (x # xs) \<longleftrightarrow> p w = Some x \<and> x \<noteq> 0 \<and> linked p x xs"

definition hd0 :: "u64 list \<Rightarrow> u64" where
  "hd0 xs = (case xs of [] \<Rightarrow> 0 | x # _ \<Rightarrow> x)"

lemma hd0_simps [simp]: "hd0 [] = 0" "hd0 (x # xs) = x"
  by (simp_all add: hd0_def)

lemma linked_hd0: "linked p w xs \<Longrightarrow> p w = Some (hd0 xs)"
  by (cases xs) auto

lemma linked_upd: "x \<notin> set (w # xs) \<Longrightarrow> linked (p(x := y)) w xs \<longleftrightarrow> linked p w xs"
  by (induction xs arbitrary: w) auto

lemma linked_no_0: "linked p w xs \<Longrightarrow> 0 \<notin> set xs"
  by (induction xs arbitrary: w) auto

lemma linked_dom: "linked p w xs \<Longrightarrow> set (w # xs) \<subseteq> dom p"
  by (induction xs arbitrary: w) auto

lemma linked_last: "linked p w (lo @ hi) \<Longrightarrow> p (last (w # lo)) = Some (hd0 hi)"
  by (induction lo arbitrary: w) (auto dest: linked_hd0)

lemma linked_insert:
  assumes "linked p w (lo @ hi)" and "distinct (w # lo @ hi)" and "el \<notin> set (w # lo @ hi)" and "el \<noteq> 0"
  shows "linked (p(el \<mapsto> hd0 hi, last (w # lo) \<mapsto> el)) w (lo @ el # hi)"
  using assms
proof (induction lo arbitrary: w)
  case Nil
  have "linked (p(el \<mapsto> hd0 hi)) el hi"
    using Nil.prems by (cases hi) (auto simp: linked_upd)
  then have "linked (p(el \<mapsto> hd0 hi, w \<mapsto> el)) el hi"
    using Nil.prems by (subst linked_upd) auto
  then show ?case using Nil.prems(4) by (simp del: fun_upd_apply add: fun_upd_same)
next
  case (Cons x lo)
  let ?q = "p(el \<mapsto> hd0 hi, last (x # lo) \<mapsto> el)"
  have "last (x # lo) \<noteq> w" using Cons.prems(2) last_in_set [of "x # lo"] by auto
  then have "?q w = Some x" using Cons.prems by auto
  moreover have "linked ?q x (lo @ el # hi)" by (rule Cons.IH) (use Cons.prems in auto)
  moreover have "x \<noteq> 0" "last (w # x # lo) = last (x # lo)" using Cons.prems(1) by simp_all
  ultimately show ?case by (simp only: append_Cons linked.simps) blast
qed

lemma linked_delete:
  assumes "linked p w (lo @ v # hi)" and "distinct (w # lo @ v # hi)"
  shows "linked (p(last (w # lo) := p v, v := None)) w (lo @ hi)"
  using assms
proof (induction lo arbitrary: w)
  case Nil
  then have "linked (p(w := p v)) v hi" by (subst linked_upd) auto
  then have "linked (p(w := p v)) w hi" using Nil.prems by (cases hi) (auto simp: linked_upd)
  then have "linked (p(w := p v, v := None)) w hi" using Nil.prems by (subst linked_upd) auto
  then show ?case by (simp del: fun_upd_apply)
next
  case (Cons x lo)
  let ?q = "p(last (x # lo) := p v, v := None)"
  have "last (x # lo) \<noteq> w" using Cons.prems(2) last_in_set [of "x # lo"] by auto
  then have "?q w = Some x" using Cons.prems by auto
  moreover have "linked ?q x (lo @ hi)" by (rule Cons.IH) (use Cons.prems in auto)
  moreover have "x \<noteq> 0" "last (w # x # lo) = last (x # lo)" using Cons.prems(1) by simp_all
  ultimately show ?case by (simp only: append_Cons linked.simps) blast
qed

lemma find_loop_run:
  "linked p w xs \<Longrightarrow>
     find_loop p cmp (hd0 xs) w m =
       Some (Ok (hd0 (dropWhile (\<lambda>x. cmp x < 0) xs), last (w # takeWhile (\<lambda>x. cmp x < 0) xs),
         if dropWhile (\<lambda>x. cmp x < 0) xs = [] then (if xs = [] then m else cmp (last xs))
         else cmp (hd (dropWhile (\<lambda>x. cmp x < 0) xs))))"
proof (induction xs arbitrary: w m)
  case (Cons x xs)
  have px: "p x = Some (hd0 xs)" using Cons.prems linked_hd0 by simp
  show ?case
  proof (cases "cmp x < 0")
    case True
    then show ?thesis
      using Cons px by (subst find_loop.simps) auto
  next
    case False
    then show ?thesis using Cons.prems px by (subst find_loop.simps) auto
  qed
qed (simp add: find_loop.simps)

lemma flush_loop_run:
  "linked p x xs \<Longrightarrow> x \<noteq> 0 \<Longrightarrow> distinct (x # xs) \<Longrightarrow>
     flush_loop p x = Some (Ok (p |` (- set (x # xs))))"
proof (induction xs arbitrary: p x)
  case Nil
  have "p(x := None) = p |` (- set [x])" by (auto simp: restrict_map_def)
  then show ?case using Nil by (subst flush_loop.simps) (simp add: flush_loop.simps)
next
  case (Cons y ys)
  have "linked (p(x := None)) y ys" using Cons.prems by (subst linked_upd) auto
  then have "flush_loop (p(x := None)) y = Some (Ok (p(x := None) |` (- set (y # ys))))"
    by (rule Cons.IH) (use Cons.prems in auto)
  moreover have "p(x := None) |` (- set (y # ys)) = p |` (- set (x # y # ys))"
    by (auto simp: restrict_map_def)
  ultimately have "flush_loop (p(x := None)) y = Some (Ok (p |` (- set (x # y # ys))))" by (simp only:)
  then show ?case using Cons.prems by (subst flush_loop.simps) (simp only: linked.simps option.case if_False)
qed

section \<open>The lists are finite maps\<close>

text \<open>
  The state represents the variables \<open>m\<close> and the strings \<open>sm\<close>, which give the cell of a name. There are
  no other cells than those of the two lists and their heads: no cell is lost.
\<close>

definition ordered :: "(u64 \<Rightarrow> string) \<Rightarrow> u64 list \<Rightarrow> (string \<Rightarrow> u64 option) \<Rightarrow> bool" where
  "ordered nm xs m \<longleftrightarrow> sorted_wrt (<) (map nm xs) \<and> m = map_of (map (\<lambda>x. (nm x, x)) xs)"

definition vname :: "vars_state \<Rightarrow> u64 \<Rightarrow> string" where
  "vname st v = name_of (vs_sym st v)"

definition var_ok :: "vars_state \<Rightarrow> u64 \<Rightarrow> bool" where
  "var_ok st v \<longleftrightarrow> sy_name (vs_sym st v) \<noteq> None \<and> ca_ptv (sy_value (vs_sym st v)) = val_addr v \<and>
     vname st v \<noteq> CEXP_LAST_RESULT_VAR_NAME"

text \<open>Two lists, and the cells in \<open>X\<close> that are allocated but in neither of them.\<close>

definition two_lists ::
    "(u64 \<Rightarrow> u64 option) \<Rightarrow> u64 \<Rightarrow> u64 list \<Rightarrow> u64 \<Rightarrow> u64 list \<Rightarrow> u64 set \<Rightarrow> bool" where
  "two_lists p g vs s ss X \<longleftrightarrow>
     linked p g vs \<and> linked p s ss \<and> distinct (g # s # vs @ ss) \<and> g \<noteq> 0 \<and> s \<noteq> 0 \<and>
     dom p = set (g # s # vs @ ss) \<union> X \<and>
     X \<inter> set (g # s # vs @ ss) = {} \<and> 0 \<notin> X \<and> (\<forall>x \<in> X. p x = Some 0)"

definition cells :: "vars_state \<Rightarrow> u64 list \<Rightarrow> u64 list \<Rightarrow> u64 set \<Rightarrow> bool" where
  "cells st vs ss X \<longleftrightarrow> two_lists (vs_p st) (vs_gbl st) vs (vs_strtab st) ss X"

definition represents :: "vars_state \<Rightarrow> (string \<Rightarrow> u64 option) \<Rightarrow> (string \<Rightarrow> u64 option) \<Rightarrow> bool" where
  "represents st m sm \<longleftrightarrow>
     (\<exists>vs ss. cells st vs ss {} \<and> vs_walking st = 0 \<and>
        ordered (vname st) vs m \<and> ordered (vs_str st) ss sm \<and>
        (\<forall>v \<in> set vs. var_ok st v) \<and> vname st ` set vs \<subseteq> vs_str st ` set ss)"

text \<open>The place of a name in an ordered list.\<close>

definition below :: "(u64 \<Rightarrow> string) \<Rightarrow> string \<Rightarrow> u64 list \<Rightarrow> u64 list" where
  "below nm k xs = takeWhile (\<lambda>x. nm x < k) xs"

definition above :: "(u64 \<Rightarrow> string) \<Rightarrow> string \<Rightarrow> u64 list \<Rightarrow> u64 list" where
  "above nm k xs = dropWhile (\<lambda>x. nm x < k) xs"

lemma below_above: "below nm k xs @ above nm k xs = xs"
  by (simp add: below_def above_def)

lemma set_below_above: "set (below nm k xs @ x # above nm k xs) = insert x (set xs)"
proof -
  have "set xs = set (below nm k xs) \<union> set (above nm k xs)"
    by (subst (1) below_above [of nm k xs, symmetric]) simp
  then show ?thesis by auto
qed

lemma below_less: "x \<in> set (below nm k xs) \<Longrightarrow> nm x < k"
  by (auto simp: below_def dest: set_takeWhileD)

lemma above_ge: "sorted_wrt (<) (map nm xs) \<Longrightarrow> x \<in> set (above nm k xs) \<Longrightarrow> k \<le> nm x"
proof (induction xs)
  case (Cons y xs)
  show ?case
  proof (cases "nm y < k")
    case False
    then have "k \<le> nm y" "nm y \<le> nm x" using Cons.prems by (auto simp: above_def)
    then show ?thesis by simp
  qed (use Cons in \<open>simp add: above_def\<close>)
qed (simp add: above_def)

lemma map_of_names: "map_of (map (\<lambda>x. (nm x, x)) xs) k = None \<longleftrightarrow> k \<notin> nm ` set xs"
  by (simp add: map_of_eq_None_iff image_image)

lemma map_of_no_name [simp]: "k \<notin> nm ` set xs \<Longrightarrow> map_of (map (\<lambda>x. (nm x, x)) xs) k = None"
  by (simp only: map_of_names not_False_eq_True)

lemma ordered_lookup:
  assumes "ordered nm xs m"
  shows "m k = (if above nm k xs \<noteq> [] \<and> nm (hd (above nm k xs)) = k then Some (hd (above nm k xs)) else None)"
proof (cases "above nm k xs")
  case Nil
  then have "xs = below nm k xs" using below_above [of nm k xs] by simp
  then have "k \<notin> nm ` set xs" using below_less [of _ nm k xs] by force
  then show ?thesis using assms Nil by (simp add: ordered_def map_of_names)
next
  case (Cons y ys)
  have srt: "sorted_wrt (<) (map nm xs)" using assms by (simp add: ordered_def)
  have xs: "xs = below nm k xs @ y # ys" using below_above [of nm k xs] Cons by simp
  have lo: "k \<notin> nm ` set (below nm k xs)" using below_less [of _ nm k xs] by force
  have m: "m k = map_of (map (\<lambda>x. (nm x, x)) (below nm k xs @ y # ys)) k"
    using assms xs by (simp add: ordered_def)
  show ?thesis
  proof (cases "nm y = k")
    case True
    then show ?thesis using m lo Cons by (simp add: map_add_def)
  next
    case False
    have "sorted_wrt (<) (map nm (below nm k xs @ y # ys))" using srt xs by simp
    moreover have "k < nm y" using above_ge [OF srt, of y k] False Cons by simp
    ultimately have "k \<notin> nm ` set ys" by (auto simp: sorted_wrt_append)
    then show ?thesis using m lo Cons False by (simp add: map_add_def)
  qed
qed

lemma ordered_insert:
  assumes "ordered nm xs m" and "m k = None" and "nm' el = k" and "\<forall>x \<in> set xs. nm' x = nm x" 
  shows "ordered nm' (below nm k xs @ el # above nm k xs) (m(k \<mapsto> el))"
proof -
  have srt: "sorted_wrt (<) (map nm xs)" and m: "m = map_of (map (\<lambda>x. (nm x, x)) xs)"
    using assms(1) by (simp_all add: ordered_def)
  have notin: "k \<notin> nm ` set xs" using assms(2) by (simp add: m map_of_names)
  have sub: "set (below nm k xs) \<union> set (above nm k xs) = set xs"
    using below_above [of nm k xs] by (metis set_append)
  have eq: "map nm' (below nm k xs) = map nm (below nm k xs)" "map nm' (above nm k xs) = map nm (above nm k xs)"
    using assms(4) sub by auto
  have "k < nm x" if "x \<in> set (above nm k xs)" for x
    using above_ge [OF srt that] notin sub that by (metis Un_iff imageI le_less)
  moreover have "sorted_wrt (<) (map nm (below nm k xs) @ map nm (above nm k xs))"
    using srt below_above [of nm k xs] by (metis map_append)
  ultimately have "sorted_wrt (<) (map nm (below nm k xs) @ k # map nm (above nm k xs))"
    by (auto simp: sorted_wrt_append dest: below_less intro: less_trans)
  then have "sorted_wrt (<) (map nm' (below nm k xs @ el # above nm k xs))"
    unfolding map_append list.map(2) eq assms(3) .
  moreover have "m(k \<mapsto> el) = map_of (map (\<lambda>x. (nm' x, x)) (below nm k xs @ el # above nm k xs))"
  proof
    fix j
    have a: "map (\<lambda>x. (nm' x, x)) (below nm k xs) = map (\<lambda>x. (nm x, x)) (below nm k xs)"
      "map (\<lambda>x. (nm' x, x)) (above nm k xs) = map (\<lambda>x. (nm x, x)) (above nm k xs)"
      using assms(4) sub by auto
    have "m = map_of (map (\<lambda>x. (nm x, x)) (below nm k xs @ above nm k xs))"
      by (simp only: m below_above)
    moreover have "k \<notin> nm ` set (below nm k xs)" using notin sub by auto
    ultimately show "(m(k \<mapsto> el)) j = map_of (map (\<lambda>x. (nm' x, x)) (below nm k xs @ el # above nm k xs)) j"
      using assms(3) by (simp add: a map_add_def split: option.split)
  qed
  ultimately show ?thesis by (simp add: ordered_def)
qed

lemma ordered_delete:
  assumes "ordered nm (lo @ v # hi) m"
  shows "ordered nm (lo @ hi) (m(nm v := None))"
proof -
  have srt: "sorted_wrt (<) (map nm (lo @ v # hi))" using assms by (simp add: ordered_def)
  then have n: "nm v \<notin> nm ` set lo" "nm v \<notin> nm ` set hi" by (auto simp: sorted_wrt_append)
  have "m(nm v := None) = map_of (map (\<lambda>x. (nm x, x)) (lo @ hi))"
  proof
    fix j
    show "(m(nm v := None)) j = map_of (map (\<lambda>x. (nm x, x)) (lo @ hi)) j"
      using assms n by (cases "j = nm v") (simp_all add: ordered_def map_add_def split: option.split)
  qed
  then show ?thesis using srt by (auto simp: ordered_def sorted_wrt_append)
qed

section \<open>What the operations do\<close>

lemma linked_cong: "(\<And>x. x \<in> set (w # xs) \<Longrightarrow> p x = q x) \<Longrightarrow> linked p w xs \<longleftrightarrow> linked q w xs"
  by (induction xs arbitrary: w) auto

lemma strcmp_simps [simp]: "strcmp a b < 0 \<longleftrightarrow> a < b" "strcmp a b = 0 \<longleftrightarrow> a = b"
  by (auto simp: strcmp_def)

lemma lhrFindN_run:
  assumes "linked (vs_p st) w xs" and "ordered nm xs m"
  shows "lhrFindN w (\<lambda>x. strcmp (nm x) k) st =
     Ok (case m k of None \<Rightarrow> 0 | Some v \<Rightarrow> v, last (w # below nm k xs))"
proof -
  have lt: "(\<lambda>x. strcmp (nm x) k < 0) = (\<lambda>x. nm x < k)" by (simp add: fun_eq_iff)
  have run: "find_loop (vs_p st) (\<lambda>x. strcmp (nm x) k) (hd0 xs) w 1 =
     Some (Ok (hd0 (above nm k xs), last (w # below nm k xs),
       if above nm k xs = [] then (if xs = [] then 1 else strcmp (nm (last xs)) k)
       else strcmp (nm (hd (above nm k xs))) k))"
    using find_loop_run [OF assms(1), of "\<lambda>x. strcmp (nm x) k" 1]
    unfolding above_def below_def lt .
  have first: "vs_p st w = Some (hd0 xs)" using assms(1) by (rule linked_hd0)
  show ?thesis
  proof (cases "above nm k xs")
    case Nil
    then have "xs = below nm k xs" using below_above [of nm k xs] by simp
    then have "xs \<noteq> [] \<Longrightarrow> nm (last xs) < k" using below_less [of "last xs" nm k xs] by simp
    then have "xs \<noteq> [] \<Longrightarrow> strcmp (nm (last xs)) k \<noteq> 0" by auto
    then show ?thesis
      using ordered_lookup [OF assms(2), of k] Nil first run by (simp add: lhrFindN_def)
  next
    case (Cons y ys)
    have "y \<noteq> 0" using linked_no_0 [OF assms(1)] below_above [of nm k xs] Cons by (metis in_set_conv_decomp)
    then show ?thesis
      using ordered_lookup [OF assms(2), of k] Cons first run by (simp add: lhrFindN_def)
  qed
qed

lemma findN_run:
  assumes "cells st vs ss X" and "ordered (vname st) vs m"
  shows "findN k st = Ok (case m k of None \<Rightarrow> 0 | Some v \<Rightarrow> v, last (vs_gbl st # below (vname st) k vs))"
proof -
  have "varcomp st k = (\<lambda>x. strcmp (vname st x) k)" by (simp add: fun_eq_iff varcomp_def vname_def)
  then show ?thesis
    using lhrFindN_run [of st "vs_gbl st" vs "vname st" m k] assms
    by (simp only: findN_def cells_def two_lists_def)
qed

lemma strFindN_run:
  assumes "cells st vs ss X" and "ordered (vs_str st) ss sm"
  shows "strFindN k st = Ok (case sm k of None \<Rightarrow> 0 | Some v \<Rightarrow> v, last (vs_strtab st # below (vs_str st) k ss))"
proof -
  have "strcomp st k = (\<lambda>x. strcmp (vs_str st x) k)" by (simp add: fun_eq_iff strcomp_def)
  then show ?thesis
    using lhrFindN_run [of st "vs_strtab st" ss "vs_str st" sm k] assms
    by (simp only: strFindN_def cells_def two_lists_def)
qed

lemma two_lists_sym: "two_lists p g vs s ss X \<longleftrightarrow> two_lists p s ss g vs X"
  by (auto simp: two_lists_def)

definition fresh :: "u64 \<Rightarrow> vars_state \<Rightarrow> bool" where
  "fresh a st \<longleftrightarrow> a \<noteq> 0 \<and> a \<notin> dom (vs_p st)"

lemma cells_alloc:
  assumes "cells st vs ss X" and "a = 0 \<or> fresh a st"
  shows "cells (alloc_cell a st) vs ss (if a = 0 then X else insert a X)"
proof (cases "a = 0")
  case False
  then have "a \<notin> set (vs_gbl st # vs_strtab st # vs @ ss)"
    using assms by (auto simp: fresh_def cells_def two_lists_def)
  then show ?thesis
    using assms False by (auto simp: alloc_cell_def cells_def two_lists_def linked_upd fresh_def)
qed (use assms in \<open>simp add: alloc_cell_def\<close>)

lemma cells_free:
  assumes "cells st vs ss X" and "a = 0 \<or> a \<in> X"
  shows "cells (free_cell a st) vs ss (X - {a})"
proof (cases "a = 0")
  case False
  then have "a \<notin> set (vs_gbl st # vs_strtab st # vs @ ss)"
    using assms by (auto simp: cells_def two_lists_def)
  then show ?thesis
    using assms False by (auto simp: free_cell_def cells_def two_lists_def linked_upd)
qed (use assms in \<open>auto simp: free_cell_def cells_def two_lists_def\<close>)

lemma two_lists_add:
  assumes "two_lists p g (lo @ hi) s ss X" and "n \<in> X"
  shows "p n = Some 0" "p (last (g # lo)) = Some (hd0 hi)"
    "two_lists (p(n \<mapsto> hd0 hi, last (g # lo) \<mapsto> n)) g (lo @ n # hi) s ss (X - {n})"
proof -
  let ?w = "last (g # lo)"
  let ?q = "p(n \<mapsto> hd0 hi, ?w \<mapsto> n)"
  have inw: "?w \<in> set (g # lo)" by simp
  have out: "n \<notin> set (g # s # (lo @ hi) @ ss)" "n \<noteq> 0" "p n = Some 0"
    using assms by (auto simp: two_lists_def)
  have d: "distinct (g # lo @ hi)" "set (g # lo) \<inter> set (s # ss) = {}" "set (g # lo) \<inter> X = {}"
    using assms(1) by (auto simp: two_lists_def)
  show pw: "p ?w = Some (hd0 hi)" using assms(1) linked_last by (auto simp: two_lists_def)
  show "p n = Some 0" by (rule out(3))
  have l1: "linked ?q g (lo @ n # hi)"
    by (rule linked_insert) (use assms(1) d(1) out in \<open>auto simp: two_lists_def\<close>)
  have "linked ?q s ss \<longleftrightarrow> linked p s ss"
    by (rule linked_cong) (use out d(2) inw in auto)
  then have l2: "linked ?q s ss" using assms(1) by (simp add: two_lists_def)
  have dm: "dom ?q = insert n (dom p)" using pw by auto
  have ex: "?q x = Some 0" if "x \<in> X - {n}" for x
  proof -
    have "x \<noteq> ?w" using d(3) inw that by blast
    then show ?thesis using that assms(1) by (auto simp: two_lists_def)
  qed
  show "two_lists ?q g (lo @ n # hi) s ss (X - {n})"
    using assms l1 l2 ex out dm by (auto simp: two_lists_def simp del: fun_upd_apply)
qed

lemma add_var:
  assumes "cells st vs ss X" and "n \<in> X" and "vs_walking st = 0" and "vs = lo @ hi"
  shows "\<exists>q. lhrAdd n (last (vs_gbl st # lo)) st = Ok (st\<lparr>vs_p := q\<rparr>) \<and>
     cells (st\<lparr>vs_p := q\<rparr>) (lo @ n # hi) ss (X - {n})"
  using two_lists_add [of "vs_p st" "vs_gbl st" lo hi "vs_strtab st" ss X n] assms
  by (auto simp: cells_def lhrAdd_def)

lemma add_str:
  assumes "cells st vs ss X" and "n \<in> X" and "vs_walking st = 0" and "ss = lo @ hi"
  shows "\<exists>q. lhrAdd n (last (vs_strtab st # lo)) st = Ok (st\<lparr>vs_p := q\<rparr>) \<and>
     cells (st\<lparr>vs_p := q\<rparr>) vs (lo @ n # hi) (X - {n})"
  using two_lists_add [of "vs_p st" "vs_strtab st" lo hi "vs_gbl st" vs X n] assms
  by (auto simp: cells_def lhrAdd_def two_lists_sym [of _ "vs_gbl st"])

text \<open>The abstract operations: creation needs both cells, and the name of the last result is no variable.\<close>

lemma representsE:
  assumes "represents st m sm"
  obtains vs ss where "cells st vs ss {}" "vs_walking st = 0" "ordered (vname st) vs m"
    "ordered (vs_str st) ss sm" "\<forall>v \<in> set vs. var_ok st v" "vname st ` set vs \<subseteq> vs_str st ` set ss"
  using assms by (auto simp: represents_def)

lemma free_cell_0 [simp]: "free_cell 0 st = st"
  by (simp add: free_cell_def)

lemma alloc_cell_0 [simp]: "alloc_cell 0 st = st"
  by (simp add: alloc_cell_def)

lemma free_alloc: "fresh a st \<Longrightarrow> free_cell a (alloc_cell a st) = st"
  by (auto simp: fresh_def free_cell_def alloc_cell_def fun_upd_idem_iff domIff)

lemma representsI:
  assumes "cells st vs ss {}" "vs_walking st = 0" "ordered (vname st) vs m"
    "ordered (vs_str st) ss sm" "\<And>v. v \<in> set vs \<Longrightarrow> var_ok st v" "vname st ` set vs \<subseteq> vs_str st ` set ss"
  shows "represents st m sm"
  using assms unfolding represents_def by blast

lemma alloc_sel [simp]:
  "vs_sym (alloc_cell a st) = vs_sym st" "vs_str (alloc_cell a st) = vs_str st"
  "vs_walking (alloc_cell a st) = vs_walking st" "vs_gbl (alloc_cell a st) = vs_gbl st"
  "vs_strtab (alloc_cell a st) = vs_strtab st" "vname (alloc_cell a st) = vname st"
  by (simp_all add: alloc_cell_def vname_def fun_eq_iff)

lemma free_sel [simp]:
  "vs_sym (free_cell a st) = vs_sym st" "vs_str (free_cell a st) = vs_str st"
  "vs_walking (free_cell a st) = vs_walking st" "vs_gbl (free_cell a st) = vs_gbl st"
  "vs_strtab (free_cell a st) = vs_strtab st" "vname (free_cell a st) = vname st"
  by (simp_all add: free_cell_def vname_def fun_eq_iff)

lemma cells_mem [simp]: "cells (st\<lparr>vs_mem := mm\<rparr>) vs ss X \<longleftrightarrow> cells st vs ss X"
  by (simp add: cells_def)

lemma cells_str [simp]: "cells (st\<lparr>vs_str := f\<rparr>) vs ss X \<longleftrightarrow> cells st vs ss X"
  by (simp add: cells_def)

lemma cells_sym [simp]: "cells (st\<lparr>vs_sym := f\<rparr>) vs ss X \<longleftrightarrow> cells st vs ss X"
  by (simp add: cells_def)

lemma vname_upd [simp]:
  "vname (st\<lparr>vs_mem := mm\<rparr>) = vname st" "vname (st\<lparr>vs_str := f\<rparr>) = vname st" "vname (st\<lparr>vs_p := q\<rparr>) = vname st"
  by (simp_all add: vname_def fun_eq_iff)

lemma var_ok_cong: "vs_sym st v = vs_sym st' v \<Longrightarrow> var_ok st v = var_ok st' v"
  by (simp add: var_ok_def vname_def)

text \<open>The two cells that may have been allocated, given back.\<close>

lemma represents_free:
  assumes "cells st vs ss ({n, s} - {0})" "vs_walking st = 0" "ordered (vname st) vs m"
    "ordered (vs_str st) ss sm" "\<And>v. v \<in> set vs \<Longrightarrow> var_ok st v" "vname st ` set vs \<subseteq> vs_str st ` set ss"
    and ns: "n = 0 \<or> n \<noteq> s"
  shows "represents (free_cell s (free_cell n st)) m sm"
proof (rule representsI)
  have "cells (free_cell n st) vs ss ({n, s} - {0} - {n})"
    by (rule cells_free [OF assms(1)]) auto
  then have "cells (free_cell s (free_cell n st)) vs ss ({n, s} - {0} - {n} - {s})"
    by (rule cells_free) (use ns in auto)
  moreover have "{n, s} - {0} - {n} - {s} = {}" by auto
  ultimately show "cells (free_cell s (free_cell n st)) vs ss {}" by simp
  show "var_ok (free_cell s (free_cell n st)) v" if "v \<in> set vs" for v
    using assms(5) [OF that] var_ok_cong [of "free_cell s (free_cell n st)" v st] by simp
qed (use assms in simp_all)

lemma create_run:
  assumes rep: "represents st m sm" and k: "k \<noteq> CEXP_LAST_RESULT_VAR_NAME"
    and new: "n = 0 \<or> fresh n st" "s = 0 \<or> fresh s st" "n = 0 \<or> n \<noteq> s"
  shows "\<exists>st' v sm'. cexpVarLookup k True n s st = Ok (st', v) \<and>
    represents st' (if m k = None \<and> n \<noteq> 0 \<and> s \<noteq> 0 then m(k \<mapsto> n) else m) sm' \<and>
    v = (case m k of Some v \<Rightarrow> VarSym v | None \<Rightarrow> if n \<noteq> 0 \<and> s \<noteq> 0 then VarSym n else NoSym) \<and>
    sm' = (if m k = None \<and> n \<noteq> 0 \<and> s \<noteq> 0 \<and> sm k = None then sm(k \<mapsto> s) else sm)"
proof -
  obtain vs ss where R: "cells st vs ss {}" "vs_walking st = 0" "ordered (vname st) vs m"
    "ordered (vs_str st) ss sm" "\<forall>v \<in> set vs. var_ok st v" "vname st ` set vs \<subseteq> vs_str st ` set ss"
    using rep by (rule representsE)
  define st1 where "st1 = alloc_cell s (alloc_cell n st)"
  define st2 where "st2 = calloc_cells n s st"
  have st2: "st2 = (if n = 0 then st1
     else st1\<lparr>vs_mem := store_n True 8 (0 :: u64) (val_addr n) (vs_mem st1)\<rparr>)"
    by (simp add: st2_def st1_def calloc_cells_def Let_def)
  have c1: "cells (alloc_cell n st) vs ss (if n = 0 then {} else insert n {})"
    using cells_alloc [OF R(1) new(1)] .
  have "s = 0 \<or> fresh s (alloc_cell n st)" using new by (auto simp: fresh_def alloc_cell_def)
  then have "cells st1 vs ss (if s = 0 then (if n = 0 then {} else {n}) else insert s (if n = 0 then {} else {n}))"
    using cells_alloc [OF c1, of s] by (simp add: st1_def)
  moreover have "(if s = 0 then (if n = 0 then {} else {n}) else insert s (if n = 0 then {} else {n})) = {n, s} - {0}"
    by auto
  ultimately have "cells st1 vs ss ({n, s} - {0})" by (simp only:)
  then have c2: "cells st2 vs ss ({n, s} - {0})" unfolding st2 by (split if_split) (simp only: cells_mem simp_thms)
  have sel: "vs_sym st2 = vs_sym st" "vs_str st2 = vs_str st" "vs_walking st2 = 0" "vname st2 = vname st"
    "vs_gbl st2 = vs_gbl st" "vs_strtab st2 = vs_strtab st"
    using R(2) by (simp_all add: st2 st1_def)
  have ok2: "var_ok st2 v" if "v \<in> set vs" for v
    using bspec [OF R(5) that] var_ok_cong [of st2 v st] sel(1) by simp
  have find: "findN k st2 = Ok (case m k of None \<Rightarrow> 0 | Some v \<Rightarrow> v, last (vs_gbl st2 # below (vname st2) k vs))"
    by (rule findN_run [OF c2]) (use R(3) sel in simp)
  have nz: "v \<noteq> 0" if "m k = Some v" for v
  proof -
    have "v \<in> set vs" using that R(3) by (auto simp: ordered_def dest: map_of_SomeD)
    then show ?thesis using R(1) linked_no_0 by (auto simp: cells_def two_lists_def)
  qed
  have F: "represents (free_cell s (free_cell n st2)) m sm"
    by (rule represents_free [OF c2]) (use R sel ok2 new(3) in auto)
  show ?thesis
  proof (cases "m k = None \<and> n \<noteq> 0 \<and> s \<noteq> 0")
    case False
    have "cexpVarLookup k True n s st =
       Ok (free_cell s (free_cell n st2), case m k of Some v \<Rightarrow> VarSym v | None \<Rightarrow> NoSym)"
      using False k find nz
      by (auto simp: cexpVarLookup_def st2_def [symmetric] split: option.split)
    then show ?thesis using False F by (auto split: option.split)
  next
    case True
    have strf: "strFindN k st2 = Ok (case sm k of None \<Rightarrow> 0 | Some v \<Rightarrow> v, last (vs_strtab st2 # below (vs_str st2) k ss))"
      by (rule strFindN_run [OF c2]) (use R(4) sel in simp)
    have X: "{n, s} - {0} = {n, s}" using True by auto
    have ins: "ordered nm' (below (vname st) k vs @ n # above (vname st) k vs) (m(k \<mapsto> n))"
      if "nm' n = k" "\<forall>x \<in> set vs. nm' x = vname st x" for nm'
      by (rule ordered_insert [OF R(3) conjunct1 [OF True] that])
    have vs: "vs = below (vname st) k vs @ above (vname st) k vs" by (simp add: below_above)
    have nvs: "n \<notin> set vs" using c2 X by (auto simp: cells_def two_lists_def)
    show ?thesis
    proof (cases "sm k")
      case (Some t)
      have t: "t \<noteq> 0" "vs_str st t = k" "t \<in> set ss"
      proof -
        show "t \<in> set ss" "vs_str st t = k" using Some R(4) by (auto simp: ordered_def dest: map_of_SomeD)
        then show "t \<noteq> 0" using R(1) linked_no_0 by (auto simp: cells_def two_lists_def)
      qed
      obtain q where q: "lhrAdd n (last (vs_gbl st # below (vname st) k vs)) st2 = Ok (st2\<lparr>vs_p := q\<rparr>)"
        "cells (st2\<lparr>vs_p := q\<rparr>) (below (vname st) k vs @ n # above (vname st) k vs) ss ({n, s} - {n})"
        using add_var [OF c2 _ sel(3) vs, of n] X sel by auto
      define st3 where "st3 = st2\<lparr>vs_p := q, vs_sym := (vs_sym st2)(n := var_sym_of n k)\<rparr>"
      have c3: "cells st3 (below (vname st) k vs @ n # above (vname st) k vs) ss ({0, s} - {0})"
        using q(2) True new(3) by (simp add: st3_def cells_def insert_Diff_if)
      have run: "cexpVarLookup k True n s st = Ok (free_cell s (free_cell 0 st3), VarSym n)"
        using True k find strf Some t q(1) sel
        by (simp add: cexpVarLookup_def st2_def [symmetric] Let_def st3_def)
      have nm: "vname st3 n = k" "\<forall>x \<in> set vs. vname st3 x = vname st x"
        using nvs sel by (auto simp: vname_def st3_def var_sym_of_def name_of_def)
      have old: "var_ok st3 v" if "v \<in> set vs" for v
      proof -
        have "v \<noteq> n" using that nvs by auto
        then have "vs_sym st3 v = vs_sym st v" by (simp add: st3_def sel(1))
        then show ?thesis using bspec [OF R(5) that] var_ok_cong by blast
      qed
      have newok: "var_ok st3 n"
        using nm(1) k by (simp add: var_ok_def) (simp add: st3_def var_sym_of_def)
      have "represents (free_cell s (free_cell 0 st3)) (m(k \<mapsto> n)) sm"
      proof (rule represents_free [OF c3])
        show "ordered (vname st3) (below (vname st) k vs @ n # above (vname st) k vs) (m(k \<mapsto> n))"
          by (rule ins) (use nm in auto)
        show "var_ok st3 v" if "v \<in> set (below (vname st) k vs @ n # above (vname st) k vs)" for v
          using that old newok unfolding set_below_above by blast
        have "vs_str st3 = vs_str st" using sel by (simp add: st3_def)
        moreover have "k \<in> vs_str st ` set ss" by (rule rev_image_eqI [OF t(3)]) (simp add: t(2))
        ultimately show "vname st3 ` set (below (vname st) k vs @ n # above (vname st) k vs) \<subseteq> vs_str st3 ` set ss"
          unfolding set_below_above using nm R(6) by auto
      qed (use R(4) sel in \<open>simp_all add: st3_def\<close>)
      then show ?thesis using run True Some by auto
    next
      case None
      obtain q where q: "lhrAdd s (last (vs_strtab st # below (vs_str st) k ss)) st2 = Ok (st2\<lparr>vs_p := q\<rparr>)"
        "cells (st2\<lparr>vs_p := q\<rparr>) vs (below (vs_str st) k ss @ s # above (vs_str st) k ss) ({n, s} - {s})"
        using add_str [OF c2 _ sel(3), of s "below (vs_str st) k ss" "above (vs_str st) k ss"] X sel below_above
        by auto
      define st3 where "st3 = st2\<lparr>vs_p := q, vs_str := (vs_str st2)(s := k)\<rparr>"
      have c3: "cells st3 vs (below (vs_str st) k ss @ s # above (vs_str st) k ss) {n}"
        using q(2) True new(3) by (simp add: st3_def cells_def insert_Diff_if)
      obtain q' where q': "lhrAdd n (last (vs_gbl st # below (vname st) k vs)) st3 = Ok (st3\<lparr>vs_p := q'\<rparr>)"
        "cells (st3\<lparr>vs_p := q'\<rparr>) (below (vname st) k vs @ n # above (vname st) k vs)
           (below (vs_str st) k ss @ s # above (vs_str st) k ss) ({n} - {n})"
        using add_var [OF c3 _ _ vs, of n] sel by (auto simp: st3_def)
      define st4 where "st4 = st3\<lparr>vs_p := q', vs_sym := (vs_sym st3)(n := var_sym_of n k)\<rparr>"
      have run: "cexpVarLookup k True n s st = Ok (st4, VarSym n)"
        using True k find strf None q(1) q'(1) sel
        by (simp add: cexpVarLookup_def st2_def [symmetric] Let_def st4_def st3_def)
      have ssn: "s \<notin> set ss" using c2 X by (auto simp: cells_def two_lists_def)
      have nm: "vname st4 n = k" "\<forall>x \<in> set vs. vname st4 x = vname st x"
        using nvs sel by (auto simp: vname_def st4_def st3_def var_sym_of_def name_of_def)
      have "represents st4 (m(k \<mapsto> n)) (sm(k \<mapsto> s))"
      proof (rule representsI)
        show "cells st4 (below (vname st) k vs @ n # above (vname st) k vs)
           (below (vs_str st) k ss @ s # above (vs_str st) k ss) {}"
          using q'(2) by (simp add: st4_def cells_def)
        show "vs_walking st4 = 0" using sel by (simp add: st4_def st3_def)
        show "ordered (vname st4) (below (vname st) k vs @ n # above (vname st) k vs) (m(k \<mapsto> n))"
          by (rule ins) (use nm in auto)
        show "ordered (vs_str st4) (below (vs_str st) k ss @ s # above (vs_str st) k ss) (sm(k \<mapsto> s))"
          by (rule ordered_insert [OF R(4) None]) (use ssn sel in \<open>auto simp: st4_def st3_def\<close>)
        show "var_ok st4 v" if "v \<in> set (below (vname st) k vs @ n # above (vname st) k vs)" for v
        proof (cases "v = n")
          case True
          then show ?thesis using nm(1) k by (simp add: var_ok_def) (simp add: st4_def var_sym_of_def)
        next
          case False
          then have "v \<in> set vs" using that unfolding set_below_above by blast
          then show ?thesis
            using R(5) var_ok_cong [of st4 v st] sel(1) False by (simp add: st4_def st3_def)
        qed
        have "vs_str st4 s = k" "\<forall>x \<in> set ss. vs_str st4 x = vs_str st x"
          using ssn sel by (auto simp: st4_def st3_def)
        then show "vname st4 ` set (below (vname st) k vs @ n # above (vname st) k vs)
            \<subseteq> vs_str st4 ` set (below (vs_str st) k ss @ s # above (vs_str st) k ss)"
          unfolding set_below_above using nm R(6) by auto
      qed
      then show ?thesis using run True None by auto
    qed
  qed
qed

lemma map_var:
  assumes "cells st vs ss X" and "ordered (vname st) vs m"
  shows "m k = Some v \<Longrightarrow> v \<noteq> 0 \<and> v \<in> set vs \<and> vname st v = k"
proof -
  assume "m k = Some v"
  then have v: "v \<in> set vs \<and> vname st v = k" using assms(2) by (auto simp: ordered_def dest: map_of_SomeD)
  then have "v \<noteq> 0" using assms(1) linked_no_0 by (auto simp: cells_def two_lists_def)
  then show ?thesis using v by blast
qed

lemma lookup_run:
  assumes "represents st m sm" and "k \<noteq> CEXP_LAST_RESULT_VAR_NAME"
  shows "cexpVarLookup k False n s st = Ok (st, case m k of Some v \<Rightarrow> VarSym v | None \<Rightarrow> NoSym)"
proof -
  obtain vs ss where R: "cells st vs ss {}" "ordered (vname st) vs m"
    using assms(1) by (auto simp: represents_def)
  have "calloc_cells 0 0 st = st" by (simp add: calloc_cells_def)
  then show ?thesis
    using assms(2) findN_run [OF R, of k] map_var [OF R, of k]
    by (simp add: cexpVarLookup_def split: option.split)
qed

lemma two_lists_delete:
  assumes "two_lists p g (lo @ v # hi) s ss {}"
  shows "two_lists (p(last (g # lo) := p v, v := None)) g (lo @ hi) s ss {}"
proof -
  let ?w = "last (g # lo)"
  let ?q = "p(?w := p v, v := None)"
  have T: "linked p g (lo @ v # hi)" "linked p s ss" "distinct (g # s # (lo @ v # hi) @ ss)"
    "dom p = set (g # s # (lo @ v # hi) @ ss)" "g \<noteq> 0" "s \<noteq> 0"
    using assms by (simp_all add: two_lists_def)
  have inw: "?w \<in> set (g # lo)" by simp
  have out: "v \<notin> set (g # s # (lo @ hi) @ ss)" "set (g # lo) \<inter> set (s # ss) = {}"
    using T(3) by auto
  have l1: "linked ?q g (lo @ hi)" by (rule linked_delete [OF T(1)]) (use T(3) in auto)
  have "linked ?q s ss \<longleftrightarrow> linked p s ss"
    by (rule linked_cong) (use out inw in auto)
  then have l2: "linked ?q s ss" using T(2) by blast
  have "p v \<noteq> None" using T(4) by auto
  moreover have "?w \<in> dom p" "?w \<noteq> v" using inw T(4) out(1) by auto
  ultimately have "dom ?q = dom p - {v}" by auto
  also have "\<dots> = set (g # s # (lo @ hi) @ ss)" using T(4) out(1) by auto
  finally show ?thesis using l1 l2 T(3,5,6) by (simp add: two_lists_def del: fun_upd_apply)
qed

lemma two_lists_flush:
  assumes "two_lists p g vs s ss {}"
  shows "flush_loop p (hd0 vs) = Some (Ok (p |` (- set vs)))"
    and "two_lists ((p |` (- set vs))(g \<mapsto> 0)) g [] s ss {}"
proof -
  have T: "linked p g vs" "linked p s ss" "distinct (g # s # vs @ ss)"
    "dom p = set (g # s # vs @ ss)" "g \<noteq> 0" "s \<noteq> 0"
    using assms by (simp_all add: two_lists_def)
  show "flush_loop p (hd0 vs) = Some (Ok (p |` (- set vs)))"
  proof (cases vs)
    case Nil
    then show ?thesis by (simp add: flush_loop.simps [of p 0] restrict_map_def)
  next
    case (Cons x xs)
    then show ?thesis using flush_loop_run [of p x xs] T by simp
  qed
  define q where "q = (p |` (- set vs))(g \<mapsto> 0)"
  have qg: "q g = Some 0" by (simp add: q_def)
  have "q x = p x" if "x \<in> set (s # ss)" for x
    using T(3) that by (auto simp: q_def restrict_map_def)
  then have "linked q s ss" using T(2) linked_cong [of s ss q p] by blast
  moreover have "dom q = set (g # s # ss)"
  proof -
    have "dom q = insert g (dom p - set vs)" by (auto simp: q_def restrict_map_def split: if_splits)
    then show ?thesis using T(3,4) by auto
  qed
  ultimately have "two_lists q g [] s ss {}"
    using T(3,5,6) qg by (simp add: two_lists_def)
  then show "two_lists ((p |` (- set vs))(g \<mapsto> 0)) g [] s ss {}" by (simp only: q_def)
qed

lemma cells_p: "cells (st\<lparr>vs_p := q\<rparr>) vs ss X \<longleftrightarrow> two_lists q (vs_gbl st) vs (vs_strtab st) ss X"
  by (simp add: cells_def)

lemma delete_run:
  assumes "represents st m sm"
  shows "\<exists>st' r. cexpVarDelete k st = Ok (st', r) \<and> represents st' (m(k := None)) sm \<and> (r = 0 \<longleftrightarrow> m k = None)"
proof -
  obtain vs ss where R: "cells st vs ss {}" "vs_walking st = 0" "ordered (vname st) vs m"
    "ordered (vs_str st) ss sm" "\<forall>v \<in> set vs. var_ok st v" "vname st ` set vs \<subseteq> vs_str st ` set ss"
    using assms by (rule representsE)
  note find = findN_run [OF R(1,3), of k]
  show ?thesis
  proof (cases "m k")
    case None
    then have "m(k := None) = m" by (simp add: fun_upd_idem)
    then show ?thesis using assms find None by (simp add: cexpVarDelete_def)
  next
    case (Some v)
    have v: "v \<noteq> 0" "vname st v = k" using map_var [OF R(1,3) Some] by blast+
    obtain lo where lo: "below (vname st) k vs = lo" by blast
    have "above (vname st) k vs \<noteq> []" "hd (above (vname st) k vs) = v"
      using ordered_lookup [OF R(3), of k] Some by (auto split: if_splits)
    then obtain hi where "above (vname st) k vs = v # hi" by (cases "above (vname st) k vs") auto
    then have vs: "vs = lo @ v # hi" using below_above [of "vname st" k vs] lo by simp
    let ?st = "st\<lparr>vs_p := (vs_p st)(last (vs_gbl st # lo) := vs_p st v, v := None)\<rparr>"
    have sub: "set (lo @ hi) \<subseteq> set vs" unfolding vs by auto
    have "represents ?st (m(k := None)) sm"
    proof (rule representsI)
      have "two_lists (vs_p st) (vs_gbl st) (lo @ v # hi) (vs_strtab st) ss {}"
        using R(1) vs by (simp only: cells_def)
      then show "cells ?st (lo @ hi) ss {}"
        unfolding cells_p by (rule two_lists_delete)
      have "ordered (vname st) (lo @ v # hi) m" using R(3) vs by (simp only:)
      then show "ordered (vname ?st) (lo @ hi) (m(k := None))"
        using ordered_delete v(2) unfolding vname_upd by blast
      show "var_ok ?st x" if "x \<in> set (lo @ hi)" for x
      proof -
        have "var_ok st x" using R(5) sub that by blast
        then show ?thesis using var_ok_cong [of ?st x st] by simp
      qed
      have "vname st ` set (lo @ hi) \<subseteq> vs_str st ` set ss" using R(6) sub by blast
      then show "vname ?st ` set (lo @ hi) \<subseteq> vs_str ?st ` set ss" unfolding vname_upd by simp
    qed (use R(2,4) in simp_all)
    moreover have "cexpVarDelete k st = Ok (?st, 0xdeadbeef)"
      using find Some v unfolding lo by (simp add: cexpVarDelete_def)
    ultimately show ?thesis using Some by auto
  qed
qed

lemma flush_run:
  assumes "represents st m sm"
  shows "\<exists>st'. cexpVarsFlush st = Ok st' \<and> represents st' Map.empty sm"
proof -
  obtain vs ss where R: "cells st vs ss {}" "vs_walking st = 0" "ordered (vname st) vs m"
    "ordered (vs_str st) ss sm" "\<forall>v \<in> set vs. var_ok st v" "vname st ` set vs \<subseteq> vs_str st ` set ss"
    using assms by (rule representsE)
  have T: "two_lists (vs_p st) (vs_gbl st) vs (vs_strtab st) ss {}" using R(1) by (simp add: cells_def)
  have first: "vs_p st (vs_gbl st) = Some (hd0 vs)"
    using T linked_hd0 unfolding two_lists_def by blast
  let ?st = "st\<lparr>vs_p := (vs_p st |` (- set vs))(vs_gbl st \<mapsto> 0)\<rparr>"
  have "represents ?st Map.empty sm"
  proof (rule representsI)
    show "cells ?st [] ss {}" using two_lists_flush(2) [OF T] unfolding cells_p .
  qed (use R(2,4) in \<open>simp_all add: ordered_def\<close>)
  moreover have "cexpVarsFlush st = Ok ?st"
    using first two_lists_flush(1) [OF T] by (simp add: cexpVarsFlush_def)
  ultimately show ?thesis by blast
qed

lemma str_run:
  assumes "represents st m sm" and "fresh s st"
  shows "\<exists>st'. cexpStrLookup k True s st = Ok (st', case sm k of Some t \<Rightarrow> t | None \<Rightarrow> s) \<and>
     represents st' m (if sm k = None then sm(k \<mapsto> s) else sm)"
proof -
  obtain vs ss where R: "cells st vs ss {}" "vs_walking st = 0" "ordered (vname st) vs m"
    "ordered (vs_str st) ss sm" "\<forall>v \<in> set vs. var_ok st v" "vname st ` set vs \<subseteq> vs_str st ` set ss"
    using assms(1) by (rule representsE)
  have nz: "s \<noteq> 0" using assms(2) by (simp add: fresh_def)
  define st1 where "st1 = alloc_cell s st"
  have c1: "cells st1 vs ss {s}" using cells_alloc [OF R(1), of s] assms(2) nz by (simp add: st1_def)
  have sel: "vs_sym st1 = vs_sym st" "vs_str st1 = vs_str st" "vs_walking st1 = 0" "vname st1 = vname st"
    "vs_strtab st1 = vs_strtab st"
    using R(2) by (simp_all add: st1_def)
  have find: "strFindN k st1 = Ok (case sm k of None \<Rightarrow> 0 | Some v \<Rightarrow> v, last (vs_strtab st # below (vs_str st) k ss))"
    using strFindN_run [OF c1, of sm k] R(4) sel by simp
  show ?thesis
  proof (cases "sm k")
    case (Some t)
    have "t \<in> set ss" using Some R(4) by (auto simp: ordered_def dest: map_of_SomeD)
    then have "t \<noteq> 0" using R(1) linked_no_0 by (auto simp: cells_def two_lists_def)
    then have "cexpStrLookup k True s st = Ok (free_cell s st1, t)"
      using find Some nz by (simp add: cexpStrLookup_def st1_def [symmetric])
    then show ?thesis using Some assms free_alloc [OF assms(2)] by (simp add: st1_def)
  next
    case None
    obtain q where q: "lhrAdd s (last (vs_strtab st # below (vs_str st) k ss)) st1 = Ok (st1\<lparr>vs_p := q\<rparr>)"
      "cells (st1\<lparr>vs_p := q\<rparr>) vs (below (vs_str st) k ss @ s # above (vs_str st) k ss) ({s} - {s})"
      using add_str [OF c1 _ sel(3), of s "below (vs_str st) k ss" "above (vs_str st) k ss"] sel below_above
      by auto
    define st2 where "st2 = st1\<lparr>vs_p := q, vs_str := (vs_str st1)(s := k)\<rparr>"
    have run: "cexpStrLookup k True s st = Ok (st2, s)"
      using find None nz q(1) by (simp add: cexpStrLookup_def st1_def [symmetric] st2_def)
    have ssn: "s \<notin> set ss" using c1 by (auto simp: cells_def two_lists_def)
    have vn: "vname st2 = vname st" using sel by (simp add: st2_def vname_def fun_eq_iff)
    have "represents st2 m (sm(k \<mapsto> s))"
    proof (rule representsI)
      show "cells st2 vs (below (vs_str st) k ss @ s # above (vs_str st) k ss) {}"
        using q(2) by (simp add: st2_def cells_def)
      show "ordered (vs_str st2) (below (vs_str st) k ss @ s # above (vs_str st) k ss) (sm(k \<mapsto> s))"
        by (rule ordered_insert [OF R(4) None]) (use ssn sel in \<open>auto simp: st2_def\<close>)
      show "var_ok st2 v" if "v \<in> set vs" for v
        using bspec [OF R(5) that] var_ok_cong [of st2 v st] sel by (simp add: st2_def)
      have "\<forall>x \<in> set ss. vs_str st2 x = vs_str st x" using ssn sel by (auto simp: st2_def)
      then have "vs_str st2 ` set ss = vs_str st ` set ss" by (intro image_cong) simp_all
      then show "vname st2 ` set vs \<subseteq> vs_str st2 ` set (below (vs_str st) k ss @ s # above (vs_str st) k ss)"
        unfolding set_below_above vn using R(6) by auto
    qed (use R sel vn in \<open>simp_all add: st2_def\<close>)
    then show ?thesis using run None by simp
  qed
qed

section \<open>The walk over the variables\<close>

lemma walk_loop_run:
  "linked p w vs \<Longrightarrow> walk_loop p f walker (hd0 vs) =
     Some (Ok (hd0 (filter (\<lambda>r. r \<noteq> 0) (map (\<lambda>v. walker (name_of (f v)) v) vs))))"
proof (induction vs arbitrary: w)
  case (Cons v vs)
  then have "p v = Some (hd0 vs)" "v \<noteq> 0" using linked_hd0 by auto
  then show ?case using Cons by (subst walk_loop.simps) (auto simp: Let_def)
qed (simp add: walk_loop.simps)

lemma ordered_names:
  assumes "ordered nm vs m"
  shows "sorted_list_of_set (dom m) = map nm vs" "v \<in> set vs \<Longrightarrow> m (nm v) = Some v"
proof -
  have "dom m = set (map nm vs)" using assms by (auto simp: ordered_def dom_map_of_conv_image_fst image_image)
  moreover have "sorted (map nm vs) \<and> distinct (map nm vs)"
    using assms strict_sorted_iff [of "map nm vs"] by (simp add: ordered_def)
  ultimately show "sorted_list_of_set (dom m) = map nm vs"
    by (simp only: sorted_list_of_set.idem_if_sorted_distinct)
  assume "v \<in> set vs"
  moreover have "distinct (map fst (map (\<lambda>x. (nm x, x)) vs))"
    using \<open>sorted (map nm vs) \<and> distinct (map nm vs)\<close> by (simp add: comp_def)
  ultimately show "m (nm v) = Some v"
    using assms map_of_eq_Some_iff [of "map (\<lambda>x. (nm x, x)) vs" "nm v" v] by (auto simp: ordered_def)
qed

lemma walk_run:
  assumes "represents st m sm"
  shows "cexpVarWalk walker st =
     Ok (hd0 (filter (\<lambda>r. r \<noteq> 0) (map (\<lambda>k. walker k (the (m k))) (sorted_list_of_set (dom m)))))"
proof -
  obtain vs ss where R: "cells st vs ss {}" "ordered (vname st) vs m"
    using assms by (auto simp: represents_def)
  have L: "linked (vs_p st) (vs_gbl st) vs" using R(1) by (simp add: cells_def two_lists_def)
  have "map (\<lambda>k. walker k (the (m k))) (sorted_list_of_set (dom m)) =
      map (\<lambda>v. walker (name_of (vs_sym st v)) v) vs"
    unfolding ordered_names(1) [OF R(2)]
    using ordered_names(2) [OF R(2)] by (auto simp: vname_def)
  then show ?thesis
    using linked_hd0 [OF L] walk_loop_run [OF L, of "vs_sym st" walker] by (simp add: cexpVarWalk_def)
qed

section \<open>The interface of the variables\<close>

text \<open>
  What users of the variables rely on: a finite map from names to cells. The allocator hands out the cells.
\<close>

locale finite_map =
  fixes rel :: "'s \<Rightarrow> (string \<Rightarrow> u64 option) \<Rightarrow> bool"
    and valid :: "string \<Rightarrow> bool"
    and find :: "string \<Rightarrow> 's \<Rightarrow> u64 option res"
    and add :: "string \<Rightarrow> u64 \<Rightarrow> u64 \<Rightarrow> 's \<Rightarrow> ('s \<times> u64 option) res"
    and del :: "string \<Rightarrow> 's \<Rightarrow> 's res"
    and cells_free :: "u64 \<Rightarrow> u64 \<Rightarrow> 's \<Rightarrow> bool"
  assumes find_rel: "rel st m \<Longrightarrow> valid k \<Longrightarrow> find k st = Ok (m k)"
    and add_rel: "rel st m \<Longrightarrow> valid k \<Longrightarrow> cells_free n s st \<Longrightarrow>
      \<exists>st'. add k n s st = Ok (st', case m k of Some v \<Rightarrow> Some v | None \<Rightarrow> Some n) \<and>
        rel st' (if m k = None then m(k \<mapsto> n) else m)"
    and del_rel: "rel st m \<Longrightarrow> \<exists>st'. del k st = Ok st' \<and> rel st' (m(k := None))"
begin

text \<open>A name that is entered is found, stays found until it is deleted, and no other name is affected.\<close>

lemma add_find:
  assumes "rel st m" and "valid k" and "cells_free n s st"
  shows "\<exists>st' v. add k n s st = Ok (st', Some v) \<and> find k st' = Ok (Some v) \<and>
     (\<forall>j. valid j \<longrightarrow> j \<noteq> k \<longrightarrow> find j st' = find j st) \<and>
     (\<forall>w. find k st = Ok (Some w) \<longrightarrow> v = w)"
proof -
  obtain st' where st': "add k n s st = Ok (st', case m k of Some v \<Rightarrow> Some v | None \<Rightarrow> Some n)"
    "rel st' (if m k = None then m(k \<mapsto> n) else m)"
    using add_rel [OF assms] by blast
  show ?thesis
  proof (cases "m k")
    case None
    have "find k st' = Ok (Some n)" using find_rel [OF st'(2) assms(2)] None by simp
    moreover have "find j st' = find j st" if "valid j" "j \<noteq> k" for j
      using find_rel [OF st'(2) that(1)] find_rel [OF assms(1) that(1)] None that(2) by simp
    moreover have "find k st = Ok None" using find_rel [OF assms(1,2)] None by simp
    ultimately show ?thesis using st'(1) None by auto
  next
    case (Some v)
    have "find j st' = find j st" if "valid j" for j
      using find_rel [OF st'(2) that] find_rel [OF assms(1) that] Some by simp
    then show ?thesis using st'(1) Some find_rel [OF assms(1,2)] assms(2) by auto
  qed
qed

lemma del_find:
  assumes "rel st m" and "valid k"
  shows "\<exists>st'. del k st = Ok st' \<and> find k st' = Ok None \<and>
     (\<forall>j. valid j \<longrightarrow> j \<noteq> k \<longrightarrow> find j st' = find j st)"
proof -
  obtain st' where st': "del k st = Ok st'" "rel st' (m(k := None))" using del_rel [OF assms(1)] by blast
  have "find j st' = find j st" if "valid j" "j \<noteq> k" for j
    using find_rel [OF st'(2) that(1)] find_rel [OF assms(1) that(1)] that(2) by simp
  moreover have "find k st' = Ok None" using find_rel [OF st'(2) assms(2)] by simp
  ultimately show ?thesis using st'(1) by blast
qed

end

text \<open>The provider: the operations of \<open>vars.c\<close>.\<close>

definition var_cell :: "var_sym \<Rightarrow> u64 option" where
  "var_cell v = (case v of VarSym n \<Rightarrow> Some n | _ \<Rightarrow> None)"

definition find_var :: "string \<Rightarrow> vars_state \<Rightarrow> u64 option res" where
  "find_var k st = bind_res (cexpVarLookup k False 0 0 st) (\<lambda>(st, v). Ok (var_cell v))"

definition add_var_op :: "string \<Rightarrow> u64 \<Rightarrow> u64 \<Rightarrow> vars_state \<Rightarrow> (vars_state \<times> u64 option) res" where
  "add_var_op k n s st = bind_res (cexpVarLookup k True n s st) (\<lambda>(st, v). Ok (st, var_cell v))"

definition del_var :: "string \<Rightarrow> vars_state \<Rightarrow> vars_state res" where
  "del_var k st = bind_res (cexpVarDelete k st) (\<lambda>(st, r). Ok st)"

definition two_fresh :: "u64 \<Rightarrow> u64 \<Rightarrow> vars_state \<Rightarrow> bool" where
  "two_fresh n s st \<longleftrightarrow> fresh n st \<and> fresh s st \<and> n \<noteq> s"

definition var_rel :: "vars_state \<Rightarrow> (string \<Rightarrow> u64 option) \<Rightarrow> bool" where
  "var_rel st m \<longleftrightarrow> (\<exists>sm. represents st m sm)"

interpretation vars: finite_map var_rel "\<lambda>k. k \<noteq> CEXP_LAST_RESULT_VAR_NAME" find_var add_var_op del_var two_fresh
proof
  fix st m k
  assume r: "var_rel st m"
  then obtain sm where R: "represents st m sm" by (auto simp: var_rel_def)
  show "\<exists>st'. del_var k st = Ok st' \<and> var_rel st' (m(k := None))"
    using delete_run [OF R, of k] by (auto simp: del_var_def var_rel_def)
  assume k: "k \<noteq> CEXP_LAST_RESULT_VAR_NAME"
  show "find_var k st = Ok (m k)"
    using lookup_run [OF R k] by (simp add: find_var_def var_cell_def split: option.split)
  fix n s
  assume "two_fresh n s st"
  then have f: "n \<noteq> 0" "s \<noteq> 0" "fresh n st" "fresh s st" "n \<noteq> s" by (auto simp: two_fresh_def fresh_def)
  obtain st' v sm' where st': "cexpVarLookup k True n s st = Ok (st', v)"
    "represents st' (if m k = None \<and> n \<noteq> 0 \<and> s \<noteq> 0 then m(k \<mapsto> n) else m) sm'"
    "v = (case m k of Some v \<Rightarrow> VarSym v | None \<Rightarrow> if n \<noteq> 0 \<and> s \<noteq> 0 then VarSym n else NoSym)"
    using create_run [OF R k, of n s] f by blast
  have "add_var_op k n s st = Ok (st', case m k of Some v \<Rightarrow> Some v | None \<Rightarrow> Some n)"
    using st'(1,3) f by (simp add: add_var_op_def var_cell_def split: option.split)
  moreover have "var_rel st' (if m k = None then m(k \<mapsto> n) else m)"
    using st'(2) f unfolding var_rel_def by auto
  ultimately show "\<exists>st'. add_var_op k n s st = Ok (st', case m k of Some v \<Rightarrow> Some v | None \<Rightarrow> Some n) \<and>
    var_rel st' (if m k = None then m(k \<mapsto> n) else m)" by blast
qed

section \<open>Sequences of operations\<close>

datatype var_op = Create string u64 u64 | Find string | Delete string | Flush | MakeString string u64

definition var_step :: "var_op \<Rightarrow> vars_state \<Rightarrow> vars_state res" where
  "var_step a st =
     (case a of
        Create k n s \<Rightarrow> bind_res (cexpVarLookup k True n s st) (\<lambda>(st, v). Ok st)
      | Find k \<Rightarrow> bind_res (cexpVarLookup k False 0 0 st) (\<lambda>(st, v). Ok st)
      | Delete k \<Rightarrow> bind_res (cexpVarDelete k st) (\<lambda>(st, r). Ok st)
      | Flush \<Rightarrow> cexpVarsFlush st
      | MakeString k s \<Rightarrow> bind_res (cexpStrLookup k True s st) (\<lambda>(st, r). Ok st))"

fun run_ops :: "var_op list \<Rightarrow> vars_state \<Rightarrow> vars_state res" where
  "run_ops [] st = Ok st"
| "run_ops (a # as) st = bind_res (var_step a st) (run_ops as)"

text \<open>What the allocator delivers is not in use; it may fail.\<close>

definition alloc_ok :: "var_op \<Rightarrow> vars_state \<Rightarrow> bool" where
  "alloc_ok a st =
     (case a of
        Create k n s \<Rightarrow> (n = 0 \<or> fresh n st) \<and> (s = 0 \<or> fresh s st) \<and> (n = 0 \<or> n \<noteq> s)
      | MakeString k s \<Rightarrow> s = 0 \<or> fresh s st
      | _ \<Rightarrow> True)"

text \<open>A registration for whose string there is no memory.\<close>

definition null_string :: "var_op \<Rightarrow> bool" where
  "null_string a = (case a of MakeString k s \<Rightarrow> s = 0 | _ \<Rightarrow> False)"

fun alloc_run :: "var_op list \<Rightarrow> vars_state \<Rightarrow> bool" where
  "alloc_run [] st \<longleftrightarrow> True"
| "alloc_run (a # as) st \<longleftrightarrow>
     alloc_ok a st \<and> (case var_step a st of Ok st' \<Rightarrow> alloc_run as st' | _ \<Rightarrow> True)"

text \<open>The same operations on a finite map.\<close>

definition map_step :: "var_op \<Rightarrow> (string \<Rightarrow> u64 option) \<Rightarrow> (string \<Rightarrow> u64 option)" where
  "map_step a m =
     (case a of
        Create k n s \<Rightarrow>
          if k \<noteq> CEXP_LAST_RESULT_VAR_NAME \<and> m k = None \<and> n \<noteq> 0 \<and> s \<noteq> 0 then m(k \<mapsto> n) else m
      | Delete k \<Rightarrow> m(k := None)
      | Flush \<Rightarrow> Map.empty
      | _ \<Rightarrow> m)"

definition vars_init :: "u64 \<Rightarrow> u64 \<Rightarrow> vars_state" where
  "vars_init g s = \<lparr>vs_gbl = g, vs_strtab = s, vs_p = [g \<mapsto> 0, s \<mapsto> 0], vs_sym = (\<lambda>_. zero_sym),
     vs_str = (\<lambda>_. []), vs_mem = (\<lambda>_. 0), vs_walking = 0\<rparr>"

lemma vars_init_represents:
  "g \<noteq> 0 \<Longrightarrow> s \<noteq> 0 \<Longrightarrow> g \<noteq> s \<Longrightarrow> represents (vars_init g s) Map.empty Map.empty"
  by (rule representsI [where vs = "[]" and ss = "[]"])
    (auto simp: vars_init_def cells_def two_lists_def ordered_def)

lemma step_refines:
  assumes "represents st m sm" and "alloc_ok a st" and "\<not> null_string a"
  shows "\<exists>st' sm'. var_step a st = Ok st' \<and> represents st' (map_step a m) sm'"
proof (cases a)
  case (Create k n s)
  show ?thesis
  proof (cases "k = CEXP_LAST_RESULT_VAR_NAME")
    case True
    then show ?thesis using assms(1) Create by (auto simp: var_step_def map_step_def cexpVarLookup_def)
  next
    case False
    then show ?thesis
      using create_run [OF assms(1) False, of n s] assms(2) Create
      by (auto simp: var_step_def map_step_def alloc_ok_def)
  qed
next
  case (Find k)
  have "\<exists>v. cexpVarLookup k False 0 0 st = Ok (st, v)"
    using lookup_run [OF assms(1), of k] by (cases "k = CEXP_LAST_RESULT_VAR_NAME") (auto simp: cexpVarLookup_def)
  then show ?thesis using assms(1) Find by (auto simp: var_step_def map_step_def)
next
  case (Delete k)
  then show ?thesis using delete_run [OF assms(1), of k] by (auto simp: var_step_def map_step_def)
next
  case Flush
  then show ?thesis using flush_run [OF assms(1)] by (auto simp: var_step_def map_step_def)
next
  case (MakeString k s)
  then have "fresh s st" using assms(2,3) by (simp add: alloc_ok_def null_string_def)
  then show ?thesis using str_run [OF assms(1), of s k] MakeString by (auto simp: var_step_def map_step_def)
qed

lemma null_string_run: "null_string a \<Longrightarrow> var_step a st = UB"
  by (auto simp: null_string_def var_step_def cexpStrLookup_def split: var_op.splits)

lemma run_refines:
  "represents st m sm \<Longrightarrow> alloc_run as st \<Longrightarrow>
     if list_ex null_string as then run_ops as st = UB
     else \<exists>st' sm'. run_ops as st = Ok st' \<and> represents st' (foldl (\<lambda>m a. map_step a m) m as) sm'"
proof (induction as arbitrary: st m sm)
  case (Cons a as)
  show ?case
  proof (cases "null_string a")
    case True
    then show ?thesis using null_string_run [of a st] by simp
  next
    case False
    then obtain st' sm' where st': "var_step a st = Ok st'" "represents st' (map_step a m) sm'"
      using step_refines [of st m sm a] Cons.prems by auto
    then show ?thesis using Cons.IH [OF st'(2)] Cons.prems(2) False by (auto split: if_split_asm)
  qed
qed auto

text \<open>C13: Any sequence of creations, look-ups, deletions, registrations of strings and flushes, from the
  initial state on, ends without an error, in a state whose two lists are ordered, without cycles, hold
  exactly the allocated cells, and represent the finite map that the same operations give; a creation for
  which an allocation fails leaves the map alone. This is so unless the memory for a string that is to be
  registered cannot be had: then, and only then, the null pointer is written through. The cells the allocator
  delivers are not in use.\<close>

theorem variables_refine_map:
  assumes "g \<noteq> 0" and "s \<noteq> 0" and "g \<noteq> s" and "alloc_run as (vars_init g s)"
  shows "if list_ex null_string as then run_ops as (vars_init g s) = UB
    else \<exists>st sm. run_ops as (vars_init g s) = Ok st \<and>
      represents st (foldl (\<lambda>m a. map_step a m) Map.empty as) sm"
  using run_refines [OF vars_init_represents [OF assms(1-3)] assms(4)] .

lemma variables_refine_map_witness:
  "\<exists>st sm. run_ops [Create ''b'' 16 32, Find ''b'', Delete ''x''] (vars_init 8 9) = Ok st \<and>
     represents st [''b'' \<mapsto> 16] sm"
proof -
  have init: "represents (vars_init 8 9) Map.empty Map.empty" by (rule vars_init_represents) simp_all
  have a1: "alloc_ok (Create ''b'' 16 32) (vars_init 8 9)"
    by (simp add: alloc_ok_def fresh_def vars_init_def)
  have "alloc_run [Create ''b'' 16 32, Find ''b'', Delete ''x''] (vars_init 8 9)"
    using a1 by (simp add: alloc_ok_def split: res.split)
  from variables_refine_map [OF _ _ _ this] show ?thesis
    by (simp add: map_step_def CEXP_LAST_RESULT_VAR_NAME_def null_string_def)
qed

text \<open>C22: A variable that is created, when there is memory for it and its name is not that of the last
  result, is found from then on, at the same place, and no other variable is affected; creating it again delivers the old one. After it is deleted it is not found, and again no other
  variable is affected.\<close>

theorem variable_found_until_deleted:
  assumes "represents st m sm" and "k \<noteq> CEXP_LAST_RESULT_VAR_NAME"
    and "fresh n st" and "fresh s st" and "n \<noteq> s"
  shows "(\<exists>st' v. add_var_op k n s st = Ok (st', Some v) \<and> find_var k st' = Ok (Some v) \<and>
      (\<forall>j. j \<noteq> CEXP_LAST_RESULT_VAR_NAME \<longrightarrow> j \<noteq> k \<longrightarrow> find_var j st' = find_var j st) \<and>
      (\<forall>w. find_var k st = Ok (Some w) \<longrightarrow> v = w))
    \<and> (\<exists>st'. del_var k st = Ok st' \<and> find_var k st' = Ok None \<and>
      (\<forall>j. j \<noteq> CEXP_LAST_RESULT_VAR_NAME \<longrightarrow> j \<noteq> k \<longrightarrow> find_var j st' = find_var j st))"
proof -
  have "var_rel st m" using assms(1) by (auto simp: var_rel_def)
  moreover have "two_fresh n s st" using assms(3-5) by (simp add: two_fresh_def)
  ultimately show ?thesis using vars.add_find vars.del_find assms(2) by blast
qed

lemma variable_found_until_deleted_witness:
  "\<exists>st' v. add_var_op ''b'' 16 32 (vars_init 8 9) = Ok (st', Some v) \<and> find_var ''b'' st' = Ok (Some v)"
proof -
  have "represents (vars_init 8 9) Map.empty Map.empty" by (rule vars_init_represents) simp_all
  moreover have "fresh 16 (vars_init 8 9)" "fresh 32 (vars_init 8 9)"
    by (simp_all add: fresh_def vars_init_def)
  ultimately show ?thesis
    using variable_found_until_deleted [of "vars_init 8 9" Map.empty Map.empty "''b''" 16 32]
    by (auto simp: CEXP_LAST_RESULT_VAR_NAME_def)
qed

text \<open>C23: The walk calls its function for the variables in the lexical order of their names and delivers
  the first result that is not null.\<close>

theorem walk_in_lexical_order:
  assumes "represents st m sm"
  shows "cexpVarWalk walker st =
    Ok (hd0 (filter (\<lambda>r. r \<noteq> 0) (map (\<lambda>k. walker k (the (m k))) (sorted_list_of_set (dom m)))))"
  using walk_run [OF assms] .

definition two_vars :: vars_state where
  "two_vars = \<lparr>vs_gbl = 8, vs_strtab = 9,
     vs_p = [8 \<mapsto> 64, 64 \<mapsto> 16, 16 \<mapsto> 0, 9 \<mapsto> 48, 48 \<mapsto> 32, 32 \<mapsto> 0],
     vs_sym = (\<lambda>x. var_sym_of x (if x = 64 then ''a'' else ''b'')),
     vs_str = (\<lambda>x. if x = 48 then ''a'' else ''b''), vs_mem = (\<lambda>_. 0), vs_walking = 0\<rparr>"

lemma vname_two_vars: "vname two_vars x = (if x = 64 then ''a'' else ''b'')"
  by (simp add: vname_def two_vars_def var_sym_of_def name_of_def)

lemma vs_str_two_vars: "vs_str two_vars x = (if x = 48 then ''a'' else ''b'')"
  by (simp add: two_vars_def)

lemma two_vars_ordered: "ordered (vname two_vars) [64, 16] [''b'' \<mapsto> 16, ''a'' \<mapsto> 64]"
  by (simp add: ordered_def vname_two_vars less_char_def)

lemma two_vars_represents: "represents two_vars [''b'' \<mapsto> 16, ''a'' \<mapsto> 64] [''b'' \<mapsto> 32, ''a'' \<mapsto> 48]"
proof (rule representsI [where vs = "[64, 16]" and ss = "[48, 32]"])
  show "cells two_vars [64, 16] [48, 32] {}" by (auto simp: cells_def two_lists_def two_vars_def)
  show "ordered (vname two_vars) [64, 16] [''b'' \<mapsto> 16, ''a'' \<mapsto> 64]" by (rule two_vars_ordered)
  show "ordered (vs_str two_vars) [48, 32] [''b'' \<mapsto> 32, ''a'' \<mapsto> 48]"
    by (simp add: ordered_def two_vars_def less_char_def)
  show "var_ok two_vars v" for v
    using vname_two_vars [of v]
    by (simp add: var_ok_def CEXP_LAST_RESULT_VAR_NAME_def) (simp add: two_vars_def var_sym_of_def)
  show "vname two_vars ` set [64, 16] \<subseteq> vs_str two_vars ` set [48, 32]"
    by (simp add: vname_two_vars vs_str_two_vars)
qed (simp add: two_vars_def)

lemma walk_in_lexical_order_witness: "cexpVarWalk (\<lambda>k v. v) two_vars = Ok 64"
proof -
  have "sorted_list_of_set (dom [''b'' \<mapsto> (16 :: u64), ''a'' \<mapsto> 64]) = [''a'', ''b'']"
    using ordered_names(1) [OF two_vars_ordered] by (simp add: vname_two_vars)
  then show ?thesis
    using walk_in_lexical_order [OF two_vars_represents, of "\<lambda>k v. v"] by simp
qed

end
