(* ===== verification/Interp.thy ===== *)
theory Interp imports Vars begin

text \<open>
  The semantic actions of the grammar (\<open>cexp.y\<close>): expressions, definitions and lines over the values and
  addresses of \<open>ctyps.c\<close>, with the inhibition of evaluation. What the parser, which is generated from the
  grammar, recognises is given as a tree of its productions; the actions run bottom up and from left to
  right.
\<close>

section \<open>Trees\<close>

text \<open>
  A symbol: one of a module, a cell of the list of user variables, or the last result. \<open>KParen\<close> is a list of
  expressions in parentheses. The operator of \<open>FPost\<close> and \<open>FPre\<close> is \<open>OAdd\<close>, \<open>OSub\<close> or, for \<open>FPost\<close>, \<open>ONoop\<close>.
\<close>

datatype symref = ModSym u64 nat | UserVar u64 | LastVar

datatype exp = EBin binexp | EAssign lval exp | EModify lval CexpBinOp exp | ECreate string exp
and binexp = BCast castexp | BOr binexp binexp | BAnd binexp binexp | BOp CexpBinOp binexp binexp
and castexp = CUn unexp | CCast CexpType castexp
and unexp = UNumber CexpTypedVal | UCall call | UNot castexp | UUnOp CexpUnOp castexp | UAddr symref
and lval = LVar symref | LDeref castexp
and call = KParen "exp list" | KFun funcp | KMethod symref string "exp list" | KCall call "exp list"
and funcp = FSym symref | FPost lval CexpBinOp | FPre lval CexpBinOp

datatype def = NewDef CexpType string | ReDef CexpType symref
datatype line = LEmpty | LIdent | LDef def | LReDef def | LExp "exp list"

section \<open>State\<close>

text \<open>
  \<open>es_syms\<close> are the typed addresses of the symbols of modules, \<open>es_ans\<close> that of the last result. Memory is
  that of the variables. Printed values and calls of functions are recorded.
\<close>

datatype shown = ShowDouble u64 | ShowChar u8 | ShowLong u64

record ev_state =
  es_vars :: vars_state
  es_syms :: "u64 \<Rightarrow> nat \<Rightarrow> CexpTypedAddr"
  es_ans :: CexpTypedAddr
  es_help :: "symref \<Rightarrow> u64"
  es_inh :: u64
  es_status :: int
  es_calls :: "(u64 \<times> fn_arg list) list"
  es_out :: "shown list"

text \<open>
  The surroundings: byte order and floating point, the functions of loaded modules (a result, and the memory
  they leave), the allocator, what a value that is not set yet holds, and what the bytes of the token for a
  member, which are a pointer to the symbol and one to the name, are when they are read as a value; their type
  is whatever the second pointer has in its place.
\<close>

record ev_env =
  ev_lsb :: bool
  ev_fp :: fp_ops
  ev_ufunc :: "64 mem \<Rightarrow> u64 \<Rightarrow> fn_arg list \<Rightarrow> u64"
  ev_dfunc :: "64 mem \<Rightarrow> u64 \<Rightarrow> fn_arg list \<Rightarrow> u64"
  ev_effect :: "u64 \<Rightarrow> fn_arg list \<Rightarrow> 64 mem \<Rightarrow> 64 mem"
  ev_alloc :: "vars_state \<Rightarrow> u64 \<times> u64"
  ev_strdup :: "u64 \<Rightarrow> 64 mem \<Rightarrow> u64"
  ev_junk :: CexpTypedVal
  ev_token :: "symref \<Rightarrow> string \<Rightarrow> CexpTypedVal"

text \<open>\<open>YyError\<close> is a syntax error or an error of an action, after which nothing more of the line is done.\<close>

datatype 'a ev_res = Val 'a ev_state | YyError ev_state | Aborted | Undef

type_synonym 'a ev = "ev_state \<Rightarrow> 'a ev_res"

definition ret :: "'a \<Rightarrow> 'a ev" where "ret v st = Val v st"

definition bind :: "'a ev \<Rightarrow> ('a \<Rightarrow> 'b ev) \<Rightarrow> 'b ev" where
  "bind f g st = (case f st of Val v st' \<Rightarrow> g v st' | YyError st' \<Rightarrow> YyError st' | Aborted \<Rightarrow> Aborted | Undef \<Rightarrow> Undef)"

definition yyerror :: "'a ev" where "yyerror st = YyError st"

definition CHECK :: "'a cexp_res \<Rightarrow> 'a ev" where
  "CHECK r st = (case r of COk v \<Rightarrow> Val v st | CErr e v \<Rightarrow> YyError st | CAbort \<Rightarrow> Aborted | CUB \<Rightarrow> Undef)"

definition EVAL :: "'a \<Rightarrow> 'a ev \<Rightarrow> 'a ev" where
  "EVAL v stuff st = (if es_inh st = 0 then stuff st else Val v st)"

definition PSHEVAL :: "bool \<Rightarrow> unit ev" where
  "PSHEVAL inh st = Val () (st\<lparr>es_inh := push_bit 1 (es_inh st) + (if inh then 1 else 0)\<rparr>)"

definition POPEVAL :: "unit ev" where
  "POPEVAL st = Val () (st\<lparr>es_inh := drop_bit 1 (es_inh st)\<rparr>)"

definition mem_of :: "ev_state \<Rightarrow> 64 mem" where "mem_of st = vs_mem (es_vars st)"

definition set_mem :: "64 mem \<Rightarrow> ev_state \<Rightarrow> ev_state" where
  "set_mem m st = st\<lparr>es_vars := (es_vars st)\<lparr>vs_mem := m\<rparr>\<rparr>"

definition sym_value :: "ev_state \<Rightarrow> symref \<Rightarrow> CexpTypedAddr" where
  "sym_value st r =
     (case r of ModSym h i \<Rightarrow> es_syms st h i | UserVar v \<Rightarrow> sy_value (vs_sym (es_vars st) v) | LastVar \<Rightarrow> es_ans st)"

definition set_type :: "symref \<Rightarrow> CexpType \<Rightarrow> ev_state \<Rightarrow> ev_state" where
  "set_type r t st =
     (case r of
        ModSym h i \<Rightarrow> st\<lparr>es_syms := (es_syms st)(h := (es_syms st h)(i := (es_syms st h i)\<lparr>ca_type := t\<rparr>))\<rparr>
      | UserVar v \<Rightarrow> st\<lparr>es_vars := (es_vars st)\<lparr>vs_sym := (vs_sym (es_vars st))
          (v := (vs_sym (es_vars st) v)\<lparr>sy_value := (sy_value (vs_sym (es_vars st) v))\<lparr>ca_type := t\<rparr>\<rparr>)\<rparr>\<rparr>
      | LastVar \<Rightarrow> st\<lparr>es_ans := (es_ans st)\<lparr>ca_type := t\<rparr>\<rparr>)"

definition get_state :: "(ev_state \<Rightarrow> 'a) \<Rightarrow> 'a ev" where "get_state f st = Val (f st) st"

section \<open>Actions\<close>

text \<open>The union of the semantic values: an address read as a value is a value with the type of the address.\<close>

definition as_val :: "bool \<Rightarrow> CexpTypedAddr \<Rightarrow> CexpTypedVal" where
  "as_val lsb a = \<lparr>cv_tv = host_bytes lsb 8 (ca_ptv a), cv_type = ca_type a\<rparr>"

definition ulong :: "bool \<Rightarrow> u64 \<Rightarrow> CexpTypedVal" where
  "ulong lsb w = \<lparr>cv_tv = host_bytes lsb 8 w, cv_type = TULong\<rparr>"

definition ta2tv :: "ev_env \<Rightarrow> CexpTypedVal \<Rightarrow> CexpTypedAddr \<Rightarrow> CexpTypedVal ev" where
  "ta2tv en v a st = CHECK (cexpTA2TV (ev_lsb en) (mem_of st) v a) st"

definition assign :: "ev_env \<Rightarrow> CexpTypedAddr \<Rightarrow> CexpTypedVal \<Rightarrow> unit ev" where
  "assign en a v st =
     (case cexpTVAssign (ev_lsb en) (ev_fp en) a v (mem_of st) of
        COk m \<Rightarrow> Val () (set_mem m st) | CErr e m \<Rightarrow> YyError st | CAbort \<Rightarrow> Aborted | CUB \<Rightarrow> Undef)"

definition bin_op :: "ev_env \<Rightarrow> y_alias \<Rightarrow> CexpTypedVal \<Rightarrow> CexpTypedVal \<Rightarrow> CexpTypedVal \<Rightarrow> CexpBinOp \<Rightarrow> CexpTypedVal ev" where
  "bin_op en al y x1 x2 opr = CHECK (cexpTVBinOp (ev_lsb en) (ev_fp en) al y x1 x2 opr)"

definition true_q :: "ev_env \<Rightarrow> CexpTypedVal \<Rightarrow> bool ev" where
  "true_q en v = bind (CHECK (cexpTVTrueQ (ev_lsb en) (ev_fp en) v)) (\<lambda>w. ret (w \<noteq> 0))"

text \<open>A new variable gets the type and is cleared, an old one as well; a symbol that cannot be made is an error.\<close>

definition varCreate :: "ev_env \<Rightarrow> string \<Rightarrow> CexpType \<Rightarrow> CexpTypedAddr ev" where
  "varCreate en name t st =
     (let (n, s) = ev_alloc en (es_vars st) in
      case cexpVarLookup name True n s (es_vars st) of
        Ok (vs, v) \<Rightarrow>
          let st = st\<lparr>es_vars := vs\<rparr>;
              done = (\<lambda>r. let st = set_type r t st; a = ca_ptv (sym_value st r);
                              clear = (\<lambda>k. Val (sym_value st r) (set_mem (store_n (ev_lsb en) k (0 :: u64) a (mem_of st)) st))
                          in if PTRQ t then clear 8
                             else case t of TUChar \<Rightarrow> clear 1 | TUShort \<Rightarrow> clear 2 | TUInt \<Rightarrow> clear 4 | TULong \<Rightarrow> clear 8
                                  | TFloat \<Rightarrow> clear 4 | TDouble \<Rightarrow> clear 8 | _ \<Rightarrow> Aborted)
          in (case v of NoSym \<Rightarrow> YyError st | VarSym c \<Rightarrow> done (UserVar c) | LastResult \<Rightarrow> done LastVar)
      | Fail e \<Rightarrow> Aborted
      | UB \<Rightarrow> Undef
      | Hang \<Rightarrow> Undef)"

text \<open>\<open>++\<close> and \<open>--\<close>; \<open>v0\<close> is the address read as a value, and the value when nothing is evaluated.\<close>

definition step_by :: "ev_env \<Rightarrow> bool \<Rightarrow> CexpTypedAddr \<Rightarrow> CexpBinOp \<Rightarrow> CexpTypedVal ev" where
  "step_by en post a opr =
     (let v0 = as_val (ev_lsb en) a;
          one = \<lparr>cv_tv = set_c (ev_lsb en) 1 (cv_tv (ev_junk en)), cv_type = TUChar\<rparr>
      in EVAL v0
        (bind (ta2tv en v0 a) (\<lambda>v.
           if opr = ONoop then ret v
           else if post then
             bind (bin_op en IsX2 one v one opr) (\<lambda>w. bind (assign en a w) (\<lambda>_. ret v))
           else bind (bin_op en IsX1 v v one opr) (\<lambda>w. bind (assign en a w) (\<lambda>_. ret w)))))"

text \<open>A call; the value when nothing is evaluated is that of the function.\<close>

definition fn_call :: "ev_env \<Rightarrow> CexpTypedVal \<Rightarrow> CexpTypedVal list \<Rightarrow> CexpTypedVal ev" where
  "fn_call en f vs =
     EVAL f
       (bind (CHECK (fn_passed (ev_lsb en) (ev_fp en) f vs)) (\<lambda>(p, passed).
        bind (get_state mem_of) (\<lambda>m.
        bind (CHECK (cexpTVFnCall (ev_lsb en) (ev_fp en) (ev_ufunc en m) (ev_dfunc en m) f f vs)) (\<lambda>v st.
          Val v (set_mem (ev_effect en p passed m) (st\<lparr>es_calls := es_calls st @ [(p, passed)]\<rparr>))))))"

text \<open>
  The member \<open>help\<close>: with a string it replaces the help text; a number, or nothing, prints. Other members
  do not exist. When nothing is evaluated the value is what the union holds of the member itself.
\<close>

definition sym_member :: "ev_env \<Rightarrow> symref \<Rightarrow> string \<Rightarrow> CexpTypedVal list \<Rightarrow> CexpTypedVal ev" where
  "sym_member en r mname vs =
     EVAL (ev_token en r mname)
       (\<lambda>st. if mname \<noteq> ''help'' then YyError st
              else
                let old = \<lparr>cv_tv = host_bytes (ev_lsb en) 8 (es_help st r), cv_type = TUCharP\<rparr>
                in case vs of
                     [] \<Rightarrow> Val old st
                   | v # _ \<Rightarrow>
                       (case cv_type v of
                          TUCharP \<Rightarrow>
                            let p = get_p (ev_lsb en) (cv_tv v) in
                            if p \<noteq> 0
                            then Val old (st\<lparr>es_help := (es_help st)(r := ev_strdup en p (mem_of st))\<rparr>)
                            else Val old st
                        | TUInt \<Rightarrow> Val old st
                        | TULong \<Rightarrow> Val old st
                        | _ \<Rightarrow> YyError st))"

section \<open>Expressions\<close>

text \<open>
  \<open>||\<close> and \<open>&&\<close> inhibit the evaluation of the second operand when the first one decides, but its actions
  still run. All other operators work on values that may not have been evaluated.
\<close>

fun eval_exp :: "ev_env \<Rightarrow> exp \<Rightarrow> CexpTypedVal ev"
  and eval_binexp :: "ev_env \<Rightarrow> binexp \<Rightarrow> CexpTypedVal ev"
  and eval_castexp :: "ev_env \<Rightarrow> castexp \<Rightarrow> CexpTypedVal ev"
  and eval_unexp :: "ev_env \<Rightarrow> unexp \<Rightarrow> CexpTypedVal ev"
  and eval_lval :: "ev_env \<Rightarrow> lval \<Rightarrow> CexpTypedAddr ev"
  and eval_call :: "ev_env \<Rightarrow> call \<Rightarrow> CexpTypedVal ev"
  and eval_funcp :: "ev_env \<Rightarrow> funcp \<Rightarrow> CexpTypedVal ev"
  and eval_exps :: "ev_env \<Rightarrow> exp list \<Rightarrow> CexpTypedVal list ev" where
  "eval_exp en (EBin b) = eval_binexp en b"
| "eval_exp en (EAssign l e) =
     bind (eval_lval en l) (\<lambda>a. bind (eval_exp en e) (\<lambda>v.
       bind (EVAL () (assign en a v)) (\<lambda>_. ret v)))"
| "eval_exp en (EModify l opr e) =
     bind (eval_lval en l) (\<lambda>a. bind (eval_exp en e) (\<lambda>v.
       let v0 = as_val (ev_lsb en) a
       in EVAL v0 (bind (ta2tv en v0 a) (\<lambda>x. bind (bin_op en IsX1 x x v opr) (\<lambda>w.
            bind (assign en a w) (\<lambda>_. ret w))))))"
| "eval_exp en (ECreate name e) =
     bind (eval_exp en e) (\<lambda>v.
       bind (EVAL () (bind (varCreate en name (cv_type v)) (\<lambda>a. assign en a v))) (\<lambda>_. ret v))"
| "eval_binexp en (BCast c) = eval_castexp en c"
| "eval_binexp en (BOr b1 b2) =
     bind (eval_binexp en b1) (\<lambda>v1. bind (true_q en v1) (\<lambda>t1. bind (PSHEVAL t1) (\<lambda>_.
     bind (eval_binexp en b2) (\<lambda>v2.
       bind (if t1 then ret True else true_q en v2) (\<lambda>t.
       bind POPEVAL (\<lambda>_. ret (ulong (ev_lsb en) (truth t))))))))"
| "eval_binexp en (BAnd b1 b2) =
     bind (eval_binexp en b1) (\<lambda>v1. bind (true_q en v1) (\<lambda>t1. bind (PSHEVAL (\<not> t1)) (\<lambda>_.
     bind (eval_binexp en b2) (\<lambda>v2.
       bind (if \<not> t1 then ret False else true_q en v2) (\<lambda>t.
       bind POPEVAL (\<lambda>_. ret (ulong (ev_lsb en) (truth t))))))))"
| "eval_binexp en (BOp opr b1 b2) =
     bind (eval_binexp en b1) (\<lambda>v1. bind (eval_binexp en b2) (\<lambda>v2.
       bin_op en Distinct v1 v1 v2 opr))"
| "eval_castexp en (CUn u) = eval_unexp en u"
| "eval_castexp en (CCast t c) =
     bind (eval_castexp en c) (\<lambda>v. CHECK (cexpTypeCast (ev_lsb en) (ev_fp en) v t True))"
| "eval_unexp en (UNumber v) = ret v"
| "eval_unexp en (UCall c) = eval_call en c"
| "eval_unexp en (UNot c) =
     bind (eval_castexp en c) (\<lambda>v. bind (true_q en v) (\<lambda>t. ret (ulong (ev_lsb en) (truth (\<not> t)))))"
| "eval_unexp en (UUnOp opr c) =
     bind (eval_castexp en c) (\<lambda>v. CHECK (cexpTVUnOp (ev_lsb en) (ev_fp en) (ev_junk en) v opr))"
| "eval_unexp en (UAddr r) =
     bind (get_state (\<lambda>st. sym_value st r)) (\<lambda>a. CHECK (cexpTVPtr (ev_lsb en) (ev_junk en) a))"
| "eval_lval en (LVar r) = get_state (\<lambda>st. sym_value st r)"
| "eval_lval en (LDeref c) =
     bind (eval_castexp en c) (\<lambda>v.
       if \<not> PTRQ (cv_type v) \<or> FUNQ (cv_type v) then yyerror
       else ret \<lparr>ca_ptv = get_p (ev_lsb en) (cv_tv v), ca_type = PTR2BASE (cv_type v)\<rparr>)"
| "eval_call en (KParen es) = bind (eval_exps en es) (\<lambda>vs. ret (last vs))"
| "eval_call en (KFun f) = eval_funcp en f"
| "eval_call en (KMethod r mname es) = bind (eval_exps en es) (\<lambda>vs. sym_member en r mname vs)"
| "eval_call en (KCall c es) =
     bind (eval_call en c) (\<lambda>f. bind (eval_exps en es) (\<lambda>vs. fn_call en f vs))"
| "eval_funcp en (FSym r) = get_state (\<lambda>st. as_val (ev_lsb en) (sym_value st r))"
| "eval_funcp en (FPost l opr) = bind (eval_lval en l) (\<lambda>a. step_by en True a opr)"
| "eval_funcp en (FPre l opr) = bind (eval_lval en l) (\<lambda>a. step_by en False a opr)"
| "eval_exps en [] = ret []"
| "eval_exps en (e # es) = bind (eval_exp en e) (\<lambda>v. bind (eval_exps en es) (\<lambda>vs. ret (v # vs)))"

section \<open>Lines\<close>

definition eval_def :: "ev_env \<Rightarrow> def \<Rightarrow> CexpTypedVal ev" where
  "eval_def en d =
     (case d of
        NewDef t name \<Rightarrow>
          EVAL (ev_junk en) (bind (varCreate en name t) (\<lambda>a. ta2tv en (ev_junk en) a))
      | ReDef t r \<Rightarrow>
          bind (EVAL () (\<lambda>st. Val () (set_type r t st))) (\<lambda>_.
          bind (get_state (\<lambda>st. sym_value st r)) (\<lambda>a. ta2tv en (ev_junk en) a)))"

definition show_val :: "ev_env \<Rightarrow> CexpTypedVal \<Rightarrow> unit ev" where
  "show_val en v =
     (let lsb = ev_lsb en; put = (\<lambda>s st. Val () (st\<lparr>es_out := es_out st @ [s]\<rparr>)) in
      if FPQ (cv_type v) then
        bind (CHECK (cexpTypeCast lsb (ev_fp en) v TDouble False)) (\<lambda>d. put (ShowDouble (get_d lsb (cv_tv d))))
      else if cv_type v = TUChar then put (ShowChar (get_c lsb (cv_tv v)))
      else
        bind (CHECK (cexpTypeCast lsb (ev_fp en) v TULong False)) (\<lambda>l. put (ShowLong (get_l lsb (cv_tv l)))))"

text \<open>\<open>None\<close> is the value of type void of an empty line.\<close>

definition eval_line :: "ev_env \<Rightarrow> line \<Rightarrow> CexpTypedVal option ev" where
  "eval_line en ln =
     (case ln of
        LEmpty \<Rightarrow> ret None
      | LIdent \<Rightarrow> yyerror
      | LDef d \<Rightarrow> bind (eval_def en d) (\<lambda>v. ret (Some v))
      | LReDef d \<Rightarrow> bind (eval_def en d) (\<lambda>_. yyerror)
      | LExp es \<Rightarrow>
          bind (eval_exps en es) (\<lambda>vs. bind (show_val en (last vs)) (\<lambda>_. ret (Some (last vs)))))"

text \<open>The result of the line becomes the last result, which is a variable in memory.\<close>

definition eval_input :: "ev_env \<Rightarrow> line \<Rightarrow> unit ev" where
  "eval_input en ln =
     bind (eval_line en ln) (\<lambda>v st.
       let st = (case v of
                   None \<Rightarrow> st
                 | Some v \<Rightarrow>
                     if cv_type v = TVoid then st
                     else set_mem (store_n (ev_lsb en) 8 (get_l (ev_lsb en) (cv_tv v)) (ca_ptv (es_ans st)) (mem_of st))
                            (st\<lparr>es_ans := (es_ans st)\<lparr>ca_type := cv_type v\<rparr>\<rparr>))
       in Val () (st\<lparr>es_status := 0\<rparr>))"

text \<open>A line is parsed with a context that has been reset.\<close>

definition reset_ctx :: "ev_state \<Rightarrow> ev_state" where
  "reset_ctx st = st\<lparr>es_inh := 0, es_status := -1\<rparr>"

definition eval_text :: "ev_env \<Rightarrow> line \<Rightarrow> unit ev" where
  "eval_text en ln st = eval_input en ln (reset_ctx st)"

end
