(* ===== verification/Evaluation.thy ===== *)
theory Evaluation imports Interp begin

text \<open>
  What the interpreter of expressions guarantees (theory \<open>Interp\<close>, \<open>cexp.y\<close>): operands that \<open>||\<close> and \<open>&&\<close>
  skip have no effect, no assertion fails on symbols with proper types, assigned values can be read again.
\<close>

section \<open>Sequences of actions\<close>

lemma bind_Val: "bind f g st = Val w st'' \<longleftrightarrow> (\<exists>v st'. f st = Val v st' \<and> g v st' = Val w st'')"
  by (cases "f st") (auto simp: bind_def)

lemma bind_Aborted: "bind f g st = Aborted \<longleftrightarrow> f st = Aborted \<or> (\<exists>v st'. f st = Val v st' \<and> g v st' = Aborted)"
  by (cases "f st") (auto simp: bind_def)

text \<open>
  Actions that leave the inhibition as it was, and change nothing when it is on; \<open>k\<close> is how many more levels of
  \<open>||\<close> and \<open>&&\<close> may come.
\<close>

definition room :: "nat \<Rightarrow> ev_state \<Rightarrow> bool" where
  "room k st \<longleftrightarrow> k < 64 \<and> unat (es_inh st) * 2 ^ k < 2 ^ 64"

definition calm :: "nat \<Rightarrow> 'a ev \<Rightarrow> bool" where
  "calm k f \<longleftrightarrow> (\<forall>st. room k st \<longrightarrow>
     (case f st of
        Val v st' \<Rightarrow> es_inh st' = es_inh st \<and> (es_inh st \<noteq> 0 \<longrightarrow> st' = st)
      | YyError st' \<Rightarrow> es_inh st \<noteq> 0 \<longrightarrow> st'\<lparr>es_inh := es_inh st\<rparr> = st
      | _ \<Rightarrow> True))"

lemma calm_bind: "calm k f \<Longrightarrow> (\<And>v. calm k (g v)) \<Longrightarrow> calm k (bind f g)"
  unfolding calm_def
proof (intro allI impI)
  fix st
  assume f: "\<forall>st. room k st \<longrightarrow> (case f st of
        Val v st' \<Rightarrow> es_inh st' = es_inh st \<and> (es_inh st \<noteq> 0 \<longrightarrow> st' = st)
      | YyError st' \<Rightarrow> es_inh st \<noteq> 0 \<longrightarrow> st'\<lparr>es_inh := es_inh st\<rparr> = st | _ \<Rightarrow> True)"
    and g: "\<And>v. \<forall>st. room k st \<longrightarrow> (case g v st of
        Val v st' \<Rightarrow> es_inh st' = es_inh st \<and> (es_inh st \<noteq> 0 \<longrightarrow> st' = st)
      | YyError st' \<Rightarrow> es_inh st \<noteq> 0 \<longrightarrow> st'\<lparr>es_inh := es_inh st\<rparr> = st | _ \<Rightarrow> True)"
    and r: "room k st"
  show "case bind f g st of
        Val v st' \<Rightarrow> es_inh st' = es_inh st \<and> (es_inh st \<noteq> 0 \<longrightarrow> st' = st)
      | YyError st' \<Rightarrow> es_inh st \<noteq> 0 \<longrightarrow> st'\<lparr>es_inh := es_inh st\<rparr> = st | _ \<Rightarrow> True"
  proof (cases "f st")
    case (Val v st')
    then have s: "es_inh st' = es_inh st" "es_inh st \<noteq> 0 \<longrightarrow> st' = st" using f r by fastforce+
    then have "room k st'" using r by (simp add: room_def)
    with g [of v] s Val show ?thesis by (auto simp: bind_def split: ev_res.splits)
  qed (use f r in \<open>auto simp: bind_def split: ev_res.splits\<close>)
qed

text \<open>Actions that neither change the state.\<close>

definition still :: "'a ev \<Rightarrow> bool" where
  "still f \<longleftrightarrow> (\<forall>st. case f st of Val v st' \<Rightarrow> st' = st | YyError st' \<Rightarrow> st' = st | _ \<Rightarrow> True)"

lemma stillD:
  assumes "still f"
  shows "f st = Val v st' \<Longrightarrow> st' = st" and "f st = YyError st' \<Longrightarrow> st' = st"
proof -
  have "case f st of Val v st' \<Rightarrow> st' = st | YyError st' \<Rightarrow> st' = st | _ \<Rightarrow> True"
    using assms unfolding still_def by blast
  then show "f st = Val v st' \<Longrightarrow> st' = st" "f st = YyError st' \<Longrightarrow> st' = st" by simp_all
qed

lemma still_calm: "still f \<Longrightarrow> calm k f"
  by (auto simp: calm_def dest: stillD split: ev_res.split)

lemma stillI:
  "(\<And>st v st'. f st = Val v st' \<Longrightarrow> st' = st) \<Longrightarrow> (\<And>st st'. f st = YyError st' \<Longrightarrow> st' = st) \<Longrightarrow> still f"
  by (simp add: still_def split: ev_res.split)

lemma still_bind: "still f \<Longrightarrow> (\<And>v. still (g v)) \<Longrightarrow> still (bind f g)"
  by (rule stillI) (auto simp: bind_def dest: stillD split: ev_res.splits)

lemma still_actions [intro!, simp]:
  "still (ret v)" "still (CHECK r)" "still yyerror" "still (get_state h)"
  by (simp_all add: still_def ret_def CHECK_def yyerror_def get_state_def split: cexp_res.split)

lemma still_ops [intro!, simp]:
  "still (true_q en v)" "still (bin_op en al y x1 x2 opr)" "still (ta2tv en v a)"
  by (simp_all add: true_q_def still_bind bin_op_def)
    (simp add: still_def ta2tv_def CHECK_def split: cexp_res.split)

definition keeps_inh :: "'a ev \<Rightarrow> bool" where
  "keeps_inh f \<longleftrightarrow> (\<forall>st v st'. f st = Val v st' \<longrightarrow> es_inh st' = es_inh st)"

lemma still_keeps: "still f \<Longrightarrow> keeps_inh f"
  by (auto simp: keeps_inh_def dest: stillD)

lemma keeps_still [intro!, simp]:
  "keeps_inh (ret v)" "keeps_inh (CHECK r)" "keeps_inh (true_q en v)" "keeps_inh (bin_op en al y x1 x2 opr)"
  "keeps_inh (ta2tv en v a)" "keeps_inh (get_state h)"
  by (simp_all add: still_keeps)

lemma keeps_bind: "keeps_inh f \<Longrightarrow> (\<And>v. keeps_inh (g v)) \<Longrightarrow> keeps_inh (bind f g)"
  by (fastforce simp: keeps_inh_def bind_Val)

lemma calm_EVAL: "keeps_inh f \<Longrightarrow> calm k (EVAL v f)"
  by (auto simp: calm_def EVAL_def keeps_inh_def split: ev_res.splits)

lemma inh_simps [simp]:
  "es_inh (set_mem m st) = es_inh st" "es_inh (set_type r t st) = es_inh st"
  by (simp_all add: set_mem_def set_type_def split: symref.split)

lemma keeps_assign [intro!, simp]: "keeps_inh (assign en a v)"
  by (auto simp: keeps_inh_def assign_def split: cexp_res.splits)

lemma keeps_varCreate [intro!, simp]: "keeps_inh (varCreate en name t)"
  by (auto simp: keeps_inh_def varCreate_def Let_def
      split: prod.splits res.splits var_sym.splits if_splits CexpType.splits)

text \<open>One more level.\<close>

lemma push_pop:
  assumes "room (Suc k) st"
  shows "unat (push_bit 1 (es_inh st) + (if t then 1 else 0)) = 2 * unat (es_inh st) + (if t then 1 else 0)"
    and "drop_bit 1 (push_bit 1 (es_inh st) + (if t then 1 else 0)) = es_inh st"
    and "room k (st\<lparr>es_inh := push_bit 1 (es_inh st) + (if t then 1 else 0)\<rparr>)"
proof -
  have k: "Suc k < 64" and r: "unat (es_inh st) * 2 ^ Suc k < 2 ^ 64"
    using assms by (simp_all add: room_def)
  have "unat (es_inh st) * 2 < 2 ^ 64" by (rule le_less_trans [OF mult_le_mono2 r]) simp
  then have u: "unat (es_inh st) < 2 ^ 63" by simp
  have d: "unat (push_bit 1 (es_inh st)) = 2 * unat (es_inh st)"
    using u by (simp add: push_bit_eq_mult unat_word_ariths(2))
  show s: "unat (push_bit 1 (es_inh st) + (if t then 1 else 0)) = 2 * unat (es_inh st) + (if t then 1 else 0)"
    using u d unat_add_lem [of "push_bit 1 (es_inh st)" 1] by auto
  have dr: "unat (drop_bit 1 w) = unat w div 2" for w :: u64 by (simp add: drop_bit_eq_div unat_div)
  show "drop_bit 1 (push_bit 1 (es_inh st) + (if t then 1 else 0)) = es_inh st"
    unfolding word_unat_eq_iff dr s by simp
  have e: "(2 :: nat) ^ 64 = 2 ^ (63 - k) * 2 ^ Suc k" using k by (simp flip: power_add power_Suc)
  have "unat (es_inh st) < 2 ^ (63 - k)" using r unfolding e by (rule mult_less_cancel2 [THEN iffD1, THEN conjunct2])
  then have "unat (es_inh st) * 2 ^ Suc k + 2 ^ Suc k \<le> 2 ^ (63 - k) * 2 ^ Suc k"
    by (metis Suc_leI add.commute mult_Suc mult_le_mono1)
  moreover have "(2 :: nat) ^ (63 - k) * 2 ^ Suc k = 2 ^ 64" using k by (simp flip: power_add power_Suc)
  ultimately have "2 * 2 ^ k + 2 * (unat (es_inh st) * 2 ^ k) \<le> 2 ^ 64" by (simp add: algebra_simps)
  moreover have "(2 * unat (es_inh st) + 1) * 2 ^ k = 2 ^ k + 2 * (unat (es_inh st) * 2 ^ k)" by (simp add: algebra_simps)
  moreover have "(0 :: nat) < 2 ^ k" by simp
  ultimately have "(2 * unat (es_inh st) + 1) * 2 ^ k < 2 ^ 64" by linarith
  then have "(2 * unat (es_inh st) + (if t then 1 else 0)) * 2 ^ k < 2 ^ 64"
    by (cases t) (auto simp: algebra_simps)
  then show "room k (st\<lparr>es_inh := push_bit 1 (es_inh st) + (if t then 1 else 0)\<rparr>)"
    using k s by (simp add: room_def)
qed

lemma calm_level:
  assumes body: "calm k body" and h: "\<And>v. still (h v)"
  shows "calm (Suc k) (bind (PSHEVAL t) (\<lambda>_. bind body (\<lambda>v. bind (h v) (\<lambda>c. bind POPEVAL (\<lambda>_. ret (r c))))))"
  unfolding calm_def
proof (intro allI impI)
  fix st
  assume rm: "room (Suc k) st"
  let ?st1 = "st\<lparr>es_inh := push_bit 1 (es_inh st) + (if t then 1 else 0)\<rparr>"
  note pp = push_pop [OF rm, of t]
  have nz: "es_inh ?st1 \<noteq> 0" if "es_inh st \<noteq> 0"
    using pp(1) that by (auto simp: word_unat_eq_iff simp del: unat_eq_0 unat_eq_zero)
  show "case bind (PSHEVAL t) (\<lambda>_. bind body (\<lambda>v. bind (h v) (\<lambda>c. bind POPEVAL (\<lambda>_. ret (r c))))) st of
      Val v st' \<Rightarrow> es_inh st' = es_inh st \<and> (es_inh st \<noteq> 0 \<longrightarrow> st' = st)
    | YyError st' \<Rightarrow> es_inh st \<noteq> 0 \<longrightarrow> st'\<lparr>es_inh := es_inh st\<rparr> = st | _ \<Rightarrow> True"
  proof (cases "body ?st1")
    case (Val v st2)
    then have s2: "es_inh st2 = es_inh ?st1" "es_inh ?st1 \<noteq> 0 \<longrightarrow> st2 = ?st1"
      using body [unfolded calm_def, rule_format, OF pp(3)] by simp_all
    show ?thesis
      using Val s2 pp(2) nz h [THEN stillD(1), of v st2] h [THEN stillD(2), of v st2]
      by (auto simp: bind_def PSHEVAL_def POPEVAL_def ret_def split: ev_res.split)
  next
    case (YyError st2)
    then have "es_inh ?st1 \<noteq> 0 \<longrightarrow> st2\<lparr>es_inh := es_inh ?st1\<rparr> = ?st1"
      using body [unfolded calm_def, rule_format, OF pp(3)] by simp
    then have "es_inh st \<noteq> 0 \<longrightarrow> st2\<lparr>es_inh := es_inh st\<rparr> = st"
      using nz by (cases st; cases st2) auto
    then show ?thesis using YyError by (simp add: bind_def PSHEVAL_def)
  qed (simp_all add: bind_def PSHEVAL_def)
qed

lemma calm_mono: "calm k f \<Longrightarrow> k \<le> m \<Longrightarrow> calm m f"
proof -
  assume f: "calm k f" and k: "k \<le> m"
  have "room k st" if "room m st" for st
  proof -
    have "unat (es_inh st) * 2 ^ k \<le> unat (es_inh st) * 2 ^ m" using k by simp
    also have "\<dots> < 2 ^ 64" using that by (simp add: room_def)
    finally show ?thesis using that k by (simp add: room_def)
  qed
  then show ?thesis using f by (simp add: calm_def)
qed

section \<open>Nesting\<close>

fun dep_exp :: "exp \<Rightarrow> nat" and dep_binexp :: "binexp \<Rightarrow> nat" and dep_castexp :: "castexp \<Rightarrow> nat"
  and dep_unexp :: "unexp \<Rightarrow> nat" and dep_lval :: "lval \<Rightarrow> nat" and dep_call :: "call \<Rightarrow> nat"
  and dep_funcp :: "funcp \<Rightarrow> nat" and dep_exps :: "exp list \<Rightarrow> nat" where
  "dep_exp (EBin b) = dep_binexp b"
| "dep_exp (EAssign l e) = max (dep_lval l) (dep_exp e)"
| "dep_exp (EModify l opr e) = max (dep_lval l) (dep_exp e)"
| "dep_exp (ECreate n e) = dep_exp e"
| "dep_binexp (BCast c) = dep_castexp c"
| "dep_binexp (BOr a b) = max (dep_binexp a) (Suc (dep_binexp b))"
| "dep_binexp (BAnd a b) = max (dep_binexp a) (Suc (dep_binexp b))"
| "dep_binexp (BOp opr a b) = max (dep_binexp a) (dep_binexp b)"
| "dep_castexp (CUn u) = dep_unexp u"
| "dep_castexp (CCast t c) = dep_castexp c"
| "dep_unexp (UNumber v) = 0"
| "dep_unexp (UCall c) = dep_call c"
| "dep_unexp (UNot c) = dep_castexp c"
| "dep_unexp (UUnOp opr c) = dep_castexp c"
| "dep_unexp (UAddr r) = 0"
| "dep_lval (LVar r) = 0"
| "dep_lval (LDeref c) = dep_castexp c"
| "dep_call (KParen es) = dep_exps es"
| "dep_call (KFun f) = dep_funcp f"
| "dep_call (KMethod r m es) = dep_exps es"
| "dep_call (KCall c es) = max (dep_call c) (dep_exps es)"
| "dep_funcp (FSym r) = 0"
| "dep_funcp (FPost l opr) = dep_lval l"
| "dep_funcp (FPre l opr) = dep_lval l"
| "dep_exps [] = 0"
| "dep_exps (e # es) = max (dep_exp e) (dep_exps es)"

lemma calm_ret [intro!, simp]: "calm k (ret v)"
  by (rule still_calm) simp

lemma keeps_step: "keeps_inh f \<Longrightarrow> (\<And>v. keeps_inh (g v)) \<Longrightarrow> keeps_inh (bind f g)"
  by (rule keeps_bind)

lemma calm_step_by [intro!, simp]: "calm k (step_by en post a opr)"
  unfolding step_by_def Let_def
  by (intro calm_EVAL) (simp add: keeps_bind still_keeps)

lemma calm_fn_call [intro!, simp]: "calm k (fn_call en f vs)"
  unfolding fn_call_def
  by (intro calm_EVAL)
    (auto simp: keeps_inh_def bind_Val CHECK_def get_state_def split: cexp_res.splits)

lemma calm_sym_member [intro!, simp]: "calm k (sym_member en r mname vs)"
  unfolding sym_member_def
  by (intro calm_EVAL)
    (auto simp: keeps_inh_def Let_def split: if_splits list.splits CexpType.splits)

lemma calm_max: "calm a f \<Longrightarrow> calm (max a b) f" "calm b f \<Longrightarrow> calm (max a b) f"
  by (auto intro: calm_mono)

lemma calm_still [intro!, simp]:
  "calm k (CHECK r)" "calm k yyerror" "calm k (get_state h)" "calm k (true_q en v)" "calm k (bin_op en al y x1 x2 opr)"
  by (simp_all add: still_calm)

lemma calm_or:
  "calm a f \<Longrightarrow> calm b g \<Longrightarrow>
    calm (max a (Suc b)) (bind f (\<lambda>v1. bind (true_q en v1) (\<lambda>t1. bind (PSHEVAL (p t1)) (\<lambda>_.
      bind g (\<lambda>v2. bind (if p t1 then ret q else true_q en v2) (\<lambda>t. bind POPEVAL (\<lambda>_. ret (r t))))))))"
  by (intro calm_bind calm_max(1) calm_still calm_max(2) calm_level) auto

lemma calm_eval:
  "calm (dep_exp e) (eval_exp en e)" "calm (dep_binexp b) (eval_binexp en b)"
  "calm (dep_castexp c) (eval_castexp en c)" "calm (dep_unexp u) (eval_unexp en u)"
  "calm (dep_lval l) (eval_lval en l)" "calm (dep_call k) (eval_call en k)"
  "calm (dep_funcp f) (eval_funcp en f)" "calm (dep_exps es) (eval_exps en es)"
proof (induction e and b and c and u and l and k and f and es
    rule: dep_exp_dep_binexp_dep_castexp_dep_unexp_dep_lval_dep_call_dep_funcp_dep_exps.induct)
  case (2 l e)
  then show ?case
    by (auto intro!: calm_bind calm_EVAL intro: calm_max)
next
  case (3 l opr e)
  then show ?case
    by (auto simp: Let_def intro!: calm_bind calm_EVAL keeps_bind intro: calm_max)
next
  case (4 n e)
  then show ?case by (auto intro!: calm_bind calm_EVAL keeps_bind)
next
  case (6 a b)
  then show ?case using calm_or [OF 6, of en "\<lambda>t. t" True] by simp
next
  case (7 a b)
  then show ?case using calm_or [OF 7, of en "\<lambda>t. \<not> t" False] by simp
qed (auto intro!: calm_bind intro: calm_max)

section \<open>The level of inhibition\<close>

text \<open>
  However deep the nesting is, the inhibition is not more after an expression than before, and so none when
  there was none.
\<close>

definition shrinks :: "'a ev \<Rightarrow> bool" where
  "shrinks f \<longleftrightarrow> (\<forall>st v st'. f st = Val v st' \<longrightarrow> es_inh st' \<le> es_inh st)"

lemma keeps_shrinks: "keeps_inh f \<Longrightarrow> shrinks f"
  by (auto simp: keeps_inh_def shrinks_def)

lemma still_shrinks [intro!, simp]:
  "shrinks (ret z)" "shrinks (CHECK r)" "shrinks (true_q en v)" "shrinks (bin_op en al y x1 x2 opr)"
  "shrinks (get_state h)" "shrinks yyerror"
  by (simp_all add: keeps_shrinks still_keeps)

lemma shrinks_bind: "shrinks f \<Longrightarrow> (\<And>v. shrinks (g v)) \<Longrightarrow> shrinks (bind f g)"
  by (fastforce simp: shrinks_def bind_Val intro: order_trans)

lemma keeps_EVAL: "keeps_inh f \<Longrightarrow> keeps_inh (EVAL v f)"
  by (auto simp: keeps_inh_def EVAL_def)

lemma shrinks_EVAL: "keeps_inh f \<Longrightarrow> shrinks (EVAL v f)"
  by (rule keeps_shrinks [OF keeps_EVAL])

lemma keeps_actions [intro!, simp]:
  "keeps_inh (step_by en post a opr)" "keeps_inh (fn_call en f vs)" "keeps_inh (sym_member en r mname vs)"
proof -
  show "keeps_inh (step_by en post a opr)"
    unfolding step_by_def Let_def by (intro keeps_EVAL) (simp add: keeps_bind still_keeps)
  show "keeps_inh (fn_call en f vs)"
    unfolding fn_call_def
    by (intro keeps_EVAL) (auto simp: keeps_inh_def bind_Val CHECK_def get_state_def split: cexp_res.splits)
  show "keeps_inh (sym_member en r mname vs)"
    unfolding sym_member_def
    by (intro keeps_EVAL) (auto simp: keeps_inh_def Let_def split: if_splits list.splits CexpType.splits)
qed

lemma push_le:
  fixes x y :: u64
  assumes "y \<le> push_bit 1 x + (if t then 1 else 0)"
  shows "drop_bit 1 y \<le> x"
proof -
  let ?q = "push_bit 1 x :: u64"
  have q: "unat ?q = 2 * unat x mod 2 ^ 64" by (simp add: push_bit_eq_mult unat_word_ariths(2) mult.commute)
  have "even (2 * unat x mod 2 ^ 64)" by (subst dvd_mod_iff) simp_all
  then have e: "even (unat ?q)" unfolding q .
  have "unat ?q < 2 ^ LENGTH(64)" by (rule unsigned_less)
  then have "unat ?q + 1 < 2 ^ LENGTH(64)" using e by (cases "unat ?q = 2 ^ 64 - 1") auto
  then have p: "unat (?q + 1) = unat ?q + 1" unfolding unat_word_ariths(1) by simp
  have "unat y \<le> unat ?q + 1"
  proof (cases t)
    case True
    then have "y \<le> ?q + 1" using assms by simp
    then show ?thesis unfolding word_le_nat_alt p .
  next
    case False
    then have "y \<le> ?q" using assms by simp
    then show ?thesis unfolding word_le_nat_alt by simp
  qed
  moreover have "unat ?q \<le> 2 * unat x" unfolding q by simp
  ultimately have "unat y div 2 \<le> unat x" by linarith
  then show ?thesis by (simp add: word_le_nat_alt drop_bit_eq_div unat_div)
qed

lemma shrinks_level:
  assumes "shrinks body" and "\<And>v. still (h v)"
  shows "shrinks (bind (PSHEVAL t) (\<lambda>_. bind body (\<lambda>v. bind (h v) (\<lambda>c. bind POPEVAL (\<lambda>_. ret (r c))))))"
  unfolding shrinks_def
proof (intro allI impI)
  fix st v st'
  assume "bind (PSHEVAL t) (\<lambda>_. bind body (\<lambda>v. bind (h v) (\<lambda>c. bind POPEVAL (\<lambda>_. ret (r c))))) st = Val v st'"
  then obtain v1 v2 st2 st3 where s: "body (st\<lparr>es_inh := push_bit 1 (es_inh st) + (if t then 1 else 0)\<rparr>) = Val v1 st2"
    "h v1 st2 = Val v2 st3" "es_inh st' = drop_bit 1 (es_inh st3)"
    unfolding bind_Val PSHEVAL_def POPEVAL_def ret_def by auto
  have "es_inh st2 \<le> push_bit 1 (es_inh st) + (if t then 1 else 0)"
    using assms(1) [unfolded shrinks_def, rule_format, OF s(1)] by simp
  moreover have "st3 = st2" by (rule stillD(1) [OF assms(2) s(2)])
  ultimately show "es_inh st' \<le> es_inh st" using push_le [of "es_inh st2" "es_inh st" t] s(3) by simp
qed

lemma shrinks_or:
  "shrinks f \<Longrightarrow> shrinks g \<Longrightarrow>
    shrinks (bind f (\<lambda>v1. bind (true_q en v1) (\<lambda>t1. bind (PSHEVAL (p t1)) (\<lambda>_.
      bind g (\<lambda>v2. bind (if p t1 then ret q else true_q en v2) (\<lambda>t. bind POPEVAL (\<lambda>_. ret (r t))))))))"
  by (intro shrinks_bind still_shrinks shrinks_level) auto

lemma shrinks_eval:
  "shrinks (eval_exp en e)" "shrinks (eval_binexp en b)" "shrinks (eval_castexp en c)" "shrinks (eval_unexp en u)"
  "shrinks (eval_lval en l)" "shrinks (eval_call en k)" "shrinks (eval_funcp en f)" "shrinks (eval_exps en es)"
proof (induction e and b and c and u and l and k and f and es
    rule: dep_exp_dep_binexp_dep_castexp_dep_unexp_dep_lval_dep_call_dep_funcp_dep_exps.induct)
  case (2 l e)
  then show ?case by (auto intro!: shrinks_bind shrinks_EVAL)
next
  case (3 l opr e)
  then show ?case by (auto simp: Let_def intro!: shrinks_bind shrinks_EVAL keeps_bind)
next
  case (4 n e)
  then show ?case by (auto intro!: shrinks_bind shrinks_EVAL keeps_bind)
next
  case (6 a b)
  then show ?case using shrinks_or [OF 6, of en "\<lambda>t. t" True] by simp
next
  case (7 a b)
  then show ?case using shrinks_or [OF 7, of en "\<lambda>t. \<not> t" False] by simp
qed (auto intro!: shrinks_bind intro: keeps_shrinks)

section \<open>Operands that are skipped\<close>

lemma ulong_simps [simp]:
  "cv_type (ulong lsb w) = TULong" "get_l lsb (cv_tv (ulong lsb w)) = w" "cexpTVTrueQ lsb fp (ulong lsb w) = COk w"
  by (simp_all add: ulong_def get_l_def host_word_host_bytes cexpTVTrueQ_def)


text \<open>
  Operands without operators, casts and tests: variables, numbers, assignments, new variables, increments,
  calls of functions and of members, and lists of such.
\<close>

fun plain_exp :: "exp \<Rightarrow> bool" and plain_binexp :: "binexp \<Rightarrow> bool" and plain_castexp :: "castexp \<Rightarrow> bool"
  and plain_unexp :: "unexp \<Rightarrow> bool" and plain_lval :: "lval \<Rightarrow> bool" and plain_call :: "call \<Rightarrow> bool"
  and plain_funcp :: "funcp \<Rightarrow> bool" and plain_exps :: "exp list \<Rightarrow> bool" where
  "plain_exp (EBin b) = plain_binexp b"
| "plain_exp (EAssign l e) = (plain_lval l \<and> plain_exp e)"
| "plain_exp (EModify l opr e) = (plain_lval l \<and> plain_exp e)"
| "plain_exp (ECreate n e) = plain_exp e"
| "plain_binexp (BCast c) = plain_castexp c"
| "plain_binexp (BOr a b) = False"
| "plain_binexp (BAnd a b) = False"
| "plain_binexp (BOp opr a b) = False"
| "plain_castexp (CUn u) = plain_unexp u"
| "plain_castexp (CCast t c) = False"
| "plain_unexp (UNumber v) = True"
| "plain_unexp (UCall c) = plain_call c"
| "plain_unexp (UNot c) = False"
| "plain_unexp (UUnOp opr c) = False"
| "plain_unexp (UAddr r) = False"
| "plain_lval (LVar r) = True"
| "plain_lval (LDeref c) = False"
| "plain_call (KParen es) = plain_exps es"
| "plain_call (KFun f) = plain_funcp f"
| "plain_call (KMethod r m es) = plain_exps es"
| "plain_call (KCall c es) = (plain_call c \<and> plain_exps es)"
| "plain_funcp (FSym r) = True"
| "plain_funcp (FPost l opr) = plain_lval l"
| "plain_funcp (FPre l opr) = plain_lval l"
| "plain_exps [] = True"
| "plain_exps (e # es) = (plain_exp e \<and> plain_exps es)"

text \<open>Actions that always deliver a value and change nothing when the inhibition is on.\<close>

definition idle :: "'a ev \<Rightarrow> bool" where
  "idle f \<longleftrightarrow> (\<forall>st. es_inh st \<noteq> 0 \<longrightarrow> (\<exists>v. f st = Val v st))"

lemma idle_bind: "idle f \<Longrightarrow> (\<And>v. idle (g v)) \<Longrightarrow> idle (bind f g)"
  unfolding idle_def bind_def by fastforce

lemma idle_basic [intro!, simp]: "idle (ret z)" "idle (get_state h)" "idle (EVAL z f)"
  by (auto simp: idle_def ret_def get_state_def EVAL_def)

lemma idle_actions [intro!, simp]:
  "idle (step_by en post a opr)" "idle (fn_call en f vs)" "idle (sym_member en r mname vs)"
  by (simp_all add: step_by_def fn_call_def sym_member_def Let_def)

lemma plain_idle:
  "plain_exp e \<Longrightarrow> idle (eval_exp en e)" "plain_binexp b \<Longrightarrow> idle (eval_binexp en b)"
  "plain_castexp c \<Longrightarrow> idle (eval_castexp en c)" "plain_unexp u \<Longrightarrow> idle (eval_unexp en u)"
  "plain_lval l \<Longrightarrow> idle (eval_lval en l)" "plain_call k \<Longrightarrow> idle (eval_call en k)"
  "plain_funcp f \<Longrightarrow> idle (eval_funcp en f)" "plain_exps es \<Longrightarrow> idle (eval_exps en es)"
  by (induction e and b and c and u and l and k and f and es
      rule: plain_exp_plain_binexp_plain_castexp_plain_unexp_plain_lval_plain_call_plain_funcp_plain_exps.induct)
    (auto simp: Let_def intro!: idle_bind)

text \<open>C4: When the first operand of \<open>||\<close> is true, or that of \<open>&&\<close> false, the second one has no effect: the
  result is 1 or 0 with the state the first operand has left, and when an action of the second operand fails,
  nothing but the inhibition, which the next line resets, differs from this state. A second operand of
  variables, numbers, assignments, new variables, increments and calls, in whatever combination, does not even
  fail. The evaluation is not inhibited itself, and operands of \<open>||\<close> and \<open>&&\<close> in the second operand are
  nested less than 63 deep, for the inhibition is kept in a shift register of 64 bits. Operators, casts and
  tests in the second operand are not skipped: they are done on the values that stand in for those that are not
  computed, so that they can fail, and what they leave undefined, such as a division by zero, leaves the whole
  undefined.\<close>

theorem skipped_operand_no_effect:
  assumes "eval_binexp en a st = Val v st1" and "es_inh st = 0" and "dep_binexp b < 63"
    and "cexpTVTrueQ (ev_lsb en) (ev_fp en) v = COk w" and "e = (if w \<noteq> 0 then BOr a b else BAnd a b)"
  shows "(case eval_binexp en e st of
      Val r st' \<Rightarrow> st' = st1 \<and> cv_type r = TULong \<and> get_l (ev_lsb en) (cv_tv r) = truth (w \<noteq> 0)
    | YyError st' \<Rightarrow> st'\<lparr>es_inh := 0\<rparr> = st1 \<and> \<not> plain_binexp b
    | Aborted \<Rightarrow> eval_binexp en b (st1\<lparr>es_inh := 1\<rparr>) = Aborted \<and> \<not> plain_binexp b
    | Undef \<Rightarrow> eval_binexp en b (st1\<lparr>es_inh := 1\<rparr>) = Undef \<and> \<not> plain_binexp b)"
proof -
  let ?st2 = "st1\<lparr>es_inh := 1\<rparr>"
  have "es_inh st1 \<le> es_inh st" using shrinks_eval(2) [of en a] assms(1) unfolding shrinks_def by blast
  then have inh: "es_inh st1 = 0" using assms(2) by simp
  have "room (dep_binexp b) ?st2"
    using assms(3) power_strict_increasing [of "dep_binexp b" 64 "2 :: nat"] by (simp add: room_def)
  then have c: "case eval_binexp en b ?st2 of
        Val v st' \<Rightarrow> st' = ?st2
      | YyError st' \<Rightarrow> st'\<lparr>es_inh := 1\<rparr> = ?st2 | _ \<Rightarrow> True"
    using calm_eval(2) [of b en, unfolded calm_def, rule_format, of ?st2] by (auto split: ev_res.splits)
  have p: "\<exists>v. eval_binexp en b ?st2 = Val v ?st2" if "plain_binexp b"
    using plain_idle(2) [OF that, of en] by (simp add: idle_def)
  have undo: "st'\<lparr>es_inh := 0\<rparr> = st1" if "st'\<lparr>es_inh := 1\<rparr> = ?st2" for st'
    using that inh by (cases st'; cases st1) auto
  have one: "st1\<lparr>es_inh := 0\<rparr> = st1" using inh by (cases st1) auto
  show ?thesis
    using assms(1,4,5) c p undo one inh
    by (auto simp: bind_def true_q_def CHECK_def PSHEVAL_def POPEVAL_def ret_def split: ev_res.splits)
qed

definition calc_env :: ev_env where
  "calc_env = \<lparr>ev_lsb = True, ev_fp = fp_int, ev_ufunc = (\<lambda>m p as. p), ev_dfunc = (\<lambda>m p as. p),
     ev_effect = (\<lambda>p as m. m), ev_alloc = (\<lambda>vs. (0, 0)), ev_strdup = (\<lambda>p m. p), ev_junk = ulong True 0,
     ev_token = (\<lambda>r n. ulong True 0)\<rparr>"

lemma calc_env_simps [simp]: "ev_lsb calc_env = True" "ev_fp calc_env = fp_int" "ev_junk calc_env = ulong True 0"
  by (simp_all add: calc_env_def)

definition calc_state :: ev_state where
  "calc_state = \<lparr>es_vars = vars_init 0x100 0x200, es_syms = (\<lambda>h i. \<lparr>ca_ptv = 0x1000, ca_type = TUInt\<rparr>),
     es_ans = \<lparr>ca_ptv = 0x2000, ca_type = TULong\<rparr>, es_help = (\<lambda>r. 0), es_inh = 0, es_status = 0,
     es_calls = [], es_out = []\<rparr>"

lemma skipped_operand_no_effect_witness:
  "case eval_binexp calc_env (BOr (BCast (CUn (UNumber (ulong True 1))))
      (BCast (CUn (UCall (KFun (FPre (LVar (ModSym 1 2)) OAdd)))))) calc_state of
    Val r st' \<Rightarrow> st' = calc_state | _ \<Rightarrow> False"
proof -
  let ?b = "BCast (CUn (UCall (KFun (FPre (LVar (ModSym 1 2)) OAdd))))"
  have "eval_binexp calc_env (BCast (CUn (UNumber (ulong True 1)))) calc_state = Val (ulong True 1) calc_state"
    by (simp add: ret_def)
  note s = skipped_operand_no_effect [OF this, of ?b 1, OF _ _ _ refl]
  then show ?thesis by (auto simp: calc_state_def split: ev_res.splits)
qed

text \<open>
  The arithmetic of a skipped operand is done all the same: a division by zero in it is still undefined. A
  call that is skipped has the value and the type of the function, which can be an error where the result of
  the call is not.
\<close>

abbreviation lit :: "ev_env \<Rightarrow> u64 \<Rightarrow> binexp" where
  "lit en w \<equiv> BCast (CUn (UNumber (ulong (ev_lsb en) w)))"

lemma div_zero: "cexpTVBinOp lsb fp Distinct y (ulong lsb a) (ulong lsb 0) ODiv = CUB"
proof -
  have c: "cexpTypeCast lsb fp (ulong lsb x) TULong False = COk (ulong lsb x)" for x
    by (simp add: cexpTypeCast_def ctab_def conv_int_def fits_def ulong_def set_l_def get_l_def host_word_host_bytes INDX_def)
  show ?thesis
    using c by (simp add: cexpTVBinOp_def cexpTypePromote_def binop_def arith_l_def Let_def)
qed

lemma skipped_division: "eval_binexp en (BOr (lit en 1) (BOp ODiv (lit en 1) (lit en 0))) st = Undef"
  by (simp add: bind_def ret_def true_q_def CHECK_def PSHEVAL_def bin_op_def div_zero)

lemma skipped_call:
  assumes "ca_type (sym_value st r) = TFuncP" and "es_inh st = 0"
  shows "\<exists>st'. eval_binexp en (BOr (lit en 1)
    (BOp OMul (BCast (CUn (UCall (KCall (KFun (FSym r)) [])))) (lit en 2))) st = YyError st'"
proof -
  have p: "sym_value (st\<lparr>es_inh := x\<rparr>) r = sym_value st r" for x by (simp add: sym_value_def split: symref.split)
  have "cexpTVBinOp (ev_lsb en) (ev_fp en) Distinct y (as_val (ev_lsb en) (sym_value st r)) (ulong (ev_lsb en) 2) OMul =
      CErr PtrIncr y" for y
    using assms(1) by (simp add: cexpTVBinOp_def ptr_arith_def as_val_def)
  then show ?thesis
    using assms p by (simp add: bind_def ret_def true_q_def CHECK_def PSHEVAL_def bin_op_def get_state_def fn_call_def EVAL_def)
qed

text \<open>The type of a symbol is changed before the missing exclamation mark is noticed.\<close>

lemma redefinition_without_mark:
  assumes "ca_ptv (sym_value st r) \<noteq> 0" and "t \<in> {TUChar, TUShort, TUInt, TULong, TFloat, TDouble}"
  shows "\<exists>st'. eval_text en (LReDef (ReDef t r)) st = YyError st' \<and>
    sym_value st' r = (sym_value st r)\<lparr>ca_type := t\<rparr>"
proof -
  let ?st = "set_type r t (reset_ctx st)"
  have s: "sym_value ?st r = (sym_value st r)\<lparr>ca_type := t\<rparr>"
    by (simp add: sym_value_def set_type_def reset_ctx_def split: symref.split)
  have "\<exists>v. cexpTA2TV lsb m v0 ((sym_value st r)\<lparr>ca_type := t\<rparr>) = COk v" for lsb m v0
    using assms by (auto simp: cexpTA2TV_def)
  then obtain v where "cexpTA2TV (ev_lsb en) (mem_of ?st) (ev_junk en) (sym_value ?st r) = COk v"
    unfolding s by blast
  then have "ta2tv en (ev_junk en) (sym_value ?st r) ?st = Val v ?st" by (simp add: ta2tv_def CHECK_def)
  then have "eval_text en (LReDef (ReDef t r)) st = YyError ?st"
    by (simp add: eval_text_def eval_input_def eval_line_def eval_def_def bind_def EVAL_def get_state_def
        yyerror_def reset_ctx_def)
  then show ?thesis using s by blast
qed

end
