(* ===== verification/Typing.thy ===== *)
theory Typing imports Evaluation begin

text \<open>
  Types in the interpreter (theory \<open>Interp\<close>): symbols with proper types lead to values with proper types, and
  no assertion of \<open>ctyps.c\<close> and \<open>cexp.y\<close> fails.
\<close>

section \<open>Types\<close>

definition proper :: "CexpType \<Rightarrow> bool" where
  "proper t \<longleftrightarrow> t \<notin> {TVoid, TVoidP, TVoidA, TVoidB}"

lemma proper_simps [simp]:
  "proper TULong" "proper TDouble" "proper TUChar" "proper TUCharP"
  by (simp_all add: proper_def)

lemma proper_integral: "proper t \<Longrightarrow> integral t \<or> FPQ t"
  by (cases t) (auto simp: proper_def integral_def)

lemma proper_base: "proper t \<Longrightarrow> PTRQ t \<Longrightarrow> proper (PTR2BASE t)"
  by (cases t) (auto simp: proper_def)

lemma proper_ptr: "proper t \<Longrightarrow> proper (BASE2PTR t)"
  by (cases t) (auto simp: proper_def)

lemma cast_proper: "proper (cv_type v) \<Longrightarrow> cexpTypeCast lsb fp v t force \<noteq> CAbort"
  using cast_not_abort [of v t lsb fp force] proper_integral [of "cv_type v"] by blast

lemma binop_type: "binop lsb fp y v w opr = COk z \<Longrightarrow> cv_type z = cv_type v"
  by (auto simp: binop_def bind_c_def Let_def dest!: cast_type split: if_splits cexp_res.splits option.splits)

lemma promote_type: "cexpTypePromote lsb fp a b = COk (v, w) \<Longrightarrow> cv_type v = cv_type a \<or> cv_type v = cv_type b"
  by (auto simp: cexpTypePromote_def bind_c_def Let_def dest!: cast_type split: if_splits cexp_res.splits)

lemma compare_type: "compare_vals lsb fp al y x1 x2 opr = COk z \<Longrightarrow> cv_type z = TULong"
  by (auto simp: compare_vals_def bind_c_def Let_def split: if_splits cexp_res.splits option.splits)

lemma binary_type:
  assumes "cexpTVBinOp lsb fp al y x1 x2 opr = COk z" and "proper (cv_type x1)" and "proper (cv_type x2)"
  shows "proper (cv_type z)"
proof -
  have d: "cv_type z = TULong" if "ptr_diff lsb al y x1 x2 opr = COk z"
    using that by (auto simp: ptr_diff_def Let_def split: if_splits)
  have a: "cv_type z = cv_type p" if "ptr_arith lsb fp y p n opr = COk z" for p n
    using that by (auto simp: ptr_arith_def Let_def split: if_splits cexp_res.splits)
  have b: "cv_type z = cv_type x1 \<or> cv_type z = cv_type x2"
    if "bind_c (cexpTypePromote lsb fp x1 x2) y (\<lambda>(v, w). binop lsb fp y v w opr) = COk z"
    using that by (auto simp: bind_c_def dest!: binop_type promote_type split: cexp_res.splits)
  show ?thesis
    using assms d a b compare_type by (auto simp: cexpTVBinOp_def split: if_splits)
qed

lemma binary_no_abort: "cexpTVBinOp lsb fp al y x1 x2 opr \<noteq> CAbort"
  by (rule binary_operation_never_aborts)

lemma unary_safe:
  assumes "proper (cv_type v)"
  shows "cexpTVUnOp lsb fp y v opr \<noteq> CAbort" and "cexpTVUnOp lsb fp y v opr = COk z \<Longrightarrow> cv_type z = cv_type v"
proof -
  show "cexpTVUnOp lsb fp y v opr \<noteq> CAbort"
    using cast_proper [OF assms] cast_proper
    by (cases opr; cases "cv_type v") (auto simp: cexpTVUnOp_def Let_def bind_c_abort dest: cast_type)
  show "cv_type z = cv_type v" if "cexpTVUnOp lsb fp y v opr = COk z"
    using that by (cases opr; cases "cv_type v")
      (auto simp: cexpTVUnOp_def Let_def bind_c_def dest: cast_type split: if_splits cexp_res.splits)
qed

lemma true_safe: "proper (cv_type v) \<Longrightarrow> cexpTVTrueQ lsb fp v \<noteq> CAbort"
  by (cases "cv_type v") (auto simp: cexpTVTrueQ_def proper_def Let_def)

lemma address_safe:
  "cexpTVPtr lsb y a \<noteq> CAbort" "cexpTVPtr lsb y a = COk z \<Longrightarrow> cv_type z = BASE2PTR (ca_type a)"
  by (auto simp: cexpTVPtr_def split: if_splits)

lemma read_safe:
  "cexpTA2TV lsb m v a \<noteq> CAbort" "cexpTA2TV lsb m v a = COk z \<Longrightarrow> cv_type z = ca_type a"
  by (cases "ca_type a"; auto simp: cexpTA2TV_def Let_def split: if_splits)+

lemma assign_safe: "proper (cv_type v) \<Longrightarrow> cexpTVAssign lsb fp a v m \<noteq> CAbort"
  using cast_proper [of v lsb fp "ca_type a" False]
  by (cases "ca_type a") (auto simp: cexpTVAssign_def bind_c_abort Let_def)

lemma fn_args_no_abort: "\<forall>v \<in> set vs. proper (cv_type v) \<Longrightarrow> fn_args lsb fp vs n fpargs args \<noteq> CAbort"
  by (induction lsb fp vs n fpargs args rule: fn_args.induct) (auto simp: Let_def bind_c_abort dest: cast_proper)

lemma call_safe:
  assumes "\<forall>v \<in> set vs. proper (cv_type v)" and "proper (cv_type f)"
  shows "fn_passed lsb fp f vs \<noteq> CAbort" and "cexpTVFnCall lsb fp uf df y f vs \<noteq> CAbort"
    and "cexpTVFnCall lsb fp uf df y f vs = COk z \<Longrightarrow> proper (cv_type z)"
proof -
  show p: "fn_passed lsb fp f vs \<noteq> CAbort"
    using fn_args_no_abort [OF assms(1)] by (auto simp: fn_passed_def Let_def bind_c_abort)
  then show "cexpTVFnCall lsb fp uf df y f vs \<noteq> CAbort"
    by (auto simp: cexpTVFnCall_def Let_def bind_c_abort)
  assume c: "cexpTVFnCall lsb fp uf df y f vs = COk z"
  then have "FUNQ (cv_type f)"
    by (auto simp: cexpTVFnCall_def fn_passed_def Let_def bind_c_def split: if_splits cexp_res.splits)
  then have "PTRQ (cv_type f)" by (cases "cv_type f") auto
  moreover have "cv_type z = PTR2BASE (cv_type f)"
    using c by (auto simp: cexpTVFnCall_def Let_def bind_c_def split: if_splits cexp_res.splits prod.splits)
  ultimately show "proper (cv_type z)" using assms(2) proper_base by simp
qed

section \<open>The state\<close>

text \<open>The variables are registered properly, and the symbols of \<open>R\<close> and all variables have proper types.\<close>

definition types_ok :: "symref set \<Rightarrow> ev_state \<Rightarrow> bool" where
  "types_ok R st \<longleftrightarrow> (\<exists>m sm. represents (es_vars st) m sm \<and>
     (\<forall>r \<in> R \<union> UserVar ` ran m. proper (ca_type (sym_value st r))))"

text \<open>The allocator delivers null or cells that are free.\<close>

definition allocator_ok :: "ev_env \<Rightarrow> bool" where
  "allocator_ok en \<longleftrightarrow> (\<forall>vs. case ev_alloc en vs of (n, s) \<Rightarrow>
     (n = 0 \<or> fresh n vs) \<and> (s = 0 \<or> fresh s vs) \<and> (n = 0 \<or> n \<noteq> s))"

lemma represents_mem: "represents (vs\<lparr>vs_mem := mm\<rparr>) m sm \<longleftrightarrow> represents vs m sm"
  by (simp add: represents_def var_ok_def vname_def)

lemma represents_type:
  "represents vs m sm \<Longrightarrow> represents (vs\<lparr>vs_sym := (vs_sym vs)
     (v := (vs_sym vs v)\<lparr>sy_value := (sy_value (vs_sym vs v))\<lparr>ca_type := t\<rparr>\<rparr>)\<rparr>) m sm"
proof -
  let ?vs = "vs\<lparr>vs_sym := (vs_sym vs)(v := (vs_sym vs v)\<lparr>sy_value := (sy_value (vs_sym vs v))\<lparr>ca_type := t\<rparr>\<rparr>)\<rparr>"
  have n: "vname ?vs = vname vs" by (auto simp: vname_def name_of_def fun_eq_iff)
  moreover have "var_ok ?vs x = var_ok vs x" for x unfolding var_ok_def n by simp
  ultimately show "represents vs m sm \<Longrightarrow> represents ?vs m sm" unfolding represents_def by simp
qed

lemma sym_value_mem [simp]: "sym_value (set_mem m st) r = sym_value st r"
  by (simp add: sym_value_def set_mem_def split: symref.split)

lemma sym_value_set_type: "sym_value (set_type r t st) q = (if q = r then (sym_value st q)\<lparr>ca_type := t\<rparr> else sym_value st q)"
  by (cases q; cases r) (auto simp: sym_value_def set_type_def)

lemma types_ok_mem [simp]: "types_ok R (set_mem m st) \<longleftrightarrow> types_ok R st"
proof -
  have "es_vars (set_mem m st) = (es_vars st)\<lparr>vs_mem := m\<rparr>" by (simp add: set_mem_def)
  then show ?thesis by (simp add: types_ok_def represents_mem)
qed

lemma represents_set_type: "represents (es_vars st) m sm \<Longrightarrow> represents (es_vars (set_type r t st)) m sm"
  using represents_type by (cases r) (simp_all add: set_type_def)

lemma types_ok_set_type: "types_ok R st \<Longrightarrow> proper t \<Longrightarrow> types_ok R (set_type r t st)"
  unfolding types_ok_def sym_value_set_type using represents_set_type by fastforce

lemma types_ok_symbol: "types_ok R st \<Longrightarrow> r \<in> R \<Longrightarrow> proper (ca_type (sym_value st r))"
  by (auto simp: types_ok_def)

lemma lookup_syms:
  assumes "cexpVarLookup name True n s vs = Ok (vs', v)"
  shows "vs_sym vs' = vs_sym vs \<or> v = VarSym n \<and> (\<forall>x. x \<noteq> n \<longrightarrow> vs_sym vs' x = vs_sym vs x)"
proof -
  have add: "vs_sym a = vs_sym b" if "lhrAdd x w b = Ok a" for a b x w
    using that by (auto simp: lhrAdd_def split: option.splits if_splits)
  have cc: "vs_sym (calloc_cells i j vs) = vs_sym vs" for i j by (simp add: calloc_cells_def Let_def)
  show ?thesis
    using assms
    by (auto simp: cexpVarLookup_def Let_def bind_res_Ok_iff cc dest!: add split: if_splits)
qed

section \<open>Safe actions\<close>

text \<open>
  Actions that are safe with any inhibition, or (\<open>k\<close>) when nothing is inhibited, which they then leave so.
\<close>

definition inv :: "bool \<Rightarrow> symref set \<Rightarrow> ev_state \<Rightarrow> bool" where
  "inv k R st \<longleftrightarrow> types_ok R st \<and> (k \<longrightarrow> es_inh st = 0)"

definition safe :: "bool \<Rightarrow> symref set \<Rightarrow> ('a \<Rightarrow> bool) \<Rightarrow> 'a ev \<Rightarrow> bool" where
  "safe k R Q f \<longleftrightarrow> (\<forall>st. inv k R st \<longrightarrow>
     (case f st of Val v st' \<Rightarrow> Q v \<and> inv k R st' | YyError st' \<Rightarrow> types_ok R st' | Aborted \<Rightarrow> False | Undef \<Rightarrow> True))"

lemma inv_types: "inv k R st \<Longrightarrow> types_ok R st"
  by (simp add: inv_def)

lemma safeI:
  "(\<And>st. inv k R st \<Longrightarrow> case f st of Val v st' \<Rightarrow> Q v \<and> inv k R st' | YyError st' \<Rightarrow> types_ok R st'
     | Aborted \<Rightarrow> False | Undef \<Rightarrow> True) \<Longrightarrow> safe k R Q f"
  by (simp add: safe_def)

lemma safeD:
  "safe k R Q f \<Longrightarrow> inv k R st \<Longrightarrow> f st = Val v st' \<Longrightarrow> Q v \<and> inv k R st'"
  "safe k R Q f \<Longrightarrow> inv k R st \<Longrightarrow> f st = YyError st' \<Longrightarrow> types_ok R st'"
  "safe k R Q f \<Longrightarrow> inv k R st \<Longrightarrow> f st \<noteq> Aborted"
  by (force simp: safe_def)+

lemma safe_bind: "safe k R P f \<Longrightarrow> (\<And>v. P v \<Longrightarrow> safe k R Q (g v)) \<Longrightarrow> safe k R Q (bind f g)"
  by (rule safeI) (auto simp: bind_def dest: safeD split: ev_res.split)

lemma safe_CHECK: "r \<noteq> CAbort \<Longrightarrow> (\<And>v. r = COk v \<Longrightarrow> Q v) \<Longrightarrow> safe k R Q (CHECK r)"
  by (simp add: safe_def CHECK_def inv_types split: cexp_res.split)

lemma safe_EVAL: "Q v \<Longrightarrow> safe k R Q f \<Longrightarrow> safe k R Q (EVAL v f)"
  by (auto simp: safe_def EVAL_def)

lemma safe_ret: "Q v \<Longrightarrow> safe k R Q (ret v)"
  by (simp add: safe_def ret_def)

lemma safe_yyerror [simp]: "safe k R Q yyerror"
  by (simp add: safe_def yyerror_def inv_types)

text \<open>What is safe anyway, and does not inhibit more, is safe in both senses.\<close>

lemma safe_lift: "safe False R Q f \<Longrightarrow> shrinks f \<Longrightarrow> safe k R Q f"
proof (rule safeI)
  fix st assume f: "safe False R Q f" "shrinks f" and st: "inv k R st"
  have st': "inv False R st" using st by (simp add: inv_def)
  have z: "k \<longrightarrow> es_inh st' = 0" if "f st = Val v st'" for v st'
  proof
    assume k
    have "es_inh st' \<le> es_inh st" using f(2) that unfolding shrinks_def by blast
    then show "es_inh st' = 0" using st \<open>k\<close> by (simp add: inv_def)
  qed
  show "case f st of Val v st' \<Rightarrow> Q v \<and> inv k R st' | YyError st' \<Rightarrow> types_ok R st'
      | Aborted \<Rightarrow> False | Undef \<Rightarrow> True"
    using z safeD(1) [OF f(1) st'] safeD(2) [OF f(1) st'] safeD(3) [OF f(1) st']
    by (auto simp: inv_def split: ev_res.split)
qed

lemma safe_lift_keeps: "safe False R Q f \<Longrightarrow> keeps_inh f \<Longrightarrow> safe k R Q f"
  by (rule safe_lift [OF _ keeps_shrinks])

text \<open>Values, and addresses.\<close>

abbreviation pv :: "CexpTypedVal \<Rightarrow> bool" where "pv v \<equiv> proper (cv_type v)"
abbreviation pa :: "CexpTypedAddr \<Rightarrow> bool" where "pa a \<equiv> proper (ca_type a)"

lemma safe_true: "pv v \<Longrightarrow> safe k R (\<lambda>_. True) (true_q en v)"
  unfolding true_q_def by (intro safe_bind [where P = "\<lambda>_. True"] safe_CHECK safe_ret) (simp_all add: true_safe)

lemma safe_bin: "pv x \<Longrightarrow> pv y \<Longrightarrow> safe k R pv (bin_op en al z x y opr)"
  unfolding bin_op_def by (intro safe_CHECK binary_no_abort) (rule binary_type)

lemma safe_cast: "pv v \<Longrightarrow> proper t \<Longrightarrow> safe k R pv (CHECK (cexpTypeCast lsb fp v t force))"
  by (intro safe_CHECK cast_proper) (simp_all add: cast_type)

lemma safe_unary: "pv v \<Longrightarrow> safe k R pv (CHECK (cexpTVUnOp lsb fp z v uopr))"
  by (intro safe_CHECK unary_safe(1)) (simp_all add: unary_safe(2))

lemma safe_address: "pa a \<Longrightarrow> safe k R pv (CHECK (cexpTVPtr lsb z a))"
  by (intro safe_CHECK address_safe(1)) (simp add: address_safe(2) proper_ptr)

lemma safe_read: "pa a \<Longrightarrow> safe k R pv (ta2tv en v a)"
  by (rule safeI) (auto simp: ta2tv_def CHECK_def read_safe(1) inv_types dest: read_safe(2) split: cexp_res.split)

lemma safe_assign: "pv v \<Longrightarrow> safe k R (\<lambda>_. True) (assign en a v)"
  by (rule safe_lift_keeps)
    (auto simp: safe_def inv_def assign_def assign_safe split: cexp_res.split)

lemma types_ok_more [simp]:
  "types_ok R (st\<lparr>es_calls := c\<rparr>) \<longleftrightarrow> types_ok R st" "types_ok R (st\<lparr>es_inh := i\<rparr>) \<longleftrightarrow> types_ok R st"
  "types_ok R (st\<lparr>es_out := ou\<rparr>) \<longleftrightarrow> types_ok R st" "types_ok R (st\<lparr>es_status := s\<rparr>) \<longleftrightarrow> types_ok R st"
  "types_ok R (st\<lparr>es_help := h\<rparr>) \<longleftrightarrow> types_ok R st"
  by (simp_all add: types_ok_def sym_value_def cong: symref.case_cong)

lemma safe_levels:
  "safe False R (\<lambda>_. True) (PSHEVAL t)" "safe False R (\<lambda>_. True) POPEVAL"
  by (simp_all add: safe_def inv_def PSHEVAL_def POPEVAL_def)

lemma safe_step: "pa a \<Longrightarrow> safe k R pv (step_by en post a opr)"
  unfolding step_by_def Let_def
  by (intro safe_EVAL safe_bind [OF safe_read])
    (auto simp: as_val_def intro!: safe_bind [OF safe_bin] safe_bind [OF safe_assign] safe_ret)

lemma safe_call: "pv f \<Longrightarrow> \<forall>v \<in> set vs. pv v \<Longrightarrow> safe k R pv (fn_call en f vs)"
  unfolding fn_call_def
  by (intro safe_EVAL safeI)
    (auto simp: bind_def CHECK_def get_state_def inv_def dest: call_safe split: cexp_res.splits ev_res.splits)

text \<open>A member that is called, and not skipped, delivers a string.\<close>

lemma safe_member: "safe True R pv (sym_member en r mname vs)"
  by (rule safeI)
    (auto simp: sym_member_def EVAL_def inv_def Let_def inh_simps set_mem_def [symmetric]
      split: list.split CexpType.split)

lemma create_types:
  assumes "allocator_ok en" and rep: "represents (es_vars st) m sm" and a: "ev_alloc en (es_vars st) = (n, s)"
  shows "\<exists>vs v m' sm'. cexpVarLookup name True n s (es_vars st) = Ok (vs, v) \<and> represents vs m' sm' \<and>
    ran m' \<subseteq> ran m \<union> (case v of VarSym c \<Rightarrow> {c} | _ \<Rightarrow> {})"
proof (cases "name = CEXP_LAST_RESULT_VAR_NAME")
  case True
  then show ?thesis using rep by (auto simp: cexpVarLookup_def strcmp_def)
next
  case False
  have fr: "n = 0 \<or> fresh n (es_vars st)" "s = 0 \<or> fresh s (es_vars st)" "n = 0 \<or> n \<noteq> s"
    using assms(1) a unfolding allocator_ok_def by (metis (mono_tags, lifting) case_prod_conv)+
  let ?m = "if m name = None \<and> n \<noteq> 0 \<and> s \<noteq> 0 then m(name \<mapsto> n) else m"
  obtain vs v sm' where c: "cexpVarLookup name True n s (es_vars st) = Ok (vs, v)" "represents vs ?m sm'"
    "v = (case m name of Some v \<Rightarrow> VarSym v | None \<Rightarrow> if n \<noteq> 0 \<and> s \<noteq> 0 then VarSym n else NoSym)"
    using create_run [OF rep False fr] by blast
  have "ran ?m \<subseteq> ran m \<union> (case v of VarSym c \<Rightarrow> {c} | _ \<Rightarrow> {})"
    using c(3) by (auto simp: ran_map_upd)
  then show ?thesis using c(1,2) by blast
qed

lemma varCreate_safe:
  assumes "allocator_ok en" and "proper t"
  shows "safe k R (\<lambda>a. ca_type a = t) (varCreate en name t)"
proof (rule safe_lift_keeps [OF safeI])
  fix st assume "inv False R st"
  then obtain m sm where rep: "represents (es_vars st) m sm"
    and p: "\<And>r. r \<in> R \<union> UserVar ` ran m \<Longrightarrow> proper (ca_type (sym_value st r))"
    by (auto simp: inv_def types_ok_def)
  obtain n s where a: "ev_alloc en (es_vars st) = (n, s)" by fastforce
  obtain vs v m' sm' where l: "cexpVarLookup name True n s (es_vars st) = Ok (vs, v)" "represents vs m' sm'"
    "ran m' \<subseteq> ran m \<union> (case v of VarSym c \<Rightarrow> {c} | _ \<Rightarrow> {})"
    using create_types [OF assms(1) rep a] by blast
  let ?st = "st\<lparr>es_vars := vs\<rparr>"
  have other: "sym_value ?st r = sym_value st r" if "r \<noteq> (case v of VarSym c \<Rightarrow> UserVar c | _ \<Rightarrow> LastVar)" for r
    using lookup_syms [OF l(1)] that by (auto simp: sym_value_def split: symref.split)
  have ty: "types_ok R (set_type r t ?st)" if "r = (case v of VarSym c \<Rightarrow> UserVar c | _ \<Rightarrow> LastVar)" for r
  proof -
    have "represents (es_vars (set_type r t ?st)) m' sm'" using l(2) by (intro represents_set_type) simp
    moreover have "proper (ca_type (sym_value (set_type r t ?st) q))" if "q \<in> R \<union> UserVar ` ran m'" for q
    proof (cases "q = r")
      case True
      then show ?thesis using assms(2) by (simp add: sym_value_set_type)
    next
      case False
      then have "q \<in> R \<union> UserVar ` ran m"
        using that l(3) \<open>r = _\<close> by (auto split: var_sym.splits)
      then show ?thesis using False p [of q] other [of q] \<open>r = _\<close> by (simp add: sym_value_set_type)
    qed
    ultimately show ?thesis unfolding types_ok_def by blast
  qed
  have nosym: "types_ok R ?st" if "v = NoSym"
  proof -
    have "vs_sym vs = vs_sym (es_vars st)" using lookup_syms [OF l(1)] that by simp
    then have "sym_value ?st r = sym_value st r" for r by (simp add: sym_value_def split: symref.split)
    then show ?thesis using l(2,3) p that unfolding types_ok_def by fastforce
  qed
  have t: "ca_type (sym_value (set_type r t ?st) r) = t" for r by (simp add: sym_value_set_type)
  show "case varCreate en name t st of Val a st' \<Rightarrow> ca_type a = t \<and> inv False R st' | YyError st' \<Rightarrow> types_ok R st'
      | Aborted \<Rightarrow> False | Undef \<Rightarrow> True"
    using l(1) a ty nosym t assms(2)
    by (cases v; cases t) (auto simp: varCreate_def Let_def proper_def inv_def)
qed simp

section \<open>Expressions\<close>

text \<open>
  Trees over the symbols in \<open>R\<close>, with proper types. Members are called where the call cannot be skipped (\<open>k\<close>),
  that is not in the second operand of \<open>||\<close> and \<open>&&\<close>: a call that is skipped leaves the bytes of its token
  for a value.
\<close>

fun wt_exp :: "bool \<Rightarrow> symref set \<Rightarrow> exp \<Rightarrow> bool" and wt_binexp :: "bool \<Rightarrow> symref set \<Rightarrow> binexp \<Rightarrow> bool"
  and wt_castexp :: "bool \<Rightarrow> symref set \<Rightarrow> castexp \<Rightarrow> bool" and wt_unexp :: "bool \<Rightarrow> symref set \<Rightarrow> unexp \<Rightarrow> bool"
  and wt_lval :: "bool \<Rightarrow> symref set \<Rightarrow> lval \<Rightarrow> bool" and wt_call :: "bool \<Rightarrow> symref set \<Rightarrow> call \<Rightarrow> bool"
  and wt_funcp :: "bool \<Rightarrow> symref set \<Rightarrow> funcp \<Rightarrow> bool" and wt_exps :: "bool \<Rightarrow> symref set \<Rightarrow> exp list \<Rightarrow> bool" where
  "wt_exp k R (EBin b) = wt_binexp k R b"
| "wt_exp k R (EAssign l e) = (wt_lval k R l \<and> wt_exp k R e)"
| "wt_exp k R (EModify l opr e) = (wt_lval k R l \<and> wt_exp k R e)"
| "wt_exp k R (ECreate n e) = wt_exp k R e"
| "wt_binexp k R (BCast c) = wt_castexp k R c"
| "wt_binexp k R (BOr a b) = (wt_binexp k R a \<and> wt_binexp False R b)"
| "wt_binexp k R (BAnd a b) = (wt_binexp k R a \<and> wt_binexp False R b)"
| "wt_binexp k R (BOp opr a b) = (wt_binexp k R a \<and> wt_binexp k R b)"
| "wt_castexp k R (CUn u) = wt_unexp k R u"
| "wt_castexp k R (CCast t c) = (proper t \<and> wt_castexp k R c)"
| "wt_unexp k R (UNumber v) = proper (cv_type v)"
| "wt_unexp k R (UCall c) = wt_call k R c"
| "wt_unexp k R (UNot c) = wt_castexp k R c"
| "wt_unexp k R (UUnOp opr c) = wt_castexp k R c"
| "wt_unexp k R (UAddr r) = (r \<in> R)"
| "wt_lval k R (LVar r) = (r \<in> R)"
| "wt_lval k R (LDeref c) = wt_castexp k R c"
| "wt_call k R (KParen es) = (es \<noteq> [] \<and> wt_exps k R es)"
| "wt_call k R (KFun f) = wt_funcp k R f"
| "wt_call k R (KMethod r m es) = (k \<and> wt_exps k R es)"
| "wt_call k R (KCall c es) = (wt_call k R c \<and> wt_exps k R es)"
| "wt_funcp k R (FSym r) = (r \<in> R)"
| "wt_funcp k R (FPost l opr) = wt_lval k R l"
| "wt_funcp k R (FPre l opr) = wt_lval k R l"
| "wt_exps k R [] = True"
| "wt_exps k R (e # es) = (wt_exp k R e \<and> wt_exps k R es)"

definition wt_line :: "symref set \<Rightarrow> line \<Rightarrow> bool" where
  "wt_line R ln =
     (case ln of
        LDef (NewDef t n) \<Rightarrow> proper t | LDef (ReDef t r) \<Rightarrow> proper t \<and> r \<in> R
      | LReDef (NewDef t n) \<Rightarrow> proper t | LReDef (ReDef t r) \<Rightarrow> proper t \<and> r \<in> R
      | LExp es \<Rightarrow> es \<noteq> [] \<and> wt_exps True R es
      | _ \<Rightarrow> True)"

lemma safe_symbol: "r \<in> R \<Longrightarrow> safe k R pa (get_state (\<lambda>st. sym_value st r))"
  by (auto simp: safe_def get_state_def inv_def intro: types_ok_symbol)

lemma safe_weaken: "safe k R P f \<Longrightarrow> (\<And>v. P v \<Longrightarrow> Q v) \<Longrightarrow> safe k R Q f"
  by (rule safeI) (auto dest: safeD split: ev_res.split)

lemma safe_level:
  assumes "safe k R pv f" and "safe False R pv g" and "shrinks g"
  shows "safe k R pv (bind f (\<lambda>v1. bind (true_q en v1) (\<lambda>t1. bind (PSHEVAL (p t1)) (\<lambda>_.
      bind g (\<lambda>v2. bind (if p t1 then ret q else true_q en v2) (\<lambda>t. bind POPEVAL (\<lambda>_. ret (ulong lsb (h t)))))))))"
proof (intro safe_bind [OF assms(1)] safe_bind [OF safe_true])
  fix t1
  show "safe k R pv (bind (PSHEVAL (p t1)) (\<lambda>_.
      bind g (\<lambda>v2. bind (if p t1 then ret q else true_q en v2) (\<lambda>t. bind POPEVAL (\<lambda>_. ret (ulong lsb (h t)))))))"
  proof (rule safe_lift)
    show "safe False R pv (bind (PSHEVAL (p t1)) (\<lambda>_.
        bind g (\<lambda>v2. bind (if p t1 then ret q else true_q en v2) (\<lambda>t. bind POPEVAL (\<lambda>_. ret (ulong lsb (h t)))))))"
      by (intro safe_bind [OF safe_levels(1)] safe_bind [OF assms(2)])
        (auto intro!: safe_bind [where P = "\<lambda>_. True"] safe_ret safe_true safe_levels(2))
    show "shrinks (bind (PSHEVAL (p t1)) (\<lambda>_.
        bind g (\<lambda>v2. bind (if p t1 then ret q else true_q en v2) (\<lambda>t. bind POPEVAL (\<lambda>_. ret (ulong lsb (h t)))))))"
      by (intro shrinks_level assms(3)) auto
  qed
qed

lemma safe_create:
  "allocator_ok en \<Longrightarrow> pv v \<Longrightarrow>
    safe k R (\<lambda>_. True) (bind (varCreate en name (cv_type v)) (\<lambda>a. assign en a v))"
  by (intro safe_bind [OF varCreate_safe] safe_assign)

lemma eval_safe:
  assumes "allocator_ok en"
  shows "wt_exp k R e \<Longrightarrow> safe k R pv (eval_exp en e)"
    and "wt_binexp k R b \<Longrightarrow> safe k R pv (eval_binexp en b)"
    and "wt_castexp k R c \<Longrightarrow> safe k R pv (eval_castexp en c)"
    and "wt_unexp k R u \<Longrightarrow> safe k R pv (eval_unexp en u)"
    and "wt_lval k R l \<Longrightarrow> safe k R pa (eval_lval en l)"
    and "wt_call k R call \<Longrightarrow> safe k R pv (eval_call en call)"
    and "wt_funcp k R f \<Longrightarrow> safe k R pv (eval_funcp en f)"
    and "wt_exps k R es \<Longrightarrow> safe k R (\<lambda>vs. length vs = length es \<and> (\<forall>v \<in> set vs. pv v)) (eval_exps en es)"
proof (induction k R e and k R b and k R c and k R u and k R l and k R call and k R f and k R es
    rule: wt_exp_wt_binexp_wt_castexp_wt_unexp_wt_lval_wt_call_wt_funcp_wt_exps.induct)
  case (2 k R l e)
  show ?case
    by (simp, intro safe_bind [OF 2(1)] safe_bind [OF 2(2)] safe_bind [where P = "\<lambda>_. True"] safe_EVAL safe_assign)
      (use 2 in \<open>auto intro: safe_ret\<close>)
next
  case (3 k R l opr e)
  show ?case
    by (simp add: Let_def, intro safe_bind [OF 3(1)] safe_bind [OF 3(2)] safe_EVAL safe_bind [OF safe_read]
        safe_bind [OF safe_bin] safe_bind [OF safe_assign])
      (use 3 in \<open>auto simp: as_val_def intro: safe_ret\<close>)
next
  case (4 k R n e)
  show ?case
    by (simp, intro safe_bind [OF 4(1)] safe_bind [where P = "\<lambda>_. True"] safe_EVAL safe_create [OF assms])
      (use 4 in \<open>auto intro: safe_ret\<close>)
next
  case (6 k R a b)
  then show ?case
    using safe_level [of k R "eval_binexp en a" "eval_binexp en b" en "\<lambda>t. t" True "ev_lsb en" truth] shrinks_eval(2) by simp
next
  case (7 k R a b)
  then show ?case
    using safe_level [of k R "eval_binexp en a" "eval_binexp en b" en "\<lambda>t. \<not> t" False "ev_lsb en" truth] shrinks_eval(2) by simp
next
  case (8 k R opr a b)
  show ?case
    by (simp, intro safe_bind [OF 8(1)] safe_bind [OF 8(2)] safe_bin) (use 8 in auto)
next
  case (10 k R t c)
  then show ?case by (auto intro!: safe_bind [where P = pv] safe_cast)
next
  case (13 k R c)
  show ?case
    by (simp, intro safe_bind [OF 13(1)] safe_bind [OF safe_true] safe_ret) (use 13 in auto)
next
  case (14 k R opr c)
  then show ?case by (auto intro!: safe_bind [where P = pv] safe_unary)
next
  case (15 k R r)
  then show ?case by (auto intro!: safe_bind [where P = pa] safe_symbol safe_address)
next
  case (17 k R c)
  then show ?case
    by (auto intro!: safe_bind [where P = pv] safe_ret proper_base)
next
  case (18 k R es)
  have "pv (last vs)" if "length vs = length es" "\<forall>v \<in> set vs. pv v" for vs
    using that 18(2) by (cases vs) auto
  then show ?case by (simp, intro safe_bind [OF 18(1)] safe_ret) (use 18 in auto)
next
  case (20 k R r m es)
  then have k: "k = True" and es: "wt_exps True R es" by auto
  show ?case
    unfolding k eval_call.simps by (rule safe_bind [OF 20(1) [unfolded k, OF es] safe_member])
next
  case (21 k R c es)
  show ?case
    by (simp, intro safe_bind [OF 21(1)] safe_bind [OF 21(2)] safe_call) (use 21 in auto)
next
  case (22 k R r)
  then show ?case
    by (auto intro!: safe_weaken [where P = pv] simp: safe_def get_state_def types_ok_symbol inv_def as_val_def)
next
  case (23 k R l opr)
  then show ?case by (auto intro!: safe_bind [where P = pa] safe_step)
next
  case (24 k R l opr)
  then show ?case by (auto intro!: safe_bind [where P = pa] safe_step)
next
  case (26 k R e es)
  show ?case
    by (simp, intro safe_bind [OF 26(1)] safe_bind [OF 26(2)] safe_ret) (use 26 in auto)
qed (auto intro: safe_ret safe_symbol)

section \<open>Lines\<close>

lemma safe_define: "allocator_ok en \<Longrightarrow> proper t \<Longrightarrow> safe True R pv (bind (varCreate en name t) (\<lambda>a. ta2tv en v a))"
  by (intro safe_bind [OF varCreate_safe] safe_read) simp_all

lemma safe_redefine:
  "proper t \<Longrightarrow> r \<in> R \<Longrightarrow> safe True R pv (eval_def en (ReDef t r))"
  unfolding eval_def_def def.case
  by (intro safe_bind [where P = "\<lambda>_. True"] safe_EVAL safe_bind [OF safe_symbol] safe_read)
    (auto simp: safe_def inv_def intro: types_ok_set_type)

text \<open>A result after which the types are proper.\<close>

definition fine :: "symref set \<Rightarrow> ('a \<Rightarrow> bool) \<Rightarrow> 'a ev_res \<Rightarrow> bool" where
  "fine R Q r \<longleftrightarrow> (case r of Val v st' \<Rightarrow> Q v \<and> inv True R st' | YyError st' \<Rightarrow> types_ok R st' | Aborted \<Rightarrow> False | Undef \<Rightarrow> True)"

lemma safe_fine: "safe True R Q f \<Longrightarrow> inv True R st \<Longrightarrow> fine R Q (f st)"
  by (simp add: safe_def fine_def)

lemma fine_bind: "fine R P (f st) \<Longrightarrow> (\<And>v. P v \<Longrightarrow> safe True R Q (g v)) \<Longrightarrow> fine R Q (bind f g st)"
  by (auto simp: fine_def bind_def dest: safeD split: ev_res.splits)

lemma fine_new:
  "allocator_ok en \<Longrightarrow> proper t \<Longrightarrow> inv True R st \<Longrightarrow> fine R pv (eval_def en (NewDef t n) st)"
  using safe_fine [OF safe_define [of en t R n "ev_junk en"], of st] by (simp add: eval_def_def EVAL_def inv_def)

lemma fine_definition:
  assumes "allocator_ok en" and "inv True R st"
    and "case d of NewDef t n \<Rightarrow> proper t | ReDef t r \<Rightarrow> proper t \<and> r \<in> R"
  shows "fine R pv (eval_def en d st)"
  using assms fine_new safe_fine [OF safe_redefine] by (cases d) auto

lemma safe_put: "safe True R (\<lambda>_. True) (\<lambda>st. Val () (st\<lparr>es_out := es_out st @ [s]\<rparr>))"
  by (simp add: safe_def inv_def)

lemma safe_show: "pv v \<Longrightarrow> safe True R (\<lambda>_. True) (show_val en v)"
  using safe_bind [OF safe_cast [of v TDouble] safe_put] safe_bind [OF safe_cast [of v TULong] safe_put]
  by (simp add: show_val_def Let_def safe_put del: FPQ_iff)

lemma fine_line:
  assumes "allocator_ok en" and "wt_line R ln" and "inv True R st"
  shows "fine R (\<lambda>v. \<forall>x. v = Some x \<longrightarrow> pv x) (eval_line en ln st)"
proof (cases ln)
  case (LDef d)
  then have "fine R pv (eval_def en d st)"
    using assms by (intro fine_definition) (auto simp: wt_line_def split: def.splits)
  then show ?thesis using LDef by (auto simp: eval_line_def intro!: fine_bind safe_ret)
next
  case (LReDef d)
  then have "fine R pv (eval_def en d st)"
    using assms by (intro fine_definition) (auto simp: wt_line_def split: def.splits)
  then show ?thesis using LReDef by (auto simp: eval_line_def intro!: fine_bind)
next
  case (LExp es)
  then have w: "es \<noteq> []" "wt_exps True R es" using assms(2) by (simp_all add: wt_line_def)
  have "pv (last vs)" if "length vs = length es \<and> (\<forall>v \<in> set vs. pv v)" for vs
    using that w(1) by (cases vs) auto
  then have "safe True R (\<lambda>v. \<forall>x. v = Some x \<longrightarrow> pv x) (eval_line en ln)"
    unfolding eval_line_def LExp line.case
    by (intro safe_bind [OF eval_safe(8) [OF assms(1) w(2)]] safe_bind [OF safe_show] safe_ret) auto
  then show ?thesis by (rule safe_fine [OF _ assms(3)])
qed (use assms(3) in \<open>simp_all add: eval_line_def fine_def ret_def yyerror_def inv_types\<close>)

text \<open>
  Why calls of members that may be skipped are left out: the value of one that is skipped has the type that the
  bytes of its token happen to have, and when this is no type of a value, the assertion of the next test fails.
\<close>

lemma skipped_member_aborts:
  assumes "cv_type (ev_token en r ''help'') \<in> {TVoid, TVoidB}" and "es_inh st = 0"
  shows "eval_binexp en (BOr (lit en 1)
    (BCast (CUn (UNot (CUn (UCall (KMethod r ''help'' []))))))) st = Aborted"
  using assms
  by (auto simp: bind_def ret_def true_q_def CHECK_def PSHEVAL_def sym_member_def EVAL_def cexpTVTrueQ_def)

text \<open>C12: A line over symbols whose types are proper never ends in a failed assertion, whatever the values
  are and whatever allocations fail; after it, whether it was correct or not, all these symbols and all variables
  that are then registered, new ones included, have proper types. Proper are all types but
  void, the pointer to void, and the two codes that the pointer to void and the target of such a pointer get. In the line, members of symbols are
  called anywhere but in the second operand of \<open>||\<close> and \<open>&&\<close>: such a call, when it is skipped, leaves the
  bytes of its token as a value, whose type fails the assertion. What the source leaves undefined, such as a
  division by zero or an access through a bad pointer, is not excluded.\<close>

theorem interpreter_type_safety:
  assumes "allocator_ok en" and "wt_line R ln" and "types_ok R st"
  shows "case eval_text en ln st of
      Val _ st' \<Rightarrow> types_ok R st' | YyError st' \<Rightarrow> types_ok R st' | Aborted \<Rightarrow> False | Undef \<Rightarrow> True"
proof -
  have r: "inv True R (reset_ctx st)"
    using assms(3) by (simp add: reset_ctx_def inv_def)
  have ans: "types_ok R (st'\<lparr>es_ans := (es_ans st')\<lparr>ca_type := t\<rparr>\<rparr>)" if "types_ok R st'" "proper t" for st' t
    using types_ok_set_type [OF that, of LastVar] by (simp add: set_type_def)
  show ?thesis
    using fine_line [OF assms(1,2) r] ans
    by (auto simp: eval_text_def eval_input_def bind_def fine_def inv_def Let_def
        split: ev_res.splits option.splits)
qed

definition member_line :: line where
  "member_line = LExp
     [EAssign (LVar (ModSym 1 2)) (EBin (BOp ODiv (lit calc_env 5) (lit calc_env 0))),
      EBin (BCast (CUn (UCall (KMethod (ModSym 1 2) ''help'' []))))]"

lemma interpreter_type_safety_witness: "eval_text calc_env member_line calc_state \<noteq> Aborted"
proof -
  have "represents (vars_init 0x100 0x200) Map.empty Map.empty" by (rule vars_init_represents) simp_all
  then have "represents (es_vars calc_state) Map.empty Map.empty" by (simp add: calc_state_def)
  moreover have "proper (ca_type (sym_value calc_state (ModSym 1 2)))"
    by (simp add: calc_state_def sym_value_def proper_def)
  ultimately have "types_ok {ModSym 1 2} calc_state" unfolding types_ok_def by fastforce
  moreover have "allocator_ok calc_env" by (simp add: allocator_ok_def calc_env_def)
  moreover have "wt_line {ModSym 1 2} member_line" by (simp add: wt_line_def member_line_def)
  ultimately show ?thesis
    using interpreter_type_safety [of calc_env "{ModSym 1 2}" member_line calc_state] by auto
qed

end
