(* ===== verification/Lexer.thy ===== *)
theory Lexer imports Interp Modules begin

text \<open>
  The scanner (\<open>yylex\<close>, \<open>scanfrac\<close> and \<open>lstAddString\<close> of \<open>cexp.y\<close>): tokens of a line with their values, the
  table of strings of the line, the look-up of identifiers.
\<close>

section \<open>Characters\<close>

text \<open>
  The input is the text up to its end; \<open>ch\<close> is the character at the cursor, 0 at the end. Moving the cursor
  beyond the end and reading there is undefined. Letters and digits are those of the C locale.
\<close>

definition NUL :: char where "NUL = CHR 0x00"

fun ch :: "string \<Rightarrow> char" where
  "ch [] = NUL"
| "ch (c # cs) = c"

fun getch :: "string \<Rightarrow> string res" where
  "getch [] = UB"
| "getch (c # cs) = Ok cs"

definition code :: "char \<Rightarrow> nat" where "code c = of_char c"

definition isdigit :: "char \<Rightarrow> bool" where "isdigit c \<longleftrightarrow> code CHR ''0'' \<le> code c \<and> code c \<le> code CHR ''9''"

definition isupper :: "char \<Rightarrow> bool" where "isupper c \<longleftrightarrow> code CHR ''A'' \<le> code c \<and> code c \<le> code CHR ''Z''"

definition islower :: "char \<Rightarrow> bool" where "islower c \<longleftrightarrow> code CHR ''a'' \<le> code c \<and> code c \<le> code CHR ''z''"

definition isalpha :: "char \<Rightarrow> bool" where "isalpha c \<longleftrightarrow> isupper c \<or> islower c"

definition isalnum :: "char \<Rightarrow> bool" where "isalnum c \<longleftrightarrow> isalpha c \<or> isdigit c"

definition isxdigit :: "char \<Rightarrow> bool" where
  "isxdigit c \<longleftrightarrow> isdigit c \<or>
     code CHR ''a'' \<le> code c \<and> code c \<le> code CHR ''f'' \<or> code CHR ''A'' \<le> code c \<and> code c \<le> code CHR ''F''"

definition ISIDENTCHAR :: "char \<Rightarrow> bool" where "ISIDENTCHAR c \<longleftrightarrow> c = CHR ''_'' \<or> c = CHR ''@''"

definition isE :: "char \<Rightarrow> bool" where "isE c \<longleftrightarrow> c = CHR ''E'' \<or> c = CHR ''e''"

section \<open>Tokens\<close>

datatype token =
    NUMBER CexpTypedVal | STR_CONST CexpTypedVal | FUNC u64 nat | VAR u64 nat | UVAR var_sym | IDENT string
  | KW_CHAR | KW_SHORT | KW_INT | KW_LONG | KW_FLOAT | KW_DOUBLE | MODOP CexpBinOp
  | OR_OP | AND_OP | EQ_OP | NE_OP | LE_OP | GE_OP | SHL_OP | SHR_OP | MM | PP
  | Special char | Negative char | LEXERR | LEXERR_INCOMPLETE_STRING nat

text \<open>
  \<open>lx_chpt\<close> is what is left of the line, \<open>lx_strs\<close> the strings of the line by slot.
\<close>

record lex_state =
  lx_chpt :: string
  lx_strs :: "string option list"
  lx_vars :: vars_state

text \<open>
  The surroundings: byte order, signed characters, the modules, allocation (by slot of the table, and of a
  cell for a string constant), \<open>strtod\<close> with the number of characters it takes, and what a value holds before
  it is set.
\<close>

record lex_env =
  le_lsb :: bool
  le_sc :: bool
  le_mods :: "CexpModule list"
  le_mok :: "nat \<Rightarrow> bool"
  le_cell :: "vars_state \<Rightarrow> u64"
  le_strtod :: "string \<Rightarrow> u64 \<times> nat"
  le_junk :: bytes

definition SBUF_SIZE :: nat where "SBUF_SIZE = 1000"

section \<open>Strings of a line\<close>

text \<open>The slots from number \<open>i\<close> on.\<close>

fun lst_loop :: "(nat \<Rightarrow> bool) \<Rightarrow> string \<Rightarrow> nat \<Rightarrow> string option list \<Rightarrow> string option list \<times> bool" where
  "lst_loop mok s i [] = ([], False)"
| "lst_loop mok s i (Some t # ts) =
     (if t \<noteq> s then (case lst_loop mok s (i + 1) ts of (ts', ok) \<Rightarrow> (Some t # ts', ok)) else (Some t # ts, True))"
| "lst_loop mok s i (None # ts) =
     (if mok i then (Some s # ts, True) else (case lst_loop mok s (i + 1) ts of (ts', ok) \<Rightarrow> (None # ts', ok)))"

definition lstAddString :: "lex_env \<Rightarrow> string \<Rightarrow> lex_state \<Rightarrow> lex_state \<times> bool" where
  "lstAddString en s st =
     (case lst_loop (le_mok en) s 0 (lx_strs st) of (ts, ok) \<Rightarrow> (st\<lparr>lx_strs := ts\<rparr>, ok))"

section \<open>Numbers\<close>

text \<open>
  The buffer holds \<open>buf\<close>, and there is room for \<open>sz\<close> more characters; \<open>sz\<close> goes below zero when the first
  character has used the last place. A character written behind the buffer is undefined. Where the
  cursor is after an overflow does not matter, since the line is given up.
\<close>

definition put :: "string \<Rightarrow> char \<Rightarrow> string res" where
  "put buf c = (if length buf < SBUF_SIZE then Ok (buf @ [c]) else UB)"

text \<open>Digits; \<open>None\<close> when the buffer is full.\<close>

fun frac_digits :: "string \<Rightarrow> int \<Rightarrow> string \<Rightarrow> (string \<times> int \<times> string) option res" where
  "frac_digits buf sz [] = Ok (Some (buf, sz, []))"
| "frac_digits buf sz (c # cs) =
     (if isdigit c \<and> sz \<noteq> 0 then
        bind_res (put buf c) (\<lambda>buf. if sz - 1 = 0 then Ok None else frac_digits buf (sz - 1) cs)
      else Ok (Some (buf, sz, c # cs)))"

definition frac_loop :: "string \<Rightarrow> int \<Rightarrow> string \<Rightarrow> (string \<times> string) option res" where
  "frac_loop buf sz s =
     bind_res (frac_digits buf sz s) (\<lambda>r. case r of
       None \<Rightarrow> Ok None
     | Some (buf, sz, s) \<Rightarrow>
         if \<not> isE (ch s) then Ok (Some (buf, s))
         else
           bind_res (put buf CHR ''E'') (\<lambda>buf. if sz - 1 = 0 then Ok None else
           bind_res (getch s) (\<lambda>s.
           bind_res
             (if ch s = CHR ''-'' \<or> ch s = CHR ''+''
              then bind_res (put buf (ch s)) (\<lambda>buf. if sz - 2 = 0 then Ok None
                     else bind_res (getch s) (\<lambda>s. Ok (Some (buf, sz - 2, s))))
              else Ok (Some (buf, sz - 1, s))) (\<lambda>r. case r of
             None \<Rightarrow> Ok None
           | Some (buf, sz, s) \<Rightarrow>
               bind_res (frac_digits buf sz s) (\<lambda>r. case r of
                 None \<Rightarrow> Ok None
               | Some (buf, sz, s) \<Rightarrow> Ok (Some (buf, s)))))))"

definition scanfrac :: "lex_env \<Rightarrow> string \<Rightarrow> int \<Rightarrow> bool \<Rightarrow> string \<Rightarrow> (string \<times> token) res" where
  "scanfrac en buf sz rejectLonely s =
     bind_res (put buf (ch s)) (\<lambda>buf.
     bind_res (getch s) (\<lambda>s.
     bind_res
       (if isdigit (ch s) \<or> isE (ch s) then
          bind_res (frac_loop buf (sz - 1) s) (\<lambda>r. Ok (case r of None \<Rightarrow> Inl (s, LEXERR) | Some x \<Rightarrow> Inr x))
        else if rejectLonely then Ok (Inl (s, Special CHR ''.''))
        else Ok (Inr (buf, s))) (\<lambda>r. case r of
         Inl t \<Rightarrow> Ok t
       | Inr (buf, s) \<Rightarrow>
           bind_res (put buf NUL) (\<lambda>_.
             case le_strtod en buf of
               (d, n) \<Rightarrow>
                 Ok (s, if n = length buf
                        then NUMBER \<lparr>cv_tv = set_d (le_lsb en) d (le_junk en), cv_type = TDouble\<rparr>
                        else LEXERR)))))"

definition xval :: "char \<Rightarrow> nat" where
  "xval c = (if code c \<ge> code CHR ''a'' then code c - code CHR ''a'' + 10
     else if code c \<ge> code CHR ''A'' then code c - code CHR ''A'' + 10 else code c - code CHR ''0'')"

fun hex_loop :: "u64 \<Rightarrow> string \<Rightarrow> u64 \<times> string" where
  "hex_loop num [] = (num, [])"
| "hex_loop num (c # cs) =
     (if isxdigit c then hex_loop (push_bit 4 num + of_nat (xval c)) cs else (num, c # cs))"

definition isodigit :: "char \<Rightarrow> bool" where "isodigit c \<longleftrightarrow> code CHR ''0'' \<le> code c \<and> code c < code CHR ''8''"

fun oct_loop :: "u64 \<Rightarrow> string \<Rightarrow> u64 \<times> string" where
  "oct_loop num [] = (num, [])"
| "oct_loop num (c # cs) =
     (if isodigit c then oct_loop (push_bit 3 num + of_nat (code c - code CHR ''0'')) cs else (num, c # cs))"

text \<open>Decimal digits also go to the buffer, which may be the beginning of a fraction.\<close>

fun dec_loop :: "u64 \<Rightarrow> string \<Rightarrow> nat \<Rightarrow> string \<Rightarrow> u64 \<times> string \<times> nat \<times> string" where
  "dec_loop num buf limit [] = (num, buf, limit, [])"
| "dec_loop num buf limit (c # cs) =
     (if isdigit c \<and> limit \<noteq> 0
      then dec_loop (10 * num + of_nat (code c - code CHR ''0'')) (buf @ [c]) (limit - 1) cs
      else (num, buf, limit, c # cs))"

definition number :: "lex_env \<Rightarrow> u64 \<Rightarrow> token" where
  "number en num = NUMBER \<lparr>cv_tv = set_l (le_lsb en) num (le_junk en), cv_type = TULong\<rparr>"

definition char_token :: "lex_env \<Rightarrow> nat \<Rightarrow> token" where
  "char_token en num = NUMBER \<lparr>cv_tv = set_c (le_lsb en) (of_nat num) (le_junk en), cv_type = TUChar\<rparr>"

definition escaped :: "char \<Rightarrow> nat" where
  "escaped c =
     (if c = CHR ''t'' then 9 else if c = CHR ''n'' then 10 else if c = CHR ''r'' then 13
      else if c = CHR ''0'' then 0 else if c = CHR ''f'' then 12 else code c)"

text \<open>A character constant; the quote at its end may be missing.\<close>

definition lex_char :: "lex_env \<Rightarrow> string \<Rightarrow> (string \<times> token) res" where
  "lex_char en s =
     bind_res (getch s) (\<lambda>s.
     bind_res (if ch s = CHR 0x5C then bind_res (getch s) (\<lambda>s. Ok (s, escaped (ch s))) else Ok (s, code (ch s))) (\<lambda>(s, num).
     bind_res (getch s) (\<lambda>s.
       if ch s \<noteq> CHR 0x27 then Ok (s, char_token en num)
       else bind_res (getch s) (\<lambda>s. Ok (s, char_token en num)))))"

definition lex_number :: "lex_env \<Rightarrow> string \<Rightarrow> (string \<times> token) res" where
  "lex_number en s =
     (let limit = SBUF_SIZE - 1 in
      if ch s = CHR ''0'' then
        (case getch s of
           Ok s1 \<Rightarrow>
             if ch s1 = CHR ''x'' then
               bind_res (getch s1) (\<lambda>s2. case hex_loop 0 s2 of (num, s3) \<Rightarrow> Ok (s3, number en num))
             else if ch s1 = CHR ''.'' then scanfrac en ''0'' (int (limit - 1)) False s1
             else (case oct_loop 0 s1 of (num, s2) \<Rightarrow> Ok (s2, number en num))
         | Fail e \<Rightarrow> Fail e | UB \<Rightarrow> UB | Hang \<Rightarrow> Hang)
      else
        (case dec_loop 0 [] limit s of
           (num, buf, limit, s1) \<Rightarrow>
             if limit = 0 then Ok (s1, LEXERR)
             else if ch s1 = CHR ''.'' then scanfrac en buf (int limit) False s1
             else Ok (s1, number en num)))"

section \<open>Identifiers\<close>

definition isident :: "char \<Rightarrow> bool" where "isident c \<longleftrightarrow> isalnum c \<or> ISIDENTCHAR c"

text \<open>The characters after the first, what is left of the limit, and the rest of the line.\<close>

fun ident_loop :: "nat \<Rightarrow> string \<Rightarrow> string \<times> nat \<times> string" where
  "ident_loop limit [] = ([], limit, [])"
| "ident_loop limit (c # cs) =
     (if isident c then
        if limit - 1 > 0 then (case ident_loop (limit - 1) cs of (buf, l, r) \<Rightarrow> (c # buf, l, r))
        else ([], limit - 1, c # cs)
      else ([], limit, c # cs))"

definition keyword :: "string \<Rightarrow> token option" where
  "keyword s =
     (if s = ''char'' then Some KW_CHAR else if s = ''short'' then Some KW_SHORT
      else if s = ''int'' then Some KW_INT else if s = ''long'' then Some KW_LONG
      else if s = ''float'' then Some KW_FLOAT else if s = ''double'' then Some KW_DOUBLE else None)"

definition mod_sym :: "u64 \<Rightarrow> nat \<Rightarrow> CexpModule list \<Rightarrow> CexpSym" where
  "mod_sym h i ms = (case filter (\<lambda>m. m_addr m = h) ms of [] \<Rightarrow> zero_sym | m # _ \<Rightarrow> syms_of (m_symtbl m) ! i)"

text \<open>A keyword, a symbol of a module, a variable, or a name to be defined, in this order.\<close>

definition classify :: "lex_env \<Rightarrow> string \<Rightarrow> lex_state \<Rightarrow> (lex_state \<times> token) res" where
  "classify en name st =
     (case keyword name of
        Some k \<Rightarrow> Ok (st, k)
      | None \<Rightarrow>
          bind_res (cexpSymLookup (le_sc en) name (le_mods en)) (\<lambda>(sym, h). case sym of
            Some i \<Rightarrow>
              Ok (st, if FUNQ (ca_type (sy_value (mod_sym h i (le_mods en)))) then FUNC h i else VAR h i)
          | None \<Rightarrow>
              bind_res (cexpVarLookup name False 0 0 (lx_vars st)) (\<lambda>(vs, v).
                let st = st\<lparr>lx_vars := vs\<rparr> in
                if v \<noteq> NoSym then Ok (st, UVAR v)
                else case lstAddString en name st of (st, ok) \<Rightarrow> Ok (st, if ok then IDENT name else LEXERR))))"

definition lex_ident :: "lex_env \<Rightarrow> lex_state \<Rightarrow> char \<Rightarrow> string \<Rightarrow> (lex_state \<times> token) res" where
  "lex_ident en st c s =
     (case ident_loop (SBUF_SIZE - 1) s of
        (buf, limit, rest) \<Rightarrow>
          if limit = 0 then Ok (st\<lparr>lx_chpt := rest\<rparr>, LEXERR)
          else classify en (c # buf) (st\<lparr>lx_chpt := rest\<rparr>))"

section \<open>Strings\<close>

definition str_escape :: "char \<Rightarrow> char option" where
  "str_escape c =
     (if c = CHR ''n'' then Some (char_of (10 :: nat)) else if c = CHR ''r'' then Some (char_of (13 :: nat))
      else if c = CHR ''t'' then Some (char_of (9 :: nat)) else if c = CHR 0x22 then Some (CHR 0x22)
      else if c = CHR 0x5C then Some (CHR 0x5C) else if c = CHR ''0'' then Some NUL else None)"

text \<open>
  The text after the opening quote, with the buffer so far; the string and the rest, or no string. Only
  characters that are not escaped are counted against the limit before the next one is stored.
\<close>

fun str_loop :: "string \<Rightarrow> int \<Rightarrow> string \<Rightarrow> (string option \<times> string) res" where
  "str_loop buf limit [] = (if length buf < SBUF_SIZE then Ok (None, []) else UB)"
| "str_loop buf limit (c # cs) =
     (if \<not> length buf < SBUF_SIZE then UB
      else if c = CHR 0x5C then
        (case cs of
           [] \<Rightarrow> if length buf + 1 < SBUF_SIZE then Ok (None, []) else UB
         | e # es \<Rightarrow>
             (case str_escape e of
                Some x \<Rightarrow> str_loop (buf @ [x]) (limit - 1) es
              | None \<Rightarrow>
                  if \<not> length buf + 1 < SBUF_SIZE then UB
                  else if limit - 1 > 2 then str_loop (buf @ [c, e]) (limit - 2) es
                  else Ok (None, e # es)))
      else if c = CHR 0x22 then Ok (Some buf, cs)
      else if limit > 2 then str_loop (buf @ [c]) (limit - 1) cs
      else Ok (None, c # cs))"

definition lex_string :: "lex_env \<Rightarrow> lex_state \<Rightarrow> string \<Rightarrow> (lex_state \<times> token) res" where
  "lex_string en st s =
     bind_res (str_loop [] (int SBUF_SIZE - 2) s) (\<lambda>(r, rest).
       let st = st\<lparr>lx_chpt := rest\<rparr> in
       case r of
         None \<Rightarrow> Ok (st, LEXERR_INCOMPLETE_STRING (length s - length rest))
       | Some buf \<Rightarrow>
           bind_res (cexpStrLookup (takeWhile (\<lambda>c. c \<noteq> NUL) buf) True (le_cell en (lx_vars st)) (lx_vars st))
             (\<lambda>(vs, p).
                Ok (st\<lparr>lx_vars := vs\<rparr>,
                    if p \<noteq> 0 then STR_CONST \<lparr>cv_tv = set_p (le_lsb en) p (le_junk en), cv_type = TUCharP\<rparr>
                    else LEXERR)))"

section \<open>Operators\<close>

fun skip_comment :: "string \<Rightarrow> string" where
  "skip_comment [] = []"
| "skip_comment (c # cs) = (if c = CHR 0x0A then cs else skip_comment cs)"

definition op2 :: "char \<Rightarrow> char \<Rightarrow> token option" where
  "op2 a b =
     (if b = CHR ''+'' then if a = CHR ''+'' then Some PP else None
      else if b = CHR ''-'' then if a = CHR ''-'' then Some MM else None
      else if b = CHR ''&'' then if a = CHR ''&'' then Some AND_OP else None
      else if b = CHR ''|'' then if a = CHR ''|'' then Some OR_OP else None
      else if b = CHR ''<'' then if a = CHR ''<'' then Some SHL_OP else None
      else if b = CHR ''>'' then if a = CHR ''>'' then Some SHR_OP else None
      else if b = CHR ''='' then
        if a = CHR ''='' then Some EQ_OP else if a = CHR ''!'' then Some NE_OP
        else if a = CHR ''<'' then Some LE_OP else if a = CHR ''>'' then Some GE_OP
        else if a = CHR ''+'' then Some (MODOP OAdd) else if a = CHR ''-'' then Some (MODOP OSub)
        else if a = CHR ''*'' then Some (MODOP OMul) else if a = CHR ''/'' then Some (MODOP ODiv)
        else if a = CHR ''%'' then Some (MODOP OMod) else if a = CHR ''&'' then Some (MODOP OAnd)
        else if a = CHR ''^'' then Some (MODOP OXor) else if a = CHR ''|'' then Some (MODOP OOr) else None
      else None)"

text \<open>The character \<open>c\<close> and what follows it.\<close>

definition lex_op :: "char \<Rightarrow> string \<Rightarrow> string \<times> token" where
  "lex_op c s =
     (if c = CHR ''#'' \<or> ch s = CHR ''/'' \<and> c = CHR ''/'' then (skip_comment s, Special CHR 0x0A)
      else
        case op2 c (ch s) of
          None \<Rightarrow> (s, Special c)
        | Some t \<Rightarrow>
            let s = tl s in
            if t = SHL_OP \<and> ch s = CHR ''='' then (tl s, MODOP OShL)
            else if t = SHR_OP \<and> ch s = CHR ''='' then (tl s, MODOP OShR)
            else (s, t))"

text \<open>
  A character that stands for itself. Where characters are signed one of the upper half is returned as a
  negative number, which the parser takes for the end of the input.
\<close>

definition as_char :: "bool \<Rightarrow> token \<Rightarrow> token" where
  "as_char sc t = (case t of Special c \<Rightarrow> if sc \<and> 128 \<le> code c then Negative c else t | _ \<Rightarrow> t)"

section \<open>The scanner\<close>

definition blank :: "char \<Rightarrow> bool" where "blank c \<longleftrightarrow> c = CHR '' '' \<or> c = CHR 0x09"

definition yylex :: "lex_env \<Rightarrow> lex_state \<Rightarrow> (lex_state \<times> token) res" where
  "yylex en st =
     (let s = dropWhile blank (lx_chpt st);
          simple = (\<lambda>(s, t). Ok (st\<lparr>lx_chpt := s\<rparr>, t))
      in case s of
           [] \<Rightarrow> Ok (st\<lparr>lx_chpt := []\<rparr>, Special CHR 0x0A)
         | c # cs \<Rightarrow>
             if c = CHR 0x27 then bind_res (lex_char en s) simple
             else if isdigit c then bind_res (lex_number en s) simple
             else if c = CHR ''.'' then bind_res (scanfrac en [] (int (SBUF_SIZE - 1)) True s) simple
             else if isalpha c \<or> ISIDENTCHAR c then lex_ident en st c cs
             else if c = CHR 0x22 then lex_string en st cs
             else simple (case lex_op c cs of (s, t) \<Rightarrow> (s, as_char (le_sc en) t)))"

end
