(* ===== verification/Scanning.thy ===== *)
theory Scanning imports Lexer "HOL-Library.Sublist" begin

text \<open>
  What the scanner (theory \<open>Lexer\<close>, \<open>yylex\<close> of \<open>cexp.y\<close>) guarantees: numbers are read as they are printed,
  every token is found within the line and the buffer, and takes some of the line.
\<close>

section \<open>Numbers are read as they are written\<close>

definition hexchar :: "nat \<Rightarrow> char" where "hexchar d = ''0123456789abcdef'' ! d"

lemma hexchars: "d < 16 \<Longrightarrow> isxdigit (hexchar d) \<and> xval (hexchar d) = d"
proof -
  have "list_all (\<lambda>d. isxdigit (hexchar d) \<and> xval (hexchar d) = d) [0..<16]" by code_simp
  then show "d < 16 \<Longrightarrow> isxdigit (hexchar d) \<and> xval (hexchar d) = d" by (simp add: list_all_iff)
qed

lemma decchars: "d < 10 \<Longrightarrow> isdigit (hexchar d) \<and> code (hexchar d) - code CHR ''0'' = d \<and>
    (hexchar d = CHR ''0'' \<longrightarrow> d = 0)"
proof -
  have "list_all (\<lambda>d. isdigit (hexchar d) \<and> code (hexchar d) - code CHR ''0'' = d \<and>
    (hexchar d = CHR ''0'' \<longrightarrow> d = 0)) [0..<10]" by code_simp
  then show "d < 10 \<Longrightarrow> ?thesis" by (simp add: list_all_iff)
qed

text \<open>The last \<open>k\<close> digits to the base of 16, and the digits to the base of 10 without leading zeroes.\<close>

fun hex_digits :: "nat \<Rightarrow> nat \<Rightarrow> string" where
  "hex_digits 0 n = []"
| "hex_digits (Suc k) n = hex_digits k (n div 16) @ [hexchar (n mod 16)]"

fun dec_digits :: "nat \<Rightarrow> string" where
  "dec_digits n = (if n < 10 then [hexchar n] else dec_digits (n div 10) @ [hexchar (n mod 10)])"

declare dec_digits.simps [simp del]

lemma hex_loop_append:
  "\<forall>c \<in> set xs. isxdigit c \<Longrightarrow> \<not> isxdigit (ch ys) \<or> ys = [] \<Longrightarrow>
    hex_loop num (xs @ ys) = (foldl (\<lambda>a c. push_bit 4 a + of_nat (xval c)) num xs, ys)"
  by (induction xs arbitrary: num) (cases ys; simp)+

lemma hex_value: "foldl (\<lambda>a c. push_bit 4 a + of_nat (xval c)) 0 (hex_digits k n) = (of_nat (n mod 16 ^ k) :: u64)"
proof (induction k arbitrary: n)
  case (Suc k)
  have "n mod 16 ^ Suc k = 16 * (n div 16 mod 16 ^ k) + n mod 16" by (simp add: mod_mult2_eq)
  then show ?case using Suc hexchars [of "n mod 16"] by (simp add: push_bit_eq_mult mult.commute)
qed simp

lemma hex_xdigits: "\<forall>c \<in> set (hex_digits k n). isxdigit c"
  by (induction k arbitrary: n) (auto simp: hexchars)

lemma dec_loop_append:
  "\<forall>c \<in> set xs. isdigit c \<Longrightarrow> length xs \<le> limit \<Longrightarrow> \<not> isdigit (ch ys) \<or> ys = [] \<Longrightarrow>
    dec_loop num buf limit (xs @ ys) =
      (foldl (\<lambda>a c. 10 * a + of_nat (code c - code CHR ''0'')) num xs, buf @ xs, limit - length xs, ys)"
proof (induction xs arbitrary: num buf limit)
  case Nil
  then show ?case by (cases ys) auto
qed simp

lemma dec_value: "foldl (\<lambda>a c. 10 * a + of_nat (code c - code CHR ''0'')) 0 (dec_digits n) = (of_nat n :: u64)"
proof (induction n rule: dec_digits.induct)
  case (1 n)
  have "(of_nat n :: u64) = 10 * of_nat (n div 10) + of_nat (n mod 10)"
    by (metis div_mult_mod_eq mult.commute of_nat_add of_nat_mult of_nat_numeral)
  moreover have "dec_digits n = (if n < 10 then [hexchar n] else dec_digits (n div 10) @ [hexchar (n mod 10)])"
    by (rule dec_digits.simps)
  ultimately show ?case using 1 decchars [of n] decchars [of "n mod 10"] by (cases "n < 10") simp_all
qed

lemma dec_isdigits: "c \<in> set (dec_digits n) \<Longrightarrow> isdigit c"
proof (induction n rule: dec_digits.induct)
  case (1 n)
  then show ?case using decchars [of n] decchars [of "n mod 10"]
    by (subst (asm) (2) dec_digits.simps) (auto split: if_splits)
qed

lemma dec_first: "n \<noteq> 0 \<Longrightarrow> \<exists>c cs. dec_digits n = c # cs \<and> c \<noteq> CHR ''0''"
proof (induction n rule: dec_digits.induct)
  case (1 n)
  show ?case
  proof (cases "n < 10")
    case True
    then show ?thesis using decchars [of n] 1(2) by (simp add: dec_digits.simps)
  next
    case False
    then have "n div 10 \<noteq> 0" by (simp add: div_eq_0_iff)
    with 1(1) [OF False] obtain c cs where "dec_digits (n div 10) = c # cs" "c \<noteq> CHR ''0''" by blast
    then show ?thesis using False by (subst dec_digits.simps) simp
  qed
qed

lemma dec_length: "n < 10 ^ k \<Longrightarrow> 0 < k \<Longrightarrow> length (dec_digits n) \<le> k"
proof (induction k arbitrary: n)
  case (Suc k)
  show ?case
  proof (cases "n < 10")
    case False
    then have "n div 10 < 10 ^ k" "0 < k" using Suc.prems by (cases k; auto)+
    then show ?thesis using Suc.IH [of "n div 10"] False by (subst dec_digits.simps) simp
  qed (simp add: dec_digits.simps)
qed simp

text \<open>What is shown for a value of more than one byte begins with its 16 digits to the base of 16.\<close>

definition show_hex :: "u64 \<Rightarrow> string" where "show_hex w = ''0x'' @ hex_digits 16 (unat w)"

lemma scan_hex:
  assumes "lx_chpt st = show_hex w @ rest" and "\<not> isxdigit (ch rest)"
  shows "yylex en st = Ok (st\<lparr>lx_chpt := rest\<rparr>, number en w)"
proof -
  have "hex_loop 0 (hex_digits 16 (unat w) @ rest) = (w, rest)"
    using hex_loop_append [OF hex_xdigits, of rest 0 16 "unat w"] assms(2) hex_value [of 16 "unat w"]
      unsigned_less [of w, where 'a = nat] by simp
  then show ?thesis
    using assms(1) by (simp add: yylex_def Let_def show_hex_def blank_def lex_number_def isdigit_def code_def)
qed

lemma scan_decimal:
  assumes "lx_chpt st = dec_digits (unat w) @ rest" and "\<not> isdigit (ch rest)" and "ch rest \<noteq> CHR ''.''" and "w \<noteq> 0"
  shows "yylex en st = Ok (st\<lparr>lx_chpt := rest\<rparr>, number en w)"
proof -
  let ?ds = "dec_digits (unat w)"
  obtain c cs where c: "?ds = c # cs" "c \<noteq> CHR ''0''" using dec_first [of "unat w"] assms(4) by (auto simp: unat_gt_0)
  have "unat w < 10 ^ 20" using unsigned_less [of w, where 'a = nat] by simp
  then have l: "length ?ds \<le> 20" by (rule dec_length) simp
  have d: "dec_loop 0 [] 999 (?ds @ rest) = (w, ?ds, 999 - length ?ds, rest)"
    using dec_loop_append [of ?ds 999 rest 0 "[]"] dec_isdigits assms(2) l dec_value [of "unat w"] by simp
  have cd: "isdigit c" using dec_isdigits [of c "unat w"] c(1) by simp
  then have nb: "\<not> blank c" "c \<noteq> CHR 0x27" by (auto simp: isdigit_def blank_def code_def)
  have "lex_number en (?ds @ rest) = Ok (rest, number en w)"
    using d c l assms(3) by (simp add: lex_number_def SBUF_SIZE_def Let_def)
  then show ?thesis using assms(1) c nb cd by (simp add: yylex_def Let_def)
qed

lemma scan_zero:
  assumes "lx_chpt st = ''0'' @ rest" and "\<not> isdigit (ch rest)" and "ch rest \<noteq> CHR ''.''" and "ch rest \<noteq> CHR ''x''"
  shows "yylex en st = Ok (st\<lparr>lx_chpt := rest\<rparr>, number en 0)"
proof -
  have "oct_loop 0 rest = (0, rest)"
    using assms(2) by (cases rest) (auto simp: isodigit_def isdigit_def code_def)
  then show ?thesis
    using assms by (simp add: yylex_def Let_def blank_def lex_number_def isdigit_def code_def)
qed

text \<open>C14: The number that the interpreter prints for a value, and its decimal number without leading zeroes,
  are scanned as exactly this value: 16 hexadecimal digits as they are printed, when no further hexadecimal
  digit follows; and a decimal number below 2^64, when neither a digit nor a point follows and, for the
  number 0, no \<open>x\<close> follows either, which would make it the beginning of a hexadecimal one.\<close>

theorem printed_number_reads_back:
  assumes "lx_chpt st = (if hex then show_hex w else dec_digits (unat w)) @ rest"
    and "if hex then \<not> isxdigit (ch rest)
      else \<not> isdigit (ch rest) \<and> ch rest \<noteq> CHR ''.'' \<and> (w = 0 \<longrightarrow> ch rest \<noteq> CHR ''x'')"
  shows "\<exists>v. yylex en st = Ok (st\<lparr>lx_chpt := rest\<rparr>, NUMBER v) \<and> cv_type v = TULong \<and>
    get_l (le_lsb en) (cv_tv v) = w"
proof -
  have "yylex en st = Ok (st\<lparr>lx_chpt := rest\<rparr>, number en w)"
  proof (cases hex)
    case True
    then show ?thesis using scan_hex assms by simp
  next
    case False
    have "dec_digits 0 = ''0''" by (subst dec_digits.simps) (simp add: hexchar_def)
    then show ?thesis using scan_decimal scan_zero assms False by (cases "w = 0") simp_all
  qed
  then show ?thesis by (simp add: number_def)
qed

definition ex_lex :: lex_env where
  "ex_lex = \<lparr>le_lsb = True, le_sc = True, le_mods = [], le_mok = (\<lambda>_. True), le_cell = (\<lambda>_. 64),
     le_strtod = (\<lambda>s. (0, length s)), le_junk = replicate 8 0\<rparr>"

definition ex_text :: "string \<Rightarrow> lex_state" where
  "ex_text s = \<lparr>lx_chpt = s, lx_strs = replicate 10 None, lx_vars = vars_init 8 9\<rparr>"

lemma printed_number_reads_back_witness:
  "\<exists>v. yylex ex_lex (ex_text (show_hex 255 @ '' (255)'')) = Ok (ex_text '' (255)'', NUMBER v) \<and> cv_type v = TULong"
proof -
  have "\<not> isxdigit (CHR '' '')" by code_simp
  then show ?thesis
    using printed_number_reads_back [of "ex_text (show_hex 255 @ '' (255)'')" True 255 "'' (255)''" ex_lex]
    by (auto simp: ex_text_def)
qed

section \<open>Every token is found within the buffer\<close>

lemma frac_digits_total:
  "length buf + length s < SBUF_SIZE \<Longrightarrow>
    \<exists>r. frac_digits buf sz s = Ok r \<and>
      (\<forall>b z s'. r = Some (b, z, s') \<longrightarrow> suffix s' s \<and> length b + length s' = length buf + length s)"
proof (induction buf sz s rule: frac_digits.induct)
  case (2 buf sz c cs)
  show ?case
  proof (cases "isdigit c \<and> sz \<noteq> 0")
    case True
    have p: "put buf c = Ok (buf @ [c])" using 2(2) by (simp add: put_def)
    show ?thesis
    proof (cases "sz - 1 = 0")
      case False
      with 2(1) [OF True False, of "buf @ [c]"] 2(2) obtain r where r: "frac_digits (buf @ [c]) (sz - 1) cs = Ok r"
        "\<forall>b z s'. r = Some (b, z, s') \<longrightarrow> suffix s' cs \<and> length b + length s' = length (buf @ [c]) + length cs"
        by auto
      then show ?thesis using True p False by (auto intro: suffix_ConsI)
    qed (use True p in auto)
  qed auto
qed auto

lemma ch_cases: "ch s \<noteq> NUL \<Longrightarrow> \<exists>cs. s = ch s # cs"
  by (cases s) auto

lemma frac_loop_total:
  assumes "length buf + length s < SBUF_SIZE"
  shows "\<exists>r. frac_loop buf sz s = Ok r \<and>
    (\<forall>b s'. r = Some (b, s') \<longrightarrow> suffix s' s \<and> length b + length s' = length buf + length s)"
proof -
  obtain r where r: "frac_digits buf sz s = Ok r"
    "\<And>b z s'. r = Some (b, z, s') \<Longrightarrow> suffix s' s \<and> length b + length s' = length buf + length s"
    using frac_digits_total [OF assms] by blast
  show ?thesis
  proof (cases "\<exists>b z s1. r = Some (b, z, s1) \<and> isE (ch s1)")
    case False
    then show ?thesis using r by (cases r) (auto simp: frac_loop_def)
  next
    case True
    then obtain b z s1 where e: "r = Some (b, z, s1)" "isE (ch s1)" by blast
    then obtain s2 where s2: "s1 = ch s1 # s2" using ch_cases [of s1] by (auto simp: isE_def NUL_def)
    have l1: "suffix s1 s" "length b + length s1 = length buf + length s" using r(2) [OF e(1)] by blast+
    have len: "length s1 = Suc (length s2)" by (subst s2) simp
    let ?b = "b @ [CHR ''E'']"
    have p1: "put b CHR ''E'' = Ok ?b" using l1 assms len by (simp add: put_def)
    have sf2: "suffix s2 s" using l1(1) s2 by (metis suffix_ConsD)
    have gs: "getch s1 = Ok s2" by (subst s2) simp
    let ?rest = "\<lambda>b z s. frac_digits b z s"
    have fin: "\<exists>r. bind_res (frac_digits b' z' s') (\<lambda>r. case r of None \<Rightarrow> Ok None | Some (b, z, s) \<Rightarrow> Ok (Some (b, s))) = Ok r \<and>
        (\<forall>b s''. r = Some (b, s'') \<longrightarrow> suffix s'' s \<and> length b + length s'' = length buf + length s)"
      if "length b' + length s' = length buf + length s" "suffix s' s" for b' z' s'
    proof -
      have "length b' + length s' < SBUF_SIZE" using that(1) assms by simp
      then obtain q where q: "frac_digits b' z' s' = Ok q"
        "\<And>b z s''. q = Some (b, z, s'') \<Longrightarrow> suffix s'' s' \<and> length b + length s'' = length b' + length s'"
        using frac_digits_total by blast
      show ?thesis
      proof (cases q)
        case (Some x)
        obtain b z s'' where x: "x = (b, z, s'')" by (cases x)
        then show ?thesis
          using q(1) q(2) [OF Some [unfolded x]] Some that suffix_order.trans [of s'' s' s] by simp
      qed (use q in simp)
    qed
    show ?thesis
    proof (cases "z - 1 = 0")
      case True
      then show ?thesis using r(1) e p1 by (simp add: frac_loop_def)
    next
      case z: False
      show ?thesis
      proof (cases "ch s2 = CHR ''-'' \<or> ch s2 = CHR ''+''")
        case True
        then obtain s3 where s3: "s2 = ch s2 # s3" using ch_cases [of s2] by (auto simp: NUL_def)
        have len3: "length s2 = Suc (length s3)" by (subst s3) simp
        have p2: "put ?b (ch s2) = Ok (?b @ [ch s2])" using l1 assms len len3 by (simp add: put_def)
        have gs3: "getch s2 = Ok s3" by (subst s3) simp
        have sf3: "suffix s3 s" using sf2 s3 by (metis suffix_ConsD)
        show ?thesis
        proof (cases "z - 2 = 0")
          case True
          then show ?thesis using r(1) e p1 z gs \<open>ch s2 = _ \<or> _\<close> p2 by (simp add: frac_loop_def)
        next
          case False
          then show ?thesis
            using r(1) e p1 z gs \<open>ch s2 = _ \<or> _\<close> p2 gs3 fin [of "?b @ [ch s2]" s3 "z - 2"] sf3 l1 len len3
            by (simp add: frac_loop_def)
        qed
      next
        case False
        then show ?thesis
          using r(1) e p1 z gs fin [of ?b s2 "z - 1"] sf2 l1 len by (simp add: frac_loop_def)
      qed
    qed
  qed
qed

lemma scanfrac_total:
  assumes "s \<noteq> []" and "length buf + length s < SBUF_SIZE"
  shows "\<exists>s' t. scanfrac en buf sz lonely s = Ok (s', t) \<and> suffix s' (tl s)"
proof -
  obtain c s1 where s: "s = c # s1" using assms(1) by (cases s) auto
  have p: "put buf c = Ok (buf @ [c])" using assms(2) s by (simp add: put_def)
  have fin: "\<exists>s' t. bind_res (put b NUL) (\<lambda>_. case le_strtod en b of (d, n) \<Rightarrow>
      Ok (s2, if n = length b then NUMBER \<lparr>cv_tv = set_d (le_lsb en) d (le_junk en), cv_type = TDouble\<rparr> else LEXERR)) =
        Ok (s', t) \<and> s' = s2" if "length b < SBUF_SIZE" for b s2
    using that by (simp add: put_def split: prod.split)
  show ?thesis
  proof (cases "isdigit (ch s1) \<or> isE (ch s1)")
    case True
    have "length (buf @ [c]) + length s1 < SBUF_SIZE" using assms(2) s by simp
    then obtain r where r: "frac_loop (buf @ [c]) (sz - 1) s1 = Ok r"
      "\<And>b s'. r = Some (b, s') \<Longrightarrow> suffix s' s1 \<and> length b + length s' = length (buf @ [c]) + length s1"
      using frac_loop_total by blast
    show ?thesis
    proof (cases r)
      case None
      then show ?thesis using s p True r(1) by (simp add: scanfrac_def)
    next
      case (Some x)
      obtain b s' where x: "x = (b, s')" by (cases x)
      then have b: "suffix s' s1" "length b < SBUF_SIZE" using r(2) [of b s'] Some assms(2) s by auto
      then show ?thesis using s p True r(1) Some x fin [of b s'] by (auto simp: scanfrac_def)
    qed
  next
    case False
    have "length (buf @ [c]) < SBUF_SIZE" using assms(2) s by simp
    then show ?thesis using s p False fin [of "buf @ [c]" s1] by (auto simp: scanfrac_def)
  qed
qed

lemma hex_suffix: "suffix (snd (hex_loop num s)) s"
  by (induction num s rule: hex_loop.induct) (auto intro: suffix_ConsI)

lemma oct_suffix: "suffix (snd (oct_loop num s)) s"
  by (induction num s rule: oct_loop.induct) (auto intro: suffix_ConsI)

lemma dec_suffix:
  "dec_loop num buf limit s = (n, b, l, s') \<Longrightarrow> suffix s' s \<and> length b + length s' = length buf + length s"
proof (induction num buf limit s rule: dec_loop.induct)
  case (2 num buf limit c cs)
  then show ?case by (auto split: if_splits intro: suffix_ConsI)
qed simp

lemma lex_number_total:
  assumes "isdigit (ch s)" and "length s < SBUF_SIZE - 1"
  shows "\<exists>s' t. lex_number en s = Ok (s', t) \<and> suffix s' (tl s)"
proof -
  have "ch s \<noteq> NUL" using assms(1) by (auto simp: isdigit_def NUL_def code_def)
  then obtain s1 where s: "s = ch s # s1" using ch_cases by blast
  have g: "getch s = Ok s1" "tl s = s1" "length s = Suc (length s1)" by (subst s, simp)+
  show ?thesis
  proof (cases "ch s = CHR ''0''")
    case True
    consider "ch s1 = CHR ''x''" | "ch s1 = CHR ''.''" | "ch s1 \<noteq> CHR ''x''" "ch s1 \<noteq> CHR ''.''" by blast
    then show ?thesis
    proof cases
      case 1
      then obtain s2 where s2: "s1 = ch s1 # s2" using ch_cases [of s1] by (auto simp: NUL_def)
      have "getch s1 = Ok s2" by (subst s2) simp
      moreover have "suffix (snd (hex_loop 0 s2)) s1" using hex_suffix s2 by (metis suffix_ConsI)
      ultimately show ?thesis using True 1 g
        by (auto simp: lex_number_def Let_def split: prod.split)
    next
      case 2
      then have "s1 \<noteq> []" by (auto simp: NUL_def)
      moreover have "length ''0'' + length s1 < SBUF_SIZE" using assms(2) g by simp
      ultimately obtain s' t where "scanfrac en ''0'' (int (SBUF_SIZE - 1 - 1)) False s1 = Ok (s', t)" "suffix s' (tl s1)"
        using scanfrac_total by blast
      moreover from this(2) have "suffix s' s1" by (rule suffix_order.trans) (rule suffix_tl)
      ultimately show ?thesis using True 2 g
        by (auto simp: lex_number_def Let_def SBUF_SIZE_def)
    next
      case 3
      then show ?thesis using True g oct_suffix [of 0 s1]
        by (auto simp: lex_number_def Let_def split: prod.split)
    qed
  next
    case False
    obtain n b l s2 where d: "dec_loop 0 [] (SBUF_SIZE - 1) s = (n, b, l, s2)" by (metis prod_cases4)
    have ds: "suffix s2 s" "length b + length s2 = length s" using dec_suffix [OF d] by simp_all
    have "dec_loop 0 [] (SBUF_SIZE - 1) s = dec_loop (of_nat (code (ch s) - code CHR ''0'')) [ch s] (SBUF_SIZE - 1 - 1) s1"
      using assms(1) by (subst s) (simp add: SBUF_SIZE_def)
    then have s2: "suffix s2 s1" using d dec_suffix by metis
    show ?thesis
    proof (cases "ch s2 = CHR ''.'' \<and> l \<noteq> 0")
      case True
      then have "s2 \<noteq> []" by (auto simp: NUL_def)
      moreover have "length b + length s2 < SBUF_SIZE" using assms(2) ds by simp
      ultimately obtain s' t where "scanfrac en b (int l) False s2 = Ok (s', t)" "suffix s' (tl s2)"
        using scanfrac_total by blast
      moreover from this(2) have "suffix s' s1"
        using suffix_order.trans [OF suffix_order.trans [OF _ suffix_tl] s2] by blast
      ultimately show ?thesis using False True d g s2
        by (auto simp: lex_number_def Let_def)
    next
      case no: False
      then show ?thesis using False d g s2 by (auto simp: lex_number_def Let_def)
    qed
  qed
qed

lemma ident_suffix: "ident_loop limit s = (b, l, r) \<Longrightarrow> suffix r s"
proof (induction limit s arbitrary: b l r rule: ident_loop.induct)
  case (2 limit c cs)
  then show ?case by (auto split: if_splits prod.splits intro: suffix_ConsI)
qed simp

lemma str_loop_total:
  "length buf + length s < SBUF_SIZE \<Longrightarrow> \<exists>r s'. str_loop buf limit s = Ok (r, s') \<and> suffix s' s"
proof (induction buf limit s rule: str_loop.induct)
  case (2 buf limit c cs)
  show ?case
  proof (cases "c = CHR 0x5C")
    case True
    show ?thesis
    proof (cases cs)
      case (Cons e es)
      show ?thesis
      proof (cases "str_escape e")
        case None
        show ?thesis
        proof (cases "limit - 1 > 2")
          case l: True
          have "\<exists>r s'. str_loop (buf @ [c, e]) (limit - 2) es = Ok (r, s') \<and> suffix s' es"
            by (rule 2(1) [OF _ True Cons None]) (use 2(4) True Cons None l in auto)
          then show ?thesis using 2(4) True Cons None l by (auto intro: suffix_ConsI)
        qed (use 2(4) True Cons None in \<open>auto intro: suffix_ConsI\<close>)
      next
        case (Some x)
        have "\<exists>r s'. str_loop (buf @ [x]) (limit - 1) es = Ok (r, s') \<and> suffix s' es"
          by (rule 2(2) [OF _ True Cons Some]) (use 2(4) True Cons Some in auto)
        then show ?thesis using 2(4) True Cons Some by (auto intro: suffix_ConsI)
      qed
    qed (use 2(4) True in auto)
  next
    case False
    show ?thesis
    proof (cases "c \<noteq> CHR 0x22 \<and> limit > 2")
      case l: True
      have "\<exists>r s'. str_loop (buf @ [c]) (limit - 1) cs = Ok (r, s') \<and> suffix s' cs"
        by (rule 2(3)) (use 2(4) False l in auto)
      then show ?thesis using 2(4) False l by (auto intro: suffix_ConsI)
    qed (use 2(4) False in \<open>auto intro: suffix_ConsI\<close>)
  qed
qed simp

lemma skip_suffix: "suffix (skip_comment s) s"
  by (induction s) (auto intro: suffix_ConsI)

lemma op_suffix: "suffix (fst (lex_op c s)) s"
proof -
  have t: "suffix (tl (tl s)) s" by (meson suffix_order.trans suffix_tl)
  show ?thesis using skip_suffix [of s] t suffix_tl [of s]
    by (auto simp: lex_op_def Let_def split: option.split)
qed

text \<open>
  What the scanner relies on: the tables of the modules have as many named symbols as they say, the variables
  are well formed, there is memory for a string constant, in a cell that is free.
\<close>

definition vars_ok :: "vars_state \<Rightarrow> bool" where
  "vars_ok vs \<longleftrightarrow> (\<exists>m sm. represents vs m sm)"

definition searchable :: "CexpSymTbl \<Rightarrow> bool" where
  "searchable t \<longleftrightarrow> st_nentries t \<le> length (syms_of t) \<and> list_all (\<lambda>s. sy_name s \<noteq> None) (take (st_nentries t) (syms_of t))"

definition lex_ok :: "lex_env \<Rightarrow> lex_state \<Rightarrow> bool" where
  "lex_ok en st \<longleftrightarrow> (\<forall>m \<in> set (le_mods en). searchable (m_symtbl m)) \<and>
     vars_ok (lx_vars st) \<and> fresh (le_cell en (lx_vars st)) (lx_vars st)"

text \<open>The binary search ends whatever the order of the symbols is.\<close>

lemma bsearch_total:
  "\<forall>i < u. cmp i \<noteq> None \<Longrightarrow> (\<exists>i. bsearch cmp l u = Ok i) \<or> bsearch cmp l u = Fail 0"
proof (induction cmp l u rule: bsearch.induct)
  case (1 cmp l u)
  show ?case
  proof (cases "l < u")
    case True
    define m where "m = (l + u) div 2"
    have m: "m < u" using True by (simp add: m_def)
    then obtain c where c: "cmp m = Some c" using 1(3) by blast
    show ?thesis
      using 1(1) [OF True m_def c] 1(2) [OF True m_def c] 1(3) m True c
      by (subst (1 2) bsearch.simps) (auto simp: Let_def simp flip: m_def)
  qed (simp add: bsearch.simps)
qed

lemma lookup_total: "\<forall>m \<in> set ms. searchable (m_symtbl m) \<Longrightarrow> \<exists>r. cexpSymLookup sc name ms = Ok r"
proof (induction ms)
  case (Cons m ms)
  have "(\<exists>i. cexpSymTblLookup sc name (m_symtbl m) = Ok i) \<or> cexpSymTblLookup sc name (m_symtbl m) = Fail 0"
    unfolding cexpSymTblLookup_def
    by (rule bsearch_total) (use Cons.prems in \<open>auto simp: searchable_def list_all_length\<close>)
  then show ?case using Cons by auto
qed simp

lemma lst_add_simps [simp]:
  "lx_chpt (fst (lstAddString en s st)) = lx_chpt st" "lx_vars (fst (lstAddString en s st)) = lx_vars st"
  by (simp_all add: lstAddString_def split: prod.split)

lemma classify_total:
  assumes "lex_ok en st"
  shows "\<exists>st' t. classify en name st = Ok (st', t) \<and> lx_chpt st' = lx_chpt st \<and> lx_vars st' = lx_vars st"
proof (cases "keyword name")
  case None
  obtain r h where r: "cexpSymLookup (le_sc en) name (le_mods en) = Ok (r, h)"
    using lookup_total [of "le_mods en"] assms unfolding lex_ok_def by (metis surj_pair)
  obtain m sm where rep: "represents (lx_vars st) m sm" using assms by (auto simp: lex_ok_def vars_ok_def)
  have "\<exists>v. cexpVarLookup name False 0 0 (lx_vars st) = Ok (lx_vars st, v)"
    using lookup_run [OF rep, of name] by (cases "name = CEXP_LAST_RESULT_VAR_NAME") (auto simp: cexpVarLookup_def strcmp_def)
  then obtain v where v: "cexpVarLookup name False 0 0 (lx_vars st) = Ok (lx_vars st, v)" by blast
  show ?thesis
  proof (cases r)
    case no: None
    show ?thesis
    proof (cases "v = NoSym")
      case True
      obtain st2 ok where l: "lstAddString en name st = (st2, ok)" by (cases "lstAddString en name st")
      then have "lx_chpt st2 = lx_chpt st" "lx_vars st2 = lx_vars st"
        using lst_add_simps [of en name st] by simp_all
      then show ?thesis using None r v no True l assms by (auto simp: classify_def)
    qed (use None r v no in \<open>auto simp: classify_def\<close>)
  qed (use None r in \<open>auto simp: classify_def\<close>)
qed (auto simp: classify_def)

lemma lex_ok_chpt [simp]: "lex_ok en (st\<lparr>lx_chpt := s\<rparr>) = lex_ok en st"
  by (simp add: lex_ok_def)

lemma lex_string_total:
  assumes "lex_ok en st" and "length s < SBUF_SIZE"
  shows "\<exists>st' t. lex_string en st s = Ok (st', t) \<and> suffix (lx_chpt st') s \<and> vars_ok (lx_vars st')"
proof -
  obtain r rest where r: "str_loop [] (int SBUF_SIZE - 2) s = Ok (r, rest)" "suffix rest s"
    using str_loop_total [of "[]" s "int SBUF_SIZE - 2"] assms(2) by auto
  obtain m sm where rep: "represents (lx_vars st) m sm" using assms(1) by (auto simp: lex_ok_def vars_ok_def)
  have f: "fresh (le_cell en (lx_vars st)) (lx_vars st)" using assms(1) by (simp add: lex_ok_def)
  show ?thesis
  proof (cases r)
    case (Some buf)
    obtain vs p where "cexpStrLookup (takeWhile (\<lambda>c. c \<noteq> NUL) buf) True (le_cell en (lx_vars st)) (lx_vars st) = Ok (vs, p)"
      "vars_ok vs"
      using str_run [OF rep f, of "takeWhile (\<lambda>c. c \<noteq> NUL) buf"] unfolding vars_ok_def by blast
    then show ?thesis using r Some assms(1) by (auto simp: lex_string_def Let_def lex_ok_def)
  qed (use r assms(1) in \<open>auto simp: lex_string_def Let_def lex_ok_def\<close>)
qed

text \<open>C19: Scanning a line without character constants that fits the buffer always delivers a token, reads nothing
  behind the end of the line and writes nothing behind the buffer; unless the line is used up already, it gets
  shorter, so that the whole line is scanned after finitely many tokens. The tables of the modules, in
  whatever order, have as many named symbols as they say, the variables are well formed, and there is memory
  for a string constant, without which a null pointer is written through.\<close>

theorem scanner_total:
  assumes "lex_ok en st" and "length (lx_chpt st) < SBUF_SIZE - 1" and "CHR 0x27 \<notin> set (lx_chpt st)"
  shows "\<exists>st' t. yylex en st = Ok (st', t) \<and> suffix (lx_chpt st') (lx_chpt st) \<and>
    vars_ok (lx_vars st') \<and>
    (lx_chpt st \<noteq> [] \<longrightarrow> length (lx_chpt st') < length (lx_chpt st))"
proof (cases "dropWhile blank (lx_chpt st)")
  case Nil
  then have "yylex en st = Ok (st\<lparr>lx_chpt := []\<rparr>, Special CHR 0x0A)" unfolding yylex_def Let_def Nil by simp
  then show ?thesis using assms(1) by (simp add: lex_ok_def)
next
  case (Cons c cs)
  have rep: "vars_ok (lx_vars st)" using assms(1) by (simp add: lex_ok_def)
  have sf: "suffix (c # cs) (lx_chpt st)" using Cons by (metis suffix_dropWhile)
  then have len: "length (c # cs) < SBUF_SIZE - 1" using assms(2) suffix_length_le [OF sf] by simp
  then have len': "Suc (length cs) < SBUF_SIZE" by simp
  have q: "c \<noteq> CHR 0x27" using assms(3) set_mono_suffix [OF sf] by auto
  have found: ?thesis if f: "\<exists>st' t. yylex en st = Ok (st', t) \<and> suffix (lx_chpt st') cs \<and>
      vars_ok (lx_vars st')"
  proof -
    obtain st' t where y: "yylex en st = Ok (st', t)" "suffix (lx_chpt st') cs" "vars_ok (lx_vars st')" using f by blast
    have "length (lx_chpt st') \<le> length cs" by (rule suffix_length_le [OF y(2)])
    moreover have "length (c # cs) \<le> length (lx_chpt st)" by (rule suffix_length_le [OF sf])
    moreover have "suffix (lx_chpt st') (lx_chpt st)"
      using suffix_order.trans [OF suffix_ConsI [OF y(2)] sf] .
    ultimately show ?thesis using y by auto
  qed
  consider "isdigit c" | "\<not> isdigit c" "c = CHR ''.''" | "\<not> isdigit c" "c \<noteq> CHR ''.''" "isalpha c \<or> ISIDENTCHAR c"
    | "\<not> isdigit c" "c \<noteq> CHR ''.''" "\<not> (isalpha c \<or> ISIDENTCHAR c)" by blast
  then show ?thesis
  proof cases
    case 1
    then show ?thesis
      using found lex_number_total [of "c # cs" en] len rep Cons q by (auto simp: yylex_def Let_def)
  next
    case 2
    then show ?thesis
      using found scanfrac_total [of "c # cs" "[]" en "int (SBUF_SIZE - 1)" True] len' rep Cons q
      by (auto simp: yylex_def Let_def)
  next
    case 3
    obtain b l r where i: "ident_loop (SBUF_SIZE - 1) cs = (b, l, r)" by (metis prod_cases3)
    have "suffix r cs" by (rule ident_suffix [OF i])
    then show ?thesis
      using found 3 Cons q i assms(1) rep classify_total [of en "st\<lparr>lx_chpt := r\<rparr>" "c # b"]
      by (auto simp: yylex_def Let_def lex_ident_def)
  next
    case 4
    then show ?thesis
      using found Cons q rep lex_string_total [OF assms(1), of cs] len' op_suffix [of c cs]
      by (cases "lex_op c cs") (auto simp: yylex_def Let_def)
  qed
qed

definition ex_lex_mod :: lex_env where
  "ex_lex_mod = ex_lex\<lparr>le_mods := [(zero_mod 100)\<lparr>m_symtbl := zero_tbl\<lparr>st_nentries := 2,
     st_syms := Some [zero_sym\<lparr>sy_name := Some ''a''\<rparr>, zero_sym\<lparr>sy_name := Some ''x''\<rparr>, zero_sym]\<rparr>\<rparr>]\<rparr>"

lemma scanner_total_witness:
  "\<exists>st' t. yylex ex_lex_mod (ex_text ''x += 12'') = Ok (st', t) \<and> length (lx_chpt st') < 7"
proof -
  have "represents (vars_init 8 9) Map.empty Map.empty" by (rule vars_init_represents) simp_all
  then have "lex_ok ex_lex_mod (ex_text ''x += 12'')"
    by (auto simp: lex_ok_def vars_ok_def ex_lex_mod_def ex_lex_def ex_text_def fresh_def vars_init_def searchable_def syms_of_def
        zero_mod_def)
  then show ?thesis
    using scanner_total [of ex_lex_mod "ex_text ''x += 12''"] by (auto simp: ex_text_def SBUF_SIZE_def)
qed

section \<open>Beyond the line and the buffer\<close>

text \<open>A quote at the end of a line is read as a character constant that goes on behind it, and escapes are
  stored in the buffer without regard to its size.\<close>

lemma quote_at_end: "yylex en (st\<lparr>lx_chpt := [CHR 0x27]\<rparr>) = UB"
  by (simp add: yylex_def Let_def blank_def lex_char_def NUL_def)

lemma escapes_overflow:
  "SBUF_SIZE \<le> length buf + n \<Longrightarrow>
    str_loop buf limit (concat (replicate n [CHR 0x5C, CHR ''n'']) @ s) = UB"
proof (induction n arbitrary: buf limit)
  case 0
  then show ?case by (cases s) simp_all
next
  case (Suc n)
  then show ?case by (cases "length buf < SBUF_SIZE") (simp_all add: str_escape_def)
qed

end
