(* ===== verification/Spec2Isabelle.thy ===== *)
theory Spec2Isabelle imports LoadLinks Attributes ModuleSteps Typing Scanning begin

text \<open>
  Verification of Cexp, a C expression interpreter and object loader for RTEMS and other systems: the
  program reads lines in C syntax, calls functions and changes variables of the running system by their
  names, and loads relocatable ELF objects into it. File and function names below are those of the sources.

  \<^bold>\<open>The parts of the program and how they interact.\<close>
  \<^item> \<open>pmbfd\<close> is a library of its own. Its lower layer reads and writes ELF files over streams (a stdio stream
    or a memory buffer): headers, section and symbol tables, groups, relocations, object attributes. Its upper
    layer, \<open>bfd.c\<close>, emulates the part of the BFD library that a loader needs on top of it: sections with flags,
    symbols, relocations; \<open>bfd-reloc-*.c\<close> patch memory, one file for each CPU.
  \<^item> The loader (\<open>bfdstuff.c\<close>) turns an object file into a module: it lays out the segments (\<open>cexpsegs.c\<close>),
    resolves symbols against the modules that are loaded, relocates, and makes a symbol table (\<open>cexpsyms.c\<close>).
  \<^item> \<open>cexpmod.c\<close> keeps the list of modules, with the dependencies between them as bitmaps of module numbers
    (\<open>cexpmodP.h\<close>); it calls the loader, and constructors, destructors and finalizers of a module.
  \<^item> The interpreter: the scanner and the grammar (\<open>cexp.y\<close>) over values and addresses with types (\<open>ctyps.c\<close>),
    user variables (\<open>vars.c\<close>) and the symbols of the modules.

  \<^bold>\<open>The theories.\<close> Every record, datatype and function has the name it has in the source unless the name has
  another meaning in HOL; fields carry a prefix for their structure.
  \<^item> \<open>Prelude\<close>: machine integers, the results of C functions, words in memory. \<open>RelocMem\<close>: memory as a function
    of addresses, \<open>load_n\<close> and \<open>store_n\<close> for \<open>memcpy\<close>, and the contract of a relocation engine.
  \<^item> \<open>Swap\<close> (\<open>pmelfP.h\<close>): byte swapping. \<open>ElfStream\<close> (\<open>strm.c\<close>, \<open>fstrm.c\<close>, \<open>mstrm.c\<close>, \<open>putdat.c\<close>): streams and their
    two providers. \<open>ElfTypes\<close> (\<open>pmelf.h\<close>): structures and their images. \<open>ElfHeaders\<close> (\<open>getehdr.c\<close> and its
    siblings \<open>get*\<close>, \<open>put*\<close>): headers. \<open>ElfTables\<close> (\<open>getscn.c\<close>, \<open>getgrp.c\<close>, \<open>getrel.c\<close>, \<open>shtab.c\<close>, \<open>symtab.c\<close>,
    \<open>findsymhdrs.c\<close>, \<open>secname.c\<close>, \<open>symname.c\<close>): sections and tables. \<open>ElfFile\<close>: what the readers deliver for the
    bytes of a file, and round trips through the writers.
  \<^item> \<open>Attributes\<close> (\<open>attrP.h\<close>, \<open>guleb128.c\<close>, \<open>att*.c\<close>): object attributes and the test whether two objects match.
  \<^item> \<open>Bfd\<close> (\<open>bfd.c\<close>): the descriptor with its sections and symbols; \<open>BfdFile\<close>: what opening a file delivers.
  \<^item> \<open>Relocs\<close> (\<open>bfd-reloc-i386.c\<close>, \<open>-m68k.c\<close>, \<open>-powerpc.c\<close>, \<open>-sparc.c\<close>, \<open>-x86_64.c\<close>): the relocation engines.
  \<^item> \<open>Segs\<close> (\<open>cexpsegs*.c\<close>): segments. \<open>Bitmaps\<close> (\<open>cexpmodP.h\<close>): sets of module numbers. \<open>Syms\<close> (\<open>cexpsyms.c\<close>):
    symbol tables. \<open>Modules\<close> (\<open>cexpmod.c\<close>, \<open>help.c\<close>): modules; \<open>ModuleSteps\<close>: modules over time, as an inductive
    relation of loading and unloading with its invariant.
  \<^item> \<open>Ctyps\<close> (\<open>ctyps.h\<close>, \<open>ctyps.c\<close>, \<open>gentab.c\<close>): types and values. \<open>Vars\<close> (\<open>vars.c\<close>): user variables and strings on an
    explicit heap. \<open>Interp\<close> (\<open>cexp.y\<close>): the semantic actions; \<open>Evaluation\<close>, \<open>Typing\<close>: what they guarantee.
    \<open>Lexer\<close> (\<open>yylex\<close> in \<open>cexp.y\<close>): the scanner; \<open>Scanning\<close>: what it guarantees.
  \<^item> \<open>LoadSects\<close>, \<open>LoadSyms\<close>, \<open>Loader\<close> (\<open>bfdstuff.c\<close>): the passes over the sections, the symbols of an object, and
    \<open>cexpLoadFile\<close> with relocation. \<open>LoadFacts\<close>: the loader keeps the contract of \<open>cexpmod.c\<close>. \<open>LoadMem\<close>: which
    memory loading changes. \<open>LoadCommons\<close>: where new common symbols lie. \<open>LoadLinks\<close>: what undefined symbols
    refer to.

  \<^bold>\<open>Interfaces.\<close> Where a part relies on another only through a contract, the contract is a locale and the part
  that keeps it has the interpretation: \<open>byte_source\<close> (a provider of bytes; file, memory and stream),
  \<open>wire_struct\<close> (a structure, its swapping and its image; six structures), \<open>reloc_engine\<close> (five CPUs),
  \<open>segment_provider\<close> (two configurations), \<open>finite_map\<close> (the list of user variables), \<open>object_loader\<close> (what
  \<open>cexpmod.c\<close> needs of a loader; the symbol table built into the program, and the loader of object files).

  \<^bold>\<open>What the lemmas show.\<close> Each property stands after a text block that states it. The groups are:
  \<^item> Files: the header is accepted exactly when it is valid, and the tables delivered are functions of the bytes
    of the file, in its own byte order, on hosts of both byte orders and for both providers; nothing outside the
    file is delivered; what is written is read back.
  \<^item> Objects: opening a file makes a section for every header, with address, size, alignment and flags as given,
    groups as chains, and marks exactly the relocations that belong to a section; a symbol moves with its section.
  \<^item> Loading: sections get separate, aligned places in the blocks allocated for them, loading changes no other
    memory, an undefined symbol gets the value of the first module that has it, which is then recorded as needed,
    and common symbols do not overlap.
  \<^item> Relocations: the patched field means to the CPU what the type of the relocation says, and no byte outside
    the section changes.
  \<^item> Symbol tables: look-up by name is exact and independent of how \<open>qsort\<close> orders equals; look-up by address
    finds the closest symbol below.
  \<^item> Modules: names, numbers and handles stay distinct, a module records exactly who needs it, only modules
    nobody needs are unloaded, loading changes all or nothing, numbers are found when there are any.
  \<^item> Values: arithmetic, comparison, casts, assignment and calls in terms of the numbers the values stand for.
  \<^item> Interpreter: lines over symbols with proper types never fail an assertion and keep types proper; operands
    that C does not evaluate have no effect, as far as the code skips them; user variables implement a finite map; numbers scan to themselves.

  \<^bold>\<open>How C is modelled.\<close>
  \<^item> The result of a function that can fail is \<open>Ok\<close>, \<open>Fail\<close> with the error code, \<open>UB\<close> where the C language leaves the
    behaviour undefined (reads outside an object, shifts by the width, failed assertions of \<open>pmbfd\<close>), or \<open>Hang\<close>
    where a loop does not end. The interpreter has \<open>CUB\<close> and \<open>CAbort\<close> in the same roles.
  \<^item> Integers have their width and wrap around; where the code uses \<open>int\<close> for a number that cannot wrap, \<open>nat\<close> and
    \<open>int\<close> stand for it. The host has 64-bit \<open>long\<close>, pointers and \<open>size_t\<close> (the engines of 32-bit CPUs have the
    width of their CPU); its byte order is the parameter \<open>lsb\<close>, the signedness of \<open>char\<close> the parameter \<open>sc\<close>.
    For \<open>bfd.c\<close> the target is x86-64 and files of both classes are read (\<open>myarch\<close>).
  \<^item> The configuration is that of the build files: \<open>PMELF_CONFIG_ELF64SUPPORT\<close> on, swapping on, the checks under
    \<open>PARANOIA\<close> off; section table kept as one array.
  \<^item> An allocation may fail: the parameter \<open>mok\<close> (or the address 0) says which do. Memory that is freed is not
    reused in a model, except in \<open>Segs\<close> and \<open>Vars\<close>, which keep track of the blocks.
  \<^item> \<open>qsort\<close> is a parameter with the contract \<open>qsort_ok\<close>: a permutation of the array in the order of the comparison.
    Floating point arithmetic, regular expressions, the functions of a loaded module and the heap are parameters.
  \<^item> There is one thread; functions given as callbacks do not call back into the module that calls them.

  \<^bold>\<open>Bounds.\<close> Recursion is on the data or on a number the code itself counts: the section and symbol numbers of a
  file, the module numbers (256), the characters of a line. The walk over the sections of a \<open>bfd\<close> has \<open>maxsects\<close>
  as fuel, which the walk cannot exceed since it goes along the array. The search for a free module number goes
  once round the numbers. Where a source loop may not end (a chain with a cycle), the model says \<open>Hang\<close>.

  \<^bold>\<open>Not modelled.\<close> Formatted output (dump programs, printing of attributes, symbols and modules) has no result to
  reason about. Locks, \<open>mprotect\<close>, cache flushing and network glue belong to the operating system. The readers of
  symbol tables based on \<open>libelf\<close> and \<open>dlopen\<close> and the disassembler call libraries that are not in the repository;
  the generators \<open>gencore.c\<close> and \<open>xsyms.c\<close> are programs of the build. The parser tables are made by bison: the
  model begins with the tree of productions. The command line, help and line editing are input and output.
  Of the object loader the comparison of attributes, the cache of the processor, temporary copies of files and
  the obsolete handling of exception frames are left out.
\<close>

end
